(* ===== verification/Prelude.thy ===== *)
theory Prelude
  imports Main "HOL-Library.Word" "HOL-Library.Monad_Syntax"
begin

text \<open>
  Shared vocabulary of the development: the Rust integer types as words, the
  little-endian byte codecs, slice access and slice copies with Rust's panic
  behaviour written out, and the signed 32-bit arithmetic of the control code.

  Conventions used by every component theory:
  \<^item> \<open>u8\<close>, \<open>u16\<close>, \<open>u32\<close> are words, so \<open>+\<close>, \<open>-\<close> and \<open>*\<close> wrap, as the firmware images do
    (the board profiles switch the overflow checks off);
  \<^item> slice lengths and indices (\<open>usize\<close>) are \<open>nat\<close>; a slice operation that would panic
    yields \<open>None\<close> in the outer \<open>option\<close>;
  \<^item> an \<open>i32\<close> of the control code is an \<open>int\<close>, each plain operation under \<open>wrap32\<close>
    and each saturating one under \<open>sat32\<close>.
\<close>

unbundle bit_operations_syntax

type_synonym u8 = "8 word"
type_synonym u16 = "16 word"
type_synonym u32 = "32 word"
type_synonym u64 = "64 word"
type_synonym bytes = "8 word list"

named_theorems wire_defs \<open>definitions of the wire layer, unfolded by its round-trip proofs\<close>
named_theorems ctl_defs \<open>definitions of the fixed-point control blocks\<close>

section \<open>Little-endian codecs\<close>

definition to_le16 :: "u16 \<Rightarrow> bytes" where
  "to_le16 w = [ucast w, ucast (drop_bit 8 w)]"

definition from_le16 :: "u8 \<Rightarrow> u8 \<Rightarrow> u16" where
  "from_le16 a b = ucast a OR push_bit 8 (ucast b)"

definition to_le32 :: "u32 \<Rightarrow> bytes" where
  "to_le32 w = [ucast w, ucast (drop_bit 8 w), ucast (drop_bit 16 w), ucast (drop_bit 24 w)]"

definition from_le32 :: "u8 \<Rightarrow> u8 \<Rightarrow> u8 \<Rightarrow> u8 \<Rightarrow> u32" where
  "from_le32 a b c d =
     ucast a OR push_bit 8 (ucast b) OR push_bit 16 (ucast c) OR push_bit 24 (ucast d)"

lemma not_bit_u8 [simp]: "\<not> bit (w :: u8) (8 + n)"
  using bit_imp_le_length [of w "8 + n"] by auto

lemma not_bit_u8_ge: "8 \<le> n \<Longrightarrow> \<not> bit (w :: u8) n"
  using bit_imp_le_length [of w n] by auto

lemma not_bit_u16_ge: "16 \<le> n \<Longrightarrow> \<not> bit (w :: u16) n"
  using bit_imp_le_length [of w n] by auto

lemma length_to_le16 [simp]: "length (to_le16 w) = 2"
  by (simp add: to_le16_def)

lemma length_to_le32 [simp]: "length (to_le32 w) = 4"
  by (simp add: to_le32_def)

lemma from_to_le16 [simp]: "from_le16 (ucast w) (ucast (drop_bit 8 w)) = w"
  by (rule bit_word_eqI) (auto simp: from_le16_def bit_simps)

lemma to_from_le16 [simp]: "to_le16 (from_le16 a b) = [a, b]"
  by (auto simp: to_le16_def from_le16_def bit_simps intro!: bit_word_eqI)

lemma to_le16_nth [simp]:
  "to_le16 w ! 0 = ucast w" "to_le16 w ! Suc 0 = ucast (drop_bit 8 w)"
  by (simp_all add: to_le16_def)

section \<open>Slices\<close>

text \<open>\<open>slice.get(i)\<close>: \<open>None\<close> past the end.\<close>

definition nth_opt :: "'a list \<Rightarrow> nat \<Rightarrow> 'a option" where
  "nth_opt xs i = (if i < length xs then Some (xs ! i) else None)"

text \<open>\<open>slice.get(lo..hi)\<close>: \<open>None\<close> unless \<open>lo \<le> hi \<le> len\<close>.\<close>

definition get_range :: "'a list \<Rightarrow> nat \<Rightarrow> nat \<Rightarrow> 'a list option" where
  "get_range xs lo hi = (if lo \<le> hi \<and> hi \<le> length xs then Some (take (hi - lo) (drop lo xs)) else None)"

text \<open>\<open>dst[lo..hi].copy_from_slice(src)\<close>: \<open>None\<close> is the panic of a bad range or of
  a length mismatch.\<close>

definition copy_slice :: "'a list \<Rightarrow> nat \<Rightarrow> nat \<Rightarrow> 'a list \<Rightarrow> 'a list option" where
  "copy_slice dst lo hi src =
     (if lo \<le> hi \<and> hi \<le> length dst \<and> length src = hi - lo
      then Some (take lo dst @ src @ drop hi dst) else None)"

text \<open>\<open>dst[i] = v\<close>: \<open>None\<close> is the panic.\<close>

definition put_at :: "'a list \<Rightarrow> nat \<Rightarrow> 'a \<Rightarrow> 'a list option" where
  "put_at dst i v = (if i < length dst then Some (dst[i := v]) else None)"

lemma nth_opt_append:
  "nth_opt (xs @ ys) i = (if i < length xs then nth_opt xs i else nth_opt ys (i - length xs))"
  by (auto simp: nth_opt_def nth_append)

lemma nth_opt_Cons_0 [simp]: "nth_opt (x # xs) 0 = Some x"
  by (simp add: nth_opt_def)

lemma nth_opt_Cons_Suc [simp]: "nth_opt (x # xs) (Suc i) = nth_opt xs i"
  by (simp add: nth_opt_def)

lemma nth_opt_Nil [simp]: "nth_opt [] i = None"
  by (simp add: nth_opt_def)

lemma nth_opt_Some [simp]: "i < length xs \<Longrightarrow> nth_opt xs i = Some (xs ! i)"
  by (simp add: nth_opt_def)

lemma nth_opt_None [simp]: "nth_opt xs i = None \<longleftrightarrow> length xs \<le> i"
  by (auto simp: nth_opt_def)

lemma nth_opt_drop: "nth_opt (drop n xs) i = nth_opt xs (n + i)"
  by (auto simp: nth_opt_def)

lemma nth_opt_take: "nth_opt (take n xs) i = (if i < n then nth_opt xs i else None)"
  by (auto simp: nth_opt_def)

lemma length_copy_slice: "copy_slice dst lo hi src = Some d \<Longrightarrow> length d = length dst"
  by (auto simp: copy_slice_def split: if_splits)

lemma copy_slice_ok:
  "lo + length src = hi \<Longrightarrow> hi \<le> length dst \<Longrightarrow>
   copy_slice dst lo hi src = Some (take lo dst @ src @ drop hi dst)"
proof -
  assume h: "lo + length src = hi" "hi \<le> length dst"
  then have "lo \<le> hi \<and> hi \<le> length dst \<and> length src = hi - lo" by linarith
  then show ?thesis unfolding copy_slice_def by presburger
qed

lemma put_at_ok: "i < length dst \<Longrightarrow> put_at dst i v = Some (take i dst @ v # drop (Suc i) dst)"
  by (simp add: put_at_def upd_conv_take_nth_drop)

end
