(* ===== verification/Wire.thy ===== *)
theory Wire
  imports Prelude
begin

text \<open>
  The wire primitives of the osc-native protocol (\<open>osc-protocol/src/wire.rs\<close>): the frame
  ID, the baud rates, the packed INST byte and the span arithmetic; the model-number
  registry (\<open>models.rs\<close>) and the read-profile span words (\<open>table.rs\<close>).
  \<open>Id\<close> and \<open>Inst\<close> are transparent newtypes over \<open>u8\<close> and are modelled as \<open>u8\<close>.
\<close>

section \<open>Frame IDs\<close>

definition Id_BROADCAST :: u8 where
  "Id_BROADCAST = 0xFE"

definition Id_try_unicast :: "u8 \<Rightarrow> u8 option" where
  "Id_try_unicast b = (if 0x01 \<le> b \<and> b \<le> 0xF9 then Some b else None)"

definition Id_is_broadcast :: "u8 \<Rightarrow> bool" where
  "Id_is_broadcast i \<longleftrightarrow> i = 0xFE"

definition Id_is_unicast :: "u8 \<Rightarrow> bool" where
  "Id_is_unicast i \<longleftrightarrow> 0x01 \<le> i \<and> i \<le> 0xF9"

definition Id_is_valid :: "u8 \<Rightarrow> bool" where
  "Id_is_valid i \<longleftrightarrow> Id_is_unicast i \<or> Id_is_broadcast i"

definition Id_addresses :: "u8 \<Rightarrow> u8 \<Rightarrow> bool" where
  "Id_addresses self other \<longleftrightarrow> Id_is_broadcast self \<or> self = other"

section \<open>Baud rates\<close>

datatype BaudRate = B500000 | B1000000 | B2000000 | B3000000

definition BaudRate_RESCUE :: BaudRate where
  "BaudRate_RESCUE = B500000"

fun BaudRate_as_idx :: "BaudRate \<Rightarrow> u8" where
  "BaudRate_as_idx B500000 = 0"
| "BaudRate_as_idx B1000000 = 1"
| "BaudRate_as_idx B2000000 = 2"
| "BaudRate_as_idx B3000000 = 3"

fun BaudRate_as_hz :: "BaudRate \<Rightarrow> u32" where
  "BaudRate_as_hz B500000 = 500000"
| "BaudRate_as_hz B1000000 = 1000000"
| "BaudRate_as_hz B2000000 = 2000000"
| "BaudRate_as_hz B3000000 = 3000000"

definition BaudRate_from_idx :: "u8 \<Rightarrow> BaudRate option" where
  "BaudRate_from_idx idx =
     (if idx = 0 then Some B500000
      else if idx = 1 then Some B1000000
      else if idx = 2 then Some B2000000
      else if idx = 3 then Some B3000000
      else None)"

section \<open>Opcodes, result codes, MGMT sub-operations\<close>

datatype Opcode =
    Opcode_Ping | Opcode_Read | Opcode_Write | Opcode_Commit
  | Opcode_Gread | Opcode_Gwrite | Opcode_Mgmt

fun Opcode_u8 :: "Opcode \<Rightarrow> u8" where
  "Opcode_u8 Opcode_Ping = 1"
| "Opcode_u8 Opcode_Read = 2"
| "Opcode_u8 Opcode_Write = 3"
| "Opcode_u8 Opcode_Commit = 4"
| "Opcode_u8 Opcode_Gread = 5"
| "Opcode_u8 Opcode_Gwrite = 6"
| "Opcode_u8 Opcode_Mgmt = 7"

definition Opcode_from_bits :: "u8 \<Rightarrow> Opcode option" where
  "Opcode_from_bits b =
     (if b = 0x1 then Some Opcode_Ping
      else if b = 0x2 then Some Opcode_Read
      else if b = 0x3 then Some Opcode_Write
      else if b = 0x4 then Some Opcode_Commit
      else if b = 0x5 then Some Opcode_Gread
      else if b = 0x6 then Some Opcode_Gwrite
      else if b = 0x7 then Some Opcode_Mgmt
      else None)"

datatype ResultCode =
    ResultCode_Ok | ResultCode_Instruction | ResultCode_Range | ResultCode_Access
  | ResultCode_Validation | ResultCode_Busy | ResultCode_Limit
  | ResultCode_PredecessorSilent | ResultCode_Hardware

fun ResultCode_u8 :: "ResultCode \<Rightarrow> u8" where
  "ResultCode_u8 ResultCode_Ok = 0"
| "ResultCode_u8 ResultCode_Instruction = 1"
| "ResultCode_u8 ResultCode_Range = 2"
| "ResultCode_u8 ResultCode_Access = 3"
| "ResultCode_u8 ResultCode_Validation = 4"
| "ResultCode_u8 ResultCode_Busy = 5"
| "ResultCode_u8 ResultCode_Limit = 6"
| "ResultCode_u8 ResultCode_PredecessorSilent = 7"
| "ResultCode_u8 ResultCode_Hardware = 8"

definition ResultCode_from_bits :: "u8 \<Rightarrow> ResultCode option" where
  "ResultCode_from_bits b =
     (if b = 0 then Some ResultCode_Ok
      else if b = 1 then Some ResultCode_Instruction
      else if b = 2 then Some ResultCode_Range
      else if b = 3 then Some ResultCode_Access
      else if b = 4 then Some ResultCode_Validation
      else if b = 5 then Some ResultCode_Busy
      else if b = 6 then Some ResultCode_Limit
      else if b = 7 then Some ResultCode_PredecessorSilent
      else if b = 8 then Some ResultCode_Hardware
      else None)"

datatype MgmtOp =
  MgmtOp_Enum | MgmtOp_Assign | MgmtOp_Save | MgmtOp_Reboot | MgmtOp_Factory | MgmtOp_Cal

fun MgmtOp_u8 :: "MgmtOp \<Rightarrow> u8" where
  "MgmtOp_u8 MgmtOp_Enum = 1"
| "MgmtOp_u8 MgmtOp_Assign = 2"
| "MgmtOp_u8 MgmtOp_Save = 3"
| "MgmtOp_u8 MgmtOp_Reboot = 4"
| "MgmtOp_u8 MgmtOp_Factory = 5"
| "MgmtOp_u8 MgmtOp_Cal = 6"

definition MgmtOp_from_byte :: "u8 \<Rightarrow> MgmtOp option" where
  "MgmtOp_from_byte b =
     (if b = 0x01 then Some MgmtOp_Enum
      else if b = 0x02 then Some MgmtOp_Assign
      else if b = 0x03 then Some MgmtOp_Save
      else if b = 0x04 then Some MgmtOp_Reboot
      else if b = 0x05 then Some MgmtOp_Factory
      else if b = 0x06 then Some MgmtOp_Cal
      else None)"

section \<open>The packed INST byte\<close>

definition Inst_FLAG_HOLD :: u8 where "Inst_FLAG_HOLD = 1"
definition Inst_FLAG_PROFILE :: u8 where "Inst_FLAG_PROFILE = Inst_FLAG_HOLD"
definition Inst_FLAG_NOREPLY :: u8 where "Inst_FLAG_NOREPLY = push_bit 2 1"
definition Inst_FLAG_PER_TARGET :: u8 where "Inst_FLAG_PER_TARGET = push_bit 3 1"
definition Inst_STATUS_BIT :: u8 where "Inst_STATUS_BIT = 0x80"
definition Inst_ALERT_BIT :: u8 where "Inst_ALERT_BIT = 1"

definition Inst_instruction :: "Opcode \<Rightarrow> u8 \<Rightarrow> u8" where
  "Inst_instruction op flags = push_bit 4 (Opcode_u8 op) OR (flags AND 0x0F)"

definition Inst_status :: "ResultCode \<Rightarrow> bool \<Rightarrow> u8" where
  "Inst_status result alert =
     (let b = Inst_STATUS_BIT OR push_bit 2 (ResultCode_u8 result)
      in if alert then b OR Inst_ALERT_BIT else b)"

definition Inst_is_status :: "u8 \<Rightarrow> bool" where
  "Inst_is_status i \<longleftrightarrow> i AND Inst_STATUS_BIT \<noteq> 0"

definition Inst_opcode :: "u8 \<Rightarrow> Opcode option" where
  "Inst_opcode i =
     (if Inst_is_status i then None else Opcode_from_bits (drop_bit 4 i AND 0x07))"

definition Inst_hold :: "u8 \<Rightarrow> bool" where
  "Inst_hold i \<longleftrightarrow> i AND Inst_FLAG_HOLD \<noteq> 0"

definition Inst_profile :: "u8 \<Rightarrow> bool" where
  "Inst_profile i = Inst_hold i"

definition Inst_noreply :: "u8 \<Rightarrow> bool" where
  "Inst_noreply i \<longleftrightarrow> i AND Inst_FLAG_NOREPLY \<noteq> 0"

definition Inst_per_target :: "u8 \<Rightarrow> bool" where
  "Inst_per_target i \<longleftrightarrow> i AND Inst_FLAG_PER_TARGET \<noteq> 0"

definition Inst_result :: "u8 \<Rightarrow> ResultCode option" where
  "Inst_result i =
     (if \<not> Inst_is_status i then None else ResultCode_from_bits (drop_bit 2 i AND 0x1F))"

definition Inst_alert :: "u8 \<Rightarrow> bool" where
  "Inst_alert i \<longleftrightarrow> i AND Inst_ALERT_BIT \<noteq> 0"

section \<open>Span arithmetic\<close>

definition MAX_PAYLOAD :: u8 where "MAX_PAYLOAD = 252"
definition UID_LEN :: nat where "UID_LEN = 16"
definition ENUM_REPLY_SLOTS :: u8 where "ENUM_REPLY_SLOTS = 16"
definition STARVE_HORIZON_BYTE_TIMES :: u32 where "STARVE_HORIZON_BYTE_TIMES = 64"
definition ALIGN_BYTE :: u8 where "ALIGN_BYTE = 0x00"

definition len_for :: "u8 \<Rightarrow> u8" where
  "len_for p = 3 + p"

definition payload_len :: "u8 \<Rightarrow> u8" where
  "payload_len len = len - 3"

definition footprint :: "u8 \<Rightarrow> nat" where
  "footprint len = 3 + unat len"

definition covered_len :: "u8 \<Rightarrow> nat" where
  "covered_len len = 1 + unat len"

section \<open>Model numbers and profile span words\<close>

definition CLASS_SERVO :: u8 where "CLASS_SERVO = 0x01"

definition model_number :: "u8 \<Rightarrow> u8 \<Rightarrow> u16" where
  "model_number class model = push_bit 8 (ucast class) OR ucast model"

definition model_class :: "u16 \<Rightarrow> u8" where
  "model_class n = ucast (drop_bit 8 n)"

definition MODEL_OSC_SERVO :: u16 where
  "MODEL_OSC_SERVO = model_number CLASS_SERVO 0x01"

definition profile_span_word :: "u16 \<Rightarrow> u8 \<Rightarrow> u16" where
  "profile_span_word addr count = push_bit 6 addr OR (ucast count AND 0x3F)"

definition profile_span_split :: "u16 \<Rightarrow> u16 \<times> u8" where
  "profile_span_split word = (drop_bit 6 word, ucast (word AND 0x3F))"

definition PROFILE_START :: u16 where "PROFILE_START = 0x280"
definition PROFILE_END :: u16 where "PROFILE_END = 0x2C0"
definition PROFILE_SLOTS :: u8 where "PROFILE_SLOTS = 4"
definition PROFILE_SPANS_PER_SLOT :: nat where "PROFILE_SPANS_PER_SLOT = 8"

definition profile_slot_addr :: "u8 \<Rightarrow> u16" where
  "profile_slot_addr slot = PROFILE_START + ucast slot * (of_nat PROFILE_SPANS_PER_SLOT * 2)"

lemmas Inst_defs [wire_defs] =
  Inst_FLAG_HOLD_def Inst_FLAG_PROFILE_def Inst_FLAG_NOREPLY_def Inst_FLAG_PER_TARGET_def
  Inst_STATUS_BIT_def Inst_ALERT_BIT_def Inst_instruction_def Inst_status_def
  Inst_is_status_def Inst_opcode_def Inst_hold_def Inst_profile_def Inst_noreply_def
  Inst_per_target_def Inst_result_def Inst_alert_def

lemmas span_defs [wire_defs] =
  len_for_def payload_len_def footprint_def covered_len_def MAX_PAYLOAD_def

section \<open>Codes and their inverses\<close>

lemma Opcode_from_u8 [simp]: "Opcode_from_bits (Opcode_u8 op) = Some op"
  by (cases op) (simp_all add: Opcode_from_bits_def)

lemma Opcode_from_bits_Some:
  "Opcode_from_bits b = Some op \<longleftrightarrow> b = Opcode_u8 op"
  by (cases op) (auto simp: Opcode_from_bits_def split: if_splits)

lemma ResultCode_from_u8 [simp]: "ResultCode_from_bits (ResultCode_u8 r) = Some r"
  by (cases r) (simp_all add: ResultCode_from_bits_def)

lemma MgmtOp_from_u8 [simp]: "MgmtOp_from_byte (MgmtOp_u8 m) = Some m"
  by (cases m) (simp_all add: MgmtOp_from_byte_def)

lemma MgmtOp_from_byte_Some: "MgmtOp_from_byte b = Some m \<longleftrightarrow> b = MgmtOp_u8 m"
  by (cases m) (auto simp: MgmtOp_from_byte_def split: if_splits)

lemma MgmtOp_u8_inject: "MgmtOp_u8 a = MgmtOp_u8 b \<Longrightarrow> a = b"
  by (metis MgmtOp_from_u8 option.inject)

lemma BaudRate_from_as_idx [simp]: "BaudRate_from_idx (BaudRate_as_idx b) = Some b"
  by (cases b) (simp_all add: BaudRate_from_idx_def)

section \<open>Fields of the INST byte\<close>

lemma u8_and_eq_0_iff_bit: "(w :: u8) AND push_bit n 1 \<noteq> 0 \<longleftrightarrow> bit w n"
  by (simp add: bit_iff_and_push_bit_not_eq_0)

lemma Inst_is_status_bit: "Inst_is_status i \<longleftrightarrow> bit i 7"
  using u8_and_eq_0_iff_bit [of i 7] by (simp add: Inst_is_status_def Inst_STATUS_BIT_def)

lemma Inst_hold_bit: "Inst_hold i \<longleftrightarrow> bit i 0"
  using u8_and_eq_0_iff_bit [of i 0] by (simp add: Inst_hold_def Inst_FLAG_HOLD_def)

lemma Inst_noreply_bit: "Inst_noreply i \<longleftrightarrow> bit i 2"
  using u8_and_eq_0_iff_bit [of i 2] by (simp add: Inst_noreply_def Inst_FLAG_NOREPLY_def)

lemma Inst_per_target_bit: "Inst_per_target i \<longleftrightarrow> bit i 3"
  using u8_and_eq_0_iff_bit [of i 3] by (simp add: Inst_per_target_def Inst_FLAG_PER_TARGET_def)

lemma Inst_alert_bit: "Inst_alert i \<longleftrightarrow> bit i 0"
  using u8_and_eq_0_iff_bit [of i 0] by (simp add: Inst_alert_def Inst_ALERT_BIT_def)

lemmas Inst_bits = Inst_is_status_bit Inst_hold_bit Inst_noreply_bit Inst_per_target_bit Inst_alert_bit

lemma opcode_field:
  "drop_bit 4 (Inst_instruction op f) AND 0x07 = Opcode_u8 op"
  by (cases op) (auto simp: Inst_instruction_def bit_simps bit_numeral_simps intro!: bit_word_eqI)


lemma Inst_instruction_bit7: "\<not> bit (Inst_instruction op f) 7"
  by (cases op) (simp_all add: Inst_instruction_def bit_simps)

lemma Inst_instruction_flag_bits: "n < 4 \<Longrightarrow> bit (Inst_instruction op f) n = bit f n"
proof -
  assume "n < 4"
  then have "n = 0 \<or> n = 1 \<or> n = 2 \<or> n = 3" by arith
  then show ?thesis by (auto simp: Inst_instruction_def bit_simps)
qed

lemma result_field: "drop_bit 2 (Inst_status r al) AND 0x1F = ResultCode_u8 r"
  by (cases r; cases al) (simp_all add: Inst_status_def Inst_STATUS_BIT_def Inst_ALERT_BIT_def)

text \<open>A status byte built from any result code and alert flag is recognised as
  a status, yields back exactly that result code and flag, and is never read as an instruction.\<close>

lemma inst_status_roundtrip:
  "Inst_is_status (Inst_status r al) \<and> Inst_result (Inst_status r al) = Some r
   \<and> Inst_alert (Inst_status r al) = al \<and> Inst_opcode (Inst_status r al) = None"
proof -
  have s: "Inst_is_status (Inst_status r al)"
    by (cases r; cases al) (simp_all add: Inst_defs)
  have a: "Inst_alert (Inst_status r al) = al"
    by (cases r; cases al) (simp_all add: Inst_defs)
  from s a show ?thesis by (simp add: Inst_result_def Inst_opcode_def result_field)
qed

lemma inst_from_fields:
  assumes "\<not> bit i 7" "drop_bit 4 i AND 0x07 = Opcode_u8 op"
  shows "i = Inst_instruction op i"
proof -
  have "push_bit 4 (Opcode_u8 op) = push_bit 4 (drop_bit 4 i AND 0x07)" using assms(2) by simp
  moreover have "i = push_bit 4 (drop_bit 4 i AND 0x07) OR (i AND 0x0F)"
  proof (rule bit_word_eqI)
    fix n assume "n < LENGTH(8)"
    then have "n \<in> {0,1,2,3,4,5,6,7}" by auto
    with assms(1) show "bit i n = bit (push_bit 4 (drop_bit 4 i AND 0x07) OR (i AND 0x0F)) n"
      by (auto simp: bit_simps)
  qed
  ultimately show ?thesis by (simp add: Inst_instruction_def)
qed

text \<open>The decoder accepts a byte as an instruction with opcode \<open>op\<close> exactly when the encoder
  can produce that byte for \<open>op\<close>.\<close>

lemma inst_opcode_iff:
  "Inst_opcode i = Some op \<longleftrightarrow> (\<exists>flags. i = Inst_instruction op flags)"
proof
  assume "Inst_opcode i = Some op"
  then have "\<not> bit i 7" "drop_bit 4 i AND 0x07 = Opcode_u8 op"
    by (auto simp: Inst_opcode_def Inst_is_status_bit Opcode_from_bits_Some split: if_splits)
  then show "\<exists>flags. i = Inst_instruction op flags" using inst_from_fields by blast
next
  assume "\<exists>flags. i = Inst_instruction op flags"
  then show "Inst_opcode i = Some op"
    by (auto simp: Inst_opcode_def Inst_is_status_bit Inst_instruction_bit7 opcode_field)
qed

text \<open>For every legal payload length the LEN byte does not wrap, determines the payload
  length back, and the whole frame is at most 258 ring bytes.\<close>

lemma span_math:
  assumes "p \<le> MAX_PAYLOAD"
  shows "payload_len (len_for p) = p \<and> unat (len_for p) = 3 + unat p
    \<and> footprint (len_for p) = 6 + unat p \<and> covered_len (len_for p) = 4 + unat p
    \<and> footprint (len_for p) \<le> 258"
proof -
  have b: "unat p \<le> 252" using assms by (simp add: MAX_PAYLOAD_def word_le_nat_alt)
  then have "unat (3 + p) = 3 + unat p" by (simp add: unat_word_ariths)
  with b show ?thesis by (simp add: wire_defs)
qed


text \<open>A read-profile span word whose address fits 10 bits and count 6 bits splits
  back into the address and count it was packed from.\<close>

lemma profile_span_roundtrip:
  assumes "addr < 1024" "count < 64"
  shows "profile_span_split (profile_span_word addr count) = (addr, count)"
proof -
  have "take_bit 10 addr = addr" using assms(1) by (simp add: take_bit_eq_mod mod_word_less)
  then have a: "bit addr n \<Longrightarrow> n < 10" for n by (metis bit_take_bit_iff)
  have "take_bit 6 count = count" using assms(2) by (simp add: take_bit_eq_mod mod_word_less)
  then have c: "bit count n \<Longrightarrow> n < 6" for n by (metis bit_take_bit_iff)
  have m: "(0x3F :: u16) = mask 6" by (simp add: mask_numeral)
  show ?thesis unfolding profile_span_split_def profile_span_word_def m prod.inject
   by (auto simp: bit_simps intro!: bit_word_eqI dest: a c)
qed

lemma span_math_example:
  "payload_len (len_for 252) = 252 \<and> footprint (len_for 252) = 258"
  using span_math [where p = 252] by (simp add: MAX_PAYLOAD_def)

lemma profile_span_roundtrip_example:
  "profile_span_split (profile_span_word 0x208 63) = (0x208, 63)"
  using profile_span_roundtrip [of "0x208" 63] by simp

end
