(* ===== verification/Crc.thy ===== *)
theory Crc
  imports Wire
begin

text \<open>
  The osc-CRC-16 (CRC-16/ARC, \<open>osc-protocol/src/crc.rs\<close>): the bitwise update, the
  chunked accumulation that the hardware engine mirrors, and the bit reversal the chip
  provider applies to the SPI CRC register.

  The interface \<open>chunked\<close> states what every caller relies on when it feeds a frame in
  pieces (DMA arms, the header and the regions of a saved image, the odd tail byte).
\<close>

definition POLY_REFLECTED :: u16 where
  "POLY_REFLECTED = 0xA001"

definition crc_bit :: "u16 \<Rightarrow> u16" where
  "crc_bit crc =
     (if crc AND 1 \<noteq> 0 then drop_bit 1 crc XOR POLY_REFLECTED else drop_bit 1 crc)"

definition crc_update :: "u16 \<Rightarrow> u8 \<Rightarrow> u16" where
  "crc_update crc byte = (crc_bit ^^ 8) (crc XOR ucast byte)"

fun osc_crc_continue :: "u16 \<Rightarrow> bytes \<Rightarrow> u16" where
  "osc_crc_continue crc [] = crc"
| "osc_crc_continue crc (b # bs) = osc_crc_continue (crc_update crc b) bs"

definition osc_crc :: "bytes \<Rightarrow> u16" where
  "osc_crc covered = osc_crc_continue 0 covered"

definition swap_bytes16 :: "u16 \<Rightarrow> u16" where
  "swap_bytes16 w = push_bit 8 w OR drop_bit 8 w"

definition bitrev16 :: "u16 \<Rightarrow> u16" where
  "bitrev16 v =
     (let x = (ucast v :: u32);
          x = push_bit 1 (x AND 0x5555) OR (drop_bit 1 x AND 0x5555);
          x = push_bit 2 (x AND 0x3333) OR (drop_bit 2 x AND 0x3333);
          x = push_bit 4 (x AND 0x0f0f) OR (drop_bit 4 x AND 0x0f0f)
      in swap_bytes16 (ucast x))"

section \<open>Chunked feeds\<close>

locale chunked =
  fixes feed :: "'s \<Rightarrow> bytes \<Rightarrow> 's"
  assumes feed_Nil: "feed s [] = s"
    and feed_append: "feed s (xs @ ys) = feed (feed s xs) ys"
begin

lemma feed_concat: "feed s (concat cs) = foldl feed s cs"
  by (induction cs arbitrary: s) (simp_all add: feed_Nil feed_append)

lemma feed_split: "feed (feed s (take n xs)) (drop n xs) = feed s xs"
  by (metis append_take_drop_id feed_append)

lemma feed_tail_fold: "xs \<noteq> [] \<Longrightarrow> feed (feed s (butlast xs)) [last xs] = feed s xs"
  by (metis append_butlast_last_id feed_append)

end

lemma osc_crc_continue_append:
  "osc_crc_continue c (xs @ ys) = osc_crc_continue (osc_crc_continue c xs) ys"
  by (induction xs arbitrary: c) simp_all

interpretation osc: chunked osc_crc_continue
  by unfold_locales (simp_all add: osc_crc_continue_append)

section \<open>The update as a linear bijection\<close>

lemma crc_bit_alt: "crc_bit c = drop_bit 1 c XOR (if bit c 0 then POLY_REFLECTED else 0)"
  by (simp add: crc_bit_def and_one_eq odd_iff_mod_2_eq_one bit_0)

lemma crc_bit_xor: "crc_bit (a XOR b) = crc_bit a XOR crc_bit b"
  by (rule bit_word_eqI) (auto simp: crc_bit_alt bit_simps)

lemma u16_eq_0_by_shift: "\<not> bit (c :: u16) 0 \<Longrightarrow> drop_bit 1 c = 0 \<Longrightarrow> c = 0"
proof (rule bit_word_eqI)
  fix n assume c: "\<not> bit c 0" "drop_bit 1 c = 0"
  show "bit c n = bit 0 n"
  proof (cases n)
    case (Suc m)
    then have "bit c n = bit (drop_bit 1 c) m" by (simp add: bit_drop_bit_eq)
    with c(2) show ?thesis by simp
  qed (use c(1) in simp)
qed

lemma crc_bit_eq_0: "crc_bit c = 0 \<longleftrightarrow> c = 0"
proof
  assume z: "crc_bit c = 0"
  have nb: "\<not> bit (drop_bit 1 c) 15"
    by (simp add: bit_simps not_bit_u16_ge)
  have b0: "\<not> bit c 0"
  proof
    assume "bit c 0"
    then have "bit (crc_bit c) 15"
      using nb by (simp add: crc_bit_alt POLY_REFLECTED_def bit_xor_iff)
    with z show False by simp
  qed
  with z have "drop_bit 1 c = 0" by (simp add: crc_bit_alt)
  with b0 show "c = 0" by (rule u16_eq_0_by_shift)
qed (simp add: crc_bit_def)

lemma crc_bits_xor: "(crc_bit ^^ k) (a XOR b) = (crc_bit ^^ k) a XOR (crc_bit ^^ k) b"
  by (induction k) (simp_all add: crc_bit_xor)

lemma crc_bits_eq_0: "(crc_bit ^^ k) c = 0 \<longleftrightarrow> c = 0"
  by (induction k) (simp_all add: crc_bit_eq_0)

lemma xor_eq_0_u16: "(a :: u16) XOR b = 0 \<longleftrightarrow> a = b"
  by (metis xor.assoc xor.right_neutral xor_self_eq xor.left_neutral)

lemma crc_bits_inj: "(crc_bit ^^ k) a = (crc_bit ^^ k) b \<longleftrightarrow> a = b"
  using crc_bits_eq_0 [of k "a XOR b"] by (simp add: crc_bits_xor xor_eq_0_u16)

lemma xor_cancel_u16: "(a :: u16) XOR c = b XOR c \<longleftrightarrow> a = b"
  by (metis xor.assoc xor_self_eq xor.right_neutral)

lemma crc_update_inj: "crc_update a x = crc_update b x \<longleftrightarrow> a = b"
  by (simp only: crc_update_def crc_bits_inj xor_cancel_u16)

lemma osc_crc_continue_inj: "osc_crc_continue a bs = osc_crc_continue b bs \<longleftrightarrow> a = b"
  by (induction bs arbitrary: a b) (simp_all add: crc_update_inj)

section \<open>Error detection\<close>

lemma crc_bit_shift: "k < 8 \<Longrightarrow> crc_bit (push_bit (Suc k) (ucast (e :: u8))) = push_bit k (ucast e)"
proof -
  assume k: "k < 8"
  have "drop_bit 1 (push_bit (Suc k) (ucast e) :: u16) = push_bit k (ucast e)"
  proof (rule bit_word_eqI)
    fix n assume n: "n < LENGTH(16)"
    have "\<not> bit e (15 - k)" using k by (intro not_bit_u8_ge) simp
    with n k show "bit (drop_bit 1 (push_bit (Suc k) (ucast e) :: u16)) n = bit (push_bit k (ucast e) :: u16) n"
      by (cases "n = 15") (auto simp: bit_simps simp del: push_bit_Suc)
  qed
  then show ?thesis by (simp add: crc_bit_alt bit_simps del: push_bit_Suc)
qed

lemma crc_bits_shift: "k \<le> 8 \<Longrightarrow> (crc_bit ^^ k) (push_bit k (ucast (e :: u8))) = ucast e"
proof (induction k)
  case (Suc k)
  have "(crc_bit ^^ Suc k) (push_bit (Suc k) (ucast e)) = (crc_bit ^^ k) (crc_bit (push_bit (Suc k) (ucast e)))"
    by (simp add: funpow_swap1)
  with Suc show ?case by (simp only: crc_bit_shift)
qed simp

text \<open>A register that holds only a byte leaves a nonzero high byte after eight steps.\<close>

lemma crc_bits_byte:
  "(crc_bit ^^ 8) (ucast (d :: u8)) = ucast (e :: u8) \<longleftrightarrow> d = 0 \<and> e = 0"
proof
  assume "(crc_bit ^^ 8) (ucast d) = ucast e"
  then have "(crc_bit ^^ 8) (ucast d) = (crc_bit ^^ 8) (push_bit 8 (ucast e))"
    by (simp add: crc_bits_shift)
  then have eq: "(ucast d :: u16) = push_bit 8 (ucast e)" by (simp only: crc_bits_inj)
  have "bit d n = bit 0 n" if "n < 8" for n
    using arg_cong [OF eq, of "\<lambda>w. bit w n"] that by (simp add: bit_simps)
  then have "d = 0" by (intro bit_word_eqI) simp
  moreover have "bit e n = bit 0 n" if "n < 8" for n
    using arg_cong [OF eq, of "\<lambda>w. bit w (8 + n)"] that by (simp add: bit_simps)
  then have "e = 0" by (intro bit_word_eqI) simp
  ultimately show "d = 0 \<and> e = 0" by simp
qed (simp add: crc_bits_eq_0)

lemma crc_update_diff:
  "crc_update s x XOR crc_update s y = (crc_bit ^^ 8) (ucast (x XOR y))"
proof -
  have "(s XOR ucast x) XOR (s XOR ucast y) = (ucast (x XOR y) :: u16)"
    by (intro bit_word_eqI) (auto simp: bit_simps)
  then show ?thesis by (simp add: crc_update_def flip: crc_bits_xor)
qed

lemma crc_update2_eq:
  "crc_update (crc_update s x1) x2 = crc_update (crc_update s y1) y2 \<longleftrightarrow> x1 = y1 \<and> x2 = y2"
proof
  assume "crc_update (crc_update s x1) x2 = crc_update (crc_update s y1) y2"
  then have "crc_update s x1 XOR ucast x2 = crc_update s y1 XOR ucast y2"
    by (simp only: crc_update_def crc_bits_inj)
  then have "crc_update s x1 XOR crc_update s y1 = ucast (x2 XOR y2)"
    by (auto simp: bit_eq_iff bit_simps)
  then have "x1 XOR y1 = 0 \<and> x2 XOR y2 = 0"
    by (simp only: crc_update_diff crc_bits_byte)
  then show "x1 = y1 \<and> x2 = y2" by (auto simp: bit_eq_iff bit_simps)
qed simp

text \<open>Property C18: the CRC detects every corruption confined to two adjacent bytes, wherever they lie in the
  frame and whatever the register held before: the sums agree exactly when the bytes do.\<close>

theorem crc_burst_detected:
  "osc_crc_continue s (pre @ [x1, x2] @ post) = osc_crc_continue s (pre @ [y1, y2] @ post)
   \<longleftrightarrow> x1 = y1 \<and> x2 = y2"
  by (simp add: osc_crc_continue_append osc_crc_continue_inj crc_update2_eq)

text \<open>Feeding a frame in any sequence of chunks gives the one-shot CRC, so every way the
  transmitter and the receiver cut the covered span agrees.\<close>

lemma osc_crc_chunks: "foldl osc_crc_continue 0 cs = osc_crc (concat cs)"
  by (simp add: osc_crc_def osc.feed_concat)

lemma osc_crc_leading_zero [simp]: "osc_crc_continue 0 (replicate n 0 @ bs) = osc_crc_continue 0 bs"
proof (induction n)
  case (Suc n)
  then show ?case using crc_bits_eq_0 [of 8 0] by (simp add: crc_update_def)
qed simp

section \<open>Bit reversal\<close>

lemma bit_double_iff_word: "bit (ucast (v :: u16) * 2 :: u32) n \<longleftrightarrow> 0 < n \<and> n < 32 \<and> bit v (n - 1)"
  using bit_push_bit_iff [of 1 "ucast v :: u32" n] by (auto simp: bit_simps)

lemma bitrev16_bit: "n < 16 \<Longrightarrow> bit (bitrev16 v) n = bit v (15 - n)"
proof -
  assume "n < 16"
  then have "n \<in> {0, 1, 2, 3, 4, 5, 6, 7, 8, 9, 10, 11, 12, 13, 14, 15}"
    by (simp only: insert_iff empty_iff) presburger
  then show ?thesis
    by (elim insertE emptyE)
      (simp_all add: bitrev16_def swap_bytes16_def Let_def bit_simps not_bit_u16_ge bit_double_iff_word)
qed

lemma bitrev16_invol: "bitrev16 (bitrev16 v) = v"
  by (rule bit_word_eqI) (simp add: bitrev16_bit)

lemma crc_update_unfold:
  "crc_update crc byte = crc_bit (crc_bit (crc_bit (crc_bit (crc_bit (crc_bit (crc_bit (crc_bit
     (crc XOR ucast byte))))))))"
  by (simp add: crc_update_def eval_nat_numeral)

lemma crc_bit_0 [simp]: "crc_bit 0 = 0"
  by (simp add: crc_bit_def)

lemma crc_bit_1 [simp]: "crc_bit 1 = 0xA001"
  by (simp add: crc_bit_def POLY_REFLECTED_def)

lemma crc_bit_numeral_Bit0 [simp]: "crc_bit (numeral (num.Bit0 k)) = drop_bit 1 (numeral (num.Bit0 k))"
  by (simp add: crc_bit_alt bit_0)
 
lemma crc_bit_numeral_Bit1 [simp]: "crc_bit (numeral (num.Bit1 k)) = drop_bit 1 (numeral (num.Bit1 k)) XOR 0xA001"
  by (simp add: crc_bit_alt bit_0 POLY_REFLECTED_def)

lemma crc_check1: "crc_update 0 0x31 = 0xD4C1"
  apply (simp add: crc_update_unfold)
  done

lemma crc_check: "osc_crc [0x31,0x32,0x33,0x34,0x35,0x36,0x37,0x38,0x39] = 0xBB3D"
  by (simp add: osc_crc_def crc_update_unfold)
end
