(* ===== verification/Bytes.thy ===== *)
theory Bytes
  imports Crc
begin

text \<open>
  A frame's bytes as up to two segments (\<open>osc-protocol/src/bytes.rs\<close>): a frame that wraps the
  receive ring's seam arrives as head and tail.  Every parser of the protocol reads through
  this view, so the contract it relies on is stated once, as the interface \<open>byte_view\<close>: the
  accessors answer as if the logical bytes were one contiguous list.  The two-segment
  implementation is shown to provide it.
\<close>

record FrameBytes =
  fb_head :: bytes
  fb_tail :: bytes

definition FrameBytes_new :: "bytes \<Rightarrow> bytes \<Rightarrow> FrameBytes" where
  "FrameBytes_new h t = \<lparr>fb_head = h, fb_tail = t\<rparr>"

definition FrameBytes_len :: "FrameBytes \<Rightarrow> nat" where
  "FrameBytes_len f = length (fb_head f) + length (fb_tail f)"

definition FrameBytes_is_empty :: "FrameBytes \<Rightarrow> bool" where
  "FrameBytes_is_empty f \<longleftrightarrow> fb_head f = [] \<and> fb_tail f = []"

definition FrameBytes_u8_at :: "FrameBytes \<Rightarrow> nat \<Rightarrow> u8 option" where
  "FrameBytes_u8_at f i =
     (let hlen = length (fb_head f)
      in if i < hlen then nth_opt (fb_head f) i else nth_opt (fb_tail f) (i - hlen))"

definition FrameBytes_u16_le_at :: "FrameBytes \<Rightarrow> nat \<Rightarrow> u16 option" where
  "FrameBytes_u16_le_at f i =
     do { a \<leftarrow> FrameBytes_u8_at f i; b \<leftarrow> FrameBytes_u8_at f (i + 1); Some (from_le16 a b) }"

definition FrameBytes_sub :: "FrameBytes \<Rightarrow> nat \<Rightarrow> nat \<Rightarrow> FrameBytes option" where
  "FrameBytes_sub f start len =
     (let end = start + len; hlen = length (fb_head f)
      in if end > FrameBytes_len f then None
         else if start \<ge> hlen then
           do { t \<leftarrow> get_range (fb_tail f) (start - hlen) (start - hlen + len); Some (FrameBytes_new t []) }
         else if end \<le> hlen then
           do { h \<leftarrow> get_range (fb_head f) start end; Some (FrameBytes_new h []) }
         else
           do { h \<leftarrow> get_range (fb_head f) start (length (fb_head f));
                t \<leftarrow> get_range (fb_tail f) 0 (end - hlen);
                Some (FrameBytes_new h t) })"

definition FrameBytes_segments :: "FrameBytes \<Rightarrow> bytes \<times> bytes" where
  "FrameBytes_segments f = (fb_head f, fb_tail f)"

definition FrameBytes_bytes :: "FrameBytes \<Rightarrow> bytes" where
  "FrameBytes_bytes f = fb_head f @ fb_tail f"

definition FrameBytes_from :: "bytes \<Rightarrow> FrameBytes" where
  "FrameBytes_from bs = FrameBytes_new bs []"

definition FrameBytes_eq :: "FrameBytes \<Rightarrow> FrameBytes \<Rightarrow> bool" where
  "FrameBytes_eq f g \<longleftrightarrow>
     FrameBytes_len f = FrameBytes_len g \<and> FrameBytes_bytes f = FrameBytes_bytes g"

text \<open>\<open>copy_into\<close> returns the option and the destination as it leaves it; the head is
  already copied when the tail turns out not to fit.\<close>

definition FrameBytes_copy_into :: "FrameBytes \<Rightarrow> bytes \<Rightarrow> unit option \<times> bytes" where
  "FrameBytes_copy_into f dst =
     (let hlen = length (fb_head f); tlen = length (fb_tail f)
      in if hlen > length dst then (None, dst)
         else let d1 = drop hlen dst
              in if tlen > length d1 then (None, fb_head f @ d1)
                 else (Some (), fb_head f @ fb_tail f @ drop tlen d1))"

section \<open>The view interface\<close>

locale byte_view =
  fixes content :: "'v \<Rightarrow> bytes"
    and size_of :: "'v \<Rightarrow> nat"
    and at :: "'v \<Rightarrow> nat \<Rightarrow> u8 option"
    and slice :: "'v \<Rightarrow> nat \<Rightarrow> nat \<Rightarrow> 'v option"
  assumes size_of: "size_of v = length (content v)"
    and at: "at v i = nth_opt (content v) i"
    and slice: "map_option content (slice v s n) = get_range (content v) s (s + n)"
begin

lemma slice_Some_iff: "(\<exists>w. slice v s n = Some w) \<longleftrightarrow> s + n \<le> size_of v"
proof -
  have "(\<exists>w. slice v s n = Some w) \<longleftrightarrow> map_option content (slice v s n) \<noteq> None" by auto
  then show ?thesis by (simp add: slice get_range_def size_of)
qed

lemma content_slice: "slice v s n = Some w \<Longrightarrow> content w = take n (drop s (content v)) \<and> s + n \<le> length (content v)"
  using slice [of v s n] by (simp add: get_range_def split: if_splits)

lemma size_slice: "slice v s n = Some w \<Longrightarrow> size_of w = n"
  using content_slice [of v s n w] by (auto simp: size_of min_def)

lemma at_slice: "slice v s n = Some w \<Longrightarrow> i < n \<Longrightarrow> at w i = at v (s + i)"
  using content_slice [of v s n w] by (simp add: at nth_opt_take nth_opt_drop)

lemma slice_slice:
  assumes "slice v s n = Some w" "slice w s' n' = Some x"
  shows "content x = take n' (drop (s + s') (content v))"
proof -
  from assms have c: "content w = take n (drop s (content v))" "content x = take n' (drop s' (content w))"
    "s' + n' \<le> length (content w)" by (auto dest: content_slice)
  then have "n' \<le> n - s'" by auto
  with c(1,2) show ?thesis by (simp only: drop_take drop_drop take_take min_absorb1 add.commute)
qed

lemma same_content:
  assumes "content v = content w"
  shows "size_of v = size_of w \<and> at v i = at w i
    \<and> map_option content (slice v s n) = map_option content (slice w s n)"
  using assms by (simp add: size_of at slice)

end

lemma FrameBytes_bytes_new [simp]: "FrameBytes_bytes (FrameBytes_new h t) = h @ t"
  by (simp add: FrameBytes_bytes_def FrameBytes_new_def)

lemma FrameBytes_len_bytes: "FrameBytes_len f = length (FrameBytes_bytes f)"
  by (simp add: FrameBytes_len_def FrameBytes_bytes_def)

lemma FrameBytes_u8_at_bytes: "FrameBytes_u8_at f i = nth_opt (FrameBytes_bytes f) i"
  by (simp add: FrameBytes_u8_at_def FrameBytes_bytes_def Let_def nth_opt_append)

lemmas sub_defs = FrameBytes_sub_def FrameBytes_len_def FrameBytes_bytes_def FrameBytes_new_def
  get_range_def Let_def

lemma sub_in_tail:
  "n + k \<le> length t \<Longrightarrow>
   map_option FrameBytes_bytes (FrameBytes_sub \<lparr>fb_head = h, fb_tail = t\<rparr> (length h + k) n)
     = get_range (h @ t) (length h + k) (length h + k + n)"
  by (simp add: sub_defs)

lemma sub_over_seam:
  "length h = s + m \<Longrightarrow> 0 < m \<Longrightarrow> 0 < k \<Longrightarrow> k \<le> length t \<Longrightarrow>
   map_option FrameBytes_bytes (FrameBytes_sub \<lparr>fb_head = h, fb_tail = t\<rparr> s (m + k))
     = get_range (h @ t) s (s + (m + k))"
  by (simp add: sub_defs)

lemma FrameBytes_sub_bytes:
  "map_option FrameBytes_bytes (FrameBytes_sub f s n) = get_range (FrameBytes_bytes f) s (s + n)"
proof -
  obtain h t where f: "f = \<lparr>fb_head = h, fb_tail = t\<rparr>" by (cases f)
  consider (out) "length h + length t < s + n"
    | (tail) "s + n \<le> length h + length t" "length h \<le> s"
    | (head) "s + n \<le> length h + length t" "s < length h" "s + n \<le> length h"
    | (seam) "s + n \<le> length h + length t" "s < length h" "length h < s + n"
    by linarith
  then show ?thesis
  proof cases
    case tail
    then obtain k where "s = length h + k" by (auto simp: le_iff_add)
    with tail show ?thesis
      using sub_in_tail [of n k t h] by (simp add: f FrameBytes_bytes_def)
  next
    case seam
    then obtain m where m: "length h = s + m" "0 < m" by (auto simp: less_iff_Suc_add)
    with seam obtain k where "n = m + k" "0 < k" by (auto simp: less_iff_Suc_add)
    with m seam show ?thesis
      using sub_over_seam [of h s m k t] by (simp add: f FrameBytes_bytes_def)
  qed (simp_all add: f sub_defs)
qed

interpretation fb: byte_view FrameBytes_bytes FrameBytes_len FrameBytes_u8_at FrameBytes_sub
  by unfold_locales (simp_all add: FrameBytes_len_bytes FrameBytes_u8_at_bytes FrameBytes_sub_bytes)

lemma FrameBytes_u16_le_at_bytes:
  "FrameBytes_u16_le_at f i = do { a \<leftarrow> nth_opt (FrameBytes_bytes f) i; b \<leftarrow> nth_opt (FrameBytes_bytes f) (i + 1); Some (from_le16 a b) }"
  by (simp add: FrameBytes_u16_le_at_def FrameBytes_u8_at_bytes)

lemmas fb_bytes = FrameBytes_len_bytes FrameBytes_u8_at_bytes FrameBytes_u16_le_at_bytes



lemma FrameBytes_copy_into_ok:
  assumes "FrameBytes_len f \<le> length dst"
  shows "FrameBytes_copy_into f dst = (Some (), FrameBytes_bytes f @ drop (FrameBytes_len f) dst)"
proof -
  have "\<not> length dst < length (fb_head f)"
    "\<not> length (drop (length (fb_head f)) dst) < length (fb_tail f)"
    using assms by (auto simp: FrameBytes_len_def)
  then show ?thesis
    by (simp add: FrameBytes_copy_into_def FrameBytes_bytes_def FrameBytes_len_def Let_def add.commute)
qed

text \<open>The destination of a refused copy is not always left alone: when the head fits and
  the tail does not, the head has been written.\<close>

lemma FrameBytes_copy_into_partial:
  "FrameBytes_copy_into (FrameBytes_new [7] [8]) [0] = (None, [7])"
  by (simp add: FrameBytes_copy_into_def FrameBytes_new_def)

end
