(* ===== verification/Frames.thy ===== *)
theory Frames
  imports Bytes
begin

text \<open>
  The frame header and the request parsers (\<open>osc-protocol/src/frame.rs\<close>).  A parser returns
  \<open>None\<close> on a malformed payload; each is characterised as the exact inverse of the byte
  layout of its request, independently of where the ring seam falls.
\<close>

section \<open>Header\<close>

datatype FrameError = ShortLen | BadId | BadOpcode

record Header =
  hdr_brk :: u8
  hdr_id :: u8
  hdr_len :: u8
  hdr_inst :: u8

fun Header_from_bytes :: "bytes \<Rightarrow> Header option" where
  "Header_from_bytes [b0, b1, b2, b3] =
     Some \<lparr>hdr_brk = b0, hdr_id = b1, hdr_len = b2, hdr_inst = b3\<rparr>"
| "Header_from_bytes _ = None"

definition Header_validate :: "Header \<Rightarrow> FrameError + unit" where
  "Header_validate h =
     (if hdr_len h < 3 then Inl ShortLen
      else if \<not> Id_is_valid (hdr_id h) then Inl BadId
      else if \<not> Inst_is_status (hdr_inst h) \<and> Inst_opcode (hdr_inst h) = None then Inl BadOpcode
      else Inr ())"

definition Header_frame_end :: "Header \<Rightarrow> nat" where
  "Header_frame_end h = footprint (hdr_len h)"

definition Header_covered_len :: "Header \<Rightarrow> nat" where
  "Header_covered_len h = covered_len (hdr_len h)"

definition Header_payload_len :: "Header \<Rightarrow> u8" where
  "Header_payload_len h = payload_len (hdr_len h)"

section \<open>Requests\<close>

record ReadReq =
  ReadReq_addr :: u16
  ReadReq_count :: u16

definition ReadReq_parse :: "FrameBytes \<Rightarrow> ReadReq option" where
  "ReadReq_parse payload =
     (if FrameBytes_len payload \<noteq> 4 then None
      else do { addr \<leftarrow> FrameBytes_u16_le_at payload 0;
                count \<leftarrow> FrameBytes_u16_le_at payload 2;
                Some \<lparr>ReadReq_addr = addr, ReadReq_count = count\<rparr> })"

record ProfileReq =
  ProfileReq_slot :: u8

definition ProfileReq_parse :: "FrameBytes \<Rightarrow> ProfileReq option" where
  "ProfileReq_parse payload =
     (if FrameBytes_len payload \<noteq> 1 then None
      else do { slot \<leftarrow> FrameBytes_u8_at payload 0; Some \<lparr>ProfileReq_slot = slot\<rparr> })"

record WriteReq =
  WriteReq_addr :: u16
  WriteReq_data :: FrameBytes

definition checked_sub :: "nat \<Rightarrow> nat \<Rightarrow> nat option" where
  "checked_sub a b = (if b \<le> a then Some (a - b) else None)"

definition WriteReq_parse :: "FrameBytes \<Rightarrow> WriteReq option" where
  "WriteReq_parse payload =
     do { addr \<leftarrow> FrameBytes_u16_le_at payload 0;
          n \<leftarrow> checked_sub (FrameBytes_len payload) 2;
          data \<leftarrow> FrameBytes_sub payload 2 n;
          Some \<lparr>WriteReq_addr = addr, WriteReq_data = data\<rparr> }"

record MgmtReq =
  MgmtReq_op :: MgmtOp
  MgmtReq_args :: FrameBytes

definition MgmtReq_parse :: "FrameBytes \<Rightarrow> MgmtReq option" where
  "MgmtReq_parse payload =
     do { b \<leftarrow> FrameBytes_u8_at payload 0;
          m \<leftarrow> MgmtOp_from_byte b;
          n \<leftarrow> checked_sub (FrameBytes_len payload) 1;
          args \<leftarrow> FrameBytes_sub payload 1 n;
          Some \<lparr>MgmtReq_op = m, MgmtReq_args = args\<rparr> }"

record EnumReq =
  EnumReq_prefix_len :: u8
  EnumReq_prefix :: bytes

definition MAX_PREFIX_BITS :: u8 where
  "MAX_PREFIX_BITS = of_nat (UID_LEN * 8)"

definition u8_div_ceil :: "u8 \<Rightarrow> u8 \<Rightarrow> u8" where
  "u8_div_ceil a b = (let d = a div b; r = a mod b in if r > 0 then d + 1 else d)"

definition EnumReq_parse :: "FrameBytes \<Rightarrow> EnumReq option" where
  "EnumReq_parse args =
     do { prefix_len \<leftarrow> FrameBytes_u8_at args 0;
          if prefix_len > MAX_PREFIX_BITS then None
          else let n = unat (u8_div_ceil prefix_len 8)
               in if FrameBytes_len args \<noteq> 1 + n then None
                  else do { s \<leftarrow> FrameBytes_sub args 1 n;
                            let prefix = replicate UID_LEN 0;
                                (r, d) = FrameBytes_copy_into s (take n prefix)
                            in do { _ \<leftarrow> r;
                                    Some \<lparr>EnumReq_prefix_len = prefix_len,
                                          EnumReq_prefix = d @ drop n prefix\<rparr> } } }"

text \<open>The slices \<open>uid[..full]\<close> and \<open>uid[full]\<close> panic past byte 16: \<open>None\<close>.\<close>

definition uid_prefix_matches :: "bytes \<Rightarrow> u8 \<Rightarrow> bytes \<Rightarrow> bool option" where
  "uid_prefix_matches uid prefix_len prefix =
     (let full = unat (prefix_len div 8); rem = prefix_len mod 8
      in do { u \<leftarrow> get_range uid 0 full;
              p \<leftarrow> get_range prefix 0 full;
              if u \<noteq> p then Some False
              else if rem = 0 then Some True
              else do { a \<leftarrow> nth_opt uid full;
                        b \<leftarrow> nth_opt prefix full;
                        Some ((a XOR b) AND (push_bit (unat rem) 1 - 1) = 0) } })"

record AssignReq =
  AssignReq_uid :: bytes
  AssignReq_new_id :: u8

definition AssignReq_parse :: "FrameBytes \<Rightarrow> AssignReq option" where
  "AssignReq_parse args =
     (if FrameBytes_len args \<noteq> UID_LEN + 1 then None
      else do { s \<leftarrow> FrameBytes_sub args 0 UID_LEN;
                let (r, uid) = FrameBytes_copy_into s (replicate UID_LEN 0)
                in do { _ \<leftarrow> r;
                        new_id \<leftarrow> FrameBytes_u8_at args UID_LEN;
                        Some \<lparr>AssignReq_uid = uid, AssignReq_new_id = new_id\<rparr> } })"

record CalReq =
  CalReq_gap_us :: u16
  CalReq_gaps :: u8

definition CalReq_parse :: "FrameBytes \<Rightarrow> CalReq option" where
  "CalReq_parse args =
     (if FrameBytes_len args \<noteq> 3 then None
      else do { gap_us \<leftarrow> FrameBytes_u16_le_at args 0;
                gaps \<leftarrow> FrameBytes_u8_at args 2;
                if gap_us = 0 \<or> gaps = 0 then None
                else Some \<lparr>CalReq_gap_us = gap_us, CalReq_gaps = gaps\<rparr> })"

section \<open>Reading through the view\<close>

lemma u16_at_pre:
  "FrameBytes_bytes f = xs @ to_le16 w @ ys \<Longrightarrow> FrameBytes_u16_le_at f (length xs) = Some w"
  by (simp add: FrameBytes_u16_le_at_bytes nth_opt_append to_le16_def)

lemma length_4_le16:
  "length xs = 4 \<Longrightarrow> \<exists>a b. xs = to_le16 a @ to_le16 b"
proof -
  assume "length xs = 4"
  then obtain p q r s where "xs = [p, q, r, s]"
    by (auto simp: length_Suc_conv eval_nat_numeral)
  then have "xs = to_le16 (from_le16 p q) @ to_le16 (from_le16 r s)" by simp
  then show ?thesis by blast
qed

lemma length_ge2_le16: "2 \<le> length xs \<Longrightarrow> \<exists>a ys. xs = to_le16 a @ ys"
proof -
  assume "2 \<le> length xs"
  then obtain p q ys where "xs = p # q # ys"
    by (cases xs; cases "tl xs") auto
  then have "xs = to_le16 (from_le16 p q) @ ys" by simp
  then show ?thesis by blast
qed

lemma to_le16_inject [simp]: "to_le16 a = to_le16 b \<longleftrightarrow> a = b"
  by (metis from_to_le16 to_le16_nth)

lemma sub_bytes:
  assumes "s + n \<le> length (FrameBytes_bytes f)"
  shows "\<exists>g. FrameBytes_sub f s n = Some g \<and> FrameBytes_bytes g = take n (drop s (FrameBytes_bytes f))"
proof -
  have "\<exists>g. FrameBytes_sub f s n = Some g"
    using assms by (simp only: fb.slice_Some_iff FrameBytes_len_bytes)
  then obtain g where "FrameBytes_sub f s n = Some g" by (elim exE)
  then show ?thesis using fb.content_slice [of f s n g] by (intro exI [of _ g]) simp
qed

lemma sub_tail_bytes:
  assumes "n + k = FrameBytes_len f"
  shows "\<exists>g. FrameBytes_sub f k n = Some g \<and> FrameBytes_bytes g = drop k (FrameBytes_bytes f)"
proof -
  have "k + n \<le> length (FrameBytes_bytes f)" "n = length (drop k (FrameBytes_bytes f))"
    using assms by (auto simp: FrameBytes_len_bytes)
  then show ?thesis using sub_bytes [of k n f] by (metis order_refl take_all_iff)
qed

text \<open>A READ request is accepted exactly on its four-byte layout, and yields the address and
  count that layout encodes.\<close>

lemma ReadReq_parse_iff:
  "ReadReq_parse f = Some r \<longleftrightarrow>
     FrameBytes_bytes f = to_le16 (ReadReq_addr r) @ to_le16 (ReadReq_count r)"
proof
  assume p: "ReadReq_parse f = Some r"
  then have "length (FrameBytes_bytes f) = 4"
    by (simp add: ReadReq_parse_def FrameBytes_len_bytes split: if_splits)
  then obtain a b where f: "FrameBytes_bytes f = to_le16 a @ to_le16 b" using length_4_le16 by blast
  with p show "FrameBytes_bytes f = to_le16 (ReadReq_addr r) @ to_le16 (ReadReq_count r)"
    using u16_at_pre [of f "[]" a] u16_at_pre [of f "to_le16 a" b "[]"]
    by (auto simp: ReadReq_parse_def FrameBytes_len_bytes)
next
  assume f: "FrameBytes_bytes f = to_le16 (ReadReq_addr r) @ to_le16 (ReadReq_count r)"
  then show "ReadReq_parse f = Some r"
    using u16_at_pre [of f "[]" "ReadReq_addr r"]
      u16_at_pre [of f "to_le16 (ReadReq_addr r)" "ReadReq_count r" "[]"]
    by (simp add: ReadReq_parse_def FrameBytes_len_bytes)
qed

lemma ProfileReq_parse_iff:
  "ProfileReq_parse f = Some r \<longleftrightarrow> FrameBytes_bytes f = [ProfileReq_slot r]"
  by (cases r) (auto simp: ProfileReq_parse_def fb_bytes length_Suc_conv)

text \<open>A WRITE request is accepted exactly when the payload is an address followed by
  the data the request carries.\<close>

lemma WriteReq_parse_iff:
  "(\<exists>r. WriteReq_parse f = Some r \<and> WriteReq_addr r = a \<and> FrameBytes_bytes (WriteReq_data r) = d)
   \<longleftrightarrow> FrameBytes_bytes f = to_le16 a @ d"
proof
  assume "\<exists>r. WriteReq_parse f = Some r \<and> WriteReq_addr r = a \<and> FrameBytes_bytes (WriteReq_data r) = d"
  then obtain r where r: "WriteReq_parse f = Some r" "WriteReq_addr r = a" "FrameBytes_bytes (WriteReq_data r) = d"
    by blast
  then have "2 \<le> length (FrameBytes_bytes f)"
    by (auto simp: WriteReq_parse_def checked_sub_def FrameBytes_len_bytes bind_eq_Some_conv split: if_splits)
  then obtain b ys where f: "FrameBytes_bytes f = to_le16 b @ ys" using length_ge2_le16 by blast
  obtain g where "FrameBytes_sub f 2 (length ys) = Some g" "FrameBytes_bytes g = ys"
    using sub_tail_bytes [of "length ys" 2 f] f by (auto simp: FrameBytes_len_bytes)
  with r f show "FrameBytes_bytes f = to_le16 a @ d"
    using u16_at_pre [of f "[]" b ys]
    by (auto simp: WriteReq_parse_def checked_sub_def FrameBytes_len_bytes)
next
  assume f: "FrameBytes_bytes f = to_le16 a @ d"
  obtain g where "FrameBytes_sub f 2 (length d) = Some g" "FrameBytes_bytes g = d"
    using sub_tail_bytes [of "length d" 2 f] f by (auto simp: FrameBytes_len_bytes)
  with f show "\<exists>r. WriteReq_parse f = Some r \<and> WriteReq_addr r = a \<and> FrameBytes_bytes (WriteReq_data r) = d"
    using u16_at_pre [of f "[]" a d]
    by (auto simp: WriteReq_parse_def checked_sub_def FrameBytes_len_bytes)
qed

lemma MgmtReq_parse_iff:
  "(\<exists>r. MgmtReq_parse f = Some r \<and> MgmtReq_op r = m \<and> FrameBytes_bytes (MgmtReq_args r) = d)
   \<longleftrightarrow> FrameBytes_bytes f = MgmtOp_u8 m # d"
proof (cases "FrameBytes_bytes f")
  case Nil
  then show ?thesis by (simp add: MgmtReq_parse_def fb_bytes)
next
  case (Cons b ys)
  obtain g where "FrameBytes_sub f 1 (length ys) = Some g" "FrameBytes_bytes g = ys"
    using sub_tail_bytes [of "length ys" 1 f] Cons by (auto simp: FrameBytes_len_bytes)
  with Cons show ?thesis
    by (cases "MgmtOp_from_byte b")
      (auto simp: MgmtReq_parse_def checked_sub_def fb_bytes MgmtOp_from_byte_Some dest: MgmtOp_u8_inject)
qed

lemma copy_into_exact:
  "FrameBytes_len f = length dst \<Longrightarrow> FrameBytes_copy_into f dst = (Some (), FrameBytes_bytes f)"
  by (simp add: FrameBytes_copy_into_ok)

lemma AssignReq_parse_iff:
  "AssignReq_parse f = Some r \<longleftrightarrow>
     length (AssignReq_uid r) = 16 \<and> FrameBytes_bytes f = AssignReq_uid r @ [AssignReq_new_id r]"
proof (cases "length (FrameBytes_bytes f) = 17")
  case False
  then show ?thesis by (auto simp: AssignReq_parse_def UID_LEN_def FrameBytes_len_bytes)
next
  case True
  then obtain u n where f: "FrameBytes_bytes f = u @ [n]" "length u = 16"
    by (metis add_diff_cancel_right' append_butlast_last_id length_butlast list.size(3) numeral_plus_one semiring_norm(5) zero_neq_numeral)
  obtain g where g: "FrameBytes_sub f 0 16 = Some g" "FrameBytes_bytes g = u"
    using sub_bytes [of 0 16 f] f by auto
  then have "FrameBytes_copy_into g (replicate 16 0) = (Some (), u)"
    using f by (simp add: copy_into_exact FrameBytes_len_bytes)
  with f g show ?thesis
    by (cases r) (auto simp: AssignReq_parse_def UID_LEN_def fb_bytes nth_opt_append)
qed

lemma CalReq_parse_iff:
  "CalReq_parse f = Some r \<longleftrightarrow>
     FrameBytes_bytes f = to_le16 (CalReq_gap_us r) @ [CalReq_gaps r] \<and> CalReq_gap_us r \<noteq> 0 \<and> CalReq_gaps r \<noteq> 0"
proof (cases "length (FrameBytes_bytes f) = 3")
  case False
  then show ?thesis by (auto simp: CalReq_parse_def FrameBytes_len_bytes)
next
  case True
  then obtain p q n where "FrameBytes_bytes f = [p, q, n]"
    by (auto simp: length_Suc_conv eval_nat_numeral)
  then have f: "FrameBytes_bytes f = to_le16 (from_le16 p q) @ [n]" by simp
  then show ?thesis
    using u16_at_pre [of f "[]" "from_le16 p q" "[n]"]
    by (cases r) (auto simp: CalReq_parse_def FrameBytes_len_bytes FrameBytes_u8_at_bytes nth_opt_append simp del: to_from_le16)
qed

section \<open>ENUM prefixes\<close>

lemma div_ceil_8_nat: "((x::nat) + 7) div 8 = (if x mod 8 = 0 then x div 8 else x div 8 + 1)"
  by presburger

lemma unat_div_ceil_8: "unat (u8_div_ceil p 8) = (unat p + 7) div 8"
proof -
  have "unat p < 256" using unsigned_less [of p] by simp
  then have "unat p div 8 + 1 < 256" by linarith
  then have d: "unat (p div 8 + 1) = unat p div 8 + 1" by (simp add: unat_word_ariths unat_div)
  have m: "(0 < p mod 8) = (unat p mod 8 \<noteq> 0)" by (simp add: word_less_nat_alt unat_mod)
  have e: "unat (p div 8) = unat p div 8" by (simp add: unat_div)
  show ?thesis
    unfolding div_ceil_8_nat u8_div_ceil_def Let_def m
    by (cases "unat p mod 8 = 0") (simp_all only: d e if_True if_False simp_thms)
qed

lemma EnumReq_parse_eq:
  "EnumReq_parse f = Some r \<longleftrightarrow>
     (\<exists>p. FrameBytes_bytes f = EnumReq_prefix_len r # p \<and> unat (EnumReq_prefix_len r) \<le> 128
        \<and> length p = (unat (EnumReq_prefix_len r) + 7) div 8
        \<and> EnumReq_prefix r = p @ replicate (16 - length p) 0)"
proof (cases "FrameBytes_bytes f")
  case Nil
  then show ?thesis by (simp add: EnumReq_parse_def fb_bytes)
next
  case (Cons l p)
  define k where "k = (unat l + 7) div 8"
  have m: "MAX_PREFIX_BITS < l \<longleftrightarrow> 128 < unat l"
    by (simp add: MAX_PREFIX_BITS_def UID_LEN_def word_less_nat_alt)
  have r: "FrameBytes_u8_at f 0 = Some l" "FrameBytes_len f = 1 + length p" "unat (u8_div_ceil l 8) = k"
    using Cons by (simp_all add: fb_bytes unat_div_ceil_8 k_def)
  show ?thesis
  proof (cases "128 < unat l \<or> length p \<noteq> k")
    case True
    then have "EnumReq_parse f = None" by (auto simp: EnumReq_parse_def r m Let_def)
    with True Cons show ?thesis
      unfolding k_def by (metis list.inject not_le option.distinct(1))
  next
    case False
    then have l: "unat l \<le> 128" "length p = k" by auto
    then have p16: "k \<le> 16" unfolding k_def by linarith
    obtain g where g: "FrameBytes_sub f 1 k = Some g" "FrameBytes_bytes g = p"
      using sub_tail_bytes [of k 1 f] Cons r l by auto
    then have "FrameBytes_copy_into g (replicate k 0) = (Some (), p)"
      using l by (simp add: copy_into_exact FrameBytes_len_bytes)
    then have "EnumReq_parse f =
        Some \<lparr>EnumReq_prefix_len = l, EnumReq_prefix = p @ replicate (16 - k) 0\<rparr>"
      using g p16 l by (simp add: EnumReq_parse_def r m UID_LEN_def Let_def)
    with Cons l show ?thesis by (cases r) (auto simp: k_def)
  qed
qed

text \<open>Property C36: an ENUM request is accepted exactly when the bit count is at most 128 and
  exactly the bytes that hold that many bits follow; the unused prefix bytes read as zero.\<close>

theorem EnumReq_parse_iff:
  "EnumReq_parse f = Some r \<longleftrightarrow>
     (\<exists>p. FrameBytes_bytes f = EnumReq_prefix_len r # p \<and> unat (EnumReq_prefix_len r) \<le> 128
        \<and> length p = (unat (EnumReq_prefix_len r) + 7) div 8
        \<and> EnumReq_prefix r = p @ replicate (16 - length p) 0)"
  by (rule EnumReq_parse_eq)

lemma u8_eq_bits: "(a :: u8) = b \<longleftrightarrow> (\<forall>n<8. bit a n = bit b n)"
  by (auto intro!: bit_word_eqI)

lemma u8_low_bits_eq:
  "((a :: u8) XOR b) AND (push_bit r 1 - 1) = 0 \<longleftrightarrow> (\<forall>n<r. bit a n = bit b n)" if "r \<le> 8"
proof -
  have "(push_bit r 1 - 1 :: u8) = mask r" by (simp add: mask_eq_exp_minus_1)
  then have "(a XOR b) AND (push_bit r 1 - 1) = 0 \<longleftrightarrow> (\<forall>n<8. \<not> ((bit a n \<noteq> bit b n) \<and> n < r))"
    by (auto simp: u8_eq_bits bit_simps)
  with that show ?thesis by (meson less_le_trans)
qed

lemma lt_div_mod_8:
  "(k::nat) < n \<longleftrightarrow> k div 8 < n div 8 \<or> k div 8 = n div 8 \<and> k mod 8 < n mod 8"
proof -
  have "a < 8 \<Longrightarrow> b < 8 \<Longrightarrow> 8 * i + a < 8 * j + b \<longleftrightarrow> i < j \<or> i = j \<and> a < b" for i j a b :: nat
    by linarith
  from this [of "k mod 8" "n mod 8" "k div 8" "n div 8"] show ?thesis by simp
qed

lemma all_less_div_mod_8:
  "(\<forall>k<n. P (k div 8) (k mod 8)) \<longleftrightarrow>
   (\<forall>i<n div 8. \<forall>b<8. P i b) \<and> (\<forall>b<n mod 8. P (n div 8) b)" for n :: nat
proof (intro iffI conjI allI impI)
  fix i b :: nat assume a: "\<forall>k<n. P (k div 8) (k mod 8)" "i < n div 8" "b < 8"
  then have "8 * i + b < n" by (subst lt_div_mod_8) simp
  with a(1) have "P ((8 * i + b) div 8) ((8 * i + b) mod 8)" by blast
  with a(3) show "P i b" by simp
next
  fix b assume a: "\<forall>k<n. P (k div 8) (k mod 8)" "b < n mod 8"
  moreover from a(2) have "b < 8" using mod_less_divisor [of 8 n] by linarith
  ultimately have "8 * (n div 8) + b < n" by (subst lt_div_mod_8) simp
  with a(1) have "P ((8 * (n div 8) + b) div 8) ((8 * (n div 8) + b) mod 8)" by blast
  with \<open>b < 8\<close> show "P (n div 8) b" by simp
next
  fix k assume a: "(\<forall>i<n div 8. \<forall>b<8. P i b) \<and> (\<forall>b<n mod 8. P (n div 8) b)" "k < n"
  then show "P (k div 8) (k mod 8)" using lt_div_mod_8 [of k n] by auto
qed

lemma take_eq_iff_nth:
  "n \<le> length xs \<Longrightarrow> n \<le> length ys \<Longrightarrow> take n xs = take n ys \<longleftrightarrow> (\<forall>i<n. xs ! i = ys ! i)"
  by (auto simp: list_eq_iff_nth_eq)

lemma prefix_bits_split:
  assumes "length u = 16" "length p = 16" "n \<le> 128"
  shows "(\<forall>k<n. bit (u ! (k div 8) :: u8) (k mod 8) = bit (p ! (k div 8)) (k mod 8)) \<longleftrightarrow>
    take (n div 8) u = take (n div 8) p
    \<and> (n mod 8 = 0 \<or> (u ! (n div 8) XOR p ! (n div 8)) AND (push_bit (n mod 8) 1 - 1) = 0)"
proof -
  have m: "n mod 8 \<le> 8" and l: "n div 8 \<le> length u" "n div 8 \<le> length p" using assms by simp_all
  have "(\<forall>i<n div 8. \<forall>b<8. bit (u ! i) b = bit (p ! i) b) \<longleftrightarrow> take (n div 8) u = take (n div 8) p"
    by (simp add: take_eq_iff_nth [OF l] u8_eq_bits)
  moreover have "(\<forall>b<n mod 8. bit (u ! (n div 8)) b = bit (p ! (n div 8)) b) \<longleftrightarrow>
      n mod 8 = 0 \<or> (u ! (n div 8) XOR p ! (n div 8)) AND (push_bit (n mod 8) 1 - 1) = 0"
    unfolding u8_low_bits_eq [OF m] by auto
  ultimately show ?thesis
    unfolding all_less_div_mod_8 [where P = "\<lambda>i b. bit (u ! i) b = bit (p ! i) b"] by (simp only:)
qed

lemma prefix_match_total:
  assumes "length uid = 16" "length prefix = 16" "unat prefix_len \<le> 128"
  shows "uid_prefix_matches uid prefix_len prefix =
    Some (\<forall>k < unat prefix_len. bit (uid ! (k div 8)) (k mod 8) = bit (prefix ! (k div 8)) (k mod 8))"
proof -
  define n where "n = unat prefix_len"
  have e: "unat (prefix_len div 8) = n div 8" "unat (prefix_len mod 8) = n mod 8"
    by (simp_all add: n_def unat_div unat_mod)
  have z: "(prefix_len mod 8 = 0) = (n mod 8 = 0)"
    by (metis e(2) unat_0 word_unat_eq_iff)
  have n: "n \<le> 128" using assms(3) by (simp add: n_def)
  then have b: "n div 8 \<le> 16" "n mod 8 \<noteq> 0 \<Longrightarrow> n div 8 < 16" by presburger+
  from b(1) have g: "get_range uid 0 (n div 8) = Some (take (n div 8) uid)" 
     "get_range prefix 0 (n div 8) = Some (take (n div 8) prefix)"
    by (simp_all add: get_range_def assms)
  show ?thesis
    unfolding uid_prefix_matches_def Let_def e z g n_def [symmetric]
      prefix_bits_split [OF assms(1,2) assms(3) [folded n_def]]
    using b(2) by (auto simp: assms)
qed

text \<open>For every legal prefix length the byte-wise comparison never panics and answers whether the
  first \<open>prefix_len\<close> bits of the UID, LSB first within each byte, equal those of the prefix.\<close>

lemma uid_prefix_matches_spec:
  assumes "length uid = 16" "length prefix = 16" "unat prefix_len \<le> 128"
  shows "uid_prefix_matches uid prefix_len prefix =
    Some (\<forall>k < unat prefix_len. bit (uid ! (k div 8)) (k mod 8) = bit (prefix ! (k div 8)) (k mod 8))"
  using assms by (rule prefix_match_total)

lemma uid_prefix_matches_spec_example:
  "uid_prefix_matches (replicate 16 0x5A) 12 (replicate 16 0xFA)
    = Some (\<forall>k < 12. bit (replicate 16 (0x5A :: u8) ! (k div 8)) (k mod 8) = bit (replicate 16 (0xFA :: u8) ! (k div 8)) (k mod 8))"
  using uid_prefix_matches_spec [of "replicate 16 0x5A" "replicate 16 0xFA" 12] by simp

end
