(* ===== verification/Group.thy ===== *)
theory Group
  imports Frames
begin

text \<open>
  Group instruction payloads (\<open>osc-protocol/src/group.rs\<close>): the uniform and PER_TARGET forms of
  GREAD and GWRITE and their profile variants.  \<open>parse\<close> performs the structural validation, the
  iterators walk the accepted bytes entry by entry.

  The interface \<open>entry_iter\<close> states what an iterator promises: on bytes that start with the
  encoding of an entry it yields that entry and continues after it.  From it follows once, for
  all four iterators, that walking the concatenation of entries yields exactly those entries.
\<close>

section \<open>Targets\<close>

record GreadTarget =
  GreadTarget_id :: u8
  GreadTarget_addr :: u16
  GreadTarget_count :: u16

record GwriteTarget =
  GwriteTarget_id :: u8
  GwriteTarget_addr :: u16
  GwriteTarget_data :: FrameBytes

record GreadProfileTarget =
  GreadProfileTarget_id :: u8
  GreadProfileTarget_slot :: u8

text \<open>\<open>Iterator::position\<close> and \<open>enumerate().find\<close>, and a walk that calls \<open>next\<close> until it
  answers \<open>None\<close>.  The fuel of a walk is the number of bytes left: every entry consumes at
  least one, so it never runs out before \<open>next\<close> does.\<close>

fun position :: "('a \<Rightarrow> bool) \<Rightarrow> 'a list \<Rightarrow> nat option" where
  "position p [] = None"
| "position p (x # xs) = (if p x then Some 0 else map_option Suc (position p xs))"

fun enumerate_find :: "nat \<Rightarrow> ('a \<Rightarrow> bool) \<Rightarrow> 'a list \<Rightarrow> (nat \<times> 'a) option" where
  "enumerate_find i p [] = None"
| "enumerate_find i p (x # xs) = (if p x then Some (i, x) else enumerate_find (Suc i) p xs)"

fun collect :: "nat \<Rightarrow> (FrameBytes \<Rightarrow> ('e \<times> FrameBytes) option) \<Rightarrow> FrameBytes \<Rightarrow> 'e list" where
  "collect 0 next rest = []"
| "collect (Suc n) next rest =
     (case next rest of None \<Rightarrow> [] | Some (e, rest') \<Rightarrow> e # collect n next rest')"

section \<open>GREAD\<close>

record GreadUniform =
  GreadUniform_addr :: u16
  GreadUniform_count :: u16
  GreadUniform_id_list :: FrameBytes

definition GreadUniform_parse :: "FrameBytes \<Rightarrow> GreadUniform option" where
  "GreadUniform_parse payload =
     do { addr \<leftarrow> FrameBytes_u16_le_at payload 0;
          count \<leftarrow> FrameBytes_u16_le_at payload 2;
          n \<leftarrow> checked_sub (FrameBytes_len payload) 4;
          ids \<leftarrow> FrameBytes_sub payload 4 n;
          if FrameBytes_is_empty ids then None
          else Some \<lparr>GreadUniform_addr = addr, GreadUniform_count = count, GreadUniform_id_list = ids\<rparr> }"

definition GreadUniform_ids :: "GreadUniform \<Rightarrow> u8 list" where
  "GreadUniform_ids g = FrameBytes_bytes (GreadUniform_id_list g)"

definition GreadUniform_slot_of :: "GreadUniform \<Rightarrow> u8 \<Rightarrow> u8 option" where
  "GreadUniform_slot_of g i =
     map_option of_nat (position (\<lambda>b. b = i) (FrameBytes_bytes (GreadUniform_id_list g)))"

definition GreadPerTarget_parse :: "FrameBytes \<Rightarrow> FrameBytes option" where
  "GreadPerTarget_parse payload =
     (if FrameBytes_is_empty payload \<or> FrameBytes_len payload mod 5 \<noteq> 0 then None else Some payload)"

definition GreadPerTargetIter_next :: "FrameBytes \<Rightarrow> (GreadTarget \<times> FrameBytes) option" where
  "GreadPerTargetIter_next rest =
     (if FrameBytes_len rest < 5 then None
      else do { i \<leftarrow> FrameBytes_u8_at rest 0;
                addr \<leftarrow> FrameBytes_u16_le_at rest 1;
                count \<leftarrow> FrameBytes_u16_le_at rest 3;
                rest' \<leftarrow> FrameBytes_sub rest 5 (FrameBytes_len rest - 5);
                Some (\<lparr>GreadTarget_id = i, GreadTarget_addr = addr, GreadTarget_count = count\<rparr>, rest') })"

definition GreadPerTarget_iter :: "FrameBytes \<Rightarrow> GreadTarget list" where
  "GreadPerTarget_iter entries = collect (FrameBytes_len entries) GreadPerTargetIter_next entries"

definition GreadPerTarget_find :: "FrameBytes \<Rightarrow> u8 \<Rightarrow> (u8 \<times> GreadTarget) option" where
  "GreadPerTarget_find entries i =
     map_option (\<lambda>(k, t). (of_nat k, t))
       (enumerate_find 0 (\<lambda>t. GreadTarget_id t = i) (GreadPerTarget_iter entries))"

section \<open>GREAD with a profile\<close>

record GreadProfileUniform =
  GreadProfileUniform_slot :: u8
  GreadProfileUniform_id_list :: FrameBytes

definition GreadProfileUniform_parse :: "FrameBytes \<Rightarrow> GreadProfileUniform option" where
  "GreadProfileUniform_parse payload =
     do { slot \<leftarrow> FrameBytes_u8_at payload 0;
          n \<leftarrow> checked_sub (FrameBytes_len payload) 1;
          ids \<leftarrow> FrameBytes_sub payload 1 n;
          if FrameBytes_is_empty ids then None
          else Some \<lparr>GreadProfileUniform_slot = slot, GreadProfileUniform_id_list = ids\<rparr> }"

definition GreadProfileUniform_ids :: "GreadProfileUniform \<Rightarrow> u8 list" where
  "GreadProfileUniform_ids g = FrameBytes_bytes (GreadProfileUniform_id_list g)"

definition GreadProfileUniform_slot_of :: "GreadProfileUniform \<Rightarrow> u8 \<Rightarrow> u8 option" where
  "GreadProfileUniform_slot_of g i =
     map_option of_nat (position (\<lambda>b. b = i) (FrameBytes_bytes (GreadProfileUniform_id_list g)))"

definition GreadProfilePerTarget_parse :: "FrameBytes \<Rightarrow> FrameBytes option" where
  "GreadProfilePerTarget_parse payload =
     (if FrameBytes_is_empty payload \<or> FrameBytes_len payload mod 2 \<noteq> 0 then None else Some payload)"

definition GreadProfilePerTargetIter_next :: "FrameBytes \<Rightarrow> (GreadProfileTarget \<times> FrameBytes) option" where
  "GreadProfilePerTargetIter_next rest =
     (if FrameBytes_len rest < 2 then None
      else do { i \<leftarrow> FrameBytes_u8_at rest 0;
                slot \<leftarrow> FrameBytes_u8_at rest 1;
                rest' \<leftarrow> FrameBytes_sub rest 2 (FrameBytes_len rest - 2);
                Some (\<lparr>GreadProfileTarget_id = i, GreadProfileTarget_slot = slot\<rparr>, rest') })"

definition GreadProfilePerTarget_iter :: "FrameBytes \<Rightarrow> GreadProfileTarget list" where
  "GreadProfilePerTarget_iter entries =
     collect (FrameBytes_len entries) GreadProfilePerTargetIter_next entries"

definition GreadProfilePerTarget_find :: "FrameBytes \<Rightarrow> u8 \<Rightarrow> (u8 \<times> GreadProfileTarget) option" where
  "GreadProfilePerTarget_find entries i =
     map_option (\<lambda>(k, t). (of_nat k, t))
       (enumerate_find 0 (\<lambda>t. GreadProfileTarget_id t = i) (GreadProfilePerTarget_iter entries))"

section \<open>GWRITE\<close>

record GwriteUniform =
  GwriteUniform_addr :: u16
  GwriteUniform_count :: u8
  GwriteUniform_entries :: FrameBytes

text \<open>The divide-free ragged-tail check: \<open>while rem >= stride { rem -= stride }\<close>.\<close>

fun strip_stride :: "u8 \<Rightarrow> nat \<Rightarrow> nat" where
  "strip_stride count rem =
     (if 1 + unat count \<le> rem then strip_stride count (rem - (1 + unat count)) else rem)"

declare strip_stride.simps [simp del]

definition GwriteUniform_parse :: "FrameBytes \<Rightarrow> GwriteUniform option" where
  "GwriteUniform_parse payload =
     do { addr \<leftarrow> FrameBytes_u16_le_at payload 0;
          count \<leftarrow> FrameBytes_u8_at payload 2;
          if count = 0 then None
          else do { n \<leftarrow> checked_sub (FrameBytes_len payload) 3;
                    entries \<leftarrow> FrameBytes_sub payload 3 n;
                    if FrameBytes_len entries = 0 then None
                    else if strip_stride count (FrameBytes_len entries) \<noteq> 0 then None
                    else Some \<lparr>GwriteUniform_addr = addr, GwriteUniform_count = count,
                               GwriteUniform_entries = entries\<rparr> } }"

definition GwriteUniformIter_next :: "nat \<Rightarrow> FrameBytes \<Rightarrow> ((u8 \<times> FrameBytes) \<times> FrameBytes) option" where
  "GwriteUniformIter_next stride rest =
     (if FrameBytes_len rest < stride then None
      else do { i \<leftarrow> FrameBytes_u8_at rest 0;
                data \<leftarrow> FrameBytes_sub rest 1 (stride - 1);
                rest' \<leftarrow> FrameBytes_sub rest stride (FrameBytes_len rest - stride);
                Some ((i, data), rest') })"

definition GwriteUniform_iter :: "GwriteUniform \<Rightarrow> (u8 \<times> FrameBytes) list" where
  "GwriteUniform_iter g =
     collect (FrameBytes_len (GwriteUniform_entries g))
       (GwriteUniformIter_next (1 + unat (GwriteUniform_count g))) (GwriteUniform_entries g)"

definition GwriteUniform_find :: "GwriteUniform \<Rightarrow> u8 \<Rightarrow> FrameBytes option" where
  "GwriteUniform_find g i = map_option snd (find (\<lambda>(j, _). j = i) (GwriteUniform_iter g))"

text \<open>The validation walk of the variable-stride form.\<close>

function GwritePerTarget_walk :: "FrameBytes \<Rightarrow> unit option" where
  "GwritePerTarget_walk rest =
     (if FrameBytes_is_empty rest then Some ()
      else case FrameBytes_u8_at rest 3 of None \<Rightarrow> None
        | Some count \<Rightarrow>
          (case checked_sub (FrameBytes_len rest) (4 + unat count) of None \<Rightarrow> None
            | Some n \<Rightarrow>
              (case FrameBytes_sub rest (4 + unat count) n of None \<Rightarrow> None
                | Some rest' \<Rightarrow> GwritePerTarget_walk rest')))"
  by pat_completeness auto

termination
proof (relation "measure FrameBytes_len")
  fix rest :: FrameBytes and count :: u8 and n :: nat and rest' :: FrameBytes
  assume "checked_sub (FrameBytes_len rest) (4 + unat count) = Some n"
    "FrameBytes_sub rest (4 + unat count) n = Some rest'"
  then show "(rest', rest) \<in> measure FrameBytes_len"
    using fb.size_slice [of rest "4 + unat count" n rest'] by (auto simp: checked_sub_def split: if_splits)
qed simp

declare GwritePerTarget_walk.simps [simp del]

definition GwritePerTarget_parse :: "FrameBytes \<Rightarrow> FrameBytes option" where
  "GwritePerTarget_parse payload =
     (if FrameBytes_is_empty payload then None
      else do { _ \<leftarrow> GwritePerTarget_walk payload; Some payload })"

definition GwritePerTargetIter_next :: "FrameBytes \<Rightarrow> (GwriteTarget \<times> FrameBytes) option" where
  "GwritePerTargetIter_next rest =
     (if FrameBytes_len rest < 4 then None
      else do { i \<leftarrow> FrameBytes_u8_at rest 0;
                addr \<leftarrow> FrameBytes_u16_le_at rest 1;
                c \<leftarrow> FrameBytes_u8_at rest 3;
                let count = unat c
                in do { data \<leftarrow> FrameBytes_sub rest 4 count;
                        rest' \<leftarrow> FrameBytes_sub rest (4 + count) (FrameBytes_len rest - (4 + count));
                        Some (\<lparr>GwriteTarget_id = i, GwriteTarget_addr = addr, GwriteTarget_data = data\<rparr>, rest') } })"

definition GwritePerTarget_iter :: "FrameBytes \<Rightarrow> GwriteTarget list" where
  "GwritePerTarget_iter entries = collect (FrameBytes_len entries) GwritePerTargetIter_next entries"

definition GwritePerTarget_find :: "FrameBytes \<Rightarrow> u8 \<Rightarrow> GwriteTarget option" where
  "GwritePerTarget_find entries i = find (\<lambda>t. GwriteTarget_id t = i) (GwritePerTarget_iter entries)"

section \<open>Wire layout of the entries\<close>

text \<open>The entries as they stand on the wire, with the data as plain bytes.\<close>

definition gread_enc :: "GreadTarget \<Rightarrow> bytes" where
  "gread_enc t = GreadTarget_id t # to_le16 (GreadTarget_addr t) @ to_le16 (GreadTarget_count t)"

definition gprofile_enc :: "GreadProfileTarget \<Rightarrow> bytes" where
  "gprofile_enc t = [GreadProfileTarget_id t, GreadProfileTarget_slot t]"

definition gwrite_u_enc :: "u8 \<times> bytes \<Rightarrow> bytes" where
  "gwrite_u_enc = (\<lambda>(i, d). i # d)"

definition gwrite_pt_enc :: "u8 \<times> u16 \<times> bytes \<Rightarrow> bytes" where
  "gwrite_pt_enc = (\<lambda>(i, a, d). i # to_le16 a @ of_nat (length d) # d)"

definition GwriteTarget_view :: "GwriteTarget \<Rightarrow> u8 \<times> u16 \<times> bytes" where
  "GwriteTarget_view t = (GwriteTarget_id t, GwriteTarget_addr t, FrameBytes_bytes (GwriteTarget_data t))"

definition gwrite_pt_ok :: "u8 \<times> u16 \<times> bytes \<Rightarrow> bool" where
  "gwrite_pt_ok = (\<lambda>(i, a, d). length d < 256)"

section \<open>The iterator interface\<close>

locale entry_iter =
  fixes step :: "FrameBytes \<Rightarrow> ('e \<times> FrameBytes) option"
    and view :: "'e \<Rightarrow> 'x"
    and enc :: "'x \<Rightarrow> bytes"
    and ok :: "'x \<Rightarrow> bool"
  assumes step_empty: "FrameBytes_bytes f = [] \<Longrightarrow> step f = None"
    and step_enc: "ok x \<Longrightarrow> FrameBytes_bytes f = enc x @ rest \<Longrightarrow>
        \<exists>e g. step f = Some (e, g) \<and> view e = x \<and> FrameBytes_bytes g = rest"
    and enc_nonempty: "ok x \<Longrightarrow> enc x \<noteq> []"
begin

lemma collect_concat:
  "\<forall>x\<in>set xs. ok x \<Longrightarrow> FrameBytes_bytes f = concat (map enc xs) \<Longrightarrow> length (FrameBytes_bytes f) \<le> n
   \<Longrightarrow> map view (collect n step f) = xs"
proof (induction xs arbitrary: n f)
  case Nil
  then show ?case by (cases n) (simp_all add: step_empty)
next
  case (Cons x xs)
  have x: "ok x" "FrameBytes_bytes f = enc x @ concat (map enc xs)" using Cons.prems by simp_all
  then obtain e g where s: "step f = Some (e, g)" "view e = x" "FrameBytes_bytes g = concat (map enc xs)"
    using step_enc by blast
  have p: "0 < length (enc x)" using enc_nonempty [OF x(1)] by simp
  have l: "length (enc x) + length (FrameBytes_bytes g) \<le> n" using Cons.prems(3) x(2) s(3) by simp
  then obtain m where "n = Suc m" using p by (cases n) auto
  with l p have m: "n = Suc m" "length (FrameBytes_bytes g) \<le> m" by linarith+
  have "map view (collect m step g) = xs" using Cons.IH [of g m] Cons.prems(1) s(3) m(2) by simp
  with s m show ?case by simp
qed

end

lemma sub_at:
  assumes "FrameBytes_bytes f = pre @ d @ post" "s = length pre" "n = length d"
  shows "\<exists>g. FrameBytes_sub f s n = Some g \<and> FrameBytes_bytes g = d"
  using sub_bytes [of s n f] assms by simp

lemma sub_rest:
  assumes "FrameBytes_bytes f = pre @ post" "s = length pre" "n = FrameBytes_len f - s"
  shows "\<exists>g. FrameBytes_sub f s n = Some g \<and> FrameBytes_bytes g = post"
  using sub_at [of f pre post "[]" s n] assms by (simp add: FrameBytes_len_bytes)

interpretation gread: entry_iter GreadPerTargetIter_next "\<lambda>t. t" gread_enc "\<lambda>_. True"
proof
  fix f assume "FrameBytes_bytes f = []"
  then show "GreadPerTargetIter_next f = None"
    by (simp add: GreadPerTargetIter_next_def FrameBytes_len_bytes)
next
  fix x f rest assume f: "FrameBytes_bytes f = gread_enc x @ rest"
  obtain g where g: "FrameBytes_sub f 5 (FrameBytes_len f - 5) = Some g" "FrameBytes_bytes g = rest"
    using sub_rest [OF f] by (auto simp: gread_enc_def)
  have "FrameBytes_u16_le_at f 1 = Some (GreadTarget_addr x)"
    "FrameBytes_u16_le_at f 3 = Some (GreadTarget_count x)"
    using f u16_at_pre [of f "[GreadTarget_id x]" "GreadTarget_addr x" "to_le16 (GreadTarget_count x) @ rest"]
      u16_at_pre [of f "GreadTarget_id x # to_le16 (GreadTarget_addr x)" "GreadTarget_count x" rest]
    by (simp_all add: gread_enc_def)
  with f g show "\<exists>e g. GreadPerTargetIter_next f = Some (e, g) \<and> e = x \<and> FrameBytes_bytes g = rest"
    by (auto simp: GreadPerTargetIter_next_def FrameBytes_len_bytes FrameBytes_u8_at_bytes gread_enc_def)
qed (simp add: gread_enc_def)

interpretation gprofile: entry_iter GreadProfilePerTargetIter_next "\<lambda>t. t" gprofile_enc "\<lambda>_. True"
proof
  fix f assume "FrameBytes_bytes f = []"
  then show "GreadProfilePerTargetIter_next f = None"
    by (simp add: GreadProfilePerTargetIter_next_def FrameBytes_len_bytes)
next
  fix x f rest assume f: "FrameBytes_bytes f = gprofile_enc x @ rest"
  obtain g where "FrameBytes_sub f 2 (FrameBytes_len f - 2) = Some g" "FrameBytes_bytes g = rest"
    using sub_rest [OF f, of 2 "FrameBytes_len f - 2"] by (auto simp: gprofile_enc_def numeral_2_eq_2)
  with f show "\<exists>e g. GreadProfilePerTargetIter_next f = Some (e, g) \<and> e = x \<and> FrameBytes_bytes g = rest"
    by (auto simp: GreadProfilePerTargetIter_next_def FrameBytes_len_bytes FrameBytes_u8_at_bytes gprofile_enc_def)
qed (simp add: gprofile_enc_def)

interpretation gwrite_u: entry_iter "GwriteUniformIter_next (1 + unat c)"
    "\<lambda>(i, f). (i, FrameBytes_bytes f)" gwrite_u_enc "\<lambda>(i, d). length d = unat c" for c
proof
  fix f assume "FrameBytes_bytes f = []"
  then show "GwriteUniformIter_next (1 + unat c) f = None"
    by (simp add: GwriteUniformIter_next_def FrameBytes_len_bytes)
next
  fix x f rest assume x: "case x of (i, d) \<Rightarrow> length d = unat c" and f: "FrameBytes_bytes f = gwrite_u_enc x @ rest"
  obtain i d where i: "x = (i, d)" "length d = unat c" using x by (cases x) auto
  then have l: "length (gwrite_u_enc x) = 1 + unat c" by (simp add: gwrite_u_enc_def)
  obtain g where g: "FrameBytes_sub f (1 + unat c) (FrameBytes_len f - (1 + unat c)) = Some g" "FrameBytes_bytes g = rest"
    using sub_rest [OF f] l by auto
  obtain h where "FrameBytes_sub f 1 (unat c) = Some h" "FrameBytes_bytes h = d"
    using sub_at [of f "[i]" d rest 1 "unat c"] f i by (auto simp: gwrite_u_enc_def)
  with f g i show "\<exists>e g. GwriteUniformIter_next (1 + unat c) f = Some (e, g)
      \<and> (case e of (i, f) \<Rightarrow> (i, FrameBytes_bytes f)) = x \<and> FrameBytes_bytes g = rest"
    by (auto simp: GwriteUniformIter_next_def FrameBytes_len_bytes FrameBytes_u8_at_bytes gwrite_u_enc_def)
qed (auto simp: gwrite_u_enc_def)

interpretation gwrite_pt: entry_iter GwritePerTargetIter_next GwriteTarget_view gwrite_pt_enc gwrite_pt_ok
proof
  fix f assume "FrameBytes_bytes f = []"
  then show "GwritePerTargetIter_next f = None"
    by (simp add: GwritePerTargetIter_next_def FrameBytes_len_bytes)
next
  fix x f rest assume x: "gwrite_pt_ok x" and f: "FrameBytes_bytes f = gwrite_pt_enc x @ rest"
  obtain i a d where i: "x = (i, a, d)" "length d < 256" using x by (cases x) (auto simp: gwrite_pt_ok_def)
  then have u: "unat (of_nat (length d) :: u8) = length d" by (simp add: unat_of_nat)
  have l: "length (gwrite_pt_enc x) = 4 + length d" using i by (simp add: gwrite_pt_enc_def)
  obtain g where g: "FrameBytes_sub f (4 + length d) (FrameBytes_len f - (4 + length d)) = Some g" "FrameBytes_bytes g = rest"
    using sub_rest [OF f] l by auto
  obtain h where "FrameBytes_sub f 4 (length d) = Some h" "FrameBytes_bytes h = d"
    using sub_at [of f "i # to_le16 a @ [of_nat (length d)]" d rest 4 "length d"] f i by (auto simp: gwrite_pt_enc_def)
  moreover have "FrameBytes_u16_le_at f 1 = Some a"
    using u16_at_pre [of f "[i]" a "of_nat (length d) # d @ rest"] f i by (simp add: gwrite_pt_enc_def)
  moreover have "FrameBytes_u8_at f 3 = Some (of_nat (length d))"
    using f i by (simp add: FrameBytes_u8_at_bytes gwrite_pt_enc_def nth_opt_append to_le16_def)
  moreover have "FrameBytes_u8_at f 0 = Some i" "\<not> FrameBytes_len f < 4"
    using f i by (simp_all add: fb_bytes gwrite_pt_enc_def)
  ultimately show "\<exists>e g. GwritePerTargetIter_next f = Some (e, g) \<and> GwriteTarget_view e = x \<and> FrameBytes_bytes g = rest"
    using g i u by (auto simp: GwritePerTargetIter_next_def GwriteTarget_view_def Let_def)
qed (auto simp: gwrite_pt_enc_def)

section \<open>The accepted languages\<close>

lemma chunks_exist:
  assumes "0 < k" "\<And>b. length b = k \<Longrightarrow> \<exists>x. ok x \<and> enc x = b"
  shows "length xs = m * k \<Longrightarrow> \<exists>ys. list_all ok ys \<and> xs = concat (map enc ys) \<and> length ys = m"
proof (induction m arbitrary: xs)
  case 0
  then show ?case by (intro exI [of _ "[]"]) simp
next
  case (Suc m)
  then have "length (take k xs) = k" "length (drop k xs) = m * k" by simp_all
  then obtain x ys where "ok x" "enc x = take k xs" "list_all ok ys" "drop k xs = concat (map enc ys)" "length ys = m"
    using assms(2) Suc.IH by meson
  then show ?case by (intro exI [of _ "x # ys"]) (simp, metis append_take_drop_id)
qed

lemma mod_0_mult: "(n::nat) mod k = 0 \<Longrightarrow> \<exists>m. n = m * k"
  by (metis mod_0_imp_dvd dvd_def mult.commute)

lemma length_concat_const:
  "(\<And>x. x \<in> set xs \<Longrightarrow> length (f x) = k) \<Longrightarrow> length (concat (map f xs)) = length xs * k"
  by (induction xs) auto

lemma gread_enc_surj: "length b = 5 \<Longrightarrow> \<exists>x. True \<and> gread_enc x = b"
proof -
  assume "length b = 5"
  then obtain i p q r s where "b = [i, p, q, r, s]" by (auto simp: length_Suc_conv eval_nat_numeral)
  then have "gread_enc \<lparr>GreadTarget_id = i, GreadTarget_addr = from_le16 p q, GreadTarget_count = from_le16 r s\<rparr> = b"
    by (simp add: gread_enc_def)
  then show ?thesis by blast
qed

lemma gprofile_enc_surj: "length b = 2 \<Longrightarrow> \<exists>x. True \<and> gprofile_enc x = b"
proof -
  assume "length b = 2"
  then obtain i s where "b = [i, s]" by (auto simp: length_Suc_conv eval_nat_numeral)
  then have "gprofile_enc \<lparr>GreadProfileTarget_id = i, GreadProfileTarget_slot = s\<rparr> = b"
    by (simp add: gprofile_enc_def)
  then show ?thesis by blast
qed

lemma gwrite_u_enc_surj:
  "length b = 1 + unat c \<Longrightarrow> \<exists>x. (case x of (i, d) \<Rightarrow> length d = unat c) \<and> gwrite_u_enc x = b"
proof -
  assume "length b = 1 + unat c"
  then obtain i d where "b = i # d" "length d = unat c" by (auto simp: length_Suc_conv)
  then show ?thesis by (intro exI [of _ "(i, d)"]) (simp add: gwrite_u_enc_def)
qed

lemma gread_iter_concat:
  "FrameBytes_bytes f = concat (map gread_enc ts) \<Longrightarrow> GreadPerTarget_iter f = ts"
  using gread.collect_concat [of ts f "FrameBytes_len f"]
  by (simp add: GreadPerTarget_iter_def FrameBytes_len_bytes)

lemma gprofile_iter_concat:
  "FrameBytes_bytes f = concat (map gprofile_enc ts) \<Longrightarrow> GreadProfilePerTarget_iter f = ts"
  using gprofile.collect_concat [of ts f "FrameBytes_len f"]
  by (simp add: GreadProfilePerTarget_iter_def FrameBytes_len_bytes)

lemma gwrite_pt_iter_concat:
  "list_all gwrite_pt_ok xs \<Longrightarrow> FrameBytes_bytes f = concat (map gwrite_pt_enc xs) \<Longrightarrow>
   map GwriteTarget_view (GwritePerTarget_iter f) = xs"
  using gwrite_pt.collect_concat [of xs f "FrameBytes_len f"]
  by (simp add: GwritePerTarget_iter_def FrameBytes_len_bytes list_all_iff)

lemma is_empty_bytes: "FrameBytes_is_empty f \<longleftrightarrow> FrameBytes_bytes f = []"
  by (simp add: FrameBytes_is_empty_def FrameBytes_bytes_def)

text \<open>A PER_TARGET GREAD payload is accepted exactly when it is a nonempty sequence of
  five-byte entries, and its iterator yields precisely those entries, in order.\<close>

lemma GreadPerTarget_language:
  "(\<exists>g. GreadPerTarget_parse f = Some g \<and> GreadPerTarget_iter g = ts)
   \<longleftrightarrow> ts \<noteq> [] \<and> FrameBytes_bytes f = concat (map gread_enc ts)"
proof
  assume "\<exists>g. GreadPerTarget_parse f = Some g \<and> GreadPerTarget_iter g = ts"
  then have a: "FrameBytes_bytes f \<noteq> []" "length (FrameBytes_bytes f) mod 5 = 0" "GreadPerTarget_iter f = ts"
    by (auto simp: GreadPerTarget_parse_def is_empty_bytes FrameBytes_len_bytes split: if_splits)
  from a obtain m where "length (FrameBytes_bytes f) = m * 5" using mod_0_mult [OF a(2)] by blast
  then obtain us where us: "FrameBytes_bytes f = concat (map gread_enc us)"
    using chunks_exist [of 5 "\<lambda>_. True" gread_enc, OF _ gread_enc_surj] by auto
  with a gread_iter_concat [OF us] show "ts \<noteq> [] \<and> FrameBytes_bytes f = concat (map gread_enc ts)"
    by auto
next
  assume a: "ts \<noteq> [] \<and> FrameBytes_bytes f = concat (map gread_enc ts)"
  then have "length (FrameBytes_bytes f) = length ts * 5"
    using length_concat_const [of ts gread_enc 5] by (simp add: gread_enc_def)
  with a show "\<exists>g. GreadPerTarget_parse f = Some g \<and> GreadPerTarget_iter g = ts"
    using gread_iter_concat [of f ts]
    by (auto simp: GreadPerTarget_parse_def FrameBytes_len_bytes is_empty_bytes gread_enc_def)
qed

lemma GreadProfilePerTarget_language:
  "(\<exists>g. GreadProfilePerTarget_parse f = Some g \<and> GreadProfilePerTarget_iter g = ts)
   \<longleftrightarrow> ts \<noteq> [] \<and> FrameBytes_bytes f = concat (map gprofile_enc ts)"
proof
  assume "\<exists>g. GreadProfilePerTarget_parse f = Some g \<and> GreadProfilePerTarget_iter g = ts"
  then have a: "FrameBytes_bytes f \<noteq> []" "length (FrameBytes_bytes f) mod 2 = 0" "GreadProfilePerTarget_iter f = ts"
    by (auto simp: GreadProfilePerTarget_parse_def is_empty_bytes FrameBytes_len_bytes split: if_splits)
  from a obtain m where "length (FrameBytes_bytes f) = m * 2" using mod_0_mult [OF a(2)] by blast
  then obtain us where us: "FrameBytes_bytes f = concat (map gprofile_enc us)"
    using chunks_exist [of 2 "\<lambda>_. True" gprofile_enc, OF _ gprofile_enc_surj] by auto
  with a gprofile_iter_concat [OF us] show "ts \<noteq> [] \<and> FrameBytes_bytes f = concat (map gprofile_enc ts)"
    by auto
next
  assume a: "ts \<noteq> [] \<and> FrameBytes_bytes f = concat (map gprofile_enc ts)"
  then have "length (FrameBytes_bytes f) = length ts * 2"
    using length_concat_const [of ts gprofile_enc 2] by (simp add: gprofile_enc_def)
  with a show "\<exists>g. GreadProfilePerTarget_parse f = Some g \<and> GreadProfilePerTarget_iter g = ts"
    using gprofile_iter_concat [of f ts]
    by (auto simp: GreadProfilePerTarget_parse_def FrameBytes_len_bytes is_empty_bytes gprofile_enc_def)
qed

lemma strip_stride_mod: "strip_stride c n = n mod (1 + unat c)"
proof (induction n rule: less_induct)
  case (less n)
  show ?case
  proof (cases "1 + unat c \<le> n")
    case True
    then have "strip_stride c n = (n - (1 + unat c)) mod (1 + unat c)"
      using less [of "n - (1 + unat c)"] by (subst strip_stride.simps) simp
    with True show ?thesis by (simp only: le_mod_geq)
  next
    case False
    then show ?thesis by (subst strip_stride.simps) simp
  qed
qed

lemma gwrite_u_iter_concat:
  assumes "list_all (\<lambda>(i, d). length d = unat (GwriteUniform_count g)) xs"
    "FrameBytes_bytes (GwriteUniform_entries g) = concat (map gwrite_u_enc xs)"
  shows "map (\<lambda>(i, f). (i, FrameBytes_bytes f)) (GwriteUniform_iter g) = xs"
  unfolding GwriteUniform_iter_def
  using gwrite_u.collect_concat [of xs "GwriteUniform_count g" "GwriteUniform_entries g"] assms
  by (simp add: FrameBytes_len_bytes list_all_iff)

lemma GwriteUniform_parse_Some:
  "GwriteUniform_parse f = Some g \<longleftrightarrow>
   (\<exists>e. FrameBytes_bytes f = to_le16 (GwriteUniform_addr g) @ GwriteUniform_count g # FrameBytes_bytes e
     \<and> GwriteUniform_entries g = e \<and> FrameBytes_sub f 3 (FrameBytes_len f - 3) = Some e
     \<and> GwriteUniform_count g \<noteq> 0 \<and> FrameBytes_bytes e \<noteq> []
     \<and> length (FrameBytes_bytes e) mod (1 + unat (GwriteUniform_count g)) = 0)"
proof (cases "length (FrameBytes_bytes f) \<ge> 3")
  case False
  then show ?thesis
    by (auto simp: GwriteUniform_parse_def fb_bytes bind_eq_Some_conv nth_opt_def)
next
  case True
  then obtain p q c ys where "FrameBytes_bytes f = p # q # c # ys"
    by (cases "FrameBytes_bytes f"; cases "tl (FrameBytes_bytes f)"; cases "tl (tl (FrameBytes_bytes f))") auto
  then have f: "FrameBytes_bytes f = to_le16 (from_le16 p q) @ c # ys" by simp
  obtain e where e: "FrameBytes_sub f 3 (FrameBytes_len f - 3) = Some e" "FrameBytes_bytes e = ys"
    using sub_rest [of f "to_le16 (from_le16 p q) @ [c]" ys 3 "FrameBytes_len f - 3"] f by (auto simp: numeral_3_eq_3)
  have r: "FrameBytes_u16_le_at f 0 = Some (from_le16 p q)" "FrameBytes_u8_at f 2 = Some c"
    "checked_sub (FrameBytes_len f) 3 = Some (FrameBytes_len f - 3)"
    using u16_at_pre [of f "[]" "from_le16 p q" "c # ys"] f True
    by (simp_all add: FrameBytes_u8_at_bytes nth_opt_append checked_sub_def FrameBytes_len_bytes)
  show ?thesis
    using e unfolding f
    by (cases g) (auto simp: GwriteUniform_parse_def r strip_stride_mod FrameBytes_len_bytes [of e] simp del: to_from_le16)
qed

text \<open>Property C33: a uniform GWRITE payload is accepted exactly when it is an address, a nonzero count and a
  nonempty sequence of entries of exactly that many data bytes (the divide-free stride walk
  rejects precisely the ragged tails), and its iterator yields precisely those entries.\<close>

theorem GwriteUniform_language:
  "(\<exists>g. GwriteUniform_parse f = Some g \<and> GwriteUniform_addr g = a \<and> GwriteUniform_count g = c
      \<and> map (\<lambda>(i, d). (i, FrameBytes_bytes d)) (GwriteUniform_iter g) = xs)
   \<longleftrightarrow> c \<noteq> 0 \<and> xs \<noteq> [] \<and> list_all (\<lambda>(i, d). length d = unat c) xs
      \<and> FrameBytes_bytes f = to_le16 a @ c # concat (map gwrite_u_enc xs)"
proof
  assume "\<exists>g. GwriteUniform_parse f = Some g \<and> GwriteUniform_addr g = a \<and> GwriteUniform_count g = c
      \<and> map (\<lambda>(i, d). (i, FrameBytes_bytes d)) (GwriteUniform_iter g) = xs"
  then obtain g where g: "GwriteUniform_parse f = Some g" "GwriteUniform_addr g = a" "GwriteUniform_count g = c"
      "map (\<lambda>(i, d). (i, FrameBytes_bytes d)) (GwriteUniform_iter g) = xs" by blast
  then obtain e where e: "FrameBytes_bytes f = to_le16 a @ c # FrameBytes_bytes e" "GwriteUniform_entries g = e"
      "c \<noteq> 0" "FrameBytes_bytes e \<noteq> []" "length (FrameBytes_bytes e) mod (1 + unat c) = 0"
    using GwriteUniform_parse_Some [of f g] by auto
  obtain m where "length (FrameBytes_bytes e) = m * (1 + unat c)" using mod_0_mult [OF e(5)] by blast
  then obtain us where us: "list_all (\<lambda>(i, d). length d = unat c) us"
      "FrameBytes_bytes e = concat (map gwrite_u_enc us)"
    using chunks_exist [of "1 + unat c" "\<lambda>(i, d). length d = unat c" gwrite_u_enc, OF _ gwrite_u_enc_surj] by auto
  then have "xs = us" using gwrite_u_iter_concat [of g us] g e by simp
  with us e show "c \<noteq> 0 \<and> xs \<noteq> [] \<and> list_all (\<lambda>(i, d). length d = unat c) xs
      \<and> FrameBytes_bytes f = to_le16 a @ c # concat (map gwrite_u_enc xs)" by auto
next
  assume r: "c \<noteq> 0 \<and> xs \<noteq> [] \<and> list_all (\<lambda>(i, d). length d = unat c) xs
      \<and> FrameBytes_bytes f = to_le16 a @ c # concat (map gwrite_u_enc xs)"
  obtain e where e: "FrameBytes_sub f 3 (FrameBytes_len f - 3) = Some e" "FrameBytes_bytes e = concat (map gwrite_u_enc xs)"
    using sub_rest [of f "to_le16 a @ [c]" "concat (map gwrite_u_enc xs)" 3 "FrameBytes_len f - 3"] r by (auto simp: numeral_3_eq_3)
  have "length (FrameBytes_bytes e) = length xs * (1 + unat c)"
    unfolding e using r by (intro length_concat_const) (auto simp: gwrite_u_enc_def list_all_iff)
  then have "length (FrameBytes_bytes e) mod (1 + unat c) = 0" by (simp only: mod_mult_self2_is_0)
  moreover have "FrameBytes_bytes e \<noteq> []" unfolding e using r by (cases xs) (auto simp: gwrite_u_enc_def)
  ultimately have "GwriteUniform_parse f = Some \<lparr>GwriteUniform_addr = a, GwriteUniform_count = c, GwriteUniform_entries = e\<rparr>"
    using r e by (simp add: GwriteUniform_parse_Some)
  then show "\<exists>g. GwriteUniform_parse f = Some g \<and> GwriteUniform_addr g = a \<and> GwriteUniform_count g = c
      \<and> map (\<lambda>(i, d). (i, FrameBytes_bytes d)) (GwriteUniform_iter g) = xs"
    using gwrite_u_iter_concat [of "\<lparr>GwriteUniform_addr = a, GwriteUniform_count = c, GwriteUniform_entries = e\<rparr>" xs] r e
    by auto
qed

lemma GwritePerTarget_walk_empty: "FrameBytes_bytes f = [] \<Longrightarrow> GwritePerTarget_walk f = Some ()"
  by (subst GwritePerTarget_walk.simps) (simp add: is_empty_bytes)

lemma GwritePerTarget_walk_step:
  assumes "FrameBytes_bytes f \<noteq> []" "GwritePerTarget_walk f = Some ()"
  shows "\<exists>x g. gwrite_pt_ok x \<and> FrameBytes_bytes f = gwrite_pt_enc x @ FrameBytes_bytes g
    \<and> FrameBytes_len g < FrameBytes_len f \<and> GwritePerTarget_walk g = Some ()"
proof -
  from assms obtain c g where g: "FrameBytes_u8_at f 3 = Some c" "4 + unat c \<le> FrameBytes_len f"
      "FrameBytes_sub f (4 + unat c) (FrameBytes_len f - (4 + unat c)) = Some g" "GwritePerTarget_walk g = Some ()"
    by (subst (asm) GwritePerTarget_walk.simps)
      (auto simp: is_empty_bytes checked_sub_def split: option.splits if_splits)
  then have "4 \<le> length (FrameBytes_bytes f)" by (simp add: FrameBytes_len_bytes)
  then obtain i p q c' ys where "FrameBytes_bytes f = i # p # q # c' # ys"
    by (cases "FrameBytes_bytes f"; cases "tl (FrameBytes_bytes f)"; cases "tl (tl (FrameBytes_bytes f))";
        cases "tl (tl (tl (FrameBytes_bytes f)))") auto
  with g(1) have f: "FrameBytes_bytes f = i # to_le16 (from_le16 p q) @ c # ys"
    by (simp add: FrameBytes_u8_at_bytes eval_nat_numeral)
  with g(2) have l: "unat c \<le> length ys" by (simp add: FrameBytes_len_bytes)
  have "FrameBytes_bytes g = drop (unat c) (drop 4 (FrameBytes_bytes f))"
    using fb.content_slice [OF g(3)] by (simp add: FrameBytes_len_bytes add.commute)
  then have "FrameBytes_bytes g = drop (unat c) ys" using f by simp
  moreover have "gwrite_pt_ok (i, from_le16 p q, take (unat c) ys)"
    using unsigned_less [of c] l by (simp add: gwrite_pt_ok_def)
  moreover have "gwrite_pt_enc (i, from_le16 p q, take (unat c) ys) @ drop (unat c) ys = FrameBytes_bytes f"
    using l f by (simp add: gwrite_pt_enc_def)
  ultimately show ?thesis using g(4) f l
    by (intro exI [of _ "(i, from_le16 p q, take (unat c) ys)"] exI [of _ g]) (simp add: FrameBytes_len_bytes)
qed

lemma GwritePerTarget_walk_sound:
  "GwritePerTarget_walk f = Some () \<Longrightarrow>
   \<exists>xs. list_all gwrite_pt_ok xs \<and> FrameBytes_bytes f = concat (map gwrite_pt_enc xs)"
proof (induction "FrameBytes_len f" arbitrary: f rule: less_induct)
  case less
  show ?case
  proof (cases "FrameBytes_bytes f = []")
    case True
    then show ?thesis by (intro exI [of _ "[]"]) simp
  next
    case False
    then obtain x g where x: "gwrite_pt_ok x" "FrameBytes_bytes f = gwrite_pt_enc x @ FrameBytes_bytes g"
        "FrameBytes_len g < FrameBytes_len f" "GwritePerTarget_walk g = Some ()"
      using GwritePerTarget_walk_step less.prems by blast
    then obtain xs where "list_all gwrite_pt_ok xs" "FrameBytes_bytes g = concat (map gwrite_pt_enc xs)"
      using less.hyps by blast
    with x show ?thesis by (intro exI [of _ "x # xs"]) simp
  qed
qed

lemma GwritePerTarget_walk_complete:
  "list_all gwrite_pt_ok xs \<Longrightarrow> FrameBytes_bytes f = concat (map gwrite_pt_enc xs) \<Longrightarrow>
   GwritePerTarget_walk f = Some ()"
proof (induction xs arbitrary: f)
  case Nil
  then show ?case by (simp add: GwritePerTarget_walk_empty)
next
  case (Cons x xs)
  obtain i a d where x: "x = (i, a, d)" "length d < 256"
    using Cons.prems(1) by (cases x) (auto simp: gwrite_pt_ok_def)
  then have u: "unat (of_nat (length d) :: u8) = length d" by (simp add: unat_of_nat)
  have f: "FrameBytes_bytes f = (i # to_le16 a @ of_nat (length d) # d) @ concat (map gwrite_pt_enc xs)"
    using Cons.prems(2) x by (simp add: gwrite_pt_enc_def)
  then have r: "FrameBytes_u8_at f 3 = Some (of_nat (length d))" "\<not> FrameBytes_is_empty f"
      "checked_sub (FrameBytes_len f) (4 + length d) = Some (FrameBytes_len f - (4 + length d))"
    by (simp_all add: FrameBytes_u8_at_bytes is_empty_bytes checked_sub_def FrameBytes_len_bytes to_le16_def)
  obtain g where "FrameBytes_sub f (4 + length d) (FrameBytes_len f - (4 + length d)) = Some g"
      "FrameBytes_bytes g = concat (map gwrite_pt_enc xs)"
    using sub_rest [OF f, of "4 + length d" "FrameBytes_len f - (4 + length d)"] by auto
  with Cons.IH [of g] Cons.prems(1) r u show ?case
    by (subst GwritePerTarget_walk.simps) simp
qed

text \<open>A PER_TARGET GWRITE payload is accepted exactly when it is a nonempty sequence of
  self-sized entries, and its iterator yields precisely those entries, in order.\<close>

lemma GwritePerTarget_language:
  "(\<exists>g. GwritePerTarget_parse f = Some g \<and> map GwriteTarget_view (GwritePerTarget_iter g) = xs)
   \<longleftrightarrow> xs \<noteq> [] \<and> list_all gwrite_pt_ok xs \<and> FrameBytes_bytes f = concat (map gwrite_pt_enc xs)"
proof
  assume "\<exists>g. GwritePerTarget_parse f = Some g \<and> map GwriteTarget_view (GwritePerTarget_iter g) = xs"
  then have a: "FrameBytes_bytes f \<noteq> []" "GwritePerTarget_walk f = Some ()"
      "map GwriteTarget_view (GwritePerTarget_iter f) = xs"
    by (auto simp: GwritePerTarget_parse_def is_empty_bytes bind_eq_Some_conv split: if_splits)
  then obtain us where "list_all gwrite_pt_ok us" "FrameBytes_bytes f = concat (map gwrite_pt_enc us)"
    using GwritePerTarget_walk_sound by blast
  with a gwrite_pt_iter_concat [of us f]
  show "xs \<noteq> [] \<and> list_all gwrite_pt_ok xs \<and> FrameBytes_bytes f = concat (map gwrite_pt_enc xs)" by auto
next
  assume a: "xs \<noteq> [] \<and> list_all gwrite_pt_ok xs \<and> FrameBytes_bytes f = concat (map gwrite_pt_enc xs)"
  then have "FrameBytes_bytes f \<noteq> []" by (cases xs) (auto simp: gwrite_pt_enc_def)
  with a show "\<exists>g. GwritePerTarget_parse f = Some g \<and> map GwriteTarget_view (GwritePerTarget_iter g) = xs"
    using GwritePerTarget_walk_complete [of xs f] gwrite_pt_iter_concat [of xs f]
    by (simp add: GwritePerTarget_parse_def is_empty_bytes)
qed

lemma GreadUniform_language:
  "(\<exists>g. GreadUniform_parse f = Some g \<and> GreadUniform_addr g = a \<and> GreadUniform_count g = n \<and> GreadUniform_ids g = is)
   \<longleftrightarrow> is \<noteq> [] \<and> FrameBytes_bytes f = to_le16 a @ to_le16 n @ is"
proof (cases "length (FrameBytes_bytes f) \<ge> 4")
  case False
  then show ?thesis by (auto simp: GreadUniform_parse_def checked_sub_def FrameBytes_len_bytes bind_eq_Some_conv)
next
  case True
  then have "length (take 4 (FrameBytes_bytes f)) = 4" by simp
  then obtain a' n' where t: "take 4 (FrameBytes_bytes f) = to_le16 a' @ to_le16 n'" using length_4_le16 by blast
  obtain ys where f: "FrameBytes_bytes f = to_le16 a' @ to_le16 n' @ ys"
    using append_take_drop_id [of 4 "FrameBytes_bytes f"] t by (metis append.assoc)
  obtain e where e: "FrameBytes_sub f 4 (FrameBytes_len f - 4) = Some e" "FrameBytes_bytes e = ys"
    using sub_rest [of f "to_le16 a' @ to_le16 n'" ys 4 "FrameBytes_len f - 4"] f by auto
  have r: "FrameBytes_u16_le_at f 0 = Some a'" "FrameBytes_u16_le_at f 2 = Some n'"
    "checked_sub (FrameBytes_len f) 4 = Some (FrameBytes_len f - 4)"
    using u16_at_pre [of f "[]" a'] u16_at_pre [of f "to_le16 a'" n' ys] f True
    by (simp_all add: checked_sub_def FrameBytes_len_bytes)
  show ?thesis
    using e unfolding f by (auto simp: GreadUniform_parse_def r is_empty_bytes GreadUniform_ids_def)
qed

lemma GreadProfileUniform_language:
  "(\<exists>g. GreadProfileUniform_parse f = Some g \<and> GreadProfileUniform_slot g = s \<and> GreadProfileUniform_ids g = is)
   \<longleftrightarrow> is \<noteq> [] \<and> FrameBytes_bytes f = s # is"
proof (cases "FrameBytes_bytes f")
  case Nil
  then show ?thesis by (simp add: GreadProfileUniform_parse_def fb_bytes)
next
  case (Cons b ys)
  obtain e where "FrameBytes_sub f 1 (FrameBytes_len f - 1) = Some e" "FrameBytes_bytes e = ys"
    using sub_rest [of f "[b]" ys 1 "FrameBytes_len f - 1"] Cons by auto
  moreover have "FrameBytes_u8_at f 0 = Some b" "checked_sub (FrameBytes_len f) 1 = Some (FrameBytes_len f - 1)"
    using Cons by (simp_all add: fb_bytes checked_sub_def)
  ultimately show ?thesis
    unfolding Cons by (auto simp: GreadProfileUniform_parse_def is_empty_bytes GreadProfileUniform_ids_def)
qed

section \<open>Reply slots\<close>

lemma position_Some:
  "position p xs = Some k \<longleftrightarrow> k < length xs \<and> p (xs ! k) \<and> (\<forall>j<k. \<not> p (xs ! j))"
proof (induction xs arbitrary: k)
  case (Cons x xs)
  then show ?case by (cases k) (auto simp: All_less_Suc2)
qed simp

lemma enumerate_find_position:
  "enumerate_find i p xs = map_option (\<lambda>k. (i + k, xs ! k)) (position p xs)"
  by (induction xs arbitrary: i) (simp_all add: option.map_comp o_def)

lemma of_nat_u8_inj: "k < 256 \<Longrightarrow> (of_nat k = (s :: u8)) \<longleftrightarrow> k = unat s"
  by (auto simp: unat_of_nat)

lemma position_u8:
  assumes "length xs \<le> 256"
  shows "map_option of_nat (position p xs) = Some (s :: u8) \<longleftrightarrow>
    unat s < length xs \<and> p (xs ! unat s) \<and> (\<forall>j < unat s. \<not> p (xs ! j))"
proof -
  have "map_option of_nat (position p xs) = Some s \<longleftrightarrow> position p xs = Some (unat s)"
  proof (cases "position p xs")
    case (Some k)
    then have "k < 256" using assms by (auto simp: position_Some)
    with Some show ?thesis by (simp add: of_nat_u8_inj)
  qed simp
  then show ?thesis by (simp add: position_Some)
qed

lemma concat_gread_length: "length (concat (map gread_enc ts)) = length ts * 5"
  by (rule length_concat_const) (simp add: gread_enc_def)

text \<open>In any accepted PER_TARGET GREAD that fits a frame, a servo's lookup returns its first entry
  and that entry's 0-based position, which the narrowing to \<open>u8\<close> does not wrap.\<close>

lemma GreadPerTarget_find_first:
  assumes "FrameBytes_bytes f = concat (map gread_enc ts)" "FrameBytes_len f \<le> 252"
  shows "GreadPerTarget_find f i = Some (s, t) \<longleftrightarrow>
    unat s < length ts \<and> ts ! unat s = t \<and> GreadTarget_id t = i
    \<and> (\<forall>j < unat s. GreadTarget_id (ts ! j) \<noteq> i)"
proof -
  have l: "length ts \<le> 256" using assms by (simp add: FrameBytes_len_bytes concat_gread_length)
  let ?p = "\<lambda>t. GreadTarget_id t = i"
  have "GreadPerTarget_find f i = map_option (\<lambda>k. (of_nat k, ts ! k)) (position ?p ts)"
    using gread_iter_concat [OF assms(1)]
    by (simp add: GreadPerTarget_find_def enumerate_find_position option.map_comp o_def)
  also have "\<dots> = Some (s, t) \<longleftrightarrow> map_option of_nat (position ?p ts) = Some s \<and> ts ! unat s = t"
  proof (cases "position ?p ts")
    case (Some k)
    then have "k < 256" using l by (auto simp: position_Some)
    with Some show ?thesis by (auto simp: of_nat_u8_inj)
  qed simp
  finally show ?thesis using position_u8 [OF l, of ?p s] by auto
qed

lemma GreadPerTarget_find_first_example:
  "GreadPerTarget_find (FrameBytes_new [1, 0, 2, 4] [0, 7, 0, 2, 4, 0]) 7
    = Some (1, \<lparr>GreadTarget_id = 7, GreadTarget_addr = 0x200, GreadTarget_count = 4\<rparr>)"
  using GreadPerTarget_find_first
    [of "FrameBytes_new [1, 0, 2, 4] [0, 7, 0, 2, 4, 0]"
      "[\<lparr>GreadTarget_id = 1, GreadTarget_addr = 0x200, GreadTarget_count = 4\<rparr>,
        \<lparr>GreadTarget_id = 7, GreadTarget_addr = 0x200, GreadTarget_count = 4\<rparr>]" 7 1
      "\<lparr>GreadTarget_id = 7, GreadTarget_addr = 0x200, GreadTarget_count = 4\<rparr>"]
  by (simp add: gread_enc_def to_le16_def FrameBytes_len_bytes)

end
