(* ===== verification/Build.thy ===== *)
theory Build
  imports Group
begin

text \<open>
  The instruction payload builders (\<open>osc-protocol/src/build.rs\<close>).  A builder writes into a
  caller buffer; its model returns the buffer and the \<open>Option<usize>\<close> of the code inside an
  outer \<open>option\<close> whose \<open>None\<close> is a slice panic.

  The interface \<open>payload_builder\<close> is the contract the module documentation states: a
  builder never panics, either refuses and leaves the buffer alone, or writes exactly the wire
  layout and reports its length.  Every one-shot builder is shown to provide it; the two
  incremental GWRITE builders are treated as a state machine over their pushes.
\<close>

type_synonym built = "(bytes \<times> nat option) option"

definition cap :: "bytes \<Rightarrow> nat" where
  "cap dst = min (length dst) (unat MAX_PAYLOAD)"

definition build_read :: "bytes \<Rightarrow> u16 \<Rightarrow> u16 \<Rightarrow> built" where
  "build_read dst addr count =
     (if cap dst < 4 then Some (dst, None)
      else do { d \<leftarrow> copy_slice dst 0 2 (to_le16 addr);
                d \<leftarrow> copy_slice d 2 4 (to_le16 count);
                Some (d, Some 4) })"

definition build_read_profile :: "bytes \<Rightarrow> u8 \<Rightarrow> built" where
  "build_read_profile dst slot =
     (if cap dst < 1 then Some (dst, None)
      else do { d \<leftarrow> put_at dst 0 slot; Some (d, Some 1) })"

definition build_write :: "bytes \<Rightarrow> u16 \<Rightarrow> bytes \<Rightarrow> built" where
  "build_write dst addr data =
     (let total = 2 + length data
      in if cap dst < total then Some (dst, None)
         else do { d \<leftarrow> copy_slice dst 0 2 (to_le16 addr);
                   d \<leftarrow> copy_slice d 2 total data;
                   Some (d, Some total) })"

text \<open>\<open>for (b, x) in slice.iter_mut().zip(xs)\<close> with \<open>*b = x\<close>, and the loop over the
  fixed-size chunks of a slice.\<close>

fun zip_write :: "'a list \<Rightarrow> 'a list \<Rightarrow> 'a list" where
  "zip_write (b # bs) (x # xs) = x # zip_write bs xs"
| "zip_write bs [] = bs"
| "zip_write [] (x # xs) = []"

definition write_ids :: "bytes \<Rightarrow> nat \<Rightarrow> nat \<Rightarrow> u8 list \<Rightarrow> bytes option" where
  "write_ids dst lo hi ids =
     do { w \<leftarrow> get_range dst lo hi; Some (take lo dst @ zip_write w ids @ drop hi dst) }"

definition build_gread_uniform :: "bytes \<Rightarrow> u16 \<Rightarrow> u16 \<Rightarrow> u8 list \<Rightarrow> built" where
  "build_gread_uniform dst addr count ids =
     (let total = 4 + length ids
      in if ids = [] \<or> cap dst < total then Some (dst, None)
         else do { (d, r) \<leftarrow> build_read dst addr count;
                   case r of None \<Rightarrow> Some (d, None)
                   | Some _ \<Rightarrow> do { d \<leftarrow> write_ids d 4 total ids; Some (d, Some total) } })"

fun chunks5_write :: "bytes \<Rightarrow> GreadTarget list \<Rightarrow> bytes" where
  "chunks5_write (c0 # c1 # c2 # c3 # c4 # cs) (t # ts) =
     GreadTarget_id t # to_le16 (GreadTarget_addr t) @ to_le16 (GreadTarget_count t) @ chunks5_write cs ts"
| "chunks5_write cs _ = cs"

definition build_gread_per_target :: "bytes \<Rightarrow> GreadTarget list \<Rightarrow> built" where
  "build_gread_per_target dst targets =
     (let total = 5 * length targets
      in if targets = [] \<or> cap dst < total then Some (dst, None)
         else do { w \<leftarrow> get_range dst 0 total;
                   Some (chunks5_write w targets @ drop total dst, Some total) })"

definition build_gread_profile_uniform :: "bytes \<Rightarrow> u8 \<Rightarrow> u8 list \<Rightarrow> built" where
  "build_gread_profile_uniform dst slot ids =
     (let total = 1 + length ids
      in if ids = [] \<or> cap dst < total then Some (dst, None)
         else do { d \<leftarrow> put_at dst 0 slot;
                   d \<leftarrow> write_ids d 1 total ids;
                   Some (d, Some total) })"

fun chunks2_write :: "bytes \<Rightarrow> GreadProfileTarget list \<Rightarrow> bytes" where
  "chunks2_write (c0 # c1 # cs) (t # ts) =
     GreadProfileTarget_id t # GreadProfileTarget_slot t # chunks2_write cs ts"
| "chunks2_write cs _ = cs"

definition build_gread_profile_per_target :: "bytes \<Rightarrow> GreadProfileTarget list \<Rightarrow> built" where
  "build_gread_profile_per_target dst targets =
     (let total = 2 * length targets
      in if targets = [] \<or> cap dst < total then Some (dst, None)
         else do { w \<leftarrow> get_range dst 0 total;
                   Some (chunks2_write w targets @ drop total dst, Some total) })"

section \<open>Incremental GWRITE builders\<close>

record GwriteUniformB =
  gwu_dst :: bytes
  gwu_len :: nat
  gwu_count :: u8

definition GwriteUniformB_new :: "bytes \<Rightarrow> u16 \<Rightarrow> u8 \<Rightarrow> GwriteUniformB option option" where
  "GwriteUniformB_new dst addr count =
     (if count = 0 \<or> cap dst < 3 then Some None
      else do { d \<leftarrow> copy_slice dst 0 2 (to_le16 addr);
                d \<leftarrow> put_at d 2 count;
                Some (Some \<lparr>gwu_dst = d, gwu_len = 3, gwu_count = count\<rparr>) })"

definition GwriteUniformB_push :: "GwriteUniformB \<Rightarrow> u8 \<Rightarrow> bytes \<Rightarrow> (GwriteUniformB \<times> unit option) option" where
  "GwriteUniformB_push b i data =
     (if length data \<noteq> unat (gwu_count b) then Some (b, None)
      else let end = gwu_len b + 1 + length data
           in if cap (gwu_dst b) < end then Some (b, None)
              else do { d \<leftarrow> put_at (gwu_dst b) (gwu_len b) i;
                        d \<leftarrow> copy_slice d (gwu_len b + 1) end data;
                        Some (b\<lparr>gwu_dst := d, gwu_len := end\<rparr>, Some ()) })"

definition GwriteUniformB_finish :: "GwriteUniformB \<Rightarrow> nat option" where
  "GwriteUniformB_finish b = (if gwu_len b > 3 then Some (gwu_len b) else None)"

record GwritePerTargetB =
  gwp_dst :: bytes
  gwp_len :: nat

definition GwritePerTargetB_new :: "bytes \<Rightarrow> GwritePerTargetB" where
  "GwritePerTargetB_new dst = \<lparr>gwp_dst = dst, gwp_len = 0\<rparr>"

definition GwritePerTargetB_push ::
  "GwritePerTargetB \<Rightarrow> u8 \<Rightarrow> u16 \<Rightarrow> bytes \<Rightarrow> (GwritePerTargetB \<times> unit option) option" where
  "GwritePerTargetB_push b i addr data =
     (if length data > 255 then Some (b, None)
      else let end = gwp_len b + 4 + length data
           in if cap (gwp_dst b) < end then Some (b, None)
              else do { e \<leftarrow> get_range (gwp_dst b) (gwp_len b) end;
                        e \<leftarrow> put_at e 0 i;
                        e \<leftarrow> copy_slice e 1 3 (to_le16 addr);
                        e \<leftarrow> put_at e 3 (of_nat (length data));
                        e \<leftarrow> copy_slice e 4 (length e) data;
                        Some (b\<lparr>gwp_dst := take (gwp_len b) (gwp_dst b) @ e @ drop end (gwp_dst b),
                                gwp_len := end\<rparr>, Some ()) })"

definition GwritePerTargetB_finish :: "GwritePerTargetB \<Rightarrow> nat option" where
  "GwritePerTargetB_finish b = (if gwp_len b > 0 then Some (gwp_len b) else None)"

section \<open>MGMT builders\<close>

definition build_mgmt :: "bytes \<Rightarrow> MgmtOp \<Rightarrow> built" where
  "build_mgmt dst m =
     (if cap dst < 1 then Some (dst, None)
      else do { d \<leftarrow> put_at dst 0 (MgmtOp_u8 m); Some (d, Some 1) })"

definition build_mgmt_enum :: "bytes \<Rightarrow> u8 \<Rightarrow> bytes \<Rightarrow> built" where
  "build_mgmt_enum dst prefix_len prefix =
     (if prefix_len > of_nat (UID_LEN * 8) then Some (dst, None)
      else let n = unat (u8_div_ceil prefix_len 8); total = 2 + n
           in if cap dst < total then Some (dst, None)
              else do { d \<leftarrow> put_at dst 0 (MgmtOp_u8 MgmtOp_Enum);
                        d \<leftarrow> put_at d 1 prefix_len;
                        p \<leftarrow> get_range prefix 0 n;
                        d \<leftarrow> copy_slice d 2 total p;
                        Some (d, Some total) })"

definition build_mgmt_assign :: "bytes \<Rightarrow> bytes \<Rightarrow> u8 \<Rightarrow> built" where
  "build_mgmt_assign dst uid new_id =
     (let total = 2 + UID_LEN
      in if cap dst < total then Some (dst, None)
         else do { d \<leftarrow> put_at dst 0 (MgmtOp_u8 MgmtOp_Assign);
                   d \<leftarrow> copy_slice d 1 (1 + UID_LEN) uid;
                   d \<leftarrow> put_at d (1 + UID_LEN) new_id;
                   Some (d, Some total) })"

definition build_mgmt_cal :: "bytes \<Rightarrow> u16 \<Rightarrow> u8 \<Rightarrow> built" where
  "build_mgmt_cal dst gap_us gaps =
     (if gap_us = 0 \<or> gaps = 0 \<or> cap dst < 4 then Some (dst, None)
      else do { d \<leftarrow> put_at dst 0 (MgmtOp_u8 MgmtOp_Cal);
                d \<leftarrow> copy_slice d 1 3 (to_le16 gap_us);
                d \<leftarrow> put_at d 3 gaps;
                Some (d, Some 4) })"

section \<open>Writing step by step\<close>

text \<open>A write at the end of the written prefix extends the prefix.\<close>

lemma copy_slice_extend:
  "length w = lo \<Longrightarrow> hi = lo + length src \<Longrightarrow> hi \<le> length dst \<Longrightarrow> length dst = n \<Longrightarrow>
   copy_slice (w @ drop lo dst) lo hi src = Some ((w @ src) @ drop hi dst)"
  by (subst copy_slice_ok) (auto simp: add.commute)

lemma put_at_extend:
  "length w = i \<Longrightarrow> i < length dst \<Longrightarrow> put_at (w @ drop i dst) i v = Some ((w @ [v]) @ drop (Suc i) dst)"
  by (subst put_at_ok) auto

lemma copy_slice_0:
  "hi = length src \<Longrightarrow> hi \<le> length dst \<Longrightarrow> copy_slice dst 0 hi src = Some (src @ drop hi dst)"
  by (subst copy_slice_ok) auto

lemma put_at_0: "0 < length dst \<Longrightarrow> put_at dst 0 v = Some ([v] @ drop 1 dst)"
  by (subst put_at_ok) auto

lemma zip_write_full: "length w = length xs \<Longrightarrow> zip_write w xs = xs"
  by (induction w xs rule: zip_write.induct) auto

lemma write_ids_extend:
  "length w = lo \<Longrightarrow> hi = lo + length ids \<Longrightarrow> hi \<le> length dst \<Longrightarrow>
   write_ids (w @ drop lo dst) lo hi ids = Some ((w @ ids) @ drop hi dst)"
  by (auto simp: write_ids_def get_range_def zip_write_full add.commute)

lemma cap_le: "n \<le> cap dst \<longleftrightarrow> n \<le> length dst \<and> n \<le> 252"
  by (simp add: cap_def MAX_PAYLOAD_def)

lemma cap_less: "cap dst < n \<longleftrightarrow> \<not> (n \<le> length dst \<and> n \<le> 252)"
  using cap_le [of n dst] by linarith

lemma cap_eq_0 [simp]: "cap dst = 0 \<longleftrightarrow> dst = []"
  by (auto simp: cap_def MAX_PAYLOAD_def min_def)

lemma le_capD: "n \<le> cap dst \<Longrightarrow> n \<le> length dst \<and> n \<le> 252"
  by (simp add: cap_le)

lemma cap_lessI: "cap dst < n \<longleftrightarrow> \<not> n \<le> cap dst"
  by linarith

section \<open>The builder contract\<close>

text \<open>What a builder returns when it writes \<open>l\<close> if \<open>g\<close> holds and \<open>l\<close> fits.\<close>

definition emitted :: "bytes \<Rightarrow> bool \<Rightarrow> bytes \<Rightarrow> built" where
  "emitted dst g l =
     Some (if g \<and> length l \<le> cap dst then (l @ drop (length l) dst, Some (length l)) else (dst, None))"

locale payload_builder =
  fixes build :: "bytes \<Rightarrow> 'a \<Rightarrow> built"
    and layout :: "'a \<Rightarrow> bytes"
    and typed :: "'a \<Rightarrow> bool"
    and ok :: "'a \<Rightarrow> bool"
  assumes build: "typed a \<Longrightarrow> build dst a = emitted dst (ok a) (layout a)"
begin

lemma roundtrip:
  assumes "typed a" and parsed: "\<And>f. ok a \<Longrightarrow> FrameBytes_bytes f = layout a \<Longrightarrow> P f"
  shows "(\<exists>d n. build dst a = Some (d, Some n) \<and> n \<le> 252 \<and> length d = length dst
          \<and> drop n d = drop n dst \<and> P (FrameBytes_from (take n d)))
    \<or> build dst a = Some (dst, None) \<and> (ok a \<longrightarrow> cap dst < length (layout a))"
  using assms by (auto simp: build emitted_def FrameBytes_from_def dest: le_capD)

end

text \<open>The write sequences of the builders, run from the start of the buffer.\<close>

lemma build_read_eq: "build_read dst a c = emitted dst True (to_le16 a @ to_le16 c)"
  using copy_slice_0 [of 2 "to_le16 a" dst] copy_slice_extend [of "to_le16 a" 2 4 "to_le16 c" dst]
  by (auto simp: build_read_def emitted_def cap_less cap_le)

lemma build_read_profile_eq: "build_read_profile dst s = emitted dst True [s]"
  by (cases dst) (auto simp: build_read_profile_def emitted_def put_at_def Suc_le_eq)

lemma build_write_eq: "build_write dst a d = emitted dst True (to_le16 a @ d)"
  using copy_slice_0 [of 2 "to_le16 a" dst] copy_slice_extend [of "to_le16 a" 2 "2 + length d" d dst]
  by (auto simp: build_write_def emitted_def Let_def cap_less cap_le)

lemma build_gread_uniform_eq:
  "build_gread_uniform dst a c is = emitted dst (is \<noteq> []) (to_le16 a @ to_le16 c @ is)"
proof (cases "is \<noteq> [] \<and> 4 + length is \<le> cap dst")
  case True
  have l: "length (to_le16 a @ to_le16 c @ is) = 4 + length is" by simp
  have "build_read dst a c = Some ((to_le16 a @ to_le16 c) @ drop 4 dst, Some 4)"
    using True by (simp add: build_read_eq emitted_def)
  moreover have "write_ids ((to_le16 a @ to_le16 c) @ drop 4 dst) 4 (4 + length is) is
      = Some (((to_le16 a @ to_le16 c) @ is) @ drop (4 + length is) dst)"
    using True by (intro write_ids_extend) (auto dest: le_capD)
  ultimately show ?thesis using True
    unfolding build_gread_uniform_def emitted_def l Let_def cap_lessI by simp
qed (auto simp: build_gread_uniform_def emitted_def Let_def cap_lessI)

lemma chunks5_write_full: "length w = 5 * length ts \<Longrightarrow> chunks5_write w ts = concat (map gread_enc ts)"
proof (induction ts arbitrary: w)
  case (Cons t ts)
  then have "length w = Suc (Suc (Suc (Suc (Suc (5 * length ts)))))" by simp
  then obtain c0 c1 c2 c3 c4 cs where "w = c0 # c1 # c2 # c3 # c4 # cs" "length cs = 5 * length ts"
    by (auto simp: length_Suc_conv)
  with Cons.IH [of cs] show ?case by (simp add: gread_enc_def)
qed simp

lemma chunks2_write_full: "length w = 2 * length ts \<Longrightarrow> chunks2_write w ts = concat (map gprofile_enc ts)"
proof (induction ts arbitrary: w)
  case (Cons t ts)
  then have "length w = Suc (Suc (2 * length ts))" by simp
  then obtain c0 c1 cs where "w = c0 # c1 # cs" "length cs = 2 * length ts"
    by (auto simp: length_Suc_conv)
  with Cons.IH [of cs] show ?case by (simp add: gprofile_enc_def)
qed simp

lemma length_gread_enc [simp]: "length (concat (map gread_enc ts)) = 5 * length ts"
  by (simp add: concat_gread_length)

lemma length_gprofile_enc [simp]: "length (concat (map gprofile_enc ts)) = 2 * length ts"
  using length_concat_const [of ts gprofile_enc 2] by (simp add: gprofile_enc_def)

lemma build_gread_per_target_eq:
  "build_gread_per_target dst ts = emitted dst (ts \<noteq> []) (concat (map gread_enc ts))"
  by (auto simp: build_gread_per_target_def emitted_def Let_def cap_lessI cap_le get_range_def chunks5_write_full
      simp del: length_concat)

lemma build_gread_profile_per_target_eq:
  "build_gread_profile_per_target dst ts = emitted dst (ts \<noteq> []) (concat (map gprofile_enc ts))"
  by (auto simp: build_gread_profile_per_target_def emitted_def Let_def cap_lessI cap_le get_range_def chunks2_write_full
      simp del: length_concat)

lemma build_gread_profile_uniform_eq:
  "build_gread_profile_uniform dst s is = emitted dst (is \<noteq> []) (s # is)"
proof (cases "is \<noteq> [] \<and> 1 + length is \<le> cap dst")
  case True
  then have "put_at dst 0 s = Some ([s] @ drop 1 dst)" by (intro put_at_0) (auto simp: cap_le)
  moreover have "write_ids ([s] @ drop 1 dst) 1 (1 + length is) is = Some (([s] @ is) @ drop (1 + length is) dst)"
    using True by (intro write_ids_extend) (auto simp: cap_le)
  ultimately show ?thesis using True
    by (simp add: build_gread_profile_uniform_def emitted_def Let_def cap_lessI)
qed (auto simp: build_gread_profile_uniform_def emitted_def Let_def cap_lessI)

lemma build_mgmt_eq: "build_mgmt dst m = emitted dst True [MgmtOp_u8 m]"
  by (cases dst) (auto simp: build_mgmt_def emitted_def put_at_def Suc_le_eq)

lemma build_mgmt_enum_eq:
  assumes "length p = 16"
  shows "build_mgmt_enum dst k p =
    emitted dst (unat k \<le> 128) (MgmtOp_u8 MgmtOp_Enum # k # take ((unat k + 7) div 8) p)"
proof -
  define n where "n = (unat k + 7) div 8"
  have m: "k > of_nat (UID_LEN * 8) \<longleftrightarrow> \<not> unat k \<le> 128" by (simp add: UID_LEN_def word_less_nat_alt not_le)
  show ?thesis
  proof (cases "unat k \<le> 128")
    case True
    then have n: "n \<le> 16" unfolding n_def by linarith
    then have l: "length (MgmtOp_u8 MgmtOp_Enum # k # take n p) = 2 + n" using assms by simp
    show ?thesis
    proof (cases "2 + n \<le> cap dst")
      case fits: True
      then have d: "2 + n \<le> length dst" by (simp add: cap_le)
      let ?e = "MgmtOp_u8 MgmtOp_Enum"
      have "put_at dst 0 ?e = Some ([?e] @ drop 1 dst)" using d by (intro put_at_0) linarith
      moreover have "put_at ([?e] @ drop 1 dst) 1 k = Some (([?e] @ [k]) @ drop (Suc 1) dst)"
        using d by (intro put_at_extend) auto
      moreover have "copy_slice (([?e] @ [k]) @ drop (Suc 1) dst) 2 (2 + n) (take n p) = Some ((([?e] @ [k]) @ take n p) @ drop (2 + n) dst)"
        using copy_slice_extend [of "[?e] @ [k]" 2 "2 + n" "take n p" dst] d n assms by (simp add: numeral_2_eq_2)
      moreover have "get_range p 0 n = Some (take n p)" using n assms by (simp add: get_range_def)
      ultimately show ?thesis using True fits
        unfolding build_mgmt_enum_def emitted_def m unat_div_ceil_8 n_def [symmetric] Let_def l cap_lessI by simp
    next
      case False
      with True show ?thesis
        unfolding build_mgmt_enum_def emitted_def m unat_div_ceil_8 n_def [symmetric] Let_def l cap_lessI by simp
    qed
  next
    case False
    then show ?thesis unfolding build_mgmt_enum_def emitted_def m by simp
  qed
qed

lemma build_mgmt_assign_eq:
  assumes "length u = 16"
  shows "build_mgmt_assign dst u i = emitted dst True (MgmtOp_u8 MgmtOp_Assign # u @ [i])"
proof -
  let ?e = "MgmtOp_u8 MgmtOp_Assign"
  have l: "length (?e # u @ [i]) = 18" using assms by simp
  show ?thesis
  proof (cases "18 \<le> cap dst")
    case fits: True
    then have d: "18 \<le> length dst" by (simp add: cap_le)
    have "put_at dst 0 ?e = Some ([?e] @ drop 1 dst)" using d by (intro put_at_0) linarith
    moreover have "copy_slice ([?e] @ drop 1 dst) 1 17 u = Some (([?e] @ u) @ drop 17 dst)"
      using d assms by (intro copy_slice_extend) auto
    moreover have "put_at (([?e] @ u) @ drop 17 dst) 17 i = Some ((([?e] @ u) @ [i]) @ drop (Suc 17) dst)"
      using d assms by (intro put_at_extend) auto
    ultimately show ?thesis using fits
      unfolding build_mgmt_assign_def emitted_def Let_def l cap_lessI UID_LEN_def by simp
  next
    case False
    then show ?thesis
      unfolding build_mgmt_assign_def emitted_def Let_def l cap_lessI UID_LEN_def by simp
  qed
qed

lemma build_mgmt_cal_eq:
  "build_mgmt_cal dst g n = emitted dst (g \<noteq> 0 \<and> n \<noteq> 0) (MgmtOp_u8 MgmtOp_Cal # to_le16 g @ [n])"
proof (cases "g \<noteq> 0 \<and> n \<noteq> 0 \<and> 4 \<le> cap dst")
  case True
  let ?e = "MgmtOp_u8 MgmtOp_Cal"
  have d: "4 \<le> length dst" using True by (simp add: cap_le)
  have "put_at dst 0 ?e = Some ([?e] @ drop 1 dst)" using d by (intro put_at_0) linarith
  moreover have "copy_slice ([?e] @ drop 1 dst) 1 3 (to_le16 g) = Some (([?e] @ to_le16 g) @ drop 3 dst)"
    using d by (intro copy_slice_extend) auto
  moreover have "put_at (([?e] @ to_le16 g) @ drop 3 dst) 3 n = Some ((([?e] @ to_le16 g) @ [n]) @ drop (Suc 3) dst)"
    using d by (intro put_at_extend) auto
  ultimately show ?thesis using True
    by (simp add: build_mgmt_cal_def emitted_def cap_lessI)
qed (auto simp: build_mgmt_cal_def emitted_def cap_lessI)

lemmas build_eqs = build_read_eq build_read_profile_eq build_write_eq build_gread_uniform_eq
  build_gread_per_target_eq build_gread_profile_uniform_eq build_gread_profile_per_target_eq
  build_mgmt_eq build_mgmt_enum_eq build_mgmt_assign_eq build_mgmt_cal_eq

interpretation b_read: payload_builder "\<lambda>dst (a, c). build_read dst a c"
    "\<lambda>(a, c). to_le16 a @ to_le16 c" "\<lambda>_. True" "\<lambda>_. True"
  by unfold_locales (auto simp: build_eqs)

interpretation b_read_profile: payload_builder build_read_profile "\<lambda>s. [s]" "\<lambda>_. True" "\<lambda>_. True"
  by unfold_locales (auto simp: build_eqs)

interpretation b_write: payload_builder "\<lambda>dst (a, d). build_write dst a d"
    "\<lambda>(a, d). to_le16 a @ d" "\<lambda>_. True" "\<lambda>_. True"
  by unfold_locales (auto simp: build_eqs)

interpretation b_gread_u: payload_builder "\<lambda>dst (a, c, is). build_gread_uniform dst a c is"
    "\<lambda>(a, c, is). to_le16 a @ to_le16 c @ is" "\<lambda>_. True" "\<lambda>(a, c, is). is \<noteq> []"
  by unfold_locales (auto simp: build_eqs)

interpretation b_gread_pt: payload_builder build_gread_per_target
    "\<lambda>ts. concat (map gread_enc ts)" "\<lambda>_. True" "\<lambda>ts. ts \<noteq> []"
  by unfold_locales (auto simp: build_eqs)

interpretation b_gprofile_u: payload_builder "\<lambda>dst (s, is). build_gread_profile_uniform dst s is"
    "\<lambda>(s, is). s # is" "\<lambda>_. True" "\<lambda>(s, is). is \<noteq> []"
  by unfold_locales (auto simp: build_eqs)

interpretation b_gprofile_pt: payload_builder build_gread_profile_per_target
    "\<lambda>ts. concat (map gprofile_enc ts)" "\<lambda>_. True" "\<lambda>ts. ts \<noteq> []"
  by unfold_locales (auto simp: build_eqs)

interpretation b_mgmt: payload_builder build_mgmt "\<lambda>m. [MgmtOp_u8 m]" "\<lambda>_. True" "\<lambda>_. True"
  by unfold_locales (auto simp: build_eqs)

interpretation b_enum: payload_builder "\<lambda>dst (k, p). build_mgmt_enum dst k p"
    "\<lambda>(k, p). MgmtOp_u8 MgmtOp_Enum # k # take ((unat k + 7) div 8) p"
    "\<lambda>(k, p). length p = 16" "\<lambda>(k, p). unat k \<le> 128"
  by unfold_locales (auto simp: build_eqs)

interpretation b_assign: payload_builder "\<lambda>dst (u, i). build_mgmt_assign dst u i"
    "\<lambda>(u, i). MgmtOp_u8 MgmtOp_Assign # u @ [i]" "\<lambda>(u, i). length u = 16" "\<lambda>_. True"
  by unfold_locales (auto simp: build_eqs)

interpretation b_cal: payload_builder "\<lambda>dst (g, n). build_mgmt_cal dst g n"
    "\<lambda>(g, n). MgmtOp_u8 MgmtOp_Cal # to_le16 g @ [n]" "\<lambda>_. True" "\<lambda>(g, n). g \<noteq> 0 \<and> n \<noteq> 0"
  by unfold_locales (auto simp: build_eqs)

section \<open>Round trips through the parsers\<close>

text \<open>Building a WRITE never panics; either the payload does not fit and the buffer is left alone,
  or the parser reads back exactly the address and the data, the rest of the buffer untouched.\<close>

lemma build_write_roundtrip:
  "(\<exists>d n r. build_write dst a w = Some (d, Some n) \<and> n \<le> 252 \<and> drop n d = drop n dst
      \<and> WriteReq_parse (FrameBytes_from (take n d)) = Some r
      \<and> WriteReq_addr r = a \<and> FrameBytes_bytes (WriteReq_data r) = w)
   \<or> build_write dst a w = Some (dst, None) \<and> cap dst < 2 + length w"
  using b_write.roundtrip [of "(a, w)"
      "\<lambda>f. \<exists>r. WriteReq_parse f = Some r \<and> WriteReq_addr r = a \<and> FrameBytes_bytes (WriteReq_data r) = w" dst]
  by (auto simp: WriteReq_parse_iff)

lemma build_read_roundtrip:
  "(\<exists>d n. build_read dst a c = Some (d, Some n) \<and> n \<le> 252 \<and> drop n d = drop n dst
      \<and> ReadReq_parse (FrameBytes_from (take n d)) = Some \<lparr>ReadReq_addr = a, ReadReq_count = c\<rparr>)
   \<or> build_read dst a c = Some (dst, None) \<and> cap dst < 4"
  using b_read.roundtrip [of "(a, c)" "\<lambda>f. ReadReq_parse f = Some \<lparr>ReadReq_addr = a, ReadReq_count = c\<rparr>" dst]
  by (auto simp: ReadReq_parse_iff)

text \<open>Building a PER_TARGET GREAD never panics; it refuses exactly the empty list and what does
  not fit, and otherwise the parser accepts the payload and its iterator yields the targets back.\<close>

lemma build_gread_per_target_roundtrip:
  "(\<exists>d n f. build_gread_per_target dst ts = Some (d, Some n) \<and> n \<le> 252 \<and> drop n d = drop n dst
      \<and> GreadPerTarget_parse (FrameBytes_from (take n d)) = Some f \<and> GreadPerTarget_iter f = ts)
   \<or> build_gread_per_target dst ts = Some (dst, None) \<and> (ts = [] \<or> cap dst < 5 * length ts)"
  using b_gread_pt.roundtrip [of ts "\<lambda>f. \<exists>g. GreadPerTarget_parse f = Some g \<and> GreadPerTarget_iter g = ts" dst]
  by (auto simp: GreadPerTarget_language simp del: length_concat)

lemma enum_args:
  assumes "FrameBytes_bytes f = MgmtOp_u8 MgmtOp_Enum # k # p"
  shows "\<exists>m. MgmtReq_parse f = Some m \<and> MgmtReq_op m = MgmtOp_Enum \<and> FrameBytes_bytes (MgmtReq_args m) = k # p"
  using MgmtReq_parse_iff [of f MgmtOp_Enum "k # p"] assms by blast

text \<open>Building a MGMT ENUM never panics; it refuses exactly prefixes over 128 bits and what does not
  fit, and otherwise the request parses back to the same bit count with the prefix bytes that
  carry those bits, zero-filled.\<close>

lemma build_mgmt_enum_roundtrip:
  assumes "length p = 16"
  shows "(\<exists>d n m. build_mgmt_enum dst k p = Some (d, Some n) \<and> drop n d = drop n dst
      \<and> MgmtReq_parse (FrameBytes_from (take n d)) = Some m \<and> MgmtReq_op m = MgmtOp_Enum
      \<and> EnumReq_parse (MgmtReq_args m) =
          Some \<lparr>EnumReq_prefix_len = k,
                EnumReq_prefix = take ((unat k + 7) div 8) p @ replicate (16 - (unat k + 7) div 8) 0\<rparr>)
   \<or> build_mgmt_enum dst k p = Some (dst, None) \<and> (128 < unat k \<or> cap dst < 2 + (unat k + 7) div 8)"
proof -
  let ?n = "(unat k + 7) div 8"
  let ?r = "\<lparr>EnumReq_prefix_len = k, EnumReq_prefix = take ?n p @ replicate (16 - ?n) 0\<rparr>"
  let ?P = "\<lambda>f. \<exists>m. MgmtReq_parse f = Some m \<and> MgmtReq_op m = MgmtOp_Enum \<and> EnumReq_parse (MgmtReq_args m) = Some ?r"
  have l: "length (take ?n p) = ?n" if "unat k \<le> 128"
    using that assms div_le_mono [of "unat k + 7" 135 8] by simp
  have "?P f" if k: "unat k \<le> 128" and f: "FrameBytes_bytes f = MgmtOp_u8 MgmtOp_Enum # k # take ?n p" for f
    using enum_args [OF f] k l [OF k] by (auto simp: EnumReq_parse_iff)
  then show ?thesis
    using b_enum.roundtrip [of "(k, p)" ?P dst] assms l by (auto simp: not_le)
qed

lemma build_mgmt_enum_roundtrip_example:
  "\<exists>d n. build_mgmt_enum (replicate 8 0) 12 (replicate 16 0xA5) = Some (d, Some n)"
  using build_mgmt_enum_roundtrip [of "replicate 16 0xA5" "replicate 8 0" 12]
  by (auto simp: cap_def MAX_PAYLOAD_def)

section \<open>The GWRITE builders as state machines\<close>

text \<open>The states a builder reaches from \<open>new\<close> by any sequence of pushes, with the entries
  whose push succeeded; a refused push leaves both alone.\<close>

inductive gwu_run :: "u16 \<Rightarrow> u8 \<Rightarrow> GwriteUniformB \<Rightarrow> (u8 \<times> bytes) list \<Rightarrow> bool" for a c where
  gwu_new: "GwriteUniformB_new dst a c = Some (Some b) \<Longrightarrow> gwu_run a c b []"
| gwu_pushed: "gwu_run a c b xs \<Longrightarrow> GwriteUniformB_push b i d = Some (b', Some ()) \<Longrightarrow> gwu_run a c b' (xs @ [(i, d)])"
| gwu_refused: "gwu_run a c b xs \<Longrightarrow> GwriteUniformB_push b i d = Some (b', None) \<Longrightarrow> gwu_run a c b' xs"

inductive gwp_run :: "GwritePerTargetB \<Rightarrow> (u8 \<times> u16 \<times> bytes) list \<Rightarrow> bool" where
  gwp_new: "gwp_run (GwritePerTargetB_new dst) []"
| gwp_pushed: "gwp_run b xs \<Longrightarrow> GwritePerTargetB_push b i a d = Some (b', Some ()) \<Longrightarrow> gwp_run b' (xs @ [(i, a, d)])"
| gwp_refused: "gwp_run b xs \<Longrightarrow> GwritePerTargetB_push b i a d = Some (b', None) \<Longrightarrow> gwp_run b' xs"

text \<open>The invariant: the written prefix is the head and the encodings of the pushed entries.\<close>

definition gwu_inv :: "u16 \<Rightarrow> u8 \<Rightarrow> GwriteUniformB \<Rightarrow> (u8 \<times> bytes) list \<Rightarrow> bool" where
  "gwu_inv a c b xs \<longleftrightarrow>
     (\<exists>rest. gwu_dst b = (to_le16 a @ c # concat (map gwrite_u_enc xs)) @ rest)
     \<and> gwu_len b = length (to_le16 a @ c # concat (map gwrite_u_enc xs)) \<and> gwu_len b \<le> 252
     \<and> gwu_count b = c \<and> c \<noteq> 0 \<and> list_all (\<lambda>(i, d). length d = unat c) xs"

definition gwp_inv :: "GwritePerTargetB \<Rightarrow> (u8 \<times> u16 \<times> bytes) list \<Rightarrow> bool" where
  "gwp_inv b xs \<longleftrightarrow>
     (\<exists>rest. gwp_dst b = concat (map gwrite_pt_enc xs) @ rest)
     \<and> gwp_len b = length (concat (map gwrite_pt_enc xs)) \<and> gwp_len b \<le> 252
     \<and> list_all gwrite_pt_ok xs"

lemma put_at_append: "put_at (w @ r # rs) (length w) v = Some (w @ v # rs)"
  by (simp add: put_at_def)

lemma copy_slice_append:
  assumes "length m = length src" "lo = length w" "hi = length w + length src"
  shows "copy_slice (w @ m @ rs) lo hi src = Some (w @ src @ rs)"
  using copy_slice_ok [of lo src hi "w @ m @ rs"] assms by simp

lemma gwu_new_inv: "GwriteUniformB_new dst a c = Some (Some b) \<Longrightarrow> gwu_inv a c b []"
proof -
  assume new: "GwriteUniformB_new dst a c = Some (Some b)"
  have g: "\<not> (c = 0 \<or> cap dst < 3)"
  proof
    assume "c = 0 \<or> cap dst < 3"
    with new show False by (simp add: GwriteUniformB_new_def)
  qed
  then have "3 \<le> length dst" by (simp add: cap_less)
  then obtain x y z rest where dst: "dst = [x, y] @ z # rest"
    by (auto simp: Suc_le_length_iff numeral_3_eq_3)
  then have "copy_slice dst 0 2 (to_le16 a) = Some (to_le16 a @ z # rest)"
    by (simp add: copy_slice_def)
  moreover have "put_at (to_le16 a @ z # rest) 2 c = Some (to_le16 a @ c # rest)"
    using put_at_append [of "to_le16 a" z rest c] by simp
  ultimately have "b = \<lparr>gwu_dst = to_le16 a @ c # rest, gwu_len = 3, gwu_count = c\<rparr>"
    using new g by (simp add: GwriteUniformB_new_def)
  with g show ?thesis by (simp add: gwu_inv_def)
qed

lemma split_Cons_at:
  assumes "Suc n \<le> length rest"
  shows "\<exists>r m rs. rest = r # m @ rs \<and> length m = n"
proof -
  obtain r ys where r: "rest = r # ys" "n \<le> length ys" using assms by (cases rest) auto
  then show ?thesis
    by (intro exI [of _ r] exI [of _ "take n ys"] exI [of _ "drop n ys"]) simp
qed

lemma gwu_push_cases:
  assumes inv: "gwu_inv a c b xs"
  shows "GwriteUniformB_push b i d = Some (b, None)
    \<or> (\<exists>b'. GwriteUniformB_push b i d = Some (b', Some ()) \<and> gwu_inv a c b' (xs @ [(i, d)]))"
proof (cases "length d \<noteq> unat c \<or> cap (gwu_dst b) < gwu_len b + 1 + length d")
  case True
  then show ?thesis using inv by (auto simp: GwriteUniformB_push_def gwu_inv_def Let_def)
next
  case False
  define w where "w = to_le16 a @ c # concat (map gwrite_u_enc xs)"
  from inv obtain rest where b: "gwu_dst b = w @ rest" "gwu_len b = length w" by (auto simp: gwu_inv_def w_def)
  from False have f: "length d = unat c" "Suc (length d) \<le> length rest" "length w + Suc (length d) \<le> 252"
    using b by (auto simp: cap_less)
  then obtain r0 m rs where r: "rest = r0 # m @ rs" "length m = length d"
    using split_Cons_at by blast
  have "put_at (gwu_dst b) (gwu_len b) i = Some (w @ i # m @ rs)"
    using b r put_at_append by metis
  moreover have "copy_slice (w @ i # m @ rs) (gwu_len b + 1) (gwu_len b + 1 + length d) d = Some (w @ i # d @ rs)"
    using copy_slice_append [of m d "gwu_len b + 1" "w @ [i]" "gwu_len b + 1 + length d" rs] b r by simp
  ultimately have p: "GwriteUniformB_push b i d =
      Some (b\<lparr>gwu_dst := w @ i # d @ rs, gwu_len := gwu_len b + 1 + length d\<rparr>, Some ())"
    using False inv by (auto simp: GwriteUniformB_push_def gwu_inv_def Let_def)
  have "gwu_inv a c (b\<lparr>gwu_dst := w @ i # d @ rs, gwu_len := gwu_len b + 1 + length d\<rparr>) (xs @ [(i, d)])"
    using inv b f unfolding gwu_inv_def w_def by (auto simp: gwrite_u_enc_def)
  with p show ?thesis by blast
qed

lemma gwu_run_inv: "gwu_run a c b xs \<Longrightarrow> gwu_inv a c b xs"
proof (induction rule: gwu_run.induct)
  case gwu_new
  then show ?case by (rule gwu_new_inv)
next
  case (gwu_pushed b xs i d b')
  then show ?case using gwu_push_cases [OF gwu_pushed.IH, of i d] by auto
next
  case (gwu_refused b xs i d b')
  then show ?case using gwu_push_cases [OF gwu_refused.IH, of i d] by auto
qed

text \<open>Property C34: whatever sequence of pushes a uniform GWRITE builder sees, accepted or refused, no push
  panics, and when it finishes with a length the parser accepts the written prefix and yields
  back the head and exactly the accepted entries in order; it finishes with none only when no
  push was accepted.\<close>

theorem gwrite_uniform_builder_roundtrip:
  assumes "gwu_run a c b xs"
  shows "(\<exists>b' r. GwriteUniformB_push b i d = Some (b', r)) \<and>
    (case GwriteUniformB_finish b of
       None \<Rightarrow> xs = []
     | Some n \<Rightarrow> \<exists>g. GwriteUniform_parse (FrameBytes_from (take n (gwu_dst b))) = Some g
         \<and> GwriteUniform_addr g = a \<and> GwriteUniform_count g = c
         \<and> map (\<lambda>(i, d). (i, FrameBytes_bytes d)) (GwriteUniform_iter g) = xs)"
proof -
  have inv: "gwu_inv a c b xs" using gwu_run_inv assms .
  then have len: "gwu_len b > 3 \<longleftrightarrow> xs \<noteq> []"
    by (cases xs) (auto simp: gwu_inv_def gwrite_u_enc_def)
  from inv have "take (gwu_len b) (gwu_dst b) = to_le16 a @ c # concat (map gwrite_u_enc xs)"
    by (auto simp: gwu_inv_def)
  then have "FrameBytes_bytes (FrameBytes_from (take (gwu_len b) (gwu_dst b))) = to_le16 a @ c # concat (map gwrite_u_enc xs)"
    by (simp add: FrameBytes_from_def)
  then have "xs \<noteq> [] \<Longrightarrow> \<exists>g. GwriteUniform_parse (FrameBytes_from (take (gwu_len b) (gwu_dst b))) = Some g
         \<and> GwriteUniform_addr g = a \<and> GwriteUniform_count g = c
         \<and> map (\<lambda>(i, d). (i, FrameBytes_bytes d)) (GwriteUniform_iter g) = xs"
    using GwriteUniform_language inv by (auto simp: gwu_inv_def)
  with len show ?thesis
    using gwu_push_cases [OF inv, of i d] by (auto simp: GwriteUniformB_finish_def)
qed

theorem gwrite_uniform_builder_roundtrip_witness:
  "\<exists>b. gwu_run 0x200 2 b [(1, [7, 8])] \<and> GwriteUniformB_finish b = Some 6 \<and>
    (\<exists>g. GwriteUniform_parse (FrameBytes_from (take 6 (gwu_dst b))) = Some g \<and> GwriteUniform_addr g = 0x200)"
proof -
  let ?b0 = "\<lparr>gwu_dst = [0, 2, 2, 0, 0, 0], gwu_len = 3, gwu_count = 2\<rparr>"
  let ?b1 = "\<lparr>gwu_dst = [0, 2, 2, 1, 7, 8], gwu_len = 6, gwu_count = 2\<rparr>"
  have "GwriteUniformB_new (replicate 6 0) 0x200 2 = Some (Some ?b0)"
    by code_simp
  then have "gwu_run 0x200 2 ?b0 []" by (rule gwu_new)
  moreover have "GwriteUniformB_push ?b0 1 [7, 8] = Some (?b1, Some ())"
    by code_simp
  ultimately have run: "gwu_run 0x200 2 ?b1 ([] @ [(1, [7, 8])])" by (rule gwu_pushed)
  have "GwriteUniformB_finish ?b1 = Some 6" by (simp add: GwriteUniformB_finish_def)
  with run gwrite_uniform_builder_roundtrip [OF run] show ?thesis
    by (intro exI [of _ ?b1]) auto
qed

lemma gwp_push_cases:
  assumes inv: "gwp_inv b xs"
  shows "GwritePerTargetB_push b i a d = Some (b, None)
    \<or> (\<exists>b'. GwritePerTargetB_push b i a d = Some (b', Some ()) \<and> gwp_inv b' (xs @ [(i, a, d)]))"
proof (cases "length d > 255 \<or> cap (gwp_dst b) < gwp_len b + 4 + length d")
  case True
  then show ?thesis by (auto simp: GwritePerTargetB_push_def Let_def)
next
  case False
  define w where "w = concat (map gwrite_pt_enc xs)"
  from inv obtain rest where b: "gwp_dst b = w @ rest" "gwp_len b = length w" by (auto simp: gwp_inv_def w_def)
  from False have f: "length d < 256" "4 + length d \<le> length rest" "length w + (4 + length d) \<le> 252"
    using b by (auto simp: cap_less)
  define m where "m = take (4 + length d) rest"
  have m: "length m = 4 + length d" using f by (simp add: m_def)
  then obtain m0 m1 m2 m3 ms where ms: "m = [m0] @ [m1, m2] @ m3 # ms" "length ms = length d"
    by (auto simp: length_Suc_conv numeral_eq_Suc)
  have e: "get_range (gwp_dst b) (gwp_len b) (gwp_len b + 4 + length d) = Some m"
    using b f by (simp add: get_range_def m_def)
  have e4: "copy_slice ([i] @ to_le16 a @ of_nat (length d) # ms) 4 (length ([i] @ to_le16 a @ of_nat (length d) # ms)) d
      = Some ([i] @ to_le16 a @ of_nat (length d) # d)"
    using copy_slice_append [of ms d 4 "[i] @ to_le16 a @ [of_nat (length d)]" "length ([i] @ to_le16 a @ of_nat (length d) # ms)" "[]"] ms(2) by simp
  have e123: "put_at m 0 i = Some ([i] @ [m1, m2] @ m3 # ms)"
      "copy_slice ([i] @ [m1, m2] @ m3 # ms) 1 3 (to_le16 a) = Some ([i] @ to_le16 a @ m3 # ms)"
      "put_at ([i] @ to_le16 a @ m3 # ms) 3 (of_nat (length d)) = Some ([i] @ to_le16 a @ of_nat (length d) # ms)"
    by (simp_all add: ms put_at_def copy_slice_def to_le16_def eval_nat_numeral)
  let ?b' = "b\<lparr>gwp_dst := w @ ([i] @ to_le16 a @ of_nat (length d) # d) @ drop (4 + length d) rest,
               gwp_len := gwp_len b + 4 + length d\<rparr>"
  have "drop (gwp_len b + 4 + length d) (gwp_dst b) = drop (4 + length d) rest"
    using b by (simp add: add.assoc)
  then have p: "GwritePerTargetB_push b i a d = Some (?b', Some ())"
    unfolding GwritePerTargetB_push_def Let_def using False b e e123 e4 by simp
  have "gwp_inv ?b' (xs @ [(i, a, d)])"
    using inv b f unfolding gwp_inv_def w_def by (auto simp: gwrite_pt_enc_def gwrite_pt_ok_def)
  with p show ?thesis by blast
qed

lemma gwp_run_inv: "gwp_run b xs \<Longrightarrow> gwp_inv b xs"
proof (induction rule: gwp_run.induct)
  case gwp_new
  then show ?case by (simp add: gwp_inv_def GwritePerTargetB_new_def)
next
  case (gwp_pushed b xs i a d b')
  then show ?case using gwp_push_cases [OF gwp_pushed.IH, of i a d] by auto
next
  case (gwp_refused b xs i a d b')
  then show ?case using gwp_push_cases [OF gwp_refused.IH, of i a d] by auto
qed

text \<open>The same for the PER_TARGET GWRITE builder: no push panics, and a finished payload parses back
  to exactly the accepted entries with their own addresses and data.\<close>

lemma gwrite_per_target_builder_roundtrip:
  assumes "gwp_run b xs"
  shows "(\<exists>b' r. GwritePerTargetB_push b i a d = Some (b', r)) \<and>
    (case GwritePerTargetB_finish b of
       None \<Rightarrow> xs = []
     | Some n \<Rightarrow> \<exists>g. GwritePerTarget_parse (FrameBytes_from (take n (gwp_dst b))) = Some g
         \<and> map GwriteTarget_view (GwritePerTarget_iter g) = xs)"
proof -
  have inv: "gwp_inv b xs" using gwp_run_inv assms .
  then have len: "gwp_len b > 0 \<longleftrightarrow> xs \<noteq> []"
    by (cases xs) (auto simp: gwp_inv_def gwrite_pt_enc_def)
  from inv have "take (gwp_len b) (gwp_dst b) = concat (map gwrite_pt_enc xs)"
    by (auto simp: gwp_inv_def)
  then have "FrameBytes_bytes (FrameBytes_from (take (gwp_len b) (gwp_dst b))) = concat (map gwrite_pt_enc xs)"
    by (simp add: FrameBytes_from_def)
  then have "xs \<noteq> [] \<Longrightarrow> \<exists>g. GwritePerTarget_parse (FrameBytes_from (take (gwp_len b) (gwp_dst b))) = Some g
         \<and> map GwriteTarget_view (GwritePerTarget_iter g) = xs"
    using GwritePerTarget_language inv by (auto simp: gwp_inv_def)
  with len show ?thesis
    using gwp_push_cases [OF inv, of i a d] by (auto simp: GwritePerTargetB_finish_def)
qed

lemma gwrite_per_target_builder_roundtrip_example:
  "gwp_run (GwritePerTargetB_new (replicate 4 0)) [] \<and> GwritePerTargetB_finish (GwritePerTargetB_new (replicate 4 0)) = None
   \<and> (\<exists>b' r. GwritePerTargetB_push (GwritePerTargetB_new (replicate 4 0)) 1 0x200 [] = Some (b', r))"
  using gwrite_per_target_builder_roundtrip [OF gwp_new, of "replicate 4 0" 1 "0x200" "[]"]
  using gwp_new [of "replicate 4 0"] by (auto simp: GwritePerTargetB_finish_def GwritePerTargetB_new_def)

end
