(* ===== verification/Reply.thy ===== *)
theory Reply
  imports Build
begin

text \<open>
  The TX frame buffer (\<open>osc-protocol/src/reply.rs\<close>): a scratch array of \<open>N\<close> bytes that a frame
  is laid out in, sealed with its length byte and CRC.  A slice or index panic is \<open>None\<close>.
  The \<open>debug_assert\<close>s of \<open>finish\<close> are not part of the release image and are not modelled.
\<close>

record FrameBuf =
  buf_bytes :: bytes

text \<open>\<open>FrameBuf::<N>::new\<close>; an \<open>N\<close> below six is refused at compile time.\<close>

definition FrameBuf_new :: "nat \<Rightarrow> FrameBuf option" where
  "FrameBuf_new N = (if N \<ge> 6 then Some \<lparr>buf_bytes = replicate N 0\<rparr> else None)"

definition FrameBuf_start :: "FrameBuf \<Rightarrow> u8 \<Rightarrow> u8 \<Rightarrow> FrameBuf option" where
  "FrameBuf_start b i inst =
     do { d \<leftarrow> put_at (buf_bytes b) 0 ALIGN_BYTE;
          d \<leftarrow> put_at d 1 i;
          d \<leftarrow> put_at d 2 0;
          d \<leftarrow> put_at d 3 inst;
          Some (b\<lparr>buf_bytes := d\<rparr>) }"

text \<open>The window \<open>payload_mut\<close> hands out, and the buffer after its holder rewrote it.\<close>

definition FrameBuf_payload_mut :: "FrameBuf \<Rightarrow> (bytes \<Rightarrow> bytes option) \<Rightarrow> FrameBuf option" where
  "FrameBuf_payload_mut b w =
     do { p \<leftarrow> get_range (buf_bytes b) 4 (length (buf_bytes b) - 2);
          p' \<leftarrow> w p;
          d \<leftarrow> copy_slice (buf_bytes b) 4 (length (buf_bytes b) - 2) p';
          Some (b\<lparr>buf_bytes := d\<rparr>) }"

definition FrameBuf_finish :: "FrameBuf \<Rightarrow> u8 \<Rightarrow> FrameBuf option" where
  "FrameBuf_finish b p =
     do { d \<leftarrow> put_at (buf_bytes b) 2 (len_for p); Some (b\<lparr>buf_bytes := d\<rparr>) }"

definition FrameBuf_covered :: "FrameBuf \<Rightarrow> bytes option" where
  "FrameBuf_covered b =
     do { len \<leftarrow> nth_opt (buf_bytes b) 2; get_range (buf_bytes b) 0 (covered_len len) }"

definition FrameBuf_set_crc :: "FrameBuf \<Rightarrow> u16 \<Rightarrow> FrameBuf option" where
  "FrameBuf_set_crc b crc =
     do { len \<leftarrow> nth_opt (buf_bytes b) 2;
          let end = covered_len len
          in do { d \<leftarrow> copy_slice (buf_bytes b) end (end + 2) (to_le16 crc);
                  Some (b\<lparr>buf_bytes := d\<rparr>) } }"

definition FrameBuf_frame :: "FrameBuf \<Rightarrow> bytes option" where
  "FrameBuf_frame b =
     do { len \<leftarrow> nth_opt (buf_bytes b) 2; get_range (buf_bytes b) 0 (footprint len) }"

definition FrameBuf_seal :: "FrameBuf \<Rightarrow> (FrameBuf \<times> bytes) option" where
  "FrameBuf_seal b =
     do { c \<leftarrow> FrameBuf_covered b;
          b' \<leftarrow> FrameBuf_set_crc b (osc_crc c);
          f \<leftarrow> FrameBuf_frame b';
          Some (b', f) }"

section \<open>A frame end to end\<close>

text \<open>The sequence every encoder runs: lay down the prefix, let a builder fill the payload
  window, seal the length, then compute and store the CRC.\<close>

definition encode_frame :: "FrameBuf \<Rightarrow> u8 \<Rightarrow> u8 \<Rightarrow> (bytes \<Rightarrow> bytes option) \<Rightarrow> u8 \<Rightarrow> (FrameBuf \<times> bytes) option" where
  "encode_frame b i inst w p =
     do { b \<leftarrow> FrameBuf_start b i inst;
          b \<leftarrow> FrameBuf_payload_mut b w;
          b \<leftarrow> FrameBuf_finish b p;
          FrameBuf_seal b }"

lemma FrameBuf_start_eq:
  "buf_bytes b = x0 # x1 # x2 # x3 # xs \<Longrightarrow>
   FrameBuf_start b i inst = Some \<lparr>buf_bytes = 0 # i # 0 # inst # xs\<rparr>"
  by (cases b) (simp add: FrameBuf_start_def put_at_def ALIGN_BYTE_def eval_nat_numeral)

lemma FrameBuf_payload_eq:
  assumes "w xs = Some ys" "length ys = length xs"
  shows "FrameBuf_payload_mut \<lparr>buf_bytes = h0 # h1 # h2 # h3 # xs @ [c0, c1]\<rparr> w
    = Some \<lparr>buf_bytes = h0 # h1 # h2 # h3 # ys @ [c0, c1]\<rparr>"
proof -
  let ?d = "[h0, h1, h2, h3] @ xs @ [c0, c1]"
  have l: "length ?d - 2 = 4 + length xs" by simp
  have "get_range ?d 4 (4 + length xs) = Some xs" by (simp add: get_range_def)
  moreover have "copy_slice ?d 4 (4 + length xs) ys = Some ([h0, h1, h2, h3] @ ys @ [c0, c1])"
    using assms(2) copy_slice_append [of xs ys 4 "[h0, h1, h2, h3]" "4 + length xs" "[c0, c1]"] by simp
  ultimately have "FrameBuf_payload_mut \<lparr>buf_bytes = ?d\<rparr> w = Some \<lparr>buf_bytes = [h0, h1, h2, h3] @ ys @ [c0, c1]\<rparr>"
    unfolding FrameBuf_payload_mut_def FrameBuf.select_convs l using assms(1) by simp
  then show ?thesis by simp
qed

lemma FrameBuf_finish_eq:
  "FrameBuf_finish \<lparr>buf_bytes = h0 # h1 # h2 # xs\<rparr> p = Some \<lparr>buf_bytes = h0 # h1 # len_for p # xs\<rparr>"
  by (simp add: FrameBuf_finish_def put_at_def eval_nat_numeral)

lemma FrameBuf_seal_eq:
  assumes "p \<le> MAX_PAYLOAD" "unat p = length pl" "2 \<le> length r"
    and c_def: "c = h0 # h1 # len_for p # h3 # pl"
  shows "FrameBuf_seal \<lparr>buf_bytes = c @ r\<rparr> =
    Some (\<lparr>buf_bytes = c @ to_le16 (osc_crc c) @ drop 2 r\<rparr>, c @ to_le16 (osc_crc c))"
proof -
  have m: "unat p \<le> 252" using assms(1) by (simp add: MAX_PAYLOAD_def word_le_nat_alt)
  then have u: "unat (3 + p) = 3 + unat p" by (simp add: unat_word_ariths)
  have s: "covered_len (len_for p) = length c" "footprint (len_for p) = length c + 2"
    using assms(2) u by (simp_all add: c_def covered_len_def footprint_def len_for_def)
  have n: "nth_opt (c @ z) 2 = Some (len_for p)" for z by (simp add: c_def eval_nat_numeral)
  have "FrameBuf_covered \<lparr>buf_bytes = c @ r\<rparr> = Some c"
    by (simp add: FrameBuf_covered_def n s get_range_def)
  moreover have "copy_slice (c @ r) (length c) (length c + 2) (to_le16 k) = Some (c @ to_le16 k @ drop 2 r)" for k
    using assms(3) by (subst copy_slice_ok) simp_all
  then have "FrameBuf_set_crc \<lparr>buf_bytes = c @ r\<rparr> k = Some \<lparr>buf_bytes = c @ to_le16 k @ drop 2 r\<rparr>" for k
    by (simp add: FrameBuf_set_crc_def n s Let_def)
  moreover have "FrameBuf_frame \<lparr>buf_bytes = c @ to_le16 k @ drop 2 r\<rparr> = Some (c @ to_le16 k)" for k
    using assms(3) by (simp add: FrameBuf_frame_def n s get_range_def)
  ultimately show ?thesis by (simp add: FrameBuf_seal_def)
qed

lemma six_bytes:
  "6 \<le> length xs \<Longrightarrow> \<exists>h0 h1 h2 h3 m c0 c1. xs = h0 # h1 # h2 # h3 # m @ [c0, c1] \<and> length m = length xs - 6"
proof -
  assume l: "6 \<le> length xs"
  then obtain h0 h1 h2 h3 ys where h: "xs = h0 # h1 # h2 # h3 # ys" "2 \<le> length ys"
  proof -
    have "length (take 4 xs) = Suc (Suc (Suc (Suc 0)))" using l by simp
    then obtain h0 h1 h2 h3 where "take 4 xs = [h0, h1, h2, h3]" by (auto simp: length_Suc_conv simp del: length_take)
    moreover have "2 \<le> length (drop 4 xs)" using l by simp
    moreover have "xs = take 4 xs @ drop 4 xs" by simp
    ultimately show ?thesis using that by (metis append_Cons append_Nil)
  qed
  then obtain zs c1 where z: "ys = zs @ [c1]" by (cases ys rule: rev_cases) auto
  with h obtain m c0 where "zs = m @ [c0]" by (cases zs rule: rev_cases) auto
  with h z show ?thesis by (intro exI [of _ h0] exI [of _ h1] exI [of _ h2] exI [of _ h3] exI [of _ m]
      exI [of _ c0] exI [of _ c1]) simp
qed

text \<open>In any buffer large enough for the payload, encoding a frame never panics and yields exactly
  the anchor byte, ID, LEN, INST, the payload and the CRC; read back from the ring, cut by the
  seam anywhere, the header states the payload length and the frame's end, the payload view
  holds the payload, and the CRC over the covered span matches the trailer.\<close>

lemma encode_frame_correct:
  assumes "6 + unat p \<le> length (buf_bytes b)" "p \<le> MAX_PAYLOAD"
    and fill: "\<And>xs. length xs = length (buf_bytes b) - 6 \<Longrightarrow> w xs = Some (pl @ drop (unat p) xs)"
    and "length pl = unat p"
  shows "\<exists>b' f h. encode_frame b i inst w p = Some (b', f)
    \<and> f = [0, i, len_for p, inst] @ pl @ to_le16 (osc_crc (take (covered_len (len_for p)) f))
    \<and> Header_from_bytes (take 4 f) = Some h \<and> hdr_id h = i \<and> hdr_inst h = inst
    \<and> Header_frame_end h = length f \<and> Header_payload_len h = p
    \<and> (\<forall>k. map_option FrameBytes_bytes
          (FrameBytes_sub (FrameBytes_new (take k f) (drop k f)) 4 (unat (Header_payload_len h))) = Some pl)
    \<and> (\<forall>k. FrameBytes_u16_le_at (FrameBytes_new (take k f) (drop k f)) (Header_covered_len h)
          = Some (osc_crc (take (Header_covered_len h) f)))"
proof -
  obtain h0 h1 h2 h3 m c0 c1 where b: "buf_bytes b = h0 # h1 # h2 # h3 # m @ [c0, c1]"
      and lm: "length m = length (buf_bytes b) - 6"
    using six_bytes [of "buf_bytes b"] add_leD1 [OF assms(1)] by blast
  define c where "c = 0 # i # len_for p # inst # pl"
  define f where "f = c @ to_le16 (osc_crc c)"
  define h where "h = \<lparr>hdr_brk = 0, hdr_id = i, hdr_len = len_for p, hdr_inst = inst\<rparr>"
  have len: "unat p \<le> length m" using assms(1) lm by simp
  have l: "length (pl @ drop (unat p) m) = length m" using assms(4) len by simp
  have sp: "covered_len (len_for p) = length c" "footprint (len_for p) = length f" "payload_len (len_for p) = p"
    using assms(2,4) by (simp_all add: c_def f_def wire_defs word_le_nat_alt unat_word_ariths)
  have "FrameBuf_seal \<lparr>buf_bytes = 0 # i # len_for p # inst # (pl @ drop (unat p) m) @ [c0, c1]\<rparr>
      = Some (\<lparr>buf_bytes = c @ to_le16 (osc_crc c) @ drop 2 (drop (unat p) m @ [c0, c1])\<rparr>, f)"
    using FrameBuf_seal_eq [OF assms(2) assms(4) [symmetric] _ c_def, of "drop (unat p) m @ [c0, c1]"]
    by (simp add: f_def c_def)
  then have e: "\<exists>b'. encode_frame b i inst w p = Some (b', f)"
    using FrameBuf_start_eq [OF b, of i inst] FrameBuf_payload_eq [of w m, OF fill [OF lm] l]
    by (simp add: encode_frame_def FrameBuf_finish_eq)
  have tc: "take (length c) f = c" by (simp add: f_def)
  then have fe: "f = [0, i, len_for p, inst] @ pl @ to_le16 (osc_crc (take (covered_len (len_for p)) f))"
    unfolding sp tc by (simp add: f_def c_def)
  have pv: "map_option FrameBytes_bytes (FrameBytes_sub (FrameBytes_new (take k f) (drop k f)) 4 (unat p)) = Some pl" for k
    unfolding assms(4) [symmetric] by (simp add: FrameBytes_sub_bytes get_range_def f_def c_def)
  have cv: "FrameBytes_u16_le_at (FrameBytes_new (take k f) (drop k f)) (length c) = Some (osc_crc c)" for k
    by (rule u16_at_pre [where ys = "[]"]) (simp, simp add: f_def)
  have "Header_from_bytes (take 4 f) = Some h" by (simp add: f_def c_def h_def)
  moreover have "hdr_id h = i" "hdr_inst h = inst" "Header_frame_end h = length f" "Header_payload_len h = p"
      "Header_covered_len h = length c"
    by (simp_all add: h_def Header_frame_end_def Header_payload_len_def Header_covered_len_def sp)
  moreover from e obtain b' where "encode_frame b i inst w p = Some (b', f)" by blast
  ultimately show ?thesis
    using fe pv cv tc by (intro exI [of _ b'] exI [of _ f] exI [of _ h]) simp
qed

lemma encode_frame_correct_example:
  "\<exists>b' f. encode_frame \<lparr>buf_bytes = replicate 8 9\<rparr> 1 0x21 (\<lambda>xs. Some ([5, 6] @ drop 2 xs)) 2 = Some (b', f)"
  using encode_frame_correct [of 2 "\<lparr>buf_bytes = replicate 8 9\<rparr>" "\<lambda>xs. Some ([5, 6] @ drop 2 xs)" "[5, 6]" 1 "0x21"]
  by (auto simp: MAX_PAYLOAD_def)

end
