(* ===== verification/Stage.thy ===== *)
theory Stage
  imports Prelude
begin

text \<open>
  The staging buffer of pending register writes (\<open>control-table/src/stage.rs\<close>): one byte
  arena and a table of entries that slice it, with snapshots for transactional revert.

  The bounded vectors come from the \<open>heapless\<close> crate, which is not part of the repository;
  its operations are the parameter \<open>Heapless\<close> of the definitions, and \<open>heapless_ok\<close> states
  the documented behaviour the code relies on.  The buffer refines the abstract list of
  pending writes \<open>(addr, data)\<close>; the interface \<open>write_log\<close> states that contract.
\<close>

datatype ValidationKind = ValidationKind_Enum | ValidationKind_Compare

datatype Error = OutOfRange | AccessError | StagingFull | ValidationError ValidationKind

definition STAGE_DATA_CAP :: nat where "STAGE_DATA_CAP = 256"
definition STAGE_ENTRY_CAP :: nat where "STAGE_ENTRY_CAP = 16"

record StagedEntry =
  se_addr :: u16
  se_len :: u16
  se_data_off :: u16

record Snapshot =
  snap_data :: u16
  snap_entries :: u16

definition Snapshot_ZERO :: Snapshot where
  "Snapshot_ZERO = \<lparr>snap_data = 0, snap_entries = 0\<rparr>"

record StagedWrites =
  sw_data :: bytes
  sw_entries :: "StagedEntry list"

section \<open>The bounded vectors\<close>

text \<open>\<open>Vec::extend_from_slice\<close> and \<open>Vec::push\<close> (\<open>None\<close> is the error, the vector being unchanged)
  for a given capacity, and \<open>Vec::truncate\<close>.\<close>

record Heapless =
  hv_extend :: "nat \<Rightarrow> bytes \<Rightarrow> bytes \<Rightarrow> bytes option"
  hv_push :: "nat \<Rightarrow> StagedEntry list \<Rightarrow> StagedEntry \<Rightarrow> StagedEntry list option"
  hv_push_span :: "nat \<Rightarrow> (u16 \<times> u16) list \<Rightarrow> u16 \<times> u16 \<Rightarrow> (u16 \<times> u16) list option"
  hv_truncate_data :: "bytes \<Rightarrow> nat \<Rightarrow> bytes"
  hv_truncate_entries :: "StagedEntry list \<Rightarrow> nat \<Rightarrow> StagedEntry list"

definition heapless_ok :: "Heapless \<Rightarrow> bool" where
  "heapless_ok hv \<longleftrightarrow>
     (\<forall>cap v s. length v + length s \<le> cap \<longrightarrow> hv_extend hv cap v s = Some (v @ s))
     \<and> (\<forall>cap v e. hv_push hv cap v e = (if length v < cap then Some (v @ [e]) else None))
     \<and> (\<forall>cap v e. hv_push_span hv cap v e = (if length v < cap then Some (v @ [e]) else None))
     \<and> (\<forall>v n. hv_truncate_data hv v n = take n v)
     \<and> (\<forall>v n. hv_truncate_entries hv v n = take n v)"

section \<open>Operations\<close>

definition StagedWrites_new :: StagedWrites where
  "StagedWrites_new = \<lparr>sw_data = [], sw_entries = []\<rparr>"

definition StagedWrites_clear :: "Heapless \<Rightarrow> StagedWrites \<Rightarrow> StagedWrites" where
  "StagedWrites_clear hv s =
     s\<lparr>sw_data := hv_truncate_data hv (sw_data s) 0,
       sw_entries := hv_truncate_entries hv (sw_entries s) 0\<rparr>"

definition StagedWrites_is_empty :: "StagedWrites \<Rightarrow> bool" where
  "StagedWrites_is_empty s \<longleftrightarrow> sw_entries s = []"

definition StagedWrites_snapshot :: "StagedWrites \<Rightarrow> Snapshot" where
  "StagedWrites_snapshot s =
     \<lparr>snap_data = of_nat (length (sw_data s)), snap_entries = of_nat (length (sw_entries s))\<rparr>"

definition StagedWrites_revert_to :: "Heapless \<Rightarrow> StagedWrites \<Rightarrow> Snapshot \<Rightarrow> StagedWrites" where
  "StagedWrites_revert_to hv s snap =
     s\<lparr>sw_data := hv_truncate_data hv (sw_data s) (unat (snap_data snap)),
       sw_entries := hv_truncate_entries hv (sw_entries s) (unat (snap_entries snap))\<rparr>"

definition StagedWrites_push_split ::
  "Heapless \<Rightarrow> StagedWrites \<Rightarrow> u16 \<Rightarrow> bytes \<Rightarrow> bytes \<Rightarrow> StagedWrites \<times> (Error + unit)" where
  "StagedWrites_push_split hv s addr head tail =
     (let data_off = length (sw_data s);
          total = length head + length tail
      in if data_off + total > STAGE_DATA_CAP then (s, Inl StagingFull)
         else case hv_extend hv STAGE_DATA_CAP (sw_data s) head of
           None \<Rightarrow> (s, Inl StagingFull)
         | Some d1 \<Rightarrow>
           (case hv_extend hv STAGE_DATA_CAP d1 tail of
              None \<Rightarrow> (s\<lparr>sw_data := hv_truncate_data hv d1 data_off\<rparr>, Inl StagingFull)
            | Some d2 \<Rightarrow>
              (case hv_push hv STAGE_ENTRY_CAP (sw_entries s)
                      \<lparr>se_addr = addr, se_len = of_nat total, se_data_off = of_nat data_off\<rparr> of
                 None \<Rightarrow> (s\<lparr>sw_data := hv_truncate_data hv d2 data_off\<rparr>, Inl StagingFull)
               | Some es \<Rightarrow> (s\<lparr>sw_data := d2, sw_entries := es\<rparr>, Inr ()))))"

definition StagedWrites_push :: "Heapless \<Rightarrow> StagedWrites \<Rightarrow> u16 \<Rightarrow> bytes \<Rightarrow> StagedWrites \<times> (Error + unit)" where
  "StagedWrites_push hv s addr src = StagedWrites_push_split hv s addr src []"

text \<open>The iterator indexes both vectors; \<open>None\<close> is a slice panic.\<close>

definition staged_slice :: "bytes \<Rightarrow> StagedEntry \<Rightarrow> (u16 \<times> bytes) option" where
  "staged_slice data e =
     (let lo = unat (se_data_off e); hi = lo + unat (se_len e)
      in map_option (Pair (se_addr e)) (get_range data lo hi))"

fun option_all :: "'a option list \<Rightarrow> 'a list option" where
  "option_all [] = Some []"
| "option_all (x # xs) = do { y \<leftarrow> x; ys \<leftarrow> option_all xs; Some (y # ys) }"

definition StagedWrites_iter_from :: "StagedWrites \<Rightarrow> Snapshot \<Rightarrow> (u16 \<times> bytes) list option" where
  "StagedWrites_iter_from s snap =
     do { es \<leftarrow> get_range (sw_entries s) (unat (snap_entries snap)) (length (sw_entries s));
          option_all (map (staged_slice (sw_data s)) es) }"

definition StagedWrites_iter_all :: "StagedWrites \<Rightarrow> (u16 \<times> bytes) list option" where
  "StagedWrites_iter_all s = StagedWrites_iter_from s Snapshot_ZERO"

section \<open>Refinement of the list of pending writes\<close>

text \<open>\<open>staged_rel s ws\<close>: the buffer holds exactly the writes \<open>ws\<close>, their data laid end to end.\<close>

fun entries_of :: "nat \<Rightarrow> (u16 \<times> bytes) list \<Rightarrow> StagedEntry list" where
  "entries_of off [] = []"
| "entries_of off ((a, d) # ws) =
     \<lparr>se_addr = a, se_len = of_nat (length d), se_data_off = of_nat off\<rparr> # entries_of (off + length d) ws"

definition staged_data :: "(u16 \<times> bytes) list \<Rightarrow> bytes" where
  "staged_data ws = concat (map snd ws)"

definition staged_rel :: "StagedWrites \<Rightarrow> (u16 \<times> bytes) list \<Rightarrow> bool" where
  "staged_rel s ws \<longleftrightarrow>
     sw_data s = staged_data ws \<and> sw_entries s = entries_of 0 ws
     \<and> length (staged_data ws) \<le> STAGE_DATA_CAP \<and> length ws \<le> STAGE_ENTRY_CAP"

text \<open>The abstract log.\<close>

definition log_push :: "(u16 \<times> bytes) list \<Rightarrow> u16 \<Rightarrow> bytes \<Rightarrow> (u16 \<times> bytes) list option" where
  "log_push ws addr d =
     (if length (staged_data ws) + length d \<le> STAGE_DATA_CAP \<and> length ws < STAGE_ENTRY_CAP
      then Some (ws @ [(addr, d)]) else None)"

lemma staged_data_simps [simp]:
  "staged_data [] = []" "staged_data (w # ws) = snd w @ staged_data ws"
  "staged_data (ws @ vs) = staged_data ws @ staged_data vs"
  by (simp_all add: staged_data_def)

lemma length_entries_of [simp]: "length (entries_of off ws) = length ws"
  by (induction off ws rule: entries_of.induct) simp_all

lemma entries_of_append: "entries_of off (ws @ vs) = entries_of off ws @ entries_of (off + length (staged_data ws)) vs"
  by (induction off ws rule: entries_of.induct) (simp_all add: add.assoc)

lemma staged_slices:
  "off + length (staged_data ws) \<le> 256 \<Longrightarrow> off = length pre \<Longrightarrow>
   option_all (map (staged_slice (pre @ staged_data ws @ post)) (entries_of off ws)) = Some ws"
proof (induction off ws arbitrary: pre rule: entries_of.induct)
  case (2 off a d ws)
  have u: "unat (of_nat off :: u16) = off" "unat (of_nat (length d) :: u16) = length d"
    using "2.prems" by (simp_all add: unat_of_nat)
  have "get_range (pre @ d @ staged_data ws @ post) off (off + length d) = Some d"
    using "2.prems"(2) by (simp add: get_range_def)
  moreover have "option_all (map (staged_slice ((pre @ d) @ staged_data ws @ post)) (entries_of (off + length d) ws)) = Some ws"
    using "2.prems" by (intro "2.IH") simp_all
  moreover from calculation(1)
  have "staged_slice (pre @ d @ staged_data ws @ post) \<lparr>se_addr = a, se_len = of_nat (length d), se_data_off = of_nat off\<rparr> = Some (a, d)"
    by (simp add: staged_slice_def u)
  ultimately show ?case by simp
qed simp

lemma staged_iter_suffix:
  assumes "staged_rel s (ws @ vs)" "unat (snap_entries snap) = length ws"
  shows "StagedWrites_iter_from s snap = Some vs"
proof -
  have "get_range (sw_entries s) (length ws) (length (sw_entries s))
      = Some (entries_of (length (staged_data ws)) vs)"
    using assms(1) by (simp add: staged_rel_def get_range_def entries_of_append)
  moreover have "option_all (map (staged_slice (sw_data s)) (entries_of (length (staged_data ws)) vs)) = Some vs"
    using staged_slices [of "length (staged_data ws)" vs "staged_data ws" "[]"] assms(1)
    by (simp add: staged_rel_def STAGE_DATA_CAP_def)
  ultimately show ?thesis using assms(2) by (simp add: StagedWrites_iter_from_def)
qed

lemma staged_snapshot:
  assumes "staged_rel s ws"
  shows "unat (snap_data (StagedWrites_snapshot s)) = length (staged_data ws)
    \<and> unat (snap_entries (StagedWrites_snapshot s)) = length ws"
  using assms by (simp add: StagedWrites_snapshot_def staged_rel_def STAGE_DATA_CAP_def STAGE_ENTRY_CAP_def unat_of_nat)

lemma staged_push:
  assumes "heapless_ok hv" "staged_rel s ws"
  shows "(case log_push ws addr (head @ tail) of
      None \<Rightarrow> StagedWrites_push_split hv s addr head tail = (s, Inl StagingFull)
    | Some ws' \<Rightarrow> \<exists>s'. StagedWrites_push_split hv s addr head tail = (s', Inr ()) \<and> staged_rel s' ws')"
proof (cases "length (staged_data ws) + length (head @ tail) \<le> STAGE_DATA_CAP")
  case False
  then show ?thesis using assms(2)
    by (simp add: log_push_def StagedWrites_push_split_def Let_def staged_rel_def)
next
  case True
  then have x: "hv_extend hv STAGE_DATA_CAP (sw_data s) head = Some (sw_data s @ head)"
      "hv_extend hv STAGE_DATA_CAP (sw_data s @ head) tail = Some (sw_data s @ head @ tail)"
    using assms by (simp_all add: heapless_ok_def staged_rel_def)
  show ?thesis
  proof (cases "length ws < STAGE_ENTRY_CAP")
    case False
    with True x assms show ?thesis
      by (simp add: log_push_def StagedWrites_push_split_def Let_def staged_rel_def heapless_ok_def)
  next
    case fits: True
    with True x assms show ?thesis
      by (simp add: log_push_def StagedWrites_push_split_def Let_def staged_rel_def heapless_ok_def entries_of_append)
  qed
qed

lemma staged_revert:
  assumes "heapless_ok hv" "staged_rel s (ws @ vs)"
    "unat (snap_data snap) = length (staged_data ws)" "unat (snap_entries snap) = length ws"
  shows "staged_rel (StagedWrites_revert_to hv s snap) ws"
  using assms by (simp add: StagedWrites_revert_to_def staged_rel_def heapless_ok_def entries_of_append)

lemma staged_clear: "heapless_ok hv \<Longrightarrow> staged_rel (StagedWrites_clear hv s) []"
  by (simp add: StagedWrites_clear_def staged_rel_def heapless_ok_def)

lemma staged_new: "staged_rel StagedWrites_new []"
  by (simp add: StagedWrites_new_def staged_rel_def)

lemma staged_rel_unique: "staged_rel s ws \<Longrightarrow> staged_rel s' ws \<Longrightarrow> s = s'"
  by (cases s; cases s') (simp add: staged_rel_def)

section \<open>The transactional log interface\<close>

text \<open>What the register file and the dispatcher rely on: a push appends one write or is refused
  without effect, and a snapshot separates the writes before it from those after it.\<close>

locale write_log =
  fixes rel :: "'s \<Rightarrow> (u16 \<times> bytes) list \<Rightarrow> bool"
    and push :: "'s \<Rightarrow> u16 \<Rightarrow> bytes \<Rightarrow> bytes \<Rightarrow> 's \<times> (Error + unit)"
    and snapshot :: "'s \<Rightarrow> 'p"
    and revert :: "'s \<Rightarrow> 'p \<Rightarrow> 's"
    and since :: "'s \<Rightarrow> 'p \<Rightarrow> (u16 \<times> bytes) list option"
  assumes push_rel: "rel s ws \<Longrightarrow> (push s a h t = (s, Inl StagingFull))
      \<or> (\<exists>s'. push s a h t = (s', Inr ()) \<and> rel s' (ws @ [(a, h @ t)]))"
    and since_rel: "rel s ws \<Longrightarrow> rel s' (ws @ vs) \<Longrightarrow> since s' (snapshot s) = Some vs"
    and revert_rel: "rel s ws \<Longrightarrow> rel s' (ws @ vs) \<Longrightarrow> revert s' (snapshot s) = s"
begin

fun pushes :: "'s \<Rightarrow> (u16 \<times> bytes \<times> bytes) list \<Rightarrow> 's" where
  "pushes s [] = s"
| "pushes s ((a, h, t) # ops) = pushes (fst (push s a h t)) ops"

lemma pushes_rel: "rel s ws \<Longrightarrow> \<exists>vs. rel (pushes s ops) (ws @ vs)"
proof (induction s ops arbitrary: ws rule: pushes.induct)
  case (1 s)
  then show ?case by (intro exI [of _ "[]"]) simp
next
  case (2 s a h t ops)
  from push_rel [OF "2.prems", of a h t] obtain vs where "rel (fst (push s a h t)) (ws @ vs)"
    using "2.prems" by (metis append_Nil2 fst_conv)
  from "2.IH" [OF this] obtain us where "rel (pushes (fst (push s a h t)) ops) ((ws @ vs) @ us)" by blast
  then show ?case by (intro exI [of _ "vs @ us"]) simp
qed

lemma transaction:
  assumes "rel s ws"
  shows "\<exists>vs. rel (pushes s ops) (ws @ vs) \<and> since (pushes s ops) (snapshot s) = Some vs
    \<and> revert (pushes s ops) (snapshot s) = s"
proof -
  obtain vs where "rel (pushes s ops) (ws @ vs)" using pushes_rel assms by blast
  then show ?thesis using since_rel [OF assms] revert_rel [OF assms] by blast
qed

end

locale heapless_vec =
  fixes hv :: Heapless
  assumes hv: "heapless_ok hv"
begin

lemma push_cases:
  assumes "staged_rel s ws"
  shows "StagedWrites_push_split hv s a h t = (s, Inl StagingFull)
      \<or> (\<exists>s'. StagedWrites_push_split hv s a h t = (s', Inr ()) \<and> staged_rel s' (ws @ [(a, h @ t)]))"
  using staged_push [OF hv assms, of a h t] by (simp add: log_push_def split: if_splits)

lemma revert_eq:
  assumes "staged_rel s ws" "staged_rel s' (ws @ vs)"
  shows "StagedWrites_revert_to hv s' (StagedWrites_snapshot s) = s"
  using staged_revert [OF hv assms(2)] staged_snapshot [OF assms(1)] staged_rel_unique assms(1) by blast

end

sublocale heapless_vec \<subseteq> staged: write_log staged_rel "StagedWrites_push_split hv"
    StagedWrites_snapshot "StagedWrites_revert_to hv" StagedWrites_iter_from
  by unfold_locales (use push_cases revert_eq staged_iter_suffix staged_snapshot in blast)+

text \<open>The vectors as plain bounded lists.\<close>

definition Heapless_list :: Heapless where
  "Heapless_list =
     \<lparr>hv_extend = \<lambda>cap v s. if length v + length s \<le> cap then Some (v @ s) else None,
      hv_push = \<lambda>cap v e. if length v < cap then Some (v @ [e]) else None,
      hv_push_span = \<lambda>cap v e. if length v < cap then Some (v @ [e]) else None,
      hv_truncate_data = \<lambda>v n. take n v,
      hv_truncate_entries = \<lambda>v n. take n v\<rparr>"

lemma heapless_list_ok: "heapless_ok Heapless_list"
  by (simp add: heapless_ok_def Heapless_list_def)

interpretation list_vec: heapless_vec Heapless_list
  by unfold_locales (rule heapless_list_ok)

text \<open>Property C32: the staging buffer refines the list of pending writes: a push, split at the ring seam anywhere,
  either appends one write with the concatenated data or, when the arena or the table is full,
  fails without any effect; and reading a snapshot's suffix then reverting to it returns exactly
  the writes pushed since and the very state the snapshot was taken in.\<close>

theorem staging_refines_log:
  assumes "heapless_ok hv" "staged_rel s ws" "staged_rel s' (ws @ vs)"
  shows "(case log_push (ws @ vs) addr (h @ t) of
        None \<Rightarrow> StagedWrites_push_split hv s' addr h t = (s', Inl StagingFull)
      | Some us \<Rightarrow> \<exists>s''. StagedWrites_push_split hv s' addr h t = (s'', Inr ()) \<and> staged_rel s'' us)
    \<and> StagedWrites_iter_from s' (StagedWrites_snapshot s) = Some vs
    \<and> StagedWrites_revert_to hv s' (StagedWrites_snapshot s) = s
    \<and> staged_rel (StagedWrites_clear hv s') []"
proof -
  have l: "heapless_vec hv" using assms(1) by (rule heapless_vec.intro)
  show ?thesis
    using staged_push [OF assms(1,3), of addr h t] staged_clear [OF assms(1)]
      heapless_vec.revert_eq [OF l assms(2,3)] staged_iter_suffix [OF assms(3)] staged_snapshot [OF assms(2)]
    by blast
qed

theorem staging_refines_log_witness:
  "\<exists>s''. StagedWrites_push_split Heapless_list StagedWrites_new 0x200 [1, 2] [3] = (s'', Inr ())
    \<and> staged_rel s'' [(0x200, [1, 2, 3])]"
  using staging_refines_log [of Heapless_list StagedWrites_new "[]" StagedWrites_new "[]" "0x200" "[1, 2]" "[3]"]
  by (simp add: heapless_list_ok staged_new log_push_def STAGE_DATA_CAP_def STAGE_ENTRY_CAP_def)

end
