(* ===== verification/Table.thy ===== *)
theory Table
  imports Stage
begin

text \<open>
  The flat register map (\<open>control-table/src/map.rs\<close>, \<open>rules.rs\<close>): the view of live storage under
  a pending overlay, the rule bodies, the validation of a write and the read, write, stage and
  commit operations of a register file.

  Live storage is a byte list.  Accesses through raw pointers that leave it are undefined
  behaviour in the code; in the model they are the outer \<open>None\<close>, so that the memory-safety
  argument of the \<open>unsafe\<close> blocks becomes part of the theorems.
\<close>

type_synonym 'a res = "(Error + 'a) option"

definition res_bind :: "'a res \<Rightarrow> ('a \<Rightarrow> 'b res) \<Rightarrow> 'b res" where
  "res_bind m k = (case m of None \<Rightarrow> None | Some (Inl e) \<Rightarrow> Some (Inl e) | Some (Inr x) \<Rightarrow> k x)"

definition raw_read :: "bytes \<Rightarrow> nat \<Rightarrow> nat \<Rightarrow> bytes option" where
  "raw_read mem p n = get_range mem p (p + n)"

definition raw_write :: "bytes \<Rightarrow> nat \<Rightarrow> bytes \<Rightarrow> bytes option" where
  "raw_write mem p src = copy_slice mem p (p + length src) src"

section \<open>Rules and the map description\<close>

definition OP_LT :: u8 where "OP_LT = 0"
definition OP_LE :: u8 where "OP_LE = 1"
definition OP_GT :: u8 where "OP_GT = 2"
definition OP_GE :: u8 where "OP_GE = 3"
definition OP_EQ :: u8 where "OP_EQ = 4"
definition OP_NE :: u8 where "OP_NE = 5"

definition SPEC_SIGNED :: u16 where "SPEC_SIGNED = push_bit 4 1"
definition SPEC_ABS :: u16 where "SPEC_ABS = push_bit 5 1"
definition SPEC_RHS_REG :: u16 where "SPEC_RHS_REG = push_bit 6 1"

record CmpRule =
  cr_addr :: u16
  cr_spec :: u16
  cr_val :: u32

record AllowedRule =
  ar_addr :: u16
  ar_allowed :: bytes

definition rule_spec :: "u8 \<Rightarrow> bool \<Rightarrow> bool \<Rightarrow> u8 \<Rightarrow> u16" where
  "rule_spec width is_signed is_abs op =
     ucast width OR (if is_signed then SPEC_SIGNED else 0) OR (if is_abs then SPEC_ABS else 0)
       OR push_bit 8 (ucast op)"

datatype Rhs = Rhs_Imm int | Rhs_Reg u16

record SectionMeta =
  sm_base :: u16
  sm_size :: u16
  sm_cmp_rules :: "u16 \<times> u16"
  sm_allowed_rules :: "u16 \<times> u16"

record RegisterMap =
  rm_SIZE :: nat
  rm_WRITABLE :: "u32 list"
  rm_SECTIONS :: "SectionMeta list"
  rm_CMP_RULES :: "CmpRule list"
  rm_ALLOWED_RULES :: "AllowedRule list"

section \<open>The view\<close>

record View =
  view_base :: bytes
  view_size :: nat
  view_overlay_addr :: u16
  view_o1 :: bytes
  view_o2 :: bytes

definition View_new_split :: "bytes \<Rightarrow> nat \<Rightarrow> u16 \<Rightarrow> bytes \<Rightarrow> bytes \<Rightarrow> View" where
  "View_new_split base n overlay_addr o1 o2 =
     \<lparr>view_base = base, view_size = n, view_overlay_addr = overlay_addr, view_o1 = o1, view_o2 = o2\<rparr>"

definition View_new :: "bytes \<Rightarrow> nat \<Rightarrow> u16 \<Rightarrow> bytes \<Rightarrow> View" where
  "View_new base n overlay_addr overlay = View_new_split base n overlay_addr overlay []"

definition load_le4 :: "bytes \<Rightarrow> nat \<Rightarrow> nat \<Rightarrow> bytes option" where
  "load_le4 mem p len =
     (if 4 \<le> len then raw_read mem p 4
      else if len = 2 then do { a \<leftarrow> raw_read mem p 2; Some (a @ [0, 0]) }
      else if len = 1 then do { a \<leftarrow> raw_read mem p 1; Some (a @ [0, 0, 0]) }
      else if len = 3 then do { a \<leftarrow> raw_read mem p 2; b \<leftarrow> raw_read mem (p + 2) 1; Some (a @ b @ [0]) }
      else Some [0, 0, 0, 0])"

definition pick_byte :: "View \<Rightarrow> nat \<Rightarrow> nat \<Rightarrow> nat \<Rightarrow> nat \<Rightarrow> u8 option" where
  "pick_byte v o_lo split o_hi a =
     (if o_lo \<le> a \<and> a < split then
        Some (case nth_opt (view_o1 v) (a - o_lo) of None \<Rightarrow> 0 | Some b \<Rightarrow> b)
      else if split \<le> a \<and> a < o_hi then
        Some (case nth_opt (view_o2 v) (a - split) of None \<Rightarrow> 0 | Some b \<Rightarrow> b)
      else nth_opt (view_base v) a)"

definition View_read_mixed :: "View \<Rightarrow> nat \<Rightarrow> nat \<Rightarrow> nat \<Rightarrow> nat \<Rightarrow> nat \<Rightarrow> bytes option" where
  "View_read_mixed v lo len o_lo split o_hi =
     do { bs \<leftarrow> option_all (map (\<lambda>i. pick_byte v o_lo split o_hi (lo + i)) [0..<min len 4]);
          Some (bs @ replicate (4 - min len 4) 0) }"

definition View_read_fixed :: "View \<Rightarrow> u16 \<Rightarrow> nat \<Rightarrow> bytes res" where
  "View_read_fixed v addr len =
     (let lo = unat addr; hi = lo + len
      in if hi > view_size v then Some (Inl OutOfRange)
         else let o_lo = unat (view_overlay_addr v);
                  split = o_lo + length (view_o1 v);
                  o_hi = split + length (view_o2 v)
              in if hi \<le> o_lo \<or> o_hi \<le> lo then map_option Inr (load_le4 (view_base v) lo len)
                 else if o_lo \<le> lo \<and> hi \<le> split then map_option Inr (load_le4 (view_o1 v) (lo - o_lo) len)
                 else map_option Inr (View_read_mixed v lo len o_lo split o_hi))"

section \<open>Rule bodies\<close>

definition check_allowed :: "View \<Rightarrow> u16 \<Rightarrow> bytes \<Rightarrow> unit res" where
  "check_allowed view addr allowed =
     res_bind (View_read_fixed view addr 1)
       (\<lambda>b. if b ! 0 \<in> set allowed then Some (Inr ())
            else Some (Inl (ValidationError ValidationKind_Enum)))"

definition widen :: "View \<Rightarrow> u16 \<Rightarrow> u8 \<Rightarrow> bool \<Rightarrow> int res" where
  "widen view addr width is_signed =
     res_bind (View_read_fixed view addr (unat width))
       (\<lambda>b. Some (Inr
         (if width = 1 then (if is_signed then sint (b ! 0) else uint (b ! 0))
          else if width = 2 then
            (if is_signed then sint (from_le16 (b ! 0) (b ! 1)) else uint (from_le16 (b ! 0) (b ! 1)))
          else sint (from_le32 (b ! 0) (b ! 1) (b ! 2) (b ! 3)))))"

definition saturating_abs :: "int \<Rightarrow> int" where
  "saturating_abs x = (if x = - (2 ^ 31) then 2 ^ 31 - 1 else \<bar>x\<bar>)"

definition cmp_op :: "u8 \<Rightarrow> int \<Rightarrow> int \<Rightarrow> bool" where
  "cmp_op op a r =
     (if op = OP_LT then a < r
      else if op = OP_LE then a \<le> r
      else if op = OP_GT then a > r
      else if op = OP_GE then a \<ge> r
      else if op = OP_EQ then a = r
      else a \<noteq> r)"

definition check_cmp :: "View \<Rightarrow> u16 \<Rightarrow> u16 \<Rightarrow> Rhs \<Rightarrow> unit res" where
  "check_cmp view addr spec rhs =
     (let width = ucast (spec AND 0xF) :: u8;
          is_signed = (spec AND SPEC_SIGNED \<noteq> 0)
      in res_bind (widen view addr width is_signed)
        (\<lambda>a. res_bind (case rhs of Rhs_Imm v \<Rightarrow> Some (Inr v) | Rhs_Reg reg \<Rightarrow> widen view reg width is_signed)
        (\<lambda>r. let sat_max = (if width = 1 then 127 else if width = 2 then 32767 else 2 ^ 31 - 1);
                 a' = (if spec AND SPEC_ABS \<noteq> 0 then min (saturating_abs a) sat_max else a);
                 r' = (if spec AND SPEC_ABS \<noteq> 0 then min (saturating_abs r) sat_max else r)
             in if cmp_op (ucast (drop_bit 8 spec)) a' r' then Some (Inr ())
                else Some (Inl (ValidationError ValidationKind_Compare)))))"

section \<open>Validation\<close>

definition overlaps :: "nat \<Rightarrow> nat \<Rightarrow> nat \<Rightarrow> nat \<Rightarrow> bool" where
  "overlaps a_lo a_len lo hi \<longleftrightarrow> a_lo < hi \<and> a_lo + a_len > lo"

definition word_mask :: "nat \<Rightarrow> nat \<Rightarrow> nat \<Rightarrow> u32" where
  "word_mask lo hi wi =
     (let word_lo = wi * 32;
          start_bit = lo - word_lo;
          end_bit = min (hi - word_lo) 32;
          covered = (if end_bit = 32 then NOT 0 else push_bit end_bit 1 - 1)
      in covered AND NOT (push_bit start_bit 1 - 1))"

fun mask_loop :: "u32 list \<Rightarrow> nat \<Rightarrow> nat \<Rightarrow> nat list \<Rightarrow> Error + unit" where
  "mask_loop writable lo hi [] = Inr ()"
| "mask_loop writable lo hi (wi # wis) =
     (let mask = word_mask lo hi wi;
          w = (case nth_opt writable wi of None \<Rightarrow> 0 | Some w \<Rightarrow> w)
      in if w AND mask \<noteq> mask then Inl AccessError else mask_loop writable lo hi wis)"

fun allowed_loop :: "View \<Rightarrow> nat \<Rightarrow> nat \<Rightarrow> AllowedRule list \<Rightarrow> unit res" where
  "allowed_loop view lo hi [] = Some (Inr ())"
| "allowed_loop view lo hi (r # rs) =
     (if unat (ar_addr r) \<ge> hi then Some (Inr ())
      else if overlaps (unat (ar_addr r)) 1 lo hi
      then res_bind (check_allowed view (ar_addr r) (ar_allowed r)) (\<lambda>_. allowed_loop view lo hi rs)
      else allowed_loop view lo hi rs)"

definition rule_rhs :: "CmpRule \<Rightarrow> Rhs" where
  "rule_rhs r =
     (if cr_spec r AND SPEC_RHS_REG \<noteq> 0 then Rhs_Reg (ucast (cr_val r)) else Rhs_Imm (sint (cr_val r)))"

definition rule_width :: "CmpRule \<Rightarrow> nat" where
  "rule_width r = unat (cr_spec r AND 0xF)"

fun cmp_loop :: "View \<Rightarrow> nat \<Rightarrow> nat \<Rightarrow> CmpRule list \<Rightarrow> unit res" where
  "cmp_loop view lo hi [] = Some (Inr ())"
| "cmp_loop view lo hi (r # rs) =
     (if unat (cr_addr r) \<ge> hi then Some (Inr ())
      else if overlaps (unat (cr_addr r)) (rule_width r) lo hi
      then res_bind (check_cmp view (cr_addr r) (cr_spec r) (rule_rhs r)) (\<lambda>_. cmp_loop view lo hi rs)
      else cmp_loop view lo hi rs)"

definition stripe :: "'a list \<Rightarrow> u16 \<times> u16 \<Rightarrow> 'a list option" where
  "stripe rules ab = get_range rules (unat (fst ab)) (unat (snd ab))"

fun section_loop :: "RegisterMap \<Rightarrow> View \<Rightarrow> nat \<Rightarrow> nat \<Rightarrow> SectionMeta list \<Rightarrow> unit res" where
  "section_loop m view lo hi [] = Some (Inr ())"
| "section_loop m view lo hi (sec # secs) =
     (if \<not> overlaps (unat (sm_base sec)) (unat (sm_size sec)) lo hi then section_loop m view lo hi secs
      else res_bind (case stripe (rm_ALLOWED_RULES m) (sm_allowed_rules sec) of
                       None \<Rightarrow> Some (Inr ()) | Some rs \<Rightarrow> allowed_loop view lo hi rs)
        (\<lambda>_. res_bind (case stripe (rm_CMP_RULES m) (sm_cmp_rules sec) of
                         None \<Rightarrow> Some (Inr ()) | Some rs \<Rightarrow> cmp_loop view lo hi rs)
        (\<lambda>_. section_loop m view lo hi secs)))"

definition validate :: "RegisterMap \<Rightarrow> bytes \<Rightarrow> u16 \<Rightarrow> bytes \<Rightarrow> bytes \<Rightarrow> unit res" where
  "validate m mem addr o1 o2 =
     (let total = length o1 + length o2; lo = unat addr; hi = lo + total
      in if total = 0 then Some (Inr ())
         else if hi > rm_SIZE m then Some (Inl OutOfRange)
         else case mask_loop (rm_WRITABLE m) lo hi [lo div 32..<Suc ((hi - 1) div 32)] of
             Inl e \<Rightarrow> Some (Inl e)
           | Inr _ \<Rightarrow> section_loop m (View_new_split mem (rm_SIZE m) addr o1 o2) lo hi (rm_SECTIONS m))"

section \<open>The register file\<close>

definition RegisterFile_read :: "RegisterMap \<Rightarrow> bytes \<Rightarrow> u16 \<Rightarrow> u16 \<Rightarrow> bytes res" where
  "RegisterFile_read m mem addr len =
     (let hi = (ucast addr :: u32) + ucast len
      in if hi > of_nat (rm_SIZE m) then Some (Inl OutOfRange)
         else if len = 0 then Some (Inr [])
         else map_option Inr (raw_read mem (unat addr) (unat len)))"

definition RegisterFile_write_split :: "RegisterMap \<Rightarrow> bytes \<Rightarrow> u16 \<Rightarrow> bytes \<Rightarrow> bytes \<Rightarrow> bytes res" where
  "RegisterFile_write_split m mem addr head tail =
     res_bind (validate m mem addr head tail)
       (\<lambda>_. do { mem1 \<leftarrow> raw_write mem (unat addr) head;
                 mem2 \<leftarrow> raw_write mem1 (unat addr + length head) tail;
                 Some (Inr mem2) })"

definition RegisterFile_write :: "RegisterMap \<Rightarrow> bytes \<Rightarrow> u16 \<Rightarrow> bytes \<Rightarrow> bytes res" where
  "RegisterFile_write m mem addr src = RegisterFile_write_split m mem addr src []"

definition RegisterFile_stage_split ::
  "Heapless \<Rightarrow> RegisterMap \<Rightarrow> bytes \<Rightarrow> u16 \<Rightarrow> bytes \<Rightarrow> bytes \<Rightarrow> StagedWrites \<Rightarrow> (StagedWrites \<times> (Error + unit)) option" where
  "RegisterFile_stage_split hv m mem addr head tail staged =
     (case validate m mem addr head tail of
        None \<Rightarrow> None
      | Some (Inl e) \<Rightarrow> Some (staged, Inl e)
      | Some (Inr _) \<Rightarrow> Some (StagedWrites_push_split hv staged addr head tail))"

definition RegisterFile_stage ::
  "Heapless \<Rightarrow> RegisterMap \<Rightarrow> bytes \<Rightarrow> u16 \<Rightarrow> bytes \<Rightarrow> StagedWrites \<Rightarrow> (StagedWrites \<times> (Error + unit)) option" where
  "RegisterFile_stage hv m mem addr src staged = RegisterFile_stage_split hv m mem addr src [] staged"

fun apply_writes :: "RegisterMap \<Rightarrow> bytes \<Rightarrow> (u16 \<times> bytes) list \<Rightarrow> bytes option" where
  "apply_writes m mem [] = Some mem"
| "apply_writes m mem ((addr, data) # ws) =
     (let end = unat addr + length data
      in if end > rm_SIZE m then apply_writes m mem ws
         else do { mem' \<leftarrow> raw_write mem (unat addr) data; apply_writes m mem' ws })"

definition apply_from :: "RegisterMap \<Rightarrow> bytes \<Rightarrow> StagedWrites \<Rightarrow> Snapshot \<Rightarrow> bytes option" where
  "apply_from m mem staged snap =
     do { ws \<leftarrow> StagedWrites_iter_from staged snap; apply_writes m mem ws }"

definition RegisterFile_commit_staged ::
  "Heapless \<Rightarrow> RegisterMap \<Rightarrow> bytes \<Rightarrow> StagedWrites \<Rightarrow> (bytes \<times> StagedWrites) option" where
  "RegisterFile_commit_staged hv m mem staged =
     do { mem' \<leftarrow> apply_from m mem staged Snapshot_ZERO; Some (mem', StagedWrites_clear hv staged) }"

definition RegisterFile_commit_from ::
  "Heapless \<Rightarrow> RegisterMap \<Rightarrow> bytes \<Rightarrow> StagedWrites \<Rightarrow> Snapshot \<Rightarrow> (bytes \<times> StagedWrites) option" where
  "RegisterFile_commit_from hv m mem staged snap =
     do { mem' \<leftarrow> apply_from m mem staged snap; Some (mem', StagedWrites_revert_to hv staged snap) }"

section \<open>The view shows the memory about to be\<close>

definition overlay :: "bytes \<Rightarrow> nat \<Rightarrow> bytes \<Rightarrow> bytes" where
  "overlay mem p src = take p mem @ src @ drop (p + length src) mem"

lemma length_overlay [simp]: "p + length src \<le> length mem \<Longrightarrow> length (overlay mem p src) = length mem"
  by (simp add: overlay_def)

lemma nth_opt_overlay:
  "p + length src \<le> length mem \<Longrightarrow>
   nth_opt (overlay mem p src) a =
     (if p \<le> a \<and> a < p + length src then Some (src ! (a - p)) else nth_opt mem a)"
  by (auto simp: overlay_def nth_opt_def nth_append)

lemma raw_write_overlay: "p + length src \<le> length mem \<Longrightarrow> raw_write mem p src = Some (overlay mem p src)"
  by (simp add: raw_write_def overlay_def copy_slice_def)

lemma overlay_split:
  assumes "p + length h + length t \<le> length mem"
  shows "overlay (overlay mem p h) (p + length h) t = overlay mem p (h @ t)"
  using assms by (simp add: overlay_def ac_simps)

lemma nth_overlay:
  "p + length src \<le> length mem \<Longrightarrow> a < length mem \<Longrightarrow>
   overlay mem p src ! a = (if p \<le> a \<and> a < p + length src then src ! (a - p) else mem ! a)"
  by (auto simp: overlay_def nth_append)

text \<open>The zero-padded four bytes a rule loads from a memory image.\<close>

definition load_img :: "bytes \<Rightarrow> nat \<Rightarrow> nat \<Rightarrow> bytes" where
  "load_img mem lo len = map (\<lambda>i. mem ! (lo + i)) [0..<min len 4] @ replicate (4 - min len 4) 0"

lemma option_all_map_Some: "(\<And>x. x \<in> set xs \<Longrightarrow> f x = Some (g x)) \<Longrightarrow> option_all (map f xs) = Some (map g xs)"
  by (induction xs) simp_all

lemma raw_read_map: "p + n \<le> length mem \<Longrightarrow> raw_read mem p n = Some (map (\<lambda>i. mem ! (p + i)) [0..<n])"
  by (auto simp: raw_read_def get_range_def intro: nth_equalityI)

lemma load_le4_img:
  assumes "p + len \<le> length mem"
  shows "load_le4 mem p len = Some (load_img mem p len)"
proof -
  consider "4 \<le> len" | "len = 0" | "len = 1" | "len = 2" | "len = 3" by linarith
  then show ?thesis
    by cases (use assms in \<open>simp_all add: load_le4_def load_img_def raw_read_map upt_rec numeral_eq_Suc\<close>)
qed

lemma load_img_cong:
  "(\<And>i. i < len \<Longrightarrow> m1 ! (p1 + i) = m2 ! (p2 + i)) \<Longrightarrow> load_img m1 p1 len = load_img m2 p2 len"
  by (simp add: load_img_def)

text \<open>The memory image a view stands for, and when it is well formed.\<close>

definition View_image :: "View \<Rightarrow> bytes" where
  "View_image v = overlay (view_base v) (unat (view_overlay_addr v)) (view_o1 v @ view_o2 v)"

definition View_ok :: "View \<Rightarrow> bool" where
  "View_ok v \<longleftrightarrow> view_size v = length (view_base v)
     \<and> unat (view_overlay_addr v) + length (view_o1 v) + length (view_o2 v) \<le> view_size v"

lemma pick_byte_image:
  assumes "View_ok v" "a < view_size v" "o_lo = unat (view_overlay_addr v)"
    "split = o_lo + length (view_o1 v)" "o_hi = split + length (view_o2 v)"
  shows "pick_byte v o_lo split o_hi a = Some (View_image v ! a)"
proof -
  have n: "View_image v ! a = (if o_lo \<le> a \<and> a < o_hi then (view_o1 v @ view_o2 v) ! (a - o_lo) else view_base v ! a)"
    using assms by (simp add: View_image_def View_ok_def nth_overlay add.assoc)
  consider "o_lo \<le> a" "a < split" | "split \<le> a" "a < o_hi" | "a < o_lo \<or> o_hi \<le> a" by linarith
  then show ?thesis
    by cases (use assms n in \<open>auto simp: pick_byte_def nth_append View_ok_def\<close>)
qed

text \<open>Whichever of the three load paths a rule read takes (live storage, the pending write, or a mix at
  its edges and at the ring seam), it never touches memory outside the map and returns the
  zero-padded bytes of the memory as the pending write will leave it.\<close>

lemma read_fixed_image:
  assumes "View_ok v"
  shows "View_read_fixed v addr len =
    Some (if unat addr + len \<le> view_size v then Inr (load_img (View_image v) (unat addr) len) else Inl OutOfRange)"
proof (cases "unat addr + len \<le> view_size v")
  case True
  define lo where "lo = unat addr"
  define o_lo where "o_lo = unat (view_overlay_addr v)"
  define split where "split = o_lo + length (view_o1 v)"
  define o_hi where "o_hi = split + length (view_o2 v)"
  note d = lo_def [symmetric] o_lo_def [symmetric] split_def [symmetric] o_hi_def [symmetric]
  have ok: "view_size v = length (view_base v)" "o_hi \<le> view_size v" "lo + len \<le> view_size v"
    using assms True by (simp_all add: View_ok_def lo_def o_lo_def split_def o_hi_def)
  have img: "a < view_size v \<Longrightarrow> View_image v ! a =
      (if o_lo \<le> a \<and> a < o_hi then (view_o1 v @ view_o2 v) ! (a - o_lo) else view_base v ! a)" for a
    using ok by (simp add: View_image_def nth_overlay o_lo_def split_def o_hi_def add.assoc)
  have "lo + len \<le> o_lo \<or> o_hi \<le> lo \<Longrightarrow> load_img (view_base v) lo len = load_img (View_image v) lo len"
    using ok by (intro load_img_cong) (auto simp: img)
  moreover have "o_lo \<le> lo \<Longrightarrow> lo + len \<le> split \<Longrightarrow> load_img (view_o1 v) (lo - o_lo) len = load_img (View_image v) lo len"
    using ok by (intro load_img_cong) (auto simp: img split_def o_hi_def nth_append)
  moreover have "View_read_mixed v lo len o_lo split o_hi = Some (load_img (View_image v) lo len)"
  proof -
    have "option_all (map (\<lambda>i. pick_byte v o_lo split o_hi (lo + i)) [0..<min len 4])
        = Some (map (\<lambda>i. View_image v ! (lo + i)) [0..<min len 4])"
      using ok by (intro option_all_map_Some pick_byte_image assms) (auto simp: o_lo_def split_def o_hi_def)
    then show ?thesis by (simp add: View_read_mixed_def load_img_def)
  qed
  ultimately show ?thesis
    using ok True unfolding View_read_fixed_def Let_def d
    by (auto simp: load_le4_img split_def)
qed (simp add: View_read_fixed_def Let_def)

lemma read_fixed_image_example:
  "View_read_fixed (View_new_split [1, 2, 3, 4, 5, 6] 6 2 [9] [8]) 1 4 = Some (Inr [2, 9, 8, 5])"
proof -
  let ?v = "View_new_split [1, 2, 3, 4, 5, 6] 6 2 [9] [8]"
  have "View_ok ?v" by code_simp
  moreover have "load_img (View_image ?v) 1 4 = [2, 9, 8, 5]" by code_simp
  moreover have "view_size ?v = 6" by (simp add: View_new_split_def)
  ultimately show ?thesis using read_fixed_image [of ?v 1 4] by simp
qed

section \<open>The writable mask\<close>

definition byte_writable :: "u32 list \<Rightarrow> nat \<Rightarrow> bool" where
  "byte_writable writable i \<longleftrightarrow> (case nth_opt writable (i div 32) of None \<Rightarrow> False | Some w \<Rightarrow> bit w (i mod 32))"

lemma bit_word_mask:
  assumes "b < 32" "lo \<le> wi * 32 + 31" "wi * 32 < hi"
  shows "bit (word_mask lo hi wi) b \<longleftrightarrow> lo \<le> wi * 32 + b \<and> wi * 32 + b < hi"
proof -
  have m: "(push_bit k 1 - 1 :: u32) = mask k" for k by (simp add: mask_eq_exp_minus_1)
  have "bit (word_mask lo hi wi) b \<longleftrightarrow> b < min (hi - wi * 32) 32 \<and> \<not> b < lo - wi * 32"
    using assms(1) unfolding word_mask_def Let_def m by (auto simp: bit_simps)
  with assms show ?thesis by auto
qed

lemma u32_and_eq_iff: "(w :: u32) AND k = k \<longleftrightarrow> (\<forall>b<32. bit k b \<longrightarrow> bit w b)"
  by (auto simp: bit_eq_iff bit_simps)

lemma mask_loop_all:
  "mask_loop writable lo hi wis =
    (if \<forall>wi\<in>set wis. (case nth_opt writable wi of None \<Rightarrow> 0 | Some w \<Rightarrow> w) AND word_mask lo hi wi = word_mask lo hi wi
     then Inr () else Inl AccessError)"
  by (induction wis) (auto simp: Let_def)

lemma word_ok_iff:
  assumes "lo \<le> wi * 32 + 31" "wi * 32 < hi"
  shows "(case nth_opt writable wi of None \<Rightarrow> 0 | Some w \<Rightarrow> w) AND word_mask lo hi wi = word_mask lo hi wi
    \<longleftrightarrow> (\<forall>b<32. lo \<le> wi * 32 + b \<and> wi * 32 + b < hi \<longrightarrow> byte_writable writable (wi * 32 + b))"
  unfolding u32_and_eq_iff using bit_word_mask [OF _ assms]
  by (auto simp: byte_writable_def split: option.splits)

lemma span_words:
  fixes lo hi :: nat
  assumes "lo < hi"
  shows "(\<forall>wi\<in>set [lo div 32..<Suc ((hi - 1) div 32)]. \<forall>b<32. lo \<le> wi * 32 + b \<and> wi * 32 + b < hi \<longrightarrow> P (wi * 32 + b))
    \<longleftrightarrow> (\<forall>i. lo \<le> i \<and> i < hi \<longrightarrow> P i)"
proof (intro iffI allI impI ballI)
  fix i assume a: "\<forall>wi\<in>set [lo div 32..<Suc ((hi - 1) div 32)]. \<forall>b<32. lo \<le> wi * 32 + b \<and> wi * 32 + b < hi \<longrightarrow> P (wi * 32 + b)"
    and i: "lo \<le> i \<and> i < hi"
  then have "i div 32 \<in> set [lo div 32..<Suc ((hi - 1) div 32)]"
    using div_le_mono [of lo i 32] div_le_mono [of i "hi - 1" 32] by auto
  moreover have "i div 32 * 32 + i mod 32 = i" "i mod 32 < 32" by simp_all
  ultimately show "P i" using a i by metis
qed auto

text \<open>The word-at-a-time mask test accepts a write exactly when every single byte it covers is marked
  writable, whatever the alignment of its ends; a byte past the mask table is not writable.\<close>

lemma mask_loop_spec:
  assumes "lo < hi"
  shows "mask_loop writable lo hi [lo div 32..<Suc ((hi - 1) div 32)] =
    (if \<forall>i. lo \<le> i \<and> i < hi \<longrightarrow> byte_writable writable i then Inr () else Inl AccessError)"
proof -
  have b: "lo \<le> wi * 32 + 31 \<and> wi * 32 < hi" if "wi \<in> set [lo div 32..<Suc ((hi - 1) div 32)]" for wi
  proof -
    from that have "lo div 32 \<le> wi" "wi \<le> (hi - 1) div 32" by auto
    then have "lo div 32 * 32 \<le> wi * 32" "wi * 32 \<le> (hi - 1) div 32 * 32" by simp_all
    moreover have "lo < lo div 32 * 32 + 32" "(hi - 1) div 32 * 32 \<le> hi - 1" by (simp_all add: dividend_less_div_times)
    ultimately show ?thesis using assms by linarith
  qed
  show ?thesis
    unfolding mask_loop_all span_words [OF assms, of "byte_writable writable", symmetric]
    using word_ok_iff b by (simp cong: ball_cong)
qed

lemma mask_loop_spec_example:
  "mask_loop [0x0000FF00, 0x00000001] 8 16 [0..<1] = Inr ()"
proof -
  have "\<forall>i. 8 \<le> i \<and> i < 16 \<longrightarrow> byte_writable [0x0000FF00, 0x00000001] i"
  proof (intro allI impI)
    fix i :: nat assume "8 \<le> i \<and> i < 16"
    then have "i \<in> {8, 9, 10, 11, 12, 13, 14, 15}" by auto
    then show "byte_writable [0x0000FF00, 0x00000001] i" by (elim insertE emptyE) (simp_all add: byte_writable_def)
  qed
  then show ?thesis using mask_loop_spec [of 8 16 "[0x0000FF00, 0x00000001]"] by simp
qed

section \<open>Rules over a memory\<close>

definition plain_view :: "bytes \<Rightarrow> View" where
  "plain_view mem = View_new mem (length mem) 0 []"

definition allowed_holds :: "bytes \<Rightarrow> AllowedRule \<Rightarrow> bool" where
  "allowed_holds mem r \<longleftrightarrow> check_allowed (plain_view mem) (ar_addr r) (ar_allowed r) = Some (Inr ())"

definition cmp_holds :: "bytes \<Rightarrow> CmpRule \<Rightarrow> bool" where
  "cmp_holds mem r \<longleftrightarrow> check_cmp (plain_view mem) (cr_addr r) (cr_spec r) (rule_rhs r) = Some (Inr ())"

text \<open>What the derive macros guarantee of a map: every section's stripes exist, are sorted by
  address, and their fields lie inside the section.\<close>

definition map_ok :: "RegisterMap \<Rightarrow> bool" where
  "map_ok m \<longleftrightarrow> (\<forall>sec\<in>set (rm_SECTIONS m).
     (case stripe (rm_ALLOWED_RULES m) (sm_allowed_rules sec) of None \<Rightarrow> False
      | Some rs \<Rightarrow> sorted (map (unat \<circ> ar_addr) rs)
          \<and> (\<forall>r\<in>set rs. unat (sm_base sec) \<le> unat (ar_addr r)
                \<and> unat (ar_addr r) < unat (sm_base sec) + unat (sm_size sec)))
     \<and> (case stripe (rm_CMP_RULES m) (sm_cmp_rules sec) of None \<Rightarrow> False
      | Some rs \<Rightarrow> sorted (map (unat \<circ> cr_addr) rs)
          \<and> (\<forall>r\<in>set rs. unat (sm_base sec) \<le> unat (cr_addr r)
                \<and> unat (cr_addr r) + rule_width r \<le> unat (sm_base sec) + unat (sm_size sec))))"

definition allowed_rules_of :: "RegisterMap \<Rightarrow> AllowedRule set" where
  "allowed_rules_of m = (\<Union>sec\<in>set (rm_SECTIONS m).
     case stripe (rm_ALLOWED_RULES m) (sm_allowed_rules sec) of None \<Rightarrow> {} | Some rs \<Rightarrow> set rs)"

definition cmp_rules_of :: "RegisterMap \<Rightarrow> CmpRule set" where
  "cmp_rules_of m = (\<Union>sec\<in>set (rm_SECTIONS m).
     case stripe (rm_CMP_RULES m) (sm_cmp_rules sec) of None \<Rightarrow> {} | Some rs \<Rightarrow> set rs)"

lemma plain_view_ok [simp]: "View_ok (plain_view mem)"
  by (simp add: View_ok_def plain_view_def View_new_def View_new_split_def)

lemma plain_view_image [simp]: "View_image (plain_view mem) = mem" "view_size (plain_view mem) = length mem"
  by (simp_all add: View_image_def plain_view_def View_new_def View_new_split_def overlay_def)

lemma res_bind_simps [simp]:
  "res_bind None k = None" "res_bind (Some (Inl e)) k = Some (Inl e)" "res_bind (Some (Inr x)) k = k x"
  by (simp_all add: res_bind_def)

lemma res_bind_Ok: "res_bind m k = Some (Inr y) \<longleftrightarrow> (\<exists>x. m = Some (Inr x) \<and> k x = Some (Inr y))"
  by (auto simp: res_bind_def split: option.splits sum.splits)

definition safe :: "'a res \<Rightarrow> bool" where
  "safe m \<longleftrightarrow> m \<noteq> None"

lemma safe_Some [simp]: "safe (Some x)"
  by (simp add: safe_def)

lemma safe_bind: "safe m \<Longrightarrow> (\<And>x. safe (k x)) \<Longrightarrow> safe (res_bind m k)"
  by (auto simp: safe_def res_bind_def split: option.splits sum.splits)

text \<open>Rule bodies read a view only through its image.\<close>

lemma read_fixed_plain:
  assumes "View_ok v"
  shows "View_read_fixed v = View_read_fixed (plain_view (View_image v))"
proof (intro ext)
  fix addr len
  have "length (View_image v) = view_size v"
    using assms by (simp add: View_image_def View_ok_def)
  then show "View_read_fixed v addr len = View_read_fixed (plain_view (View_image v)) addr len"
    by (simp add: read_fixed_image [OF assms] read_fixed_image [OF plain_view_ok])
qed

lemma check_allowed_plain:
  assumes "View_ok v"
  shows "check_allowed v addr allowed = check_allowed (plain_view (View_image v)) addr allowed"
  unfolding check_allowed_def read_fixed_plain [OF assms] ..

lemma widen_plain:
  assumes "View_ok v"
  shows "widen v addr width sg = widen (plain_view (View_image v)) addr width sg"
  unfolding widen_def read_fixed_plain [OF assms] ..

lemma check_cmp_plain:
  assumes "View_ok v"
  shows "check_cmp v addr spec rhs = check_cmp (plain_view (View_image v)) addr spec rhs"
  unfolding check_cmp_def widen_plain [OF assms] ..

lemma read_fixed_safe: "View_ok v \<Longrightarrow> safe (View_read_fixed v addr len)"
  by (simp add: read_fixed_image)

lemma check_allowed_safe: "View_ok v \<Longrightarrow> safe (check_allowed v addr allowed)"
  unfolding check_allowed_def by (intro safe_bind read_fixed_safe) simp_all

lemma widen_safe: "View_ok v \<Longrightarrow> safe (widen v addr width sg)"
  unfolding widen_def by (intro safe_bind read_fixed_safe) simp_all

lemma check_cmp_safe: "View_ok v \<Longrightarrow> safe (check_cmp v addr spec rhs)"
  unfolding check_cmp_def Let_def by (cases rhs) (auto intro!: safe_bind widen_safe)

section \<open>The rule scans\<close>

lemma allowed_loop_safe: "View_ok v \<Longrightarrow> safe (allowed_loop v lo hi rs)"
  by (induction rs) (auto intro!: safe_bind check_allowed_safe)

lemma cmp_loop_safe: "View_ok v \<Longrightarrow> safe (cmp_loop v lo hi rs)"
  by (induction rs) (auto intro!: safe_bind check_cmp_safe)

lemma section_loop_safe: "View_ok v \<Longrightarrow> safe (section_loop m v lo hi secs)"
  by (induction secs) (auto intro!: safe_bind simp: allowed_loop_safe cmp_loop_safe split: option.split)

lemma allowed_loop_Ok:
  assumes "allowed_loop v lo hi rs = Some (Inr ())" "sorted (map (unat \<circ> ar_addr) rs)" "r \<in> set rs"
    "overlaps (unat (ar_addr r)) 1 lo hi"
  shows "check_allowed v (ar_addr r) (ar_allowed r) = Some (Inr ())"
  using assms
proof (induction v lo hi rs rule: allowed_loop.induct)
  case (2 v lo hi x xs)
  show ?case
  proof (cases "hi \<le> unat (ar_addr x)")
    case True
    with "2.prems" show ?thesis by (auto simp: overlaps_def)
  next
    case False
    with "2.prems" "2.IH" show ?thesis by (auto simp: res_bind_Ok split: if_splits)
  qed
qed simp

lemma cmp_loop_Ok:
  assumes "cmp_loop v lo hi rs = Some (Inr ())" "sorted (map (unat \<circ> cr_addr) rs)" "r \<in> set rs"
    "overlaps (unat (cr_addr r)) (rule_width r) lo hi"
  shows "check_cmp v (cr_addr r) (cr_spec r) (rule_rhs r) = Some (Inr ())"
  using assms
proof (induction v lo hi rs rule: cmp_loop.induct)
  case (2 v lo hi x xs)
  show ?case
  proof (cases "hi \<le> unat (cr_addr x)")
    case True
    with "2.prems" show ?thesis by (auto simp: overlaps_def)
  next
    case False
    with "2.prems" "2.IH" show ?thesis by (auto simp: res_bind_Ok split: if_splits)
  qed
qed simp

lemma section_loop_Ok:
  "section_loop m v lo hi secs = Some (Inr ()) \<Longrightarrow> sec \<in> set secs \<Longrightarrow>
   overlaps (unat (sm_base sec)) (unat (sm_size sec)) lo hi \<Longrightarrow>
   (\<forall>rs. stripe (rm_ALLOWED_RULES m) (sm_allowed_rules sec) = Some rs \<longrightarrow> allowed_loop v lo hi rs = Some (Inr ()))
   \<and> (\<forall>rs. stripe (rm_CMP_RULES m) (sm_cmp_rules sec) = Some rs \<longrightarrow> cmp_loop v lo hi rs = Some (Inr ()))"
  by (induction m v lo hi secs rule: section_loop.induct) (auto simp: res_bind_Ok split: if_splits)

lemma section_rules_Ok:
  assumes "map_ok m" "section_loop m v lo hi (rm_SECTIONS m) = Some (Inr ())"
  shows "(\<forall>r\<in>allowed_rules_of m. overlaps (unat (ar_addr r)) 1 lo hi \<longrightarrow>
        check_allowed v (ar_addr r) (ar_allowed r) = Some (Inr ()))
    \<and> (\<forall>r\<in>cmp_rules_of m. overlaps (unat (cr_addr r)) (rule_width r) lo hi \<longrightarrow>
        check_cmp v (cr_addr r) (cr_spec r) (rule_rhs r) = Some (Inr ()))"
proof (intro conjI ballI impI)
  fix r assume r: "r \<in> allowed_rules_of m" and o: "overlaps (unat (ar_addr r)) 1 lo hi"
  then obtain sec rs where s: "sec \<in> set (rm_SECTIONS m)" "stripe (rm_ALLOWED_RULES m) (sm_allowed_rules sec) = Some rs" "r \<in> set rs"
    by (auto simp: allowed_rules_of_def split: option.splits)
  with assms(1) have w: "sorted (map (unat \<circ> ar_addr) rs)" "unat (sm_base sec) \<le> unat (ar_addr r)"
      "unat (ar_addr r) < unat (sm_base sec) + unat (sm_size sec)"
    by (fastforce simp: map_ok_def split: option.splits)+
  with o have "overlaps (unat (sm_base sec)) (unat (sm_size sec)) lo hi" by (auto simp: overlaps_def)
  with section_loop_Ok [OF assms(2) s(1)] s(2) have "allowed_loop v lo hi rs = Some (Inr ())" by blast
  then show "check_allowed v (ar_addr r) (ar_allowed r) = Some (Inr ())" using allowed_loop_Ok w(1) s(3) o by blast
next
  fix r assume r: "r \<in> cmp_rules_of m" and o: "overlaps (unat (cr_addr r)) (rule_width r) lo hi"
  then obtain sec rs where s: "sec \<in> set (rm_SECTIONS m)" "stripe (rm_CMP_RULES m) (sm_cmp_rules sec) = Some rs" "r \<in> set rs"
    by (auto simp: cmp_rules_of_def split: option.splits)
  with assms(1) have w: "sorted (map (unat \<circ> cr_addr) rs)" "unat (sm_base sec) \<le> unat (cr_addr r)"
      "unat (cr_addr r) + rule_width r \<le> unat (sm_base sec) + unat (sm_size sec)"
    by (fastforce simp: map_ok_def split: option.splits)+
  with o have "overlaps (unat (sm_base sec)) (unat (sm_size sec)) lo hi" by (auto simp: overlaps_def)
  with section_loop_Ok [OF assms(2) s(1)] s(2) have "cmp_loop v lo hi rs = Some (Inr ())" by blast
  then show "check_cmp v (cr_addr r) (cr_spec r) (rule_rhs r) = Some (Inr ())" using cmp_loop_Ok w(1) s(3) o by blast
qed

lemma allowed_loop_complete:
  "(\<And>r. r \<in> set rs \<Longrightarrow> overlaps (unat (ar_addr r)) 1 lo hi \<Longrightarrow> check_allowed v (ar_addr r) (ar_allowed r) = Some (Inr ()))
   \<Longrightarrow> allowed_loop v lo hi rs = Some (Inr ())"
  by (induction rs) auto

lemma cmp_loop_complete:
  "(\<And>r. r \<in> set rs \<Longrightarrow> overlaps (unat (cr_addr r)) (rule_width r) lo hi \<Longrightarrow>
      check_cmp v (cr_addr r) (cr_spec r) (rule_rhs r) = Some (Inr ()))
   \<Longrightarrow> cmp_loop v lo hi rs = Some (Inr ())"
  by (induction rs) auto

lemma section_loop_complete:
  assumes "\<And>sec rs. sec \<in> set secs \<Longrightarrow> stripe (rm_ALLOWED_RULES m) (sm_allowed_rules sec) = Some rs \<Longrightarrow> allowed_loop v lo hi rs = Some (Inr ())"
    and "\<And>sec rs. sec \<in> set secs \<Longrightarrow> stripe (rm_CMP_RULES m) (sm_cmp_rules sec) = Some rs \<Longrightarrow> cmp_loop v lo hi rs = Some (Inr ())"
  shows "section_loop m v lo hi secs = Some (Inr ())"
  using assms
proof (induction secs)
  case (Cons a secs)
  have "section_loop m v lo hi secs = Some (Inr ())"
    by (rule Cons.IH) (use Cons.prems in \<open>auto simp del: section_loop.simps\<close>)
  moreover have "(case stripe (rm_ALLOWED_RULES m) (sm_allowed_rules a) of None \<Rightarrow> Some (Inr ()) | Some rs \<Rightarrow> allowed_loop v lo hi rs)
      = Some (Inr ())" using Cons.prems(1) [of a] by (simp split: option.split)
  moreover have "(case stripe (rm_CMP_RULES m) (sm_cmp_rules a) of None \<Rightarrow> Some (Inr ()) | Some rs \<Rightarrow> cmp_loop v lo hi rs)
      = Some (Inr ())" using Cons.prems(2) [of a] by (simp split: option.split)
  ultimately show ?case by simp
qed simp

lemma section_rules_complete:
  assumes "\<forall>r\<in>allowed_rules_of m. overlaps (unat (ar_addr r)) 1 lo hi \<longrightarrow>
        check_allowed v (ar_addr r) (ar_allowed r) = Some (Inr ())"
    and "\<forall>r\<in>cmp_rules_of m. overlaps (unat (cr_addr r)) (rule_width r) lo hi \<longrightarrow>
        check_cmp v (cr_addr r) (cr_spec r) (rule_rhs r) = Some (Inr ())"
  shows "section_loop m v lo hi (rm_SECTIONS m) = Some (Inr ())"
proof (rule section_loop_complete)
  fix sec rs assume "sec \<in> set (rm_SECTIONS m)" "stripe (rm_ALLOWED_RULES m) (sm_allowed_rules sec) = Some rs"
  then have "set rs \<subseteq> allowed_rules_of m" by (force simp: allowed_rules_of_def)
  with assms(1) show "allowed_loop v lo hi rs = Some (Inr ())" by (intro allowed_loop_complete) blast
next
  fix sec rs assume "sec \<in> set (rm_SECTIONS m)" "stripe (rm_CMP_RULES m) (sm_cmp_rules sec) = Some rs"
  then have "set rs \<subseteq> cmp_rules_of m" by (force simp: cmp_rules_of_def)
  with assms(2) show "cmp_loop v lo hi rs = Some (Inr ())" by (intro cmp_loop_complete) blast
qed

section \<open>Writes\<close>

definition write_ok :: "RegisterMap \<Rightarrow> bytes \<Rightarrow> u16 \<Rightarrow> bytes \<Rightarrow> bool" where
  "write_ok m mem addr d \<longleftrightarrow>
     (let lo = unat addr; hi = lo + length d; mem' = overlay mem lo d
      in hi \<le> rm_SIZE m \<and> (\<forall>i. lo \<le> i \<and> i < hi \<longrightarrow> byte_writable (rm_WRITABLE m) i)
         \<and> (\<forall>r\<in>allowed_rules_of m. overlaps (unat (ar_addr r)) 1 lo hi \<longrightarrow> allowed_holds mem' r)
         \<and> (\<forall>r\<in>cmp_rules_of m. overlaps (unat (cr_addr r)) (rule_width r) lo hi \<longrightarrow> cmp_holds mem' r))"

lemma validate_spec:
  assumes "length mem = rm_SIZE m" "map_ok m" "o1 @ o2 \<noteq> []"
  shows "safe (validate m mem addr o1 o2) \<and> (validate m mem addr o1 o2 = Some (Inr ()) \<longleftrightarrow> write_ok m mem addr (o1 @ o2))"
proof -
  define lo where "lo = unat addr"
  define hi where "hi = lo + (length o1 + length o2)"
  define v where "v = View_new_split mem (rm_SIZE m) addr o1 o2"
  have lh: "lo < hi" using assms(3) by (auto simp: hi_def)
  have val: "validate m mem addr o1 o2 =
      (if hi > rm_SIZE m then Some (Inl OutOfRange)
       else if \<forall>i. lo \<le> i \<and> i < hi \<longrightarrow> byte_writable (rm_WRITABLE m) i
       then section_loop m v lo hi (rm_SECTIONS m) else Some (Inl AccessError))"
    using assms(3) lh unfolding validate_def Let_def mask_loop_spec [OF lh, folded hi_def] lo_def [symmetric] hi_def [symmetric] v_def [symmetric]
    by auto
  show ?thesis
  proof (cases "hi \<le> rm_SIZE m")
    case False
    then show ?thesis by (simp add: val write_ok_def Let_def lo_def hi_def)
  next
    case True
    then have ok: "View_ok v" and img: "View_image v = overlay mem lo (o1 @ o2)"
      using assms(1) by (simp_all add: View_ok_def View_image_def v_def View_new_split_def hi_def lo_def)
    have "section_loop m v lo hi (rm_SECTIONS m) = Some (Inr ()) \<longleftrightarrow>
        (\<forall>r\<in>allowed_rules_of m. overlaps (unat (ar_addr r)) 1 lo hi \<longrightarrow> allowed_holds (overlay mem lo (o1 @ o2)) r)
        \<and> (\<forall>r\<in>cmp_rules_of m. overlaps (unat (cr_addr r)) (rule_width r) lo hi \<longrightarrow> cmp_holds (overlay mem lo (o1 @ o2)) r)"
      using section_rules_Ok [OF assms(2), of v lo hi] section_rules_complete [of m lo hi v]
      unfolding allowed_holds_def cmp_holds_def img [symmetric] check_allowed_plain [OF ok] check_cmp_plain [OF ok]
      by blast
    then show ?thesis
      using True section_loop_safe [OF ok, of m lo hi "rm_SECTIONS m"]
      by (simp add: val write_ok_def Let_def lo_def [symmetric] hi_def)
  qed
qed

lemma write_split_spec:
  assumes "length mem = rm_SIZE m" "map_ok m" "h @ t \<noteq> []"
  shows "\<exists>r. RegisterFile_write_split m mem addr h t = Some r
    \<and> (case r of Inl e \<Rightarrow> \<not> write_ok m mem addr (h @ t)
       | Inr mem' \<Rightarrow> write_ok m mem addr (h @ t) \<and> mem' = overlay mem (unat addr) (h @ t))"
proof (cases "write_ok m mem addr (h @ t)")
  case True
  then have "unat addr + length h + length t \<le> length mem"
    using assms(1) by (simp add: write_ok_def Let_def add.assoc)
  then have "raw_write mem (unat addr) h = Some (overlay mem (unat addr) h)"
      "raw_write (overlay mem (unat addr) h) (unat addr + length h) t = Some (overlay mem (unat addr) (h @ t))"
    by (simp_all add: raw_write_overlay overlay_split)
  with True validate_spec [OF assms, of addr] show ?thesis
    by (simp add: RegisterFile_write_split_def)
next
  case False
  with validate_spec [OF assms, of addr] obtain e where "validate m mem addr h t = Some (Inl e)"
    by (auto simp: safe_def) (metis old.sum.exhaust old.unit.exhaust)
  with False show ?thesis by (simp add: RegisterFile_write_split_def)
qed

text \<open>Property C14: a nonempty write, split at the ring seam anywhere, stays inside the map's memory and succeeds
  exactly when it is in range, every byte it covers is writable, and every rule of a field it
  touches holds in the memory it would produce; then exactly that memory results.\<close>

theorem write_split_correct:
  assumes "length mem = rm_SIZE m" "map_ok m" "h @ t \<noteq> []"
  shows "\<exists>r. RegisterFile_write_split m mem addr h t = Some r
    \<and> (case r of Inl e \<Rightarrow> \<not> write_ok m mem addr (h @ t)
       | Inr mem' \<Rightarrow> write_ok m mem addr (h @ t) \<and> mem' = overlay mem (unat addr) (h @ t))"
  using assms by (rule write_split_spec)

section \<open>Rules stay true\<close>

lemma read_fixed_outside:
  assumes "p + length d \<le> length mem" "\<not> overlaps (unat a) n p (p + length d)"
  shows "View_read_fixed (plain_view (overlay mem p d)) a n = View_read_fixed (plain_view mem) a n"
proof (cases "unat a + n \<le> length mem")
  case True
  have "load_img (overlay mem p d) (unat a) n = load_img mem (unat a) n"
    using assms True by (intro load_img_cong) (auto simp: nth_overlay overlaps_def)
  with assms(1) show ?thesis by (simp add: read_fixed_image)
qed (use assms(1) in \<open>simp add: read_fixed_image\<close>)

lemma allowed_outside:
  assumes "p + length d \<le> length mem" "\<not> overlaps (unat (ar_addr r)) 1 p (p + length d)"
  shows "allowed_holds (overlay mem p d) r = allowed_holds mem r"
  unfolding allowed_holds_def check_allowed_def read_fixed_outside [OF assms] ..

lemma unat_spec_width: "unat (ucast (s AND 0xF :: u16) :: u8) = unat (s AND 0xF)"
proof -
  have "s AND 0xF \<le> 0xF" by (rule word_and_le1)
  then have "unat (s AND 0xF) < 256" by (simp add: word_le_nat_alt)
  then show ?thesis by (simp add: unsigned_ucast_eq take_bit_nat_eq_self)
qed

lemma cmp_imm_outside:
  assumes "p + length d \<le> length mem" "\<not> overlaps (unat (cr_addr r)) (rule_width r) p (p + length d)"
    "cr_spec r AND SPEC_RHS_REG = 0"
  shows "cmp_holds (overlay mem p d) r = cmp_holds mem r"
proof -
  have "widen (plain_view (overlay mem p d)) (cr_addr r) (ucast (cr_spec r AND 0xF)) sg
      = widen (plain_view mem) (cr_addr r) (ucast (cr_spec r AND 0xF)) sg" for sg
    unfolding widen_def unat_spec_width rule_width_def [symmetric]
    by (simp only: read_fixed_outside [OF assms(1,2)])
  then show ?thesis
    using assms(3) by (simp add: cmp_holds_def check_cmp_def rule_rhs_def Let_def)
qed

definition rules_hold :: "RegisterMap \<Rightarrow> bytes \<Rightarrow> bool" where
  "rules_hold m mem \<longleftrightarrow> (\<forall>r\<in>allowed_rules_of m. allowed_holds mem r)
     \<and> (\<forall>r\<in>cmp_rules_of m. cr_spec r AND SPEC_RHS_REG = 0 \<longrightarrow> cmp_holds mem r)"

lemma write_ok_rules:
  assumes "length mem = rm_SIZE m" "write_ok m mem addr d" "rules_hold m mem"
  shows "rules_hold m (overlay mem (unat addr) d)"
  unfolding rules_hold_def
proof (intro conjI ballI impI)
  have l: "unat addr + length d \<le> length mem" using assms(1,2) by (simp add: write_ok_def Let_def)
  {
    fix r assume r: "r \<in> allowed_rules_of m"
    show "allowed_holds (overlay mem (unat addr) d) r"
    proof (cases "overlaps (unat (ar_addr r)) 1 (unat addr) (unat addr + length d)")
      case True
      with assms(2) r show ?thesis by (simp add: write_ok_def Let_def)
    next
      case False
      then show ?thesis using allowed_outside [OF l False] assms(3) r by (simp add: rules_hold_def)
    qed
  next
    fix r assume r: "r \<in> cmp_rules_of m" and i: "cr_spec r AND SPEC_RHS_REG = 0"
    show "cmp_holds (overlay mem (unat addr) d) r"
    proof (cases "overlaps (unat (cr_addr r)) (rule_width r) (unat addr) (unat addr + length d)")
      case True
      with assms(2) r show ?thesis by (simp add: write_ok_def Let_def)
    next
      case False
      then show ?thesis using cmp_imm_outside [OF l False i] assms(3) r i by (simp add: rules_hold_def)
    qed
  }
qed

text \<open>Property C23: the enum rules and the immediate compare rules are an invariant of the register file: if they
  all hold before a write, they all hold after it, whether or not it is accepted.\<close>

theorem write_keeps_rules:
  assumes "length mem = rm_SIZE m" "map_ok m" "rules_hold m mem"
    "RegisterFile_write_split m mem addr h t = Some (Inr mem')"
  shows "rules_hold m mem' \<and> length mem' = rm_SIZE m"
proof (cases "h @ t = []")
  case True
  then have "mem' = mem"
    using assms(4) by (auto simp: RegisterFile_write_split_def validate_def raw_write_def copy_slice_def bind_eq_Some_conv split: if_splits)
  with assms show ?thesis by simp
next
  case False
  then have "write_ok m mem addr (h @ t)" "mem' = overlay mem (unat addr) (h @ t)"
    using write_split_spec [OF assms(1,2) False, of addr] assms(4) by auto
  then show ?thesis using write_ok_rules [OF assms(1) _ assms(3)] assms(1)
    by (simp add: write_ok_def Let_def)
qed

text \<open>A small map: four registers, byte 0 read-only, byte 1 an enum, byte 2 at most 10.\<close>

definition demo_map :: RegisterMap where
  "demo_map = \<lparr>rm_SIZE = 4, rm_WRITABLE = [0xE],
     rm_SECTIONS = [\<lparr>sm_base = 0, sm_size = 4, sm_cmp_rules = (0, 1), sm_allowed_rules = (0, 1)\<rparr>],
     rm_CMP_RULES = [\<lparr>cr_addr = 2, cr_spec = rule_spec 1 False False OP_LE, cr_val = 10\<rparr>],
     rm_ALLOWED_RULES = [\<lparr>ar_addr = 1, ar_allowed = [0, 1]\<rparr>]\<rparr>"

lemma demo_map_ok: "map_ok demo_map" "length [0, 0, 0, 0 :: u8] = rm_SIZE demo_map"
  by (simp_all add: demo_map_def map_ok_def stripe_def get_range_def rule_width_def rule_spec_def
      SPEC_SIGNED_def SPEC_ABS_def OP_LE_def)

theorem write_split_correct_witness:
  "RegisterFile_write_split demo_map [0, 0, 0, 0] 1 [1] [10] = Some (Inr [0, 1, 10, 0])
   \<and> write_ok demo_map [0, 0, 0, 0] 1 [1, 10]"
proof -
  have w: "RegisterFile_write_split demo_map [0, 0, 0, 0] 1 [1] [10] = Some (Inr [0, 1, 10, 0])" by code_simp
  with write_split_correct [OF demo_map_ok(2,1), of "[1]" "[10]" 1] show ?thesis by auto
qed

theorem write_keeps_rules_witness: "rules_hold demo_map [0, 1, 10, 0]"
proof -
  have "RegisterFile_write_split demo_map [0, 0, 0, 0] 1 [1] [10] = Some (Inr [0, 1, 10, 0])" by code_simp
  moreover have "check_allowed (plain_view [0, 0, 0, 0]) 1 [0, 1] = Some (Inr ())" by code_simp
  moreover have "check_cmp (plain_view [0, 0, 0, 0]) 2 (rule_spec 1 False False OP_LE) (Rhs_Imm 10) = Some (Inr ())" by code_simp
  moreover have "rule_spec 1 False False OP_LE AND SPEC_RHS_REG = 0" by code_simp
  ultimately have "rules_hold demo_map [0, 0, 0, 0]"
    by (simp add: rules_hold_def allowed_rules_of_def cmp_rules_of_def demo_map_def stripe_def get_range_def
        allowed_holds_def cmp_holds_def rule_rhs_def)
  then show ?thesis
    using write_keeps_rules [OF demo_map_ok(2,1), of 1 "[1]" "[10]" "[0, 1, 10, 0]"]
      \<open>RegisterFile_write_split demo_map [0, 0, 0, 0] 1 [1] [10] = Some (Inr [0, 1, 10, 0])\<close> by simp
qed

text \<open>An empty write is accepted before any bound is checked; past the end of the map its
  zero-length copy then forms a pointer outside the storage.\<close>

lemma write_empty_out_of_bounds:
  "length mem < unat addr \<Longrightarrow> validate m mem addr [] [] = Some (Inr ()) \<and> RegisterFile_write_split m mem addr [] [] = None"
  by (simp add: validate_def RegisterFile_write_split_def raw_write_def copy_slice_def)

section \<open>Reads and commits\<close>

lemma read_span:
  assumes "length mem = rm_SIZE m" "rm_SIZE m < 2 ^ 32"
  shows "RegisterFile_read m mem addr len =
    Some (if unat addr + unat len \<le> rm_SIZE m then Inr (take (unat len) (drop (unat addr) mem)) else Inl OutOfRange)"
proof -
  have b: "unat addr < 65536" "unat len < 65536" using unsigned_less [of addr] unsigned_less [of len] by simp_all
  then have "unat (ucast addr :: u32) = unat addr" "unat (ucast len :: u32) = unat len"
    by (simp_all add: unsigned_ucast_eq take_bit_nat_eq_self)
  then have "unat ((ucast addr :: u32) + ucast len) = unat addr + unat len"
    using b by (simp add: unat_word_ariths)
  moreover have "unat (of_nat (rm_SIZE m) :: u32) = rm_SIZE m" using assms(2) by (simp add: unat_of_nat)
  ultimately have c: "(ucast addr :: u32) + ucast len > of_nat (rm_SIZE m) \<longleftrightarrow> rm_SIZE m < unat addr + unat len"
    by (simp add: word_less_nat_alt)
  show ?thesis
    using assms(1) unfolding RegisterFile_read_def Let_def c
    by (simp add: raw_read_def get_range_def not_less)
qed

definition apply_log :: "nat \<Rightarrow> bytes \<Rightarrow> (u16 \<times> bytes) list \<Rightarrow> bytes" where
  "apply_log n mem ws = foldl (\<lambda>mem (a, d). if unat a + length d \<le> n then overlay mem (unat a) d else mem) mem ws"

lemma length_apply_log [simp]: "length mem = n \<Longrightarrow> length (apply_log n mem ws) = n"
  by (induction ws arbitrary: mem) (auto simp: apply_log_def)

lemma apply_writes_log: "length mem = rm_SIZE m \<Longrightarrow> apply_writes m mem ws = Some (apply_log (rm_SIZE m) mem ws)"
proof (induction ws arbitrary: mem)
  case (Cons w ws)
  obtain a d where w: "w = (a, d)" by (cases w)
  show ?case
  proof (cases "unat a + length d \<le> rm_SIZE m")
    case True
    with Cons show ?thesis by (simp add: w raw_write_overlay apply_log_def)
  next
    case False
    with Cons show ?thesis by (simp add: w apply_log_def)
  qed
qed (simp add: apply_log_def)

lemma commit_effect:
  assumes "heapless_ok hv" "staged_rel s ws" "staged_rel s' (ws @ vs)" "length mem = rm_SIZE m"
  shows "RegisterFile_commit_from hv m mem s' (StagedWrites_snapshot s) = Some (apply_log (rm_SIZE m) mem vs, s)
    \<and> RegisterFile_commit_staged hv m mem s' = Some (apply_log (rm_SIZE m) mem (ws @ vs), StagedWrites_new)"
proof -
  have "StagedWrites_iter_from s' (StagedWrites_snapshot s) = Some vs"
    using staged_iter_suffix [OF assms(3)] staged_snapshot [OF assms(2)] by blast
  moreover have "StagedWrites_iter_from s' Snapshot_ZERO = Some (ws @ vs)"
    using staged_iter_suffix [of s' "[]" "ws @ vs"] assms(3) by (simp add: Snapshot_ZERO_def)
  moreover have "StagedWrites_revert_to hv s' (StagedWrites_snapshot s) = s"
    using heapless_vec.revert_eq [OF heapless_vec.intro [OF assms(1)] assms(2,3)] .
  moreover have "StagedWrites_clear hv s' = StagedWrites_new"
    using staged_rel_unique [OF staged_clear [OF assms(1)] staged_new] .
  ultimately show ?thesis
    by (simp add: RegisterFile_commit_from_def RegisterFile_commit_staged_def apply_from_def apply_writes_log [OF assms(4)])
qed

text \<open>Committing from a snapshot applies, in order, exactly the writes staged since it that lie inside
  the map, never touches memory outside the map, and leaves the buffer as it was at the
  snapshot; a full commit applies everything staged and empties the buffer.\<close>

lemma commit_correct:
  assumes "heapless_ok hv" "staged_rel s ws" "staged_rel s' (ws @ vs)" "length mem = rm_SIZE m"
  shows "RegisterFile_commit_from hv m mem s' (StagedWrites_snapshot s) = Some (apply_log (rm_SIZE m) mem vs, s)
    \<and> RegisterFile_commit_staged hv m mem s' = Some (apply_log (rm_SIZE m) mem (ws @ vs), StagedWrites_new)"
  using assms by (rule commit_effect)

lemma commit_correct_example:
  "RegisterFile_commit_staged Heapless_list demo_map [0, 0, 0, 0]
     \<lparr>sw_data = [1, 9], sw_entries = [\<lparr>se_addr = 1, se_len = 2, se_data_off = 0\<rparr>]\<rparr>
   = Some ([0, 1, 9, 0], StagedWrites_new)"
proof -
  let ?s = "\<lparr>sw_data = [1, 9], sw_entries = [\<lparr>se_addr = 1, se_len = 2, se_data_off = 0\<rparr>]\<rparr>"
  have "staged_rel ?s ([] @ [(1, [1, 9])])"
    by (simp add: staged_rel_def STAGE_DATA_CAP_def STAGE_ENTRY_CAP_def)
  from commit_correct [OF heapless_list_ok staged_new this demo_map_ok(2)]
  show ?thesis by (simp add: apply_log_def overlay_def demo_map_def)
qed

end
