(* ===== verification/Dispatch.thy ===== *)
theory Dispatch
  imports Frames Table
begin

text \<open>
  The request dispatcher (\<open>core/src/services/bus/dispatch.rs\<close>, \<open>session.rs\<close>), the reply surface and
  request types (\<open>core/src/traits/services.rs\<close>), the shared state (\<open>core/src/shared.rs\<close>), the profile span
  words (\<open>core/src/regions/profile.rs\<close>) and the field-write hooks (\<open>core/src/regions/hooks.rs\<close>).

  The control table is its 1024 bytes; a struct field of the code is the bytes at its
  table address.  The reply surface is implemented by the bus driver; here it is the trace
  of calls made on it.  The persistence store is implemented by the chip crate and is a
  parameter (\<open>Store\<close>), as is the register map the derive macros generate.
  The outer \<open>None\<close> of an operation is a panic or an access outside the table.
\<close>

section \<open>Requests, replies, environment\<close>

datatype BootMode = BootMode_App | BootMode_Bootloader

datatype Request =
    Request_Ping
  | Request_Read u16 u16
  | Request_ReadProfile u8
  | Request_Write u16 FrameBytes bool
  | Request_Commit
  | Request_Enumerate u8 bytes
  | Request_Assign bytes u8
  | Request_Calibrate u16 u8
  | Request_Mgmt MgmtOp FrameBytes
  | Request_Unsupported

datatype Dispatched = Dispatched_Done | Dispatched_Pending

datatype ReplyEvent =
    send_status ResultCode bool bytes
  | send_status_gather ResultCode bool "bytes list"
  | stage_id u8
  | set_id u8
  | stage_baud BaudRate
  | set_response_deadline u16
  | stage_reboot BootMode
  | begin_clock_cal u16 u8

definition GATHER_MAX :: nat where "GATHER_MAX = 8"

record PendingWrite =
  pw_snap :: Snapshot
  pw_hold :: bool
  pw_addr :: u16
  pw_len :: u16

text \<open>\<open>ConfigStore\<close>: \<open>save\<close> and \<open>wipe\<close> on the flash state; the boolean is \<open>Ok\<close>.\<close>

record 'f Store =
  store_save :: "'f \<Rightarrow> bytes \<Rightarrow> bytes \<Rightarrow> bytes \<Rightarrow> 'f \<times> bool"
  store_wipe :: "'f \<Rightarrow> 'f \<times> bool"

record 'f Env =
  env_hv :: Heapless
  env_map :: RegisterMap
  env_uid :: bytes
  env_store :: "'f Store option"

record 'f Servo =
  sv_table :: bytes
  sv_flash :: 'f
  sv_staged :: StagedWrites
  sv_pending :: "PendingWrite option"
  sv_reply :: "ReplyEvent list"

definition Session_new :: "bytes \<Rightarrow> 'f \<Rightarrow> 'f Servo" where
  "Session_new table flash =
     \<lparr>sv_table = table, sv_flash = flash, sv_staged = StagedWrites_new, sv_pending = None, sv_reply = []\<rparr>"

section \<open>The table's fields\<close>

definition TABLE_SIZE :: nat where "TABLE_SIZE = 1024"

definition CONFIG_REGION_SIZE :: u16 where "CONFIG_REGION_SIZE = 128"
definition CALIB_REGION_SIZE :: u16 where "CALIB_REGION_SIZE = 256"
definition CONTROL_REGION_SIZE :: u16 where "CONTROL_REGION_SIZE = 128"
definition TELEMETRY_REGION_SIZE :: u16 where "TELEMETRY_REGION_SIZE = 128"
definition PROFILE_REGION_SIZE :: u16 where "PROFILE_REGION_SIZE = 64"
definition CONFIG_BASE_ADDR :: u16 where "CONFIG_BASE_ADDR = 0x000"
definition CALIB_BASE_ADDR :: u16 where "CALIB_BASE_ADDR = 0x080"
definition CONTROL_BASE_ADDR :: u16 where "CONTROL_BASE_ADDR = 0x180"
definition TELEMETRY_BASE_ADDR :: u16 where "TELEMETRY_BASE_ADDR = 0x200"
definition PROFILE_BASE_ADDR :: u16 where "PROFILE_BASE_ADDR = 0x280"

definition MODEL_NUMBER :: u16 where "MODEL_NUMBER = 0x000"
definition ID_ADDR :: u16 where "ID_ADDR = 0x010"
definition BAUD_RATE_IDX :: u16 where "BAUD_RATE_IDX = 0x011"
definition RESPONSE_DEADLINE_US :: u16 where "RESPONSE_DEADLINE_US = 0x012"
definition TORQUE_ENABLE :: u16 where "TORQUE_ENABLE = 0x180"
definition BOOT_MODE :: u16 where "BOOT_MODE = 0x194"
definition FAULT_FLAGS :: u16 where "FAULT_FLAGS = 0x200"
definition STATUS_FLAGS :: u16 where "STATUS_FLAGS = 0x201"
definition STATUS_FLAG_CONFIG_DIRTY :: u8 where "STATUS_FLAG_CONFIG_DIRTY = 1"

definition tbl_u8 :: "bytes \<Rightarrow> u16 \<Rightarrow> u8" where
  "tbl_u8 t a = t ! unat a"

definition tbl_set_u8 :: "bytes \<Rightarrow> u16 \<Rightarrow> u8 \<Rightarrow> bytes" where
  "tbl_set_u8 t a v = t[unat a := v]"

definition tbl_u16 :: "bytes \<Rightarrow> u16 \<Rightarrow> u16" where
  "tbl_u16 t a = from_le16 (t ! unat a) (t ! (unat a + 1))"

text \<open>The one-byte enum is read as its discriminant; the enum rule keeps it 0 or 1.\<close>

definition tbl_boot_mode :: "bytes \<Rightarrow> BootMode" where
  "tbl_boot_mode t = (if tbl_u8 t BOOT_MODE = 0 then BootMode_App else BootMode_Bootloader)"

definition tbl_torque_enable :: "bytes \<Rightarrow> bool" where
  "tbl_torque_enable t \<longleftrightarrow> tbl_u8 t TORQUE_ENABLE \<noteq> 0"

section \<open>Profile span words and hooks\<close>

definition span_word :: "u16 \<Rightarrow> u8 \<Rightarrow> u16" where
  "span_word addr count = push_bit 6 addr OR (ucast count AND 0x3F)"

definition span_of :: "u16 \<Rightarrow> (u16 \<times> u16) option" where
  "span_of word = (let count = word AND 0x3F in if count = 0 then None else Some (drop_bit 6 word, count))"

definition slot_words :: "bytes \<Rightarrow> u8 \<Rightarrow> u16 list option" where
  "slot_words t slot =
     (if slot \<ge> PROFILE_SLOTS then None
      else let at = unat slot * PROFILE_SPANS_PER_SLOT
           in Some (map (\<lambda>i. tbl_u16 t (PROFILE_BASE_ADDR + of_nat (2 * (at + i)))) [0..<PROFILE_SPANS_PER_SLOT]))"

definition hook_hit :: "u16 \<Rightarrow> u16 \<Rightarrow> nat \<Rightarrow> nat \<Rightarrow> bool" where
  "hook_hit addr len f_lo f_size \<longleftrightarrow>
     unat addr < f_lo + f_size \<and> f_lo < unat addr + unat len"

definition on_baud_rate_idx_write :: "u8 \<Rightarrow> ReplyEvent list" where
  "on_baud_rate_idx_write v = (case BaudRate_from_idx v of Some b \<Rightarrow> [stage_baud b] | None \<Rightarrow> [])"

definition dispatch_events :: "bytes \<Rightarrow> u16 \<Rightarrow> u16 \<Rightarrow> ReplyEvent list" where
  "dispatch_events t addr len =
     (if hook_hit addr len (unat ID_ADDR) 1 then [stage_id (tbl_u8 t ID_ADDR)] else [])
     @ (if hook_hit addr len (unat BAUD_RATE_IDX) 1 then on_baud_rate_idx_write (tbl_u8 t BAUD_RATE_IDX) else [])
     @ (if hook_hit addr len (unat RESPONSE_DEADLINE_US) 2
        then [set_response_deadline (tbl_u16 t RESPONSE_DEADLINE_US)] else [])"

section \<open>Replies\<close>

definition error_to_result :: "Error \<Rightarrow> ResultCode" where
  "error_to_result e =
     (case e of AccessError \<Rightarrow> ResultCode_Access
      | ValidationError _ \<Rightarrow> ResultCode_Validation
      | _ \<Rightarrow> ResultCode_Range)"

definition emit :: "'f Servo \<Rightarrow> ReplyEvent list \<Rightarrow> 'f Servo" where
  "emit sv es = sv\<lparr>sv_reply := sv_reply sv @ es\<rparr>"

definition Dispatcher_send :: "'f Servo \<Rightarrow> ResultCode \<Rightarrow> bool \<Rightarrow> bytes \<Rightarrow> 'f Servo" where
  "Dispatcher_send sv result alert data = emit sv [send_status result alert data]"

definition ack_code :: "bool \<Rightarrow> bool \<Rightarrow> ResultCode \<Rightarrow> 'f Servo \<Rightarrow> 'f Servo" where
  "ack_code alert may_reply code sv = (if \<not> may_reply then sv else Dispatcher_send sv code alert [])"

definition ack :: "bool \<Rightarrow> bool \<Rightarrow> Error + unit \<Rightarrow> 'f Servo \<Rightarrow> 'f Servo" where
  "ack alert may_reply result sv =
     (let code = (case result of Inr _ \<Rightarrow> ResultCode_Ok | Inl e \<Rightarrow> error_to_result e)
      in ack_code alert may_reply code sv)"

definition instruction_error :: "bool \<Rightarrow> bool \<Rightarrow> 'f Servo \<Rightarrow> 'f Servo" where
  "instruction_error alert may_reply sv =
     (if \<not> may_reply then sv else Dispatcher_send sv ResultCode_Instruction alert [])"

definition Dispatcher_alert :: "'f Servo \<Rightarrow> bool" where
  "Dispatcher_alert sv \<longleftrightarrow> tbl_u8 (sv_table sv) FAULT_FLAGS \<noteq> 0"

definition saturating_add16 :: "u16 \<Rightarrow> u16 \<Rightarrow> u16" where
  "saturating_add16 a b = (if unat a + unat b < 65536 then a + b else 0xFFFF)"

definition mark_dirty_if_persistent :: "u16 \<Rightarrow> u16 \<Rightarrow> 'f Servo \<Rightarrow> 'f Servo" where
  "mark_dirty_if_persistent addr len sv =
     (let CONFIG_END = CONFIG_BASE_ADDR + CONFIG_REGION_SIZE;
          PROFILE_END = PROFILE_BASE_ADDR + PROFILE_REGION_SIZE;
          end = saturating_add16 addr len;
          hits = (addr < CONFIG_END \<or> (addr < PROFILE_END \<and> end > PROFILE_BASE_ADDR))
      in if hits
         then sv\<lparr>sv_table := tbl_set_u8 (sv_table sv) STATUS_FLAGS
                    (tbl_u8 (sv_table sv) STATUS_FLAGS OR STATUS_FLAG_CONFIG_DIRTY)\<rparr>
         else sv)"

definition revert_dangling :: "'f Env \<Rightarrow> 'f Servo \<Rightarrow> 'f Servo" where
  "revert_dangling env sv =
     (case sv_pending sv of
        Some p \<Rightarrow> sv\<lparr>sv_pending := None, sv_staged := StagedWrites_revert_to (env_hv env) (sv_staged sv) (pw_snap p)\<rparr>
      | None \<Rightarrow> sv)"

section \<open>Handlers\<close>

definition Dispatcher_ping :: "'f Env \<Rightarrow> bool \<Rightarrow> bool \<Rightarrow> 'f Servo \<Rightarrow> 'f Servo option" where
  "Dispatcher_ping env alert may_reply sv =
     (if \<not> may_reply then Some sv
      else do { r \<leftarrow> RegisterFile_read (env_map env) (sv_table sv) MODEL_NUMBER 3;
                let data = (case r of Inr d \<Rightarrow> d | Inl _ \<Rightarrow> [])
                in Some (Dispatcher_send sv ResultCode_Ok alert data) })"

definition Dispatcher_read :: "'f Env \<Rightarrow> bool \<Rightarrow> bool \<Rightarrow> u16 \<Rightarrow> u16 \<Rightarrow> 'f Servo \<Rightarrow> 'f Servo option" where
  "Dispatcher_read env alert may_reply addr count sv =
     (if \<not> may_reply then Some sv
      else if count = 0 then Some (Dispatcher_send sv ResultCode_Range alert [])
      else if count > ucast MAX_PAYLOAD then Some (Dispatcher_send sv ResultCode_Limit alert [])
      else do { r \<leftarrow> RegisterFile_read (env_map env) (sv_table sv) addr count;
                case r of
                  Inr d \<Rightarrow> Some (Dispatcher_send sv ResultCode_Ok alert d)
                | Inl _ \<Rightarrow> Some (Dispatcher_send sv ResultCode_Range alert []) })"

text \<open>The span loop: \<open>Inl\<close> is the early \<open>range\<close> return; the fixed array of spans panics past
  \<open>GATHER_MAX\<close> entries.\<close>

fun profile_loop :: "'f Env \<Rightarrow> bytes \<Rightarrow> u16 list \<Rightarrow> bytes list \<Rightarrow> u16 \<Rightarrow> (ResultCode + bytes list \<times> u16) option" where
  "profile_loop env t [] spans tot = Some (Inr (spans, tot))"
| "profile_loop env t (w # ws) spans tot =
     (case span_of w of
        None \<Rightarrow> profile_loop env t ws spans tot
      | Some (addr, count) \<Rightarrow>
        do { r \<leftarrow> RegisterFile_read (env_map env) t addr count;
             case r of
               Inl _ \<Rightarrow> Some (Inl ResultCode_Range)
             | Inr d \<Rightarrow> (if length spans < GATHER_MAX
                         then profile_loop env t ws (spans @ [d]) (tot + count) else None) })"

definition Dispatcher_read_profile :: "'f Env \<Rightarrow> bool \<Rightarrow> bool \<Rightarrow> u8 \<Rightarrow> 'f Servo \<Rightarrow> 'f Servo option" where
  "Dispatcher_read_profile env alert may_reply slot sv =
     (if \<not> may_reply then Some sv
      else case slot_words (sv_table sv) slot of
          None \<Rightarrow> Some (Dispatcher_send sv ResultCode_Range alert [])
        | Some words \<Rightarrow>
          do { r \<leftarrow> profile_loop env (sv_table sv) words [] 0;
               case r of
                 Inl code \<Rightarrow> Some (Dispatcher_send sv code alert [])
               | Inr (spans, tot) \<Rightarrow>
                 (if spans = [] then Some (Dispatcher_send sv ResultCode_Range alert [])
                  else if tot > ucast MAX_PAYLOAD then Some (Dispatcher_send sv ResultCode_Limit alert [])
                  else Some (emit sv [send_status_gather ResultCode_Ok alert spans])) })"

definition Dispatcher_write ::
  "'f Env \<Rightarrow> bool \<Rightarrow> bool \<Rightarrow> u16 \<Rightarrow> FrameBytes \<Rightarrow> bool \<Rightarrow> 'f Servo \<Rightarrow> ('f Servo \<times> Dispatched) option" where
  "Dispatcher_write env alert may_reply addr data hold sv =
     (let (head, tail) = FrameBytes_segments data;
          snap = StagedWrites_snapshot (sv_staged sv)
      in do { (staged, r) \<leftarrow> RegisterFile_stage_split (env_hv env) (env_map env) (sv_table sv) addr head tail (sv_staged sv);
              let sv = sv\<lparr>sv_staged := staged\<rparr>
              in case r of
                   Inr _ \<Rightarrow>
                     Some ((ack alert may_reply (Inr ()) sv)
                        \<lparr>sv_pending := Some \<lparr>pw_snap = snap, pw_hold = hold, pw_addr = addr,
                                             pw_len = of_nat (FrameBytes_len data)\<rparr>\<rparr>, Dispatched_Pending)
                 | Inl StagingFull \<Rightarrow>
                     Some (if may_reply then Dispatcher_send sv ResultCode_Busy alert [] else sv, Dispatched_Done)
                 | Inl e \<Rightarrow> Some (ack alert may_reply (Inl e) sv, Dispatched_Done) })"

fun capture_spans :: "Heapless \<Rightarrow> (u16 \<times> u16) list \<Rightarrow> (u16 \<times> bytes) list \<Rightarrow> (u16 \<times> u16) list" where
  "capture_spans hv spans [] = spans"
| "capture_spans hv spans ((addr, data) # ws) =
     (case hv_push_span hv STAGE_ENTRY_CAP spans (addr, of_nat (length data)) of
        Some spans' \<Rightarrow> capture_spans hv spans' ws
      | None \<Rightarrow> capture_spans hv spans ws)"

fun commit_spans :: "(u16 \<times> u16) list \<Rightarrow> 'f Servo \<Rightarrow> 'f Servo" where
  "commit_spans [] sv = sv"
| "commit_spans ((addr, len) # ss) sv =
     (let sv = mark_dirty_if_persistent addr len sv
      in commit_spans ss (emit sv (dispatch_events (sv_table sv) addr len)))"

definition apply_commit :: "'f Env \<Rightarrow> bool \<Rightarrow> bool \<Rightarrow> 'f Servo \<Rightarrow> 'f Servo option" where
  "apply_commit env alert may_reply sv =
     do { ws \<leftarrow> StagedWrites_iter_all (sv_staged sv);
          let spans = capture_spans (env_hv env) [] ws
          in do { (t, s) \<leftarrow> RegisterFile_commit_staged (env_hv env) (env_map env) (sv_table sv) (sv_staged sv);
                  Some (commit_spans spans (ack alert may_reply (Inr ()) (sv\<lparr>sv_table := t, sv_staged := s\<rparr>))) } }"

definition Dispatcher_enumerate :: "'f Env \<Rightarrow> bool \<Rightarrow> bool \<Rightarrow> u8 \<Rightarrow> bytes \<Rightarrow> 'f Servo \<Rightarrow> 'f Servo option" where
  "Dispatcher_enumerate env alert may_reply prefix_len prefix sv =
     (if \<not> may_reply then Some sv
      else do { hit \<leftarrow> uid_prefix_matches (env_uid env) prefix_len prefix;
                if \<not> hit then Some sv
                else Some (Dispatcher_send sv ResultCode_Ok alert (env_uid env)) })"

definition Dispatcher_assign :: "'f Env \<Rightarrow> bool \<Rightarrow> bool \<Rightarrow> bytes \<Rightarrow> u8 \<Rightarrow> 'f Servo \<Rightarrow> 'f Servo" where
  "Dispatcher_assign env alert may_reply uid new_id sv =
     (if uid \<noteq> env_uid env then sv
      else if Id_try_unicast new_id = None
      then ack alert may_reply (Inl (ValidationError ValidationKind_Compare)) sv
      else let t = tbl_set_u8 (sv_table sv) ID_ADDR new_id;
               t = tbl_set_u8 t STATUS_FLAGS (tbl_u8 t STATUS_FLAGS OR STATUS_FLAG_CONFIG_DIRTY)
           in ack alert may_reply (Inr ()) (emit (sv\<lparr>sv_table := t\<rparr>) [set_id new_id]))"

definition persist_table :: "'f Env \<Rightarrow> 'f Servo \<Rightarrow> ('f \<times> bool) option" where
  "persist_table env sv =
     (case env_store env of
        None \<Rightarrow> Some (sv_flash sv, False)
      | Some st \<Rightarrow>
        do { config \<leftarrow> RegisterFile_read (env_map env) (sv_table sv) CONFIG_BASE_ADDR CONFIG_REGION_SIZE;
             profile \<leftarrow> RegisterFile_read (env_map env) (sv_table sv) PROFILE_BASE_ADDR PROFILE_REGION_SIZE;
             calib \<leftarrow> RegisterFile_read (env_map env) (sv_table sv) CALIB_BASE_ADDR CALIB_REGION_SIZE;
             case (config, profile, calib) of
               (Inr c, Inr p, Inr k) \<Rightarrow> Some (store_save st (sv_flash sv) c p k)
             | _ \<Rightarrow> Some (sv_flash sv, False) })"

definition Dispatcher_save :: "'f Env \<Rightarrow> bool \<Rightarrow> bool \<Rightarrow> 'f Servo \<Rightarrow> 'f Servo option" where
  "Dispatcher_save env alert may_reply sv =
     (if tbl_torque_enable (sv_table sv) then Some (ack alert may_reply (Inl AccessError) sv)
      else do { (fl, ok) \<leftarrow> persist_table env sv;
                let sv = sv\<lparr>sv_flash := fl\<rparr>
                in if ok then
                     Some (ack_code alert may_reply ResultCode_Ok
                       (sv\<lparr>sv_table := tbl_set_u8 (sv_table sv) STATUS_FLAGS
                              (tbl_u8 (sv_table sv) STATUS_FLAGS AND NOT STATUS_FLAG_CONFIG_DIRTY)\<rparr>))
                   else Some (ack_code alert may_reply ResultCode_Hardware sv) })"

definition Dispatcher_factory :: "'f Env \<Rightarrow> bool \<Rightarrow> bool \<Rightarrow> 'f Servo \<Rightarrow> 'f Servo" where
  "Dispatcher_factory env alert may_reply sv =
     (if tbl_torque_enable (sv_table sv) then ack alert may_reply (Inl AccessError) sv
      else let (fl, ok) = (case env_store env of None \<Rightarrow> (sv_flash sv, False) | Some st \<Rightarrow> store_wipe st (sv_flash sv));
               sv = sv\<lparr>sv_flash := fl\<rparr>
           in if ok then emit (ack alert may_reply (Inr ()) sv) [stage_reboot (tbl_boot_mode (sv_table sv))]
              else ack_code alert may_reply ResultCode_Hardware sv)"

definition Dispatcher_mgmt :: "'f Env \<Rightarrow> bool \<Rightarrow> bool \<Rightarrow> MgmtOp \<Rightarrow> 'f Servo \<Rightarrow> 'f Servo option" where
  "Dispatcher_mgmt env alert may_reply m sv =
     (case m of
        MgmtOp_Save \<Rightarrow> Dispatcher_save env alert may_reply sv
      | MgmtOp_Factory \<Rightarrow> Some (Dispatcher_factory env alert may_reply sv)
      | MgmtOp_Reboot \<Rightarrow>
          Some (emit (ack alert may_reply (Inr ()) sv) [stage_reboot (tbl_boot_mode (sv_table sv))])
      | _ \<Rightarrow> Some (instruction_error alert may_reply sv))"

section \<open>The dispatch spine\<close>

definition finished :: "'f Servo option \<Rightarrow> ('f Servo \<times> Dispatched) option" where
  "finished r = map_option (\<lambda>sv. (sv, Dispatched_Done)) r"

definition dispatch_match :: "'f Env \<Rightarrow> bool \<Rightarrow> Request \<Rightarrow> bool \<Rightarrow> 'f Servo \<Rightarrow> ('f Servo \<times> Dispatched) option" where
  "dispatch_match env alert req may_reply sv =
     (case req of
        Request_Ping \<Rightarrow> finished (Dispatcher_ping env alert may_reply sv)
      | Request_Read addr count \<Rightarrow> finished (Dispatcher_read env alert may_reply addr count sv)
      | Request_ReadProfile slot \<Rightarrow> finished (Dispatcher_read_profile env alert may_reply slot sv)
      | Request_Write addr data hold \<Rightarrow> Dispatcher_write env alert may_reply addr data hold sv
      | Request_Commit \<Rightarrow> finished (apply_commit env alert may_reply sv)
      | Request_Enumerate prefix_len prefix \<Rightarrow> finished (Dispatcher_enumerate env alert may_reply prefix_len prefix sv)
      | Request_Assign uid new_id \<Rightarrow> finished (Some (Dispatcher_assign env alert may_reply uid new_id sv))
      | Request_Calibrate gap_us gaps \<Rightarrow> finished (Some (emit sv [begin_clock_cal gap_us gaps]))
      | Request_Mgmt m _ \<Rightarrow> finished (Dispatcher_mgmt env alert may_reply m sv)
      | Request_Unsupported \<Rightarrow> finished (Some (instruction_error alert may_reply sv)))"

definition dispatch :: "'f Env \<Rightarrow> Request \<Rightarrow> bool \<Rightarrow> 'f Servo \<Rightarrow> ('f Servo \<times> Dispatched) option" where
  "dispatch env req may_reply sv =
     (let sv = revert_dangling env sv;
          alert = Dispatcher_alert sv
      in dispatch_match env alert req may_reply sv)"

definition Dispatcher_commit :: "'f Env \<Rightarrow> 'f Servo \<Rightarrow> 'f Servo option" where
  "Dispatcher_commit env sv =
     (case sv_pending sv of
        None \<Rightarrow> Some sv
      | Some p \<Rightarrow>
        let sv = sv\<lparr>sv_pending := None\<rparr>
        in if pw_hold p then Some sv
           else do { (t, s) \<leftarrow> RegisterFile_commit_from (env_hv env) (env_map env) (sv_table sv) (sv_staged sv) (pw_snap p);
                     let sv = mark_dirty_if_persistent (pw_addr p) (pw_len p) (sv\<lparr>sv_table := t, sv_staged := s\<rparr>)
                     in Some (emit sv (dispatch_events (sv_table sv) (pw_addr p) (pw_len p))) })"

definition Dispatcher_revert :: "'f Env \<Rightarrow> 'f Servo \<Rightarrow> 'f Servo" where
  "Dispatcher_revert env sv =
     (case sv_pending sv of
        Some p \<Rightarrow> sv\<lparr>sv_pending := None, sv_staged := StagedWrites_revert_to (env_hv env) (sv_staged sv) (pw_snap p)\<rparr>
      | None \<Rightarrow> sv)"

end
