(* ===== verification/Spine.thy ===== *)
theory Spine
  imports Dispatch
begin

text \<open>
  The properties of the dispatcher: totality and the well-formedness invariant of a servo's
  dispatch state, the reply discipline, the atomicity of the dispatch-before-verdict write
  spine, held writes and COMMIT, and the durability contract of SAVE.
\<close>

section \<open>Well-formed servos\<close>

definition env_ok :: "'f Env \<Rightarrow> bool" where
  "env_ok env \<longleftrightarrow> heapless_ok (env_hv env) \<and> map_ok (env_map env) \<and> rm_SIZE (env_map env) = TABLE_SIZE
     \<and> length (env_uid env) = UID_LEN"

text \<open>The staging buffer holds the held writes, and above them the one pending write, if any,
  whose snapshot marks the state before it.\<close>

definition servo_ok :: "'f Servo \<Rightarrow> bool" where
  "servo_ok sv \<longleftrightarrow> length (sv_table sv) = TABLE_SIZE \<and>
     (case sv_pending sv of
        None \<Rightarrow> \<exists>ws. staged_rel (sv_staged sv) ws
      | Some p \<Rightarrow> \<exists>s0 ws d. staged_rel s0 ws \<and> staged_rel (sv_staged sv) (ws @ [(pw_addr p, d)])
          \<and> pw_snap p = StagedWrites_snapshot s0 \<and> pw_len p = of_nat (length d))"

definition req_ok :: "Request \<Rightarrow> bool" where
  "req_ok req \<longleftrightarrow> (case req of Request_Enumerate n p \<Rightarrow> unat n \<le> 128 \<and> length p = 16 | _ \<Rightarrow> True)"

named_theorems disp_defs \<open>handlers of the dispatcher\<close>

lemmas [disp_defs] = Dispatcher_send_def emit_def ack_def ack_code_def instruction_error_def
  mark_dirty_if_persistent_def tbl_set_u8_def Let_def

lemma revert_eq_dangling: "Dispatcher_revert env sv = revert_dangling env sv"
  by (simp add: Dispatcher_revert_def revert_dangling_def)

lemma staged_revert_eq:
  assumes "env_ok env" "staged_rel s0 ws" "staged_rel s (ws @ vs)"
  shows "StagedWrites_revert_to (env_hv env) s (StagedWrites_snapshot s0) = s0"
  using assms heapless_vec.revert_eq [OF heapless_vec.intro] by (auto simp: env_ok_def)

lemma revert_dangling_ok:
  assumes "env_ok env" "servo_ok sv"
  shows "servo_ok (revert_dangling env sv) \<and> sv_pending (revert_dangling env sv) = None
    \<and> sv_table (revert_dangling env sv) = sv_table sv \<and> sv_flash (revert_dangling env sv) = sv_flash sv
    \<and> sv_reply (revert_dangling env sv) = sv_reply sv"
proof (cases "sv_pending sv")
  case None
  with assms(2) show ?thesis by (simp add: revert_dangling_def)
next
  case (Some p)
  with assms(2) obtain s0 ws d where s: "staged_rel s0 ws" "staged_rel (sv_staged sv) (ws @ [(pw_addr p, d)])"
      "pw_snap p = StagedWrites_snapshot s0" by (auto simp: servo_ok_def)
  then have "StagedWrites_revert_to (env_hv env) (sv_staged sv) (pw_snap p) = s0"
    using staged_revert_eq [OF assms(1)] by simp
  with Some s assms(2) show ?thesis by (auto simp: revert_dangling_def servo_ok_def)
qed

lemma read_table:
  assumes "env_ok env" "length t = TABLE_SIZE"
  shows "RegisterFile_read (env_map env) t addr len =
    Some (if unat addr + unat len \<le> TABLE_SIZE then Inr (take (unat len) (drop (unat addr) t)) else Inl OutOfRange)"
  using read_span [of t "env_map env" addr len] assms by (simp add: env_ok_def TABLE_SIZE_def)

lemma length_span: "span_of w = Some (a, c) \<Longrightarrow> c \<noteq> 0 \<and> c = w AND 0x3F"
  by (auto simp: span_of_def Let_def split: if_splits)

lemma profile_loop_total:
  assumes "env_ok env" "length t = TABLE_SIZE"
  shows "length spans + length ws \<le> GATHER_MAX \<Longrightarrow> profile_loop env t ws spans tot \<noteq> None"
proof (induction ws arbitrary: spans tot)
  case (Cons w ws)
  show ?case
  proof (cases "span_of w")
    case None
    with Cons show ?thesis by simp
  next
    case (Some ac)
    with Cons show ?thesis by (cases ac) (simp add: read_table [OF assms])
  qed
qed simp

lemma length_slot_words: "slot_words t slot = Some ws \<Longrightarrow> length ws = GATHER_MAX"
  by (auto simp: slot_words_def PROFILE_SPANS_PER_SLOT_def GATHER_MAX_def split: if_splits)

section \<open>Frame conditions of the handlers\<close>

text \<open>What an operation leaves alone: everything but the replies.\<close>

definition same_but_reply :: "'f Servo \<Rightarrow> 'f Servo \<Rightarrow> bool" where
  "same_but_reply sv sv' \<longleftrightarrow> (\<exists>r. sv' = sv\<lparr>sv_reply := sv_reply sv @ r\<rparr>)"

definition is_status :: "ReplyEvent \<Rightarrow> bool" where
  "is_status e \<longleftrightarrow> (case e of send_status _ _ _ \<Rightarrow> True | send_status_gather _ _ _ \<Rightarrow> True | _ \<Rightarrow> False)"

definition n_status :: "ReplyEvent list \<Rightarrow> nat" where
  "n_status r = length (filter is_status r)"

text \<open>A handler that only replies: at most one status, and none unless the request may be answered.\<close>

definition replies :: "bool \<Rightarrow> 'f Servo \<Rightarrow> 'f Servo \<Rightarrow> bool" where
  "replies mr sv sv' \<longleftrightarrow> (\<exists>r. sv' = emit sv r \<and> n_status r \<le> (if mr then 1 else 0))"

lemma n_status_simps [simp]:
  "n_status [] = 0" "n_status (e # r) = (if is_status e then 1 else 0) + n_status r"
  "n_status (r @ r') = n_status r + n_status r'"
  by (simp_all add: n_status_def)

lemma is_status_simps [simp]:
  "is_status (send_status c a d)" "is_status (send_status_gather c a ds)" "\<not> is_status (stage_id i)"
  "\<not> is_status (set_id i)" "\<not> is_status (stage_baud b)" "\<not> is_status (set_response_deadline u)"
  "\<not> is_status (stage_reboot m)" "\<not> is_status (begin_clock_cal g n)"
  by (simp_all add: is_status_def)

lemma emit_emit: "emit (emit sv r) r' = emit sv (r @ r')"
  by (simp add: emit_def)

lemma emit_Nil [simp]: "emit sv [] = sv"
  by (simp add: emit_def)

lemma emit_sel [simp]:
  "sv_table (emit sv r) = sv_table sv" "sv_flash (emit sv r) = sv_flash sv"
  "sv_staged (emit sv r) = sv_staged sv" "sv_pending (emit sv r) = sv_pending sv"
  "sv_reply (emit sv r) = sv_reply sv @ r"
  by (simp_all add: emit_def)

lemma replies_refl [simp]: "replies mr sv sv"
  unfolding replies_def by (intro exI [of _ "[]"]) simp

lemma replies_send: "replies True sv (Dispatcher_send sv c a d)"
  unfolding replies_def Dispatcher_send_def by (intro exI [of _ "[send_status c a d]"]) simp

lemma replies_emit: "n_status r \<le> (if mr then 1 else 0) \<Longrightarrow> replies mr sv (emit sv r)"
  by (auto simp: replies_def)

lemma replies_ack_code: "replies mr sv (ack_code a mr c sv)"
  using replies_send [of sv c a "[]"] by (cases mr) (simp_all add: ack_code_def)

lemma replies_ack: "replies mr sv (ack a mr r sv)"
  by (simp add: ack_def Let_def replies_ack_code)

lemma replies_instruction_error: "replies mr sv (instruction_error a mr sv)"
  using replies_send by (cases mr) (auto simp: instruction_error_def)

lemma replies_keep:
  "replies mr sv sv' \<Longrightarrow> sv_table sv' = sv_table sv \<and> sv_flash sv' = sv_flash sv \<and> sv_staged sv' = sv_staged sv
     \<and> sv_pending sv' = sv_pending sv"
  by (auto simp: replies_def)

lemma replies_ok: "replies mr sv sv' \<Longrightarrow> servo_ok sv' = servo_ok sv"
  by (auto simp only: replies_def servo_ok_def emit_sel)

lemma ping_replies:
  "env_ok env \<Longrightarrow> length (sv_table sv) = TABLE_SIZE \<Longrightarrow> \<exists>sv'. Dispatcher_ping env a mr sv = Some sv' \<and> replies mr sv sv'"
  using replies_send by (cases mr) (auto simp: Dispatcher_ping_def read_table Let_def)

lemma read_replies:
  "env_ok env \<Longrightarrow> length (sv_table sv) = TABLE_SIZE \<Longrightarrow> \<exists>sv'. Dispatcher_read env a mr addr n sv = Some sv' \<and> replies mr sv sv'"
  using replies_send by (cases mr) (auto simp: Dispatcher_read_def read_table Let_def)

lemma read_profile_replies:
  assumes "env_ok env" "length (sv_table sv) = TABLE_SIZE"
  shows "\<exists>sv'. Dispatcher_read_profile env a mr slot sv = Some sv' \<and> replies mr sv sv'"
proof (cases "slot_words (sv_table sv) slot")
  case None
  then show ?thesis using replies_send by (cases mr) (auto simp: Dispatcher_read_profile_def)
next
  case (Some ws)
  obtain r where "profile_loop env (sv_table sv) ws [] 0 = Some r"
    using profile_loop_total [OF assms, of "[]" ws 0] length_slot_words [OF Some] by auto
  with Some show ?thesis
    using replies_send replies_emit [of "[send_status_gather ResultCode_Ok a _]" True sv]
    by (cases mr) (auto simp: Dispatcher_read_profile_def split: sum.split prod.split)
qed

lemma enumerate_replies:
  assumes "env_ok env" "unat n \<le> 128" "length p = 16"
  shows "\<exists>sv'. Dispatcher_enumerate env a mr n p sv = Some sv' \<and> replies mr sv sv'"
proof -
  obtain hit where "uid_prefix_matches (env_uid env) n p = Some hit"
    using prefix_match_total [of "env_uid env" p n] assms by (auto simp: env_ok_def UID_LEN_def)
  then show ?thesis using replies_send by (cases mr) (auto simp: Dispatcher_enumerate_def)
qed

section \<open>Writes\<close>

text \<open>What staging a write does: refused with an error and nothing staged, or one entry pushed.\<close>

lemma stage_split_cases:
  assumes "env_ok env" "length t = TABLE_SIZE" "staged_rel s ws"
  shows "(\<exists>e. RegisterFile_stage_split (env_hv env) (env_map env) t addr h tq s = Some (s, Inl e))
    \<or> (\<exists>s'. RegisterFile_stage_split (env_hv env) (env_map env) t addr h tq s = Some (s', Inr ())
        \<and> staged_rel s' (ws @ [(addr, h @ tq)]) \<and> (h @ tq = [] \<or> write_ok (env_map env) t addr (h @ tq)))"
proof -
  have v: "safe (validate (env_map env) t addr h tq)
      \<and> (validate (env_map env) t addr h tq = Some (Inr ()) \<longrightarrow> h @ tq = [] \<or> write_ok (env_map env) t addr (h @ tq))"
  proof (cases "h @ tq = []")
    case True
    then show ?thesis by (simp add: validate_def)
  next
    case False
    with validate_spec [of t "env_map env" h tq addr] assms show ?thesis by (simp add: env_ok_def)
  qed
  then obtain r where r: "validate (env_map env) t addr h tq = Some r" by (auto simp: safe_def)
  show ?thesis
  proof (cases r)
    case (Inl e)
    with r show ?thesis by (simp add: RegisterFile_stage_split_def)
  next
    case (Inr u)
    with r v heapless_vec.push_cases [OF heapless_vec.intro assms(3), of "env_hv env" addr h tq] assms(1)
    show ?thesis by (auto simp: RegisterFile_stage_split_def env_ok_def)
  qed
qed

lemma write_handler:
  assumes "env_ok env" "length (sv_table sv) = TABLE_SIZE" "staged_rel (sv_staged sv) ws"
  shows "(\<exists>sv'. Dispatcher_write env a mr addr data hold sv = Some (sv', Dispatched_Done) \<and> replies mr sv sv')
    \<or> (\<exists>s' r. Dispatcher_write env a mr addr data hold sv =
          Some ((emit sv r)\<lparr>sv_staged := s',
                  sv_pending := Some \<lparr>pw_snap = StagedWrites_snapshot (sv_staged sv), pw_hold = hold,
                                      pw_addr = addr, pw_len = of_nat (FrameBytes_len data)\<rparr>\<rparr>, Dispatched_Pending)
        \<and> staged_rel s' (ws @ [(addr, FrameBytes_bytes data)]) \<and> n_status r = (if mr then 1 else 0)
        \<and> (FrameBytes_bytes data = [] \<or> write_ok (env_map env) (sv_table sv) addr (FrameBytes_bytes data)))"
proof -
  obtain h tq where d: "FrameBytes_segments data = (h, tq)" "FrameBytes_bytes data = h @ tq"
    by (simp add: FrameBytes_segments_def FrameBytes_bytes_def)
  let ?st = "RegisterFile_stage_split (env_hv env) (env_map env) (sv_table sv) addr h tq (sv_staged sv)"
  consider (refused) e where "?st = Some (sv_staged sv, Inl e)"
    | (staged) s' where "?st = Some (s', Inr ())" "staged_rel s' (ws @ [(addr, h @ tq)])"
        "h @ tq = [] \<or> write_ok (env_map env) (sv_table sv) addr (h @ tq)"
    using stage_split_cases [OF assms, of addr h tq] by blast
  then show ?thesis
  proof cases
    case (refused e)
    then have "\<exists>sv'. Dispatcher_write env a mr addr data hold sv = Some (sv', Dispatched_Done) \<and> replies mr sv sv'"
      using replies_ack [of mr sv a "Inl e"] replies_send [of sv ResultCode_Busy a "[]"]
      by (cases e; cases mr) (simp_all add: Dispatcher_write_def d Let_def)
    then show ?thesis by blast
  next
    case (staged s')
    let ?r = "if mr then [send_status ResultCode_Ok a []] else []"
    have "ack a mr (Inr ()) (sv\<lparr>sv_staged := s'\<rparr>) = (emit sv ?r)\<lparr>sv_staged := s'\<rparr>"
      by (simp add: disp_defs)
    with staged d show ?thesis
      by (intro disjI2 exI [of _ s'] exI [of _ ?r]) (simp add: Dispatcher_write_def Let_def)
  qed
qed

section \<open>Mgmt, assign and commit\<close>

lemma length_tbl_set_u8 [simp]: "length (tbl_set_u8 t a v) = length t"
  by (simp add: tbl_set_u8_def)

lemma mark_dirty_sel [simp]:
  "sv_flash (mark_dirty_if_persistent addr len sv) = sv_flash sv"
  "sv_staged (mark_dirty_if_persistent addr len sv) = sv_staged sv"
  "sv_pending (mark_dirty_if_persistent addr len sv) = sv_pending sv"
  "sv_reply (mark_dirty_if_persistent addr len sv) = sv_reply sv"
  "length (sv_table (mark_dirty_if_persistent addr len sv)) = length (sv_table sv)"
  by (simp_all add: mark_dirty_if_persistent_def Let_def)

lemma n_status_events [simp]: "n_status (dispatch_events t addr len) = 0"
  by (simp add: dispatch_events_def on_baud_rate_idx_write_def split: option.split)

lemma commit_spans_sel:
  "length (sv_table (commit_spans ss sv)) = length (sv_table sv) \<and> sv_staged (commit_spans ss sv) = sv_staged sv
   \<and> sv_pending (commit_spans ss sv) = sv_pending sv \<and> sv_flash (commit_spans ss sv) = sv_flash sv
   \<and> (\<exists>r. sv_reply (commit_spans ss sv) = sv_reply sv @ r \<and> n_status r = 0)"
proof (induction ss sv rule: commit_spans.induct)
  case (2 addr len ss sv)
  define sv1 where "sv1 = mark_dirty_if_persistent addr len sv"
  define sv2 where "sv2 = emit sv1 (dispatch_events (sv_table sv1) addr len)"
  from "2" [OF sv1_def] obtain r where
    "sv_reply (commit_spans ss sv2) = sv_reply sv2 @ r" "n_status r = 0"
    "length (sv_table (commit_spans ss sv2)) = length (sv_table sv2)" "sv_staged (commit_spans ss sv2) = sv_staged sv2"
    "sv_pending (commit_spans ss sv2) = sv_pending sv2" "sv_flash (commit_spans ss sv2) = sv_flash sv2"
    by (auto simp: sv2_def)
  moreover have "commit_spans ((addr, len) # ss) sv = commit_spans ss sv2"
    by (simp add: sv1_def sv2_def Let_def)
  ultimately show ?case
    by (simp add: sv2_def sv1_def)
qed simp

lemma apply_commit_eq:
  assumes "env_ok env" "length (sv_table sv) = TABLE_SIZE" "staged_rel (sv_staged sv) ws"
  shows "apply_commit env a mr sv = Some (commit_spans (map (\<lambda>(x, d). (x, of_nat (length d))) ws)
    (ack a mr (Inr ()) (sv\<lparr>sv_table := apply_log TABLE_SIZE (sv_table sv) ws, sv_staged := StagedWrites_new\<rparr>)))"
proof -
  have hv: "heapless_ok (env_hv env)" and sz: "rm_SIZE (env_map env) = TABLE_SIZE" using assms(1) by (simp_all add: env_ok_def)
  have it: "StagedWrites_iter_all (sv_staged sv) = Some ws"
    using staged_iter_suffix [of "sv_staged sv" "[]" ws Snapshot_ZERO] assms(3)
    by (simp add: StagedWrites_iter_all_def Snapshot_ZERO_def)
  have "length acc + length us \<le> STAGE_ENTRY_CAP \<Longrightarrow>
      capture_spans (env_hv env) acc us = acc @ map (\<lambda>(x, d). (x, of_nat (length d))) us" for acc us
  proof (induction us arbitrary: acc)
    case (Cons u us)
    then show ?case using hv by (cases u) (simp add: heapless_ok_def)
  qed simp
  from this [of "[]" ws] have sp: "capture_spans (env_hv env) [] ws = map (\<lambda>(x, d). (x, of_nat (length d))) ws"
    using assms(3) by (simp add: staged_rel_def)
  have "RegisterFile_commit_staged (env_hv env) (env_map env) (sv_table sv) (sv_staged sv)
      = Some (apply_log TABLE_SIZE (sv_table sv) ws, StagedWrites_new)"
    using commit_effect [OF hv staged_new, of "sv_staged sv" ws "sv_table sv" "env_map env"] assms(2,3) sz by simp
  then show ?thesis by (simp add: apply_commit_def it sp Let_def)
qed

text \<open>Operations whose effect the bus gates before dispatching them.\<close>

definition verdict_first :: "Request \<Rightarrow> bool" where
  "verdict_first req \<longleftrightarrow>
     (case req of Request_Commit \<Rightarrow> True | Request_Assign _ _ \<Rightarrow> True | Request_Mgmt _ _ \<Rightarrow> True | _ \<Rightarrow> False)"

text \<open>What every dispatched request guarantees, from a state without a dangling write.\<close>

definition step_ok :: "bool \<Rightarrow> bool \<Rightarrow> 'f Servo \<Rightarrow> 'f Servo \<Rightarrow> Dispatched \<Rightarrow> bool" where
  "step_ok gated mr sv sv' d \<longleftrightarrow> servo_ok sv' \<and> (d = Dispatched_Pending \<longleftrightarrow> sv_pending sv' \<noteq> None)
     \<and> (\<exists>r. sv_reply sv' = sv_reply sv @ r \<and> n_status r \<le> (if mr then 1 else 0))
     \<and> (gated \<or> sv_table sv' = sv_table sv \<and> sv_flash sv' = sv_flash sv)"

lemma step_ok_replies:
  assumes "servo_ok sv" "sv_pending sv = None" "replies mr sv sv'"
  shows "step_ok g mr sv sv' Dispatched_Done"
proof -
  have "servo_ok sv'" using assms replies_ok by blast
  moreover obtain r where "sv' = emit sv r" "n_status r \<le> (if mr then 1 else 0)" using assms(3) by (auto simp: replies_def)
  ultimately show ?thesis using assms(2) by (auto simp: step_ok_def)
qed

lemma step_ok_gated:
  assumes "servo_ok sv" "sv_pending sv = None"
    "length (sv_table sv') = TABLE_SIZE" "staged_rel (sv_staged sv') ws" "sv_pending sv' = None"
    "sv_reply sv' = sv_reply sv @ r" "n_status r \<le> (if mr then 1 else 0)"
  shows "step_ok True mr sv sv' Dispatched_Done"
  using assms by (auto simp: step_ok_def servo_ok_def)

lemma servo_ok_staged: "servo_ok sv \<Longrightarrow> sv_pending sv = None \<Longrightarrow> \<exists>ws. staged_rel (sv_staged sv) ws"
  by (simp add: servo_ok_def)

lemma ack_emit: "\<exists>r. ack a mr x sv = emit sv r \<and> n_status r \<le> (if mr then 1 else 0)"
  using replies_ack [of mr sv a x] unfolding replies_def .

lemma ack_code_emit: "\<exists>r. ack_code a mr x sv = emit sv r \<and> n_status r \<le> (if mr then 1 else 0)"
  using replies_ack_code [of mr sv a x] unfolding replies_def .

lemma persist_table_total:
  "env_ok env \<Longrightarrow> length (sv_table sv) = TABLE_SIZE \<Longrightarrow> \<exists>fl ok. persist_table env sv = Some (fl, ok)"
  by (auto simp: persist_table_def read_table split: option.split)

lemma save_step:
  assumes "env_ok env" "servo_ok sv" "sv_pending sv = None"
  shows "\<exists>sv'. Dispatcher_save env a mr sv = Some sv' \<and> step_ok True mr sv sv' Dispatched_Done"
proof (cases "tbl_torque_enable (sv_table sv)")
  case True
  then show ?thesis using step_ok_replies [OF assms(2,3) replies_ack] by (simp add: Dispatcher_save_def)
next
  case False
  have l: "length (sv_table sv) = TABLE_SIZE" using assms(2) by (simp add: servo_ok_def)
  obtain ws where ws: "staged_rel (sv_staged sv) ws" using servo_ok_staged assms(2,3) by blast
  obtain fl ok where "persist_table env sv = Some (fl, ok)" using persist_table_total [OF assms(1) l] by blast
  with False obtain sv1 c where sv1: "Dispatcher_save env a mr sv = Some (ack_code a mr c sv1)"
      "length (sv_table sv1) = TABLE_SIZE" "sv_staged sv1 = sv_staged sv" "sv_pending sv1 = None" "sv_reply sv1 = sv_reply sv"
    using l assms(3) by (cases ok) (simp_all add: Dispatcher_save_def Let_def)
  obtain r where "ack_code a mr c sv1 = emit sv1 r" "n_status r \<le> (if mr then 1 else 0)" using ack_code_emit by blast
  with sv1 ws show ?thesis
    by (intro exI conjI) (assumption, rule step_ok_gated [OF assms(2,3)], simp_all)
qed

lemma factory_step:
  assumes "servo_ok sv" "sv_pending sv = None"
  shows "step_ok True mr sv (Dispatcher_factory env a mr sv) Dispatched_Done"
proof (cases "tbl_torque_enable (sv_table sv)")
  case True
  then show ?thesis using step_ok_replies [OF assms replies_ack] by (simp add: Dispatcher_factory_def)
next
  case False
  obtain ws where ws: "staged_rel (sv_staged sv) ws" using servo_ok_staged assms by blast
  obtain fl ok where "(case env_store env of None \<Rightarrow> (sv_flash sv, False) | Some st \<Rightarrow> store_wipe st (sv_flash sv)) = (fl, ok)"
    by (metis surj_pair)
  with False have "\<exists>r. Dispatcher_factory env a mr sv = emit (sv\<lparr>sv_flash := fl\<rparr>) r \<and> n_status r \<le> (if mr then 1 else 0)"
  proof (cases ok)
    case True
    obtain r where "ack a mr (Inr ()) (sv\<lparr>sv_flash := fl\<rparr>) = emit (sv\<lparr>sv_flash := fl\<rparr>) r" "n_status r \<le> (if mr then 1 else 0)"
      using ack_emit by blast
    with True False \<open>(case env_store env of None \<Rightarrow> (sv_flash sv, False) | Some st \<Rightarrow> store_wipe st (sv_flash sv)) = (fl, ok)\<close>
    show ?thesis
      by (intro exI [of _ "r @ [stage_reboot (tbl_boot_mode (sv_table sv))]"]) (simp add: Dispatcher_factory_def Let_def emit_emit)
  next
    case nok: False
    with False \<open>(case env_store env of None \<Rightarrow> (sv_flash sv, False) | Some st \<Rightarrow> store_wipe st (sv_flash sv)) = (fl, ok)\<close>
    show ?thesis using ack_code_emit [of a mr ResultCode_Hardware "sv\<lparr>sv_flash := fl\<rparr>"]
      by (simp add: Dispatcher_factory_def Let_def)
  qed
  then obtain r where "Dispatcher_factory env a mr sv = emit (sv\<lparr>sv_flash := fl\<rparr>) r" "n_status r \<le> (if mr then 1 else 0)" by blast
  with ws assms show ?thesis
    by (intro step_ok_gated) (simp_all add: servo_ok_def)
qed

lemma assign_step:
  assumes "servo_ok sv" "sv_pending sv = None"
  shows "step_ok True mr sv (Dispatcher_assign env a mr uid new_id sv) Dispatched_Done"
proof -
  consider "uid \<noteq> env_uid env" | "uid = env_uid env" "Id_try_unicast new_id = None"
    | "uid = env_uid env" "Id_try_unicast new_id \<noteq> None" by blast
  then show ?thesis
  proof cases
    case 3
    obtain ws where ws: "staged_rel (sv_staged sv) ws" using servo_ok_staged assms by blast
    from 3 obtain t where t: "Dispatcher_assign env a mr uid new_id sv = ack a mr (Inr ()) (emit (sv\<lparr>sv_table := t\<rparr>) [set_id new_id])"
        "length t = length (sv_table sv)"
      by (simp add: Dispatcher_assign_def Let_def)
    obtain r where "ack a mr (Inr ()) (emit (sv\<lparr>sv_table := t\<rparr>) [set_id new_id]) = emit (emit (sv\<lparr>sv_table := t\<rparr>) [set_id new_id]) r"
        "n_status r \<le> (if mr then 1 else 0)" using ack_emit by blast
    then have "Dispatcher_assign env a mr uid new_id sv = emit (sv\<lparr>sv_table := t\<rparr>) ([set_id new_id] @ r)"
      using t(1) by (simp add: emit_emit)
    with ws t(2) assms \<open>n_status r \<le> (if mr then 1 else 0)\<close> show ?thesis
      by (intro step_ok_gated [where r = "[set_id new_id] @ r"]) (simp_all add: servo_ok_def)
  next
    case 2
    then show ?thesis using step_ok_replies [OF assms replies_ack] by (simp add: Dispatcher_assign_def)
  next
    case 1
    then show ?thesis using step_ok_replies [OF assms replies_refl] by (simp add: Dispatcher_assign_def)
  qed
qed

lemma commit_step:
  assumes "env_ok env" "servo_ok sv" "sv_pending sv = None"
  shows "\<exists>sv'. apply_commit env a mr sv = Some sv' \<and> step_ok True mr sv sv' Dispatched_Done"
proof -
  have l: "length (sv_table sv) = TABLE_SIZE" using assms(2) by (simp add: servo_ok_def)
  obtain ws where ws: "staged_rel (sv_staged sv) ws" using servo_ok_staged assms(2,3) by blast
  define sv1 where "sv1 = sv\<lparr>sv_table := apply_log TABLE_SIZE (sv_table sv) ws, sv_staged := StagedWrites_new\<rparr>"
  define ss :: "(u16 \<times> u16) list" where "ss = map (\<lambda>(x, d). (x, of_nat (length d))) ws"
  obtain r where r: "ack a mr (Inr ()) sv1 = emit sv1 r" "n_status r \<le> (if mr then 1 else 0)" using ack_emit by blast
  have e: "apply_commit env a mr sv = Some (commit_spans ss (emit sv1 r))"
    using apply_commit_eq [OF assms(1) l ws, of a mr] r by (simp add: sv1_def ss_def)
  obtain r' where "sv_reply (commit_spans ss (emit sv1 r)) = sv_reply (emit sv1 r) @ r'" "n_status r' = 0"
    using commit_spans_sel by blast
  moreover have "sv_staged (commit_spans ss (emit sv1 r)) = StagedWrites_new"
      "sv_pending (commit_spans ss (emit sv1 r)) = None" "length (sv_table (commit_spans ss (emit sv1 r))) = TABLE_SIZE"
    using commit_spans_sel [of ss "emit sv1 r"] l assms(3) by (simp_all add: sv1_def)
  ultimately have "step_ok True mr sv (commit_spans ss (emit sv1 r)) Dispatched_Done"
    using r staged_new by (intro step_ok_gated [OF assms(2,3), where r = "r @ r'" and ws = "[]"]) (simp_all add: sv1_def)
  with e show ?thesis by blast
qed

lemma mgmt_step:
  assumes "env_ok env" "servo_ok sv" "sv_pending sv = None"
  shows "\<exists>sv'. Dispatcher_mgmt env a mr m sv = Some sv' \<and> step_ok True mr sv sv' Dispatched_Done"
proof (cases m)
  case MgmtOp_Reboot
  obtain r where r: "ack a mr (Inr ()) sv = emit sv r" "n_status r \<le> (if mr then 1 else 0)" using ack_emit by blast
  obtain ws where "staged_rel (sv_staged sv) ws" using servo_ok_staged assms(2,3) by blast
  then have "step_ok True mr sv (emit sv (r @ [stage_reboot (tbl_boot_mode (sv_table sv))])) Dispatched_Done"
    using r(2) assms by (intro step_ok_gated [where r = "r @ [stage_reboot (tbl_boot_mode (sv_table sv))]"])
      (simp_all add: servo_ok_def)
  with r MgmtOp_Reboot show ?thesis by (simp add: Dispatcher_mgmt_def emit_emit)
next
  case MgmtOp_Save
  then show ?thesis using save_step [OF assms] by (simp add: Dispatcher_mgmt_def)
next
  case MgmtOp_Factory
  then show ?thesis using factory_step [OF assms(2,3)] by (simp add: Dispatcher_mgmt_def)
qed (use step_ok_replies [OF assms(2,3) replies_instruction_error] in \<open>simp_all add: Dispatcher_mgmt_def\<close>)

lemma write_step:
  assumes "env_ok env" "servo_ok sv" "sv_pending sv = None"
  shows "\<exists>sv' d. Dispatcher_write env a mr addr data hold sv = Some (sv', d) \<and> step_ok False mr sv sv' d"
proof -
  have l: "length (sv_table sv) = TABLE_SIZE" using assms(2) by (simp add: servo_ok_def)
  obtain ws where ws: "staged_rel (sv_staged sv) ws" using servo_ok_staged assms(2,3) by blast
  let ?p = "\<lparr>pw_snap = StagedWrites_snapshot (sv_staged sv), pw_hold = hold, pw_addr = addr, pw_len = of_nat (FrameBytes_len data)\<rparr>"
  consider sv' where "Dispatcher_write env a mr addr data hold sv = Some (sv', Dispatched_Done)" "replies mr sv sv'"
    | s' r where "Dispatcher_write env a mr addr data hold sv =
          Some ((emit sv r)\<lparr>sv_staged := s', sv_pending := Some ?p\<rparr>, Dispatched_Pending)"
        "staged_rel s' (ws @ [(addr, FrameBytes_bytes data)])" "n_status r = (if mr then 1 else 0)"
    using write_handler [OF assms(1) l ws, of a mr addr data hold] by blast
  then show ?thesis
  proof cases
    case 1
    then show ?thesis using step_ok_replies [OF assms(2,3)] by blast
  next
    case (2 s' r)
    have "servo_ok ((emit sv r)\<lparr>sv_staged := s', sv_pending := Some ?p\<rparr>)"
      using ws 2(2) l FrameBytes_len_bytes [of data] by (auto simp: servo_ok_def)
    with 2 show ?thesis by (auto simp: step_ok_def)
  qed
qed

lemma dispatch_match_step:
  assumes "env_ok env" "servo_ok s" "sv_pending s = None" "req_ok req"
  shows "\<exists>sv' d. dispatch_match env a req mr s = Some (sv', d) \<and> step_ok (verdict_first req) mr s sv' d"
proof -
  have l: "length (sv_table s) = TABLE_SIZE" using assms(2) by (simp add: servo_ok_def)
  have fin: "\<exists>sv' d. finished x = Some (sv', d) \<and> step_ok g mr s sv' d"
    if "\<exists>sv'. x = Some sv' \<and> step_ok g mr s sv' Dispatched_Done" for x g
    using that by (auto simp: finished_def)
  have rep: "\<exists>sv'. x = Some sv' \<and> step_ok g mr s sv' Dispatched_Done"
    if "\<exists>sv'. x = Some sv' \<and> replies mr s sv'" for x g
    using that step_ok_replies [OF assms(2,3)] by blast
  note steps = fin [OF rep [OF ping_replies [OF assms(1) l]]] fin [OF rep [OF read_replies [OF assms(1) l]]]
    fin [OF rep [OF read_profile_replies [OF assms(1) l]]] write_step [OF assms(1-3)]
    fin [OF commit_step [OF assms(1-3)]] fin [OF rep [OF enumerate_replies [OF assms(1)]]]
    fin [OF mgmt_step [OF assms(1-3)]] assign_step [OF assms(2,3)]
    step_ok_replies [OF assms(2,3) replies_instruction_error]
  show ?thesis
  proof (cases req)
    case (Request_Calibrate g n)
    have "replies mr s (emit s [begin_clock_cal g n])" by (rule replies_emit) simp
    then show ?thesis
      using fin [OF rep, of "Some (emit s [begin_clock_cal g n])"] Request_Calibrate
      by (simp add: dispatch_match_def verdict_first_def)
  qed (use steps assms(4) in \<open>simp_all add: dispatch_match_def verdict_first_def req_ok_def finished_def\<close>)
qed

lemma dispatch_step:
  assumes "env_ok env" "servo_ok sv" "req_ok req"
  shows "\<exists>sv' d. dispatch env req mr sv = Some (sv', d) \<and> step_ok (verdict_first req) mr sv sv' d"
  using dispatch_match_step [of env "revert_dangling env sv" req "Dispatcher_alert (revert_dangling env sv)" mr]
    revert_dangling_ok [OF assms(1,2)] assms
  by (simp add: dispatch_def Let_def step_ok_def)

section \<open>Properties of the dispatcher\<close>

text \<open>A concrete servo for the witnesses: one writable register block, no rules, no store.\<close>

definition demo_env :: "unit Env" where
  "demo_env = \<lparr>env_hv = Heapless_list,
     env_map = \<lparr>rm_SIZE = 1024, rm_WRITABLE = replicate 32 0xFFFFFFFF, rm_SECTIONS = [], rm_CMP_RULES = [], rm_ALLOWED_RULES = []\<rparr>,
     env_uid = replicate 16 7, env_store = None\<rparr>"

definition demo_servo :: "unit Servo" where
  "demo_servo = Session_new (replicate 1024 0) ()"

lemma demo_ok: "env_ok demo_env" "servo_ok demo_servo" "sv_pending demo_servo = None"
  by (auto simp: env_ok_def demo_env_def heapless_list_ok map_ok_def TABLE_SIZE_def UID_LEN_def
      servo_ok_def demo_servo_def Session_new_def intro: staged_new)

text \<open>Property C13: the dispatcher never panics and never leaves the table: from every well-formed servo state every
  request yields a result and a well-formed state again, and it reports \<open>Pending\<close> exactly when it left
  a write awaiting its verdict.\<close>

theorem dispatch_safe:
  assumes "env_ok env" "servo_ok sv" "req_ok req"
  shows "\<exists>sv' d. dispatch env req mr sv = Some (sv', d) \<and> servo_ok sv'
    \<and> (d = Dispatched_Pending \<longleftrightarrow> sv_pending sv' \<noteq> None)"
  using dispatch_step [OF assms, of mr] by (auto simp: step_ok_def)

theorem dispatch_safe_witness:
  "\<exists>sv' d. dispatch demo_env (Request_Read 0x200 4) True demo_servo = Some (sv', d) \<and> servo_ok sv'"
  using dispatch_safe [OF demo_ok(1,2), of "Request_Read 0x200 4" True] by (auto simp: req_ok_def)



subsection \<open>The write spine\<close>

lemma write_pending:
  assumes "env_ok env" "servo_ok sv" "sv_pending sv = None"
    "dispatch env (Request_Write addr data hold) mr sv = Some (sv', Dispatched_Pending)"
  shows "\<exists>s' r ws. sv' = (emit sv r)\<lparr>sv_staged := s',
            sv_pending := Some \<lparr>pw_snap = StagedWrites_snapshot (sv_staged sv), pw_hold = hold,
                                pw_addr = addr, pw_len = of_nat (FrameBytes_len data)\<rparr>\<rparr>
    \<and> staged_rel (sv_staged sv) ws \<and> staged_rel s' (ws @ [(addr, FrameBytes_bytes data)])
    \<and> (FrameBytes_bytes data = [] \<or> write_ok (env_map env) (sv_table sv) addr (FrameBytes_bytes data))"
proof -
  obtain ws where ws: "staged_rel (sv_staged sv) ws" using servo_ok_staged assms(2,3) by blast
  have "revert_dangling env sv = sv" using assms(3) by (simp add: revert_dangling_def)
  with assms(4) have "Dispatcher_write env (Dispatcher_alert sv) mr addr data hold sv = Some (sv', Dispatched_Pending)"
    by (simp add: dispatch_def dispatch_match_def)
  with write_handler [OF assms(1) _ ws, of "Dispatcher_alert sv" mr addr data hold] assms(2) ws
  show ?thesis by (auto simp: servo_ok_def)
qed

lemma emit_staged_eq:
  "sv_pending sv = None \<Longrightarrow> (emit sv r)\<lparr>sv_staged := sv_staged sv, sv_pending := None\<rparr> = emit sv r"
  by (cases sv) (simp add: emit_def)

lemma pending_revert:
  assumes "env_ok env" "servo_ok sv" "sv_pending sv = None"
    "dispatch env (Request_Write addr data hold) mr sv = Some (sv', Dispatched_Pending)"
  shows "\<exists>r. Dispatcher_revert env sv' = emit sv r \<and> sv_reply sv' = sv_reply sv @ r"
proof -
  obtain s' r ws where p: "sv' = (emit sv r)\<lparr>sv_staged := s',
            sv_pending := Some \<lparr>pw_snap = StagedWrites_snapshot (sv_staged sv), pw_hold = hold,
                                pw_addr = addr, pw_len = of_nat (FrameBytes_len data)\<rparr>\<rparr>"
    "staged_rel (sv_staged sv) ws" "staged_rel s' (ws @ [(addr, FrameBytes_bytes data)])"
    using write_pending [OF assms] by blast
  then have "StagedWrites_revert_to (env_hv env) s' (StagedWrites_snapshot (sv_staged sv)) = sv_staged sv"
    using staged_revert_eq [OF assms(1)] by blast
  with p(1) assms(3) show ?thesis by (auto simp: Dispatcher_revert_def emit_staged_eq)
qed

lemma apply_log_one:
  "unat addr + length d \<le> n \<Longrightarrow> apply_log n t [(addr, d)] = overlay t (unat addr) d"
  by (simp add: apply_log_def)

lemma pending_commit:
  assumes "env_ok env" "servo_ok sv" "sv_pending sv = None"
    "dispatch env (Request_Write addr data hold) mr sv = Some (sv', Dispatched_Pending)"
  shows "\<exists>sv''. Dispatcher_commit env sv' = Some sv'' \<and> sv_pending sv'' = None \<and> servo_ok sv'' \<and>
    (if hold then sv_table sv'' = sv_table sv
         \<and> (\<exists>ws. staged_rel (sv_staged sv) ws \<and> staged_rel (sv_staged sv'') (ws @ [(addr, FrameBytes_bytes data)]))
     else sv_staged sv'' = sv_staged sv
         \<and> sv_table sv'' = sv_table (mark_dirty_if_persistent addr (of_nat (FrameBytes_len data))
             (sv\<lparr>sv_table := apply_log TABLE_SIZE (sv_table sv) [(addr, FrameBytes_bytes data)]\<rparr>)))"
proof -
  obtain s' r ws where p: "sv' = (emit sv r)\<lparr>sv_staged := s',
            sv_pending := Some \<lparr>pw_snap = StagedWrites_snapshot (sv_staged sv), pw_hold = hold,
                                pw_addr = addr, pw_len = of_nat (FrameBytes_len data)\<rparr>\<rparr>"
    "staged_rel (sv_staged sv) ws" "staged_rel s' (ws @ [(addr, FrameBytes_bytes data)])"
    using write_pending [OF assms] by blast
  have l: "length (sv_table sv) = rm_SIZE (env_map env)" "rm_SIZE (env_map env) = TABLE_SIZE" "heapless_ok (env_hv env)"
    using assms(1,2) by (simp_all add: env_ok_def servo_ok_def)
  show ?thesis
  proof (cases hold)
    case True
    with p assms(2) show ?thesis by (auto simp: Dispatcher_commit_def servo_ok_def Let_def)
  next
    case False
    have "RegisterFile_commit_from (env_hv env) (env_map env) (sv_table sv) s' (StagedWrites_snapshot (sv_staged sv))
        = Some (apply_log TABLE_SIZE (sv_table sv) [(addr, FrameBytes_bytes data)], sv_staged sv)"
      using commit_effect [OF l(3) p(2,3) l(1)] l(2) by simp
    with False p l show ?thesis
      by (auto simp: Dispatcher_commit_def Let_def servo_ok_def mark_dirty_if_persistent_def)
  qed
qed


lemma demo_write:
  "\<exists>sv'. dispatch demo_env (Request_Write 0x80 (FrameBytes_new [1] [2]) h) True demo_servo = Some (sv', Dispatched_Pending)"
proof -
  have w: "write_ok (env_map demo_env) (sv_table demo_servo) 0x80 ([1] @ [2])"
  proof -
    have "byte_writable (rm_WRITABLE (env_map demo_env)) i" if "i = 128 \<or> i = 129" for i
      using that by (auto simp: byte_writable_def nth_opt_def demo_env_def)
    moreover have "i = 128 \<or> i = 129" if "128 \<le> i" "i < 130" for i :: nat using that by linarith
    moreover have "rm_SIZE (env_map demo_env) = 1024" "rm_SECTIONS (env_map demo_env) = []"
      by (simp_all add: demo_env_def)
    ultimately show ?thesis
      by (simp add: write_ok_def Let_def allowed_rules_of_def cmp_rules_of_def)
  qed
  have m: "length (sv_table demo_servo) = rm_SIZE (env_map demo_env)" "map_ok (env_map demo_env)"
    by (auto simp: demo_env_def demo_servo_def Session_new_def map_ok_def)
  have "validate (env_map demo_env) (sv_table demo_servo) 0x80 [1] [2] = Some (Inr ())"
    using validate_spec [OF m, of "[1]" "[2]" "0x80"] w by simp
  moreover obtain s' where "StagedWrites_push_split Heapless_list StagedWrites_new 0x80 [1] [2] = (s', Inr ())"
    using staged_push [OF heapless_list_ok staged_new, of "0x80" "[1]" "[2]"]
    by (auto simp: log_push_def STAGE_DATA_CAP_def STAGE_ENTRY_CAP_def)
  moreover have "env_hv demo_env = Heapless_list" "sv_staged demo_servo = StagedWrites_new"
    by (simp_all add: demo_env_def demo_servo_def Session_new_def)
  ultimately show ?thesis
    by (simp add: dispatch_def dispatch_match_def revert_dangling_def demo_ok Dispatcher_write_def FrameBytes_segments_def
        FrameBytes_new_def RegisterFile_stage_split_def Let_def)
qed


subsection \<open>Held writes\<close>

text \<open>A sequence of WRITE+HOLD frames, each passing its verdict.\<close>

inductive held :: "'f Env \<Rightarrow> 'f Servo \<Rightarrow> (u16 \<times> bytes) list \<Rightarrow> 'f Servo \<Rightarrow> bool" for env sv where
  held_Nil: "held env sv [] sv"
| held_write: "held env sv ws sv1 \<Longrightarrow> dispatch env (Request_Write addr data True) mr sv1 = Some (sv2, Dispatched_Pending) \<Longrightarrow>
    Dispatcher_commit env sv2 = Some sv3 \<Longrightarrow> held env sv (ws @ [(addr, FrameBytes_bytes data)]) sv3"

lemma held_inv:
  assumes "held env sv ws sv1" "env_ok env" "servo_ok sv" "sv_pending sv = None" "staged_rel (sv_staged sv) us"
  shows "servo_ok sv1 \<and> sv_pending sv1 = None \<and> sv_table sv1 = sv_table sv \<and> staged_rel (sv_staged sv1) (us @ ws)"
  using assms
proof (induction rule: held.induct)
  case (held_write ws sv1 addr data mr sv2 sv3)
  have ok: "servo_ok sv1" "sv_pending sv1 = None" "sv_table sv1 = sv_table sv" "staged_rel (sv_staged sv1) (us @ ws)"
    using held_write by blast+
  obtain vs where "staged_rel (sv_staged sv1) vs" "staged_rel (sv_staged sv3) (vs @ [(addr, FrameBytes_bytes data)])"
      "sv_pending sv3 = None" "servo_ok sv3" "sv_table sv3 = sv_table sv1"
    using pending_commit [OF held_write.prems(1) ok(1,2) held_write.hyps(2)] held_write.hyps(3) by auto
  moreover have "vs = us @ ws"
    using calculation(1) ok(4) staged_iter_suffix [of "sv_staged sv1" "[]" vs Snapshot_ZERO]
      staged_iter_suffix [of "sv_staged sv1" "[]" "us @ ws" Snapshot_ZERO] by (simp add: Snapshot_ZERO_def)
  ultimately show ?case using ok by simp
qed simp

lemma commit_spans_table:
  "i \<noteq> unat STATUS_FLAGS \<Longrightarrow> sv_table (commit_spans ss sv) ! i = sv_table sv ! i"
proof (induction ss sv rule: commit_spans.induct)
  case (2 addr len ss sv)
  then show ?case by (simp add: Let_def mark_dirty_if_persistent_def tbl_set_u8_def)
qed simp

text \<open>Property C17: held writes take effect together.  However many WRITE+HOLD frames pass their verdicts, the live
  table does not change; the COMMIT that follows applies all of them in order and at once, up to the
  modified-since-save flag byte, and leaves nothing staged.\<close>

theorem held_writes_commit:
  assumes "env_ok env" "servo_ok sv" "sv_pending sv = None" "staged_rel (sv_staged sv) []" "held env sv ws sv1"
  shows "sv_table sv1 = sv_table sv \<and> (\<exists>sv2. dispatch env Request_Commit mr sv1 = Some (sv2, Dispatched_Done)
    \<and> (\<forall>i. i \<noteq> unat STATUS_FLAGS \<longrightarrow> sv_table sv2 ! i = apply_log TABLE_SIZE (sv_table sv) ws ! i)
    \<and> staged_rel (sv_staged sv2) [] \<and> sv_pending sv2 = None)"
proof -
  have h: "servo_ok sv1" "sv_pending sv1 = None" "sv_table sv1 = sv_table sv" "staged_rel (sv_staged sv1) ws"
    using held_inv [OF assms(5,1-4)] by simp_all
  have l: "length (sv_table sv1) = TABLE_SIZE" using h(1) by (simp add: servo_ok_def)
  have "revert_dangling env sv1 = sv1" using h(2) by (simp add: revert_dangling_def)
  then obtain sv0 r where e: "dispatch env Request_Commit mr sv1 =
      Some (commit_spans (map (\<lambda>(x, d). (x, of_nat (length d))) ws) (emit sv0 r), Dispatched_Done)"
      "sv0 = sv1\<lparr>sv_table := apply_log TABLE_SIZE (sv_table sv1) ws, sv_staged := StagedWrites_new\<rparr>"
    using apply_commit_eq [OF assms(1) l h(4), of "Dispatcher_alert sv1" mr]
      ack_emit [of "Dispatcher_alert sv1" mr "Inr ()" "sv1\<lparr>sv_table := apply_log TABLE_SIZE (sv_table sv1) ws, sv_staged := StagedWrites_new\<rparr>"]
    by (auto simp: dispatch_def dispatch_match_def finished_def)
  let ?sv2 = "commit_spans (map (\<lambda>(x, d). (x, of_nat (length d))) ws) (emit sv0 r)"
  have "sv_staged ?sv2 = StagedWrites_new" "sv_pending ?sv2 = None"
    using commit_spans_sel [of "map (\<lambda>(x, d). (x, of_nat (length d))) ws" "emit sv0 r"] h(2) e(2) by simp_all
  then show ?thesis
    using e h(3) staged_new by (simp add: commit_spans_table)
qed

theorem held_writes_commit_witness:
  "\<exists>sv1 sv2. held demo_env demo_servo [(0x80, [1, 2])] sv1 \<and> sv_table sv1 = sv_table demo_servo
     \<and> dispatch demo_env Request_Commit True sv1 = Some (sv2, Dispatched_Done) \<and> sv_table sv2 ! 0x80 = 1"
proof -
  obtain sv' where d: "dispatch demo_env (Request_Write 0x80 (FrameBytes_new [1] [2]) True) True demo_servo = Some (sv', Dispatched_Pending)"
    using demo_write by blast
  then obtain sv1 where "Dispatcher_commit demo_env sv' = Some sv1" using pending_commit [OF demo_ok d] by blast
  with d have h: "held demo_env demo_servo ([] @ [(0x80, FrameBytes_bytes (FrameBytes_new [1] [2]))]) sv1"
    using held_write [OF held_Nil] by blast
  have "staged_rel (sv_staged demo_servo) []" by (simp add: demo_servo_def Session_new_def staged_new)
  from held_writes_commit [OF demo_ok this h, of True] h show ?thesis
    by (auto simp: apply_log_def TABLE_SIZE_def overlay_def demo_servo_def Session_new_def STATUS_FLAGS_def nth_append)
qed

subsection \<open>SAVE\<close>

lemma save_eq:
  assumes "env_ok env" "servo_ok sv" "sv_pending sv = None"
  defines "t \<equiv> sv_table sv" and "alert \<equiv> Dispatcher_alert sv"
  shows "dispatch env (Request_Mgmt MgmtOp_Save args) True sv = Some
    (if tbl_torque_enable t then emit sv [send_status ResultCode_Access alert []]
     else let (fl, ok) = (case env_store env of None \<Rightarrow> (sv_flash sv, False)
            | Some st \<Rightarrow> store_save st (sv_flash sv) (take 128 t) (take 64 (drop 640 t)) (take 256 (drop 128 t)))
          in emit (sv\<lparr>sv_flash := fl,
                      sv_table := if ok then tbl_set_u8 t STATUS_FLAGS (tbl_u8 t STATUS_FLAGS AND NOT STATUS_FLAG_CONFIG_DIRTY) else t\<rparr>)
               [send_status (if ok then ResultCode_Ok else ResultCode_Hardware) alert []], Dispatched_Done)"
proof -
  have l: "length (sv_table sv) = TABLE_SIZE" using assms(2) by (simp add: servo_ok_def)
  have rd: "revert_dangling env sv = sv" using assms(3) by (simp add: revert_dangling_def)
  have p: "persist_table env sv = Some (case env_store env of None \<Rightarrow> (sv_flash sv, False)
      | Some st \<Rightarrow> store_save st (sv_flash sv) (take 128 t) (take 64 (drop 640 t)) (take 256 (drop 128 t)))"
    using l by (simp add: persist_table_def read_table [OF assms(1) l] t_def TABLE_SIZE_def CONFIG_BASE_ADDR_def
        CONFIG_REGION_SIZE_def PROFILE_BASE_ADDR_def PROFILE_REGION_SIZE_def CALIB_BASE_ADDR_def CALIB_REGION_SIZE_def
        split: option.split)
  show ?thesis
    unfolding dispatch_def Let_def rd dispatch_match_def Request.case Dispatcher_mgmt_def MgmtOp.case
      Dispatcher_save_def p alert_def [symmetric] t_def [symmetric]
    by (simp add: finished_def ack_def ack_code_def Dispatcher_send_def error_to_result_def emit_def t_def split: prod.split)
qed

text \<open>SAVE answers \<open>Ok\<close> only when the store accepted the exact bytes of the three persistent regions,
  and only then clears the modified-since-save bit; a missing or failing store is \<open>hardware\<close> with
  the table unchanged; with torque on nothing is saved and the answer is \<open>access\<close>.\<close>

lemma save_durable:
  assumes "env_ok env" "servo_ok sv" "sv_pending sv = None"
  defines "t \<equiv> sv_table sv" and "alert \<equiv> Dispatcher_alert sv"
  shows "dispatch env (Request_Mgmt MgmtOp_Save args) True sv = Some
    (if tbl_torque_enable t then emit sv [send_status ResultCode_Access alert []]
     else let (fl, ok) = (case env_store env of None \<Rightarrow> (sv_flash sv, False)
            | Some st \<Rightarrow> store_save st (sv_flash sv) (take 128 t) (take 64 (drop 640 t)) (take 256 (drop 128 t)))
          in emit (sv\<lparr>sv_flash := fl,
                      sv_table := if ok then tbl_set_u8 t STATUS_FLAGS (tbl_u8 t STATUS_FLAGS AND NOT STATUS_FLAG_CONFIG_DIRTY) else t\<rparr>)
               [send_status (if ok then ResultCode_Ok else ResultCode_Hardware) alert []], Dispatched_Done)"
  using assms by (simp only: save_eq)

lemma save_durable_example:
  "dispatch demo_env (Request_Mgmt MgmtOp_Save (FrameBytes_new [] [])) True demo_servo
   = Some (emit demo_servo [send_status ResultCode_Hardware False []], Dispatched_Done)"
  using save_durable [OF demo_ok, of "FrameBytes_new [] []"]
  by (simp add: tbl_torque_enable_def tbl_u8_def demo_env_def demo_servo_def Session_new_def TORQUE_ENABLE_def
      Dispatcher_alert_def FAULT_FLAGS_def emit_def)

end
