(* ===== verification/Persist.thy ===== *)
theory Persist
  imports Crc Spine
begin

text \<open>
  Config persistence: the saved-image codec, the A/B pick and the boot overlay
  (\<open>core/src/persist.rs\<close>), and the flash-backed store with its readback verify
  (\<open>servo-ch32/src/providers/config_store.rs\<close>).

  The flash controller itself (\<open>hal::flash::erase\<close> and \<open>write\<close>, register-level driver and silicon) is a
  parameter, \<open>FlashHal\<close>.  All that is asked of it is that an erase or a program touches no page but its own
  (\<open>flash_local\<close>); that it stores what it was given is not assumed, because the store reads it back.
  The interface \<open>image_codec\<close> states what the A/B logic needs of an image format; the config
  image and the calib image both provide it.
\<close>

section \<open>Image formats\<close>

definition CONFIG_LEN :: nat where "CONFIG_LEN = 128"
definition PROFILE_LEN :: nat where "PROFILE_LEN = 64"
definition CALIB_LEN :: nat where "CALIB_LEN = 256"
definition HEADER_LEN :: nat where "HEADER_LEN = 8"
definition IMAGE_LEN :: nat where "IMAGE_LEN = HEADER_LEN + CONFIG_LEN + PROFILE_LEN"
definition CALIB_IMAGE_LEN :: nat where "CALIB_IMAGE_LEN = HEADER_LEN + CALIB_LEN"

definition IMAGE_MAGIC :: u8 where "IMAGE_MAGIC = 0x43"
definition IMAGE_VERSION :: u8 where "IMAGE_VERSION = 3"
definition CALIB_IMAGE_MAGIC :: u8 where "CALIB_IMAGE_MAGIC = 0x4B"
definition CALIB_IMAGE_VERSION :: u8 where "CALIB_IMAGE_VERSION = 1"

datatype Slot = Slot_A | Slot_B

fun Slot_other :: "Slot \<Rightarrow> Slot" where
  "Slot_other Slot_A = Slot_B"
| "Slot_other Slot_B = Slot_A"

record BootPick =
  bp_next_slot :: Slot
  bp_next_seq :: u16
  bp_loaded :: bool

definition pick_newest :: "'t option \<Rightarrow> 't option \<Rightarrow> ('t \<Rightarrow> u16) \<Rightarrow> 't option \<times> Slot" where
  "pick_newest a b seq =
     (case (a, b) of
        (Some a, Some b) \<Rightarrow> if sint (seq a - seq b) > 0 then (Some a, Slot_B) else (Some b, Slot_A)
      | (Some a, None) \<Rightarrow> (Some a, Slot_B)
      | (None, b) \<Rightarrow> (b, Slot_A))"

definition persist_header :: "u16 \<Rightarrow> bytes \<Rightarrow> bytes \<Rightarrow> bytes" where
  "persist_header seq config profile =
     (let body_len = of_nat (CONFIG_LEN + PROFILE_LEN) :: u16;
          h = [IMAGE_MAGIC, IMAGE_VERSION] @ to_le16 seq @ to_le16 body_len;
          crc = osc_crc_continue (osc_crc_continue (osc_crc h) config) profile
      in h @ to_le16 crc)"

text \<open>\<open>assemble\<close> overwrites its whole output array.\<close>

definition assemble :: "u16 \<Rightarrow> bytes \<Rightarrow> bytes \<Rightarrow> bytes" where
  "assemble seq config profile = persist_header seq config profile @ config @ profile"

record Image =
  img_seq :: u16
  img_config :: bytes
  img_profile :: bytes

definition in_region :: "u16 \<Rightarrow> u16 \<Rightarrow> u16 \<Rightarrow> bool" where
  "in_region base len addr \<longleftrightarrow> base \<le> addr \<and> addr < base + len"

definition Image_persisted_byte :: "Image \<Rightarrow> u16 \<Rightarrow> u8 option" where
  "Image_persisted_byte i addr =
     (if in_region CONFIG_BASE_ADDR CONFIG_REGION_SIZE addr
      then Some (img_config i ! unat (addr - CONFIG_BASE_ADDR))
      else if in_region PROFILE_BASE_ADDR PROFILE_REGION_SIZE addr
      then Some (img_profile i ! unat (addr - PROFILE_BASE_ADDR))
      else None)"

definition Image_fields_allowed :: "AllowedRule list \<Rightarrow> Image \<Rightarrow> bool" where
  "Image_fields_allowed rules i \<longleftrightarrow>
     list_all (\<lambda>r. case Image_persisted_byte i (ar_addr r) of Some b \<Rightarrow> b \<in> set (ar_allowed r) | None \<Rightarrow> True) rules"

definition Image_parse :: "AllowedRule list \<Rightarrow> bytes \<Rightarrow> Image option" where
  "Image_parse rules slot =
     do { bytes \<leftarrow> get_range slot 0 IMAGE_LEN;
          if bytes ! 0 \<noteq> IMAGE_MAGIC \<or> bytes ! 1 \<noteq> IMAGE_VERSION then None
          else let seq = from_le16 (bytes ! 2) (bytes ! 3)
               in if from_le16 (bytes ! 4) (bytes ! 5) \<noteq> of_nat (CONFIG_LEN + PROFILE_LEN) then None
                  else let crc = from_le16 (bytes ! 6) (bytes ! 7)
                       in if osc_crc_continue (osc_crc (take 6 bytes)) (drop HEADER_LEN bytes) \<noteq> crc then None
                          else let img = \<lparr>img_seq = seq,
                                          img_config = take CONFIG_LEN (drop HEADER_LEN bytes),
                                          img_profile = drop (HEADER_LEN + CONFIG_LEN) bytes\<rparr>
                               in if Image_fields_allowed rules img then Some img else None }"

definition calib_header :: "u16 \<Rightarrow> bytes \<Rightarrow> bytes" where
  "calib_header seq calib =
     (let h = [CALIB_IMAGE_MAGIC, CALIB_IMAGE_VERSION] @ to_le16 seq @ to_le16 (of_nat CALIB_LEN);
          crc = osc_crc_continue (osc_crc h) calib
      in h @ to_le16 crc)"

definition calib_assemble :: "u16 \<Rightarrow> bytes \<Rightarrow> bytes" where
  "calib_assemble seq calib = calib_header seq calib @ calib"

record CalibImage =
  cimg_seq :: u16
  cimg_calib :: bytes

definition CalibImage_persisted_byte :: "CalibImage \<Rightarrow> u16 \<Rightarrow> u8 option" where
  "CalibImage_persisted_byte i addr =
     (if in_region CALIB_BASE_ADDR CALIB_REGION_SIZE addr
      then Some (cimg_calib i ! unat (addr - CALIB_BASE_ADDR)) else None)"

definition CalibImage_fields_allowed :: "AllowedRule list \<Rightarrow> CalibImage \<Rightarrow> bool" where
  "CalibImage_fields_allowed rules i \<longleftrightarrow>
     list_all (\<lambda>r. case CalibImage_persisted_byte i (ar_addr r) of Some b \<Rightarrow> b \<in> set (ar_allowed r) | None \<Rightarrow> True) rules"

definition CalibImage_parse :: "AllowedRule list \<Rightarrow> bytes \<Rightarrow> CalibImage option" where
  "CalibImage_parse rules slot =
     do { bytes \<leftarrow> get_range slot 0 CALIB_IMAGE_LEN;
          if bytes ! 0 \<noteq> CALIB_IMAGE_MAGIC \<or> bytes ! 1 \<noteq> CALIB_IMAGE_VERSION then None
          else let seq = from_le16 (bytes ! 2) (bytes ! 3)
               in if from_le16 (bytes ! 4) (bytes ! 5) \<noteq> of_nat CALIB_LEN then None
                  else let crc = from_le16 (bytes ! 6) (bytes ! 7)
                       in if osc_crc_continue (osc_crc (take 6 bytes)) (drop HEADER_LEN bytes) \<noteq> crc then None
                          else let img = \<lparr>cimg_seq = seq, cimg_calib = drop HEADER_LEN bytes\<rparr>
                               in if CalibImage_fields_allowed rules img then Some img else None }"

section \<open>Boot overlay\<close>

definition overlay_persistent :: "bytes \<Rightarrow> bytes \<Rightarrow> bytes \<Rightarrow> bytes option" where
  "overlay_persistent table config profile =
     (let skip = unat ID_ADDR
      in do { src \<leftarrow> get_range config skip CONFIG_LEN;
              t \<leftarrow> raw_write table (unat CONFIG_BASE_ADDR + skip) src;
              raw_write t (unat PROFILE_BASE_ADDR) profile })"

definition overlay_persistent_calib :: "bytes \<Rightarrow> bytes \<Rightarrow> bytes option" where
  "overlay_persistent_calib table calib = raw_write table (unat CALIB_BASE_ADDR) calib"

definition boot_overlay :: "AllowedRule list \<Rightarrow> bytes \<Rightarrow> bytes \<Rightarrow> bytes \<Rightarrow> (bytes \<times> BootPick) option" where
  "boot_overlay rules table slot_a slot_b =
     (let (img, next_slot) = pick_newest (Image_parse rules slot_a) (Image_parse rules slot_b) img_seq
      in case img of
           Some img \<Rightarrow>
             do { t \<leftarrow> overlay_persistent table (img_config img) (img_profile img);
                  Some (t, \<lparr>bp_next_slot = next_slot, bp_next_seq = img_seq img + 1, bp_loaded = True\<rparr>) }
         | None \<Rightarrow> Some (table, \<lparr>bp_next_slot = Slot_A, bp_next_seq = 1, bp_loaded = False\<rparr>))"

definition boot_overlay_calib :: "AllowedRule list \<Rightarrow> bytes \<Rightarrow> bytes \<Rightarrow> bytes \<Rightarrow> (bytes \<times> BootPick) option" where
  "boot_overlay_calib rules table slot_a slot_b =
     (let (img, next_slot) = pick_newest (CalibImage_parse rules slot_a) (CalibImage_parse rules slot_b) cimg_seq
      in case img of
           Some img \<Rightarrow>
             do { t \<leftarrow> overlay_persistent_calib table (cimg_calib img);
                  Some (t, \<lparr>bp_next_slot = next_slot, bp_next_seq = cimg_seq img + 1, bp_loaded = True\<rparr>) }
         | None \<Rightarrow> Some (table, \<lparr>bp_next_slot = Slot_A, bp_next_seq = 1, bp_loaded = False\<rparr>))"

section \<open>The flash store\<close>

text \<open>Main flash as addressed bytes, and the store's A/B state.  The slot bases are the linker symbols of
  \<open>osc-config.x\<close>, resolved against the memory map of the osc-dev-v006 board.\<close>

type_synonym flash_mem = "nat \<Rightarrow> u8"

record FlashHal =
  hal_erase :: "flash_mem \<Rightarrow> nat \<Rightarrow> flash_mem"
  hal_write :: "flash_mem \<Rightarrow> nat \<Rightarrow> bytes list \<Rightarrow> flash_mem"

record ConfigStore =
  cs_mem :: flash_mem
  cs_next_slot :: Slot
  cs_next_seq :: u16
  cs_calib_next_slot :: Slot
  cs_calib_next_seq :: u16

definition PAGE_SIZE :: nat where "PAGE_SIZE = 256"
definition CALIB_PAGE1_BODY :: nat where "CALIB_PAGE1_BODY = PAGE_SIZE - HEADER_LEN"

fun slot_addr :: "Slot \<Rightarrow> nat" where
  "slot_addr Slot_A = 0x0800E300"
| "slot_addr Slot_B = 0x0800E500"

fun calib_slot_addr :: "Slot \<Rightarrow> nat" where
  "calib_slot_addr Slot_A = 0x0800E700"
| "calib_slot_addr Slot_B = 0x0800E900"

definition read_mem :: "flash_mem \<Rightarrow> nat \<Rightarrow> nat \<Rightarrow> bytes" where
  "read_mem m a n = map (\<lambda>i. m (a + i)) [0..<n]"

definition slot_bytes :: "flash_mem \<Rightarrow> Slot \<Rightarrow> bytes" where
  "slot_bytes m s = read_mem m (slot_addr s) IMAGE_LEN"

definition calib_slot_bytes :: "flash_mem \<Rightarrow> Slot \<Rightarrow> bytes" where
  "calib_slot_bytes m s = read_mem m (calib_slot_addr s) CALIB_IMAGE_LEN"

definition ConfigStore_boot_load :: "AllowedRule list \<Rightarrow> ConfigStore \<Rightarrow> bytes \<Rightarrow> (ConfigStore \<times> bytes) option" where
  "ConfigStore_boot_load rules cs table =
     do { (t, pick) \<leftarrow> boot_overlay rules table (slot_bytes (cs_mem cs) Slot_A) (slot_bytes (cs_mem cs) Slot_B);
          (t, calib_pick) \<leftarrow> boot_overlay_calib rules t
             (calib_slot_bytes (cs_mem cs) Slot_A) (calib_slot_bytes (cs_mem cs) Slot_B);
          Some (cs\<lparr>cs_next_slot := bp_next_slot pick, cs_next_seq := bp_next_seq pick,
                   cs_calib_next_slot := bp_next_slot calib_pick, cs_calib_next_seq := bp_next_seq calib_pick\<rparr>, t) }"

definition ConfigStore_save :: "FlashHal \<Rightarrow> ConfigStore \<Rightarrow> bytes \<Rightarrow> bytes \<Rightarrow> bytes \<Rightarrow> ConfigStore \<times> bool" where
  "ConfigStore_save hal cs config profile calib =
     (let addr = slot_addr (cs_next_slot cs);
          header = persist_header (cs_next_seq cs) config profile;
          m = hal_erase hal (cs_mem cs) addr;
          m = hal_write hal m addr [header, config, profile];
          cs1 = cs\<lparr>cs_mem := m\<rparr>;
          stored = slot_bytes m (cs_next_slot cs);
          intact = (take HEADER_LEN stored = header
            \<and> take CONFIG_LEN (drop HEADER_LEN stored) = config
            \<and> drop (HEADER_LEN + CONFIG_LEN) stored = profile)
      in if \<not> intact then (cs1, False)
         else
           let cs2 = cs1\<lparr>cs_next_slot := Slot_other (cs_next_slot cs1), cs_next_seq := cs_next_seq cs1 + 1\<rparr>;
               calib_addr = calib_slot_addr (cs_calib_next_slot cs2);
               cheader = calib_header (cs_calib_next_seq cs2) calib;
               m = hal_erase hal (cs_mem cs2) calib_addr;
               m = hal_erase hal m (calib_addr + PAGE_SIZE);
               m = hal_write hal m calib_addr [cheader, take CALIB_PAGE1_BODY calib];
               m = hal_write hal m (calib_addr + PAGE_SIZE) [drop CALIB_PAGE1_BODY calib];
               cs3 = cs2\<lparr>cs_mem := m\<rparr>;
               stored = calib_slot_bytes m (cs_calib_next_slot cs3);
               intact = (take HEADER_LEN stored = cheader \<and> drop HEADER_LEN stored = calib)
           in if \<not> intact then (cs3, False)
              else (cs3\<lparr>cs_calib_next_slot := Slot_other (cs_calib_next_slot cs3),
                        cs_calib_next_seq := cs_calib_next_seq cs3 + 1\<rparr>, True))"

definition ConfigStore_wipe :: "FlashHal \<Rightarrow> ConfigStore \<Rightarrow> ConfigStore \<times> bool" where
  "ConfigStore_wipe hal cs =
     (let m = hal_erase hal (cs_mem cs) (slot_addr Slot_A);
          m = hal_erase hal m (slot_addr Slot_B);
          m = foldl (\<lambda>m slot. hal_erase hal (hal_erase hal m (calib_slot_addr slot)) (calib_slot_addr slot + PAGE_SIZE))
                m [Slot_A, Slot_B];
          cs1 = cs\<lparr>cs_mem := m\<rparr>
      in if list_ex (\<lambda>slot. list_ex (\<lambda>b. b \<noteq> 0xFF) (slot_bytes m slot)
                          \<or> list_ex (\<lambda>b. b \<noteq> 0xFF) (calib_slot_bytes m slot)) [Slot_A, Slot_B]
         then (cs1, False)
         else (cs1\<lparr>cs_next_slot := Slot_A, cs_next_seq := 1, cs_calib_next_slot := Slot_A, cs_calib_next_seq := 1\<rparr>, True))"

text \<open>The documented reach of the flash operations: one 256-byte page.\<close>

definition flash_local :: "FlashHal \<Rightarrow> bool" where
  "flash_local hal \<longleftrightarrow>
     (\<forall>m a x. x div PAGE_SIZE \<noteq> a div PAGE_SIZE \<longrightarrow> hal_erase hal m a x = m x)
     \<and> (\<forall>m a segs x. x div PAGE_SIZE \<noteq> a div PAGE_SIZE \<longrightarrow> hal_write hal m a segs x = m x)"

section \<open>The A/B logic over any image format\<close>

locale image_codec =
  fixes enc :: "u16 \<Rightarrow> 'b \<Rightarrow> bytes"
    and parse :: "bytes \<Rightarrow> 'i option"
    and seq :: "'i \<Rightarrow> u16"
    and body :: "'i \<Rightarrow> 'b"
    and ok :: "'b \<Rightarrow> bool"
  assumes parse_enc: "ok b \<Longrightarrow> \<exists>i. parse (enc q b) = Some i \<and> seq i = q \<and> body i = b"
begin

text \<open>The live slot, the one the next save does not touch, is empty or one step behind the next sequence number.\<close>

definition live_ok :: "(Slot \<Rightarrow> bytes) \<Rightarrow> Slot \<Rightarrow> u16 \<Rightarrow> bool" where
  "live_ok slots ns nq \<longleftrightarrow> (\<forall>i. parse (slots (Slot_other ns)) = Some i \<longrightarrow> seq i + 1 = nq)"

definition pick :: "(Slot \<Rightarrow> bytes) \<Rightarrow> 'i option \<times> Slot" where
  "pick slots = pick_newest (parse (slots Slot_A)) (parse (slots Slot_B)) seq"

lemma pick_written:
  assumes "ok b" "live_ok slots ns nq" "slots ns = enc nq b"
  obtains i where "pick slots = (Some i, Slot_other ns)" "seq i = nq" "body i = b"
proof -
  obtain i where i: "parse (enc nq b) = Some i" "seq i = nq" "body i = b" using parse_enc assms(1) by blast
  have "pick slots = (Some i, Slot_other ns)"
  proof (cases "parse (slots (Slot_other ns))")
    case None
    then show ?thesis using i(1) assms(3) by (cases ns) (simp_all add: pick_def pick_newest_def)
  next
    case (Some j)
    then have s: "nq = seq j + 1" using assms(2) by (simp add: live_ok_def)
    have m: "sint (seq j - (seq j + 1)) = -1" "sint (seq j + 1 - seq j) = 1" by simp_all
    show ?thesis using i(1,2) assms(3) Some m unfolding s by (cases ns) (simp_all add: pick_def pick_newest_def)
  qed
  then show thesis using that i by blast
qed

lemma live_written: "ok b \<Longrightarrow> slots ns = enc nq b \<Longrightarrow> live_ok slots (Slot_other ns) (nq + 1)"
  using parse_enc [of b nq] by (cases ns) (auto simp: live_ok_def)

lemma live_kept: "live_ok slots ns nq \<Longrightarrow> slots' (Slot_other ns) = slots (Slot_other ns) \<Longrightarrow> live_ok slots' ns nq"
  by (simp add: live_ok_def)

lemma live_pick: "pick slots = (Some i, ns) \<Longrightarrow> live_ok slots ns (seq i + 1)"
  by (auto simp: pick_def pick_newest_def live_ok_def split: option.splits if_splits)

lemma live_none: "pick slots = (None, ns) \<Longrightarrow> live_ok slots Slot_A 1"
  by (auto simp: pick_def pick_newest_def live_ok_def split: option.splits if_splits)

lemma pick_torn:
  "parse (slots ns) = None \<Longrightarrow> parse (slots (Slot_other ns)) = Some i \<Longrightarrow> pick slots = (Some i, ns)"
  by (cases ns) (simp_all add: pick_def pick_newest_def)

end

section \<open>The two image formats as codecs\<close>

lemmas persist_lens = CONFIG_LEN_def PROFILE_LEN_def CALIB_LEN_def HEADER_LEN_def IMAGE_LEN_def CALIB_IMAGE_LEN_def

definition config_ok :: "AllowedRule list \<Rightarrow> bytes \<times> bytes \<Rightarrow> bool" where
  "config_ok rules cp \<longleftrightarrow> length (fst cp) = CONFIG_LEN \<and> length (snd cp) = PROFILE_LEN
     \<and> Image_fields_allowed rules \<lparr>img_seq = 0, img_config = fst cp, img_profile = snd cp\<rparr>"

definition calib_ok :: "AllowedRule list \<Rightarrow> bytes \<Rightarrow> bool" where
  "calib_ok rules k \<longleftrightarrow> length k = CALIB_LEN \<and> CalibImage_fields_allowed rules \<lparr>cimg_seq = 0, cimg_calib = k\<rparr>"

lemma fields_allowed_seq:
  "Image_fields_allowed rules \<lparr>img_seq = q, img_config = c, img_profile = p\<rparr>
   = Image_fields_allowed rules \<lparr>img_seq = 0, img_config = c, img_profile = p\<rparr>"
  "CalibImage_fields_allowed rules \<lparr>cimg_seq = q, cimg_calib = k\<rparr>
   = CalibImage_fields_allowed rules \<lparr>cimg_seq = 0, cimg_calib = k\<rparr>"
  by (simp_all add: Image_fields_allowed_def Image_persisted_byte_def CalibImage_fields_allowed_def
      CalibImage_persisted_byte_def cong: option.case_cong)

lemma length_headers [simp]: "length (persist_header q c p) = 8" "length (calib_header q k) = 8"
  by (simp_all add: persist_header_def calib_header_def Let_def)

lemma take_to_le16:
  "take 6 ([a, b] @ to_le16 x @ to_le16 y @ zs) = [a, b] @ to_le16 x @ to_le16 y"
  by (simp add: to_le16_def)

lemma header_nth:
  "(([a, b] @ to_le16 x @ to_le16 y) @ to_le16 z @ body) ! 0 = a"
  "(([a, b] @ to_le16 x @ to_le16 y) @ to_le16 z @ body) ! 1 = b"
  "from_le16 ((([a, b] @ to_le16 x @ to_le16 y) @ to_le16 z @ body) ! 2) ((([a, b] @ to_le16 x @ to_le16 y) @ to_le16 z @ body) ! 3) = x"
  "from_le16 ((([a, b] @ to_le16 x @ to_le16 y) @ to_le16 z @ body) ! 4) ((([a, b] @ to_le16 x @ to_le16 y) @ to_le16 z @ body) ! 5) = y"
  "from_le16 ((([a, b] @ to_le16 x @ to_le16 y) @ to_le16 z @ body) ! 6) ((([a, b] @ to_le16 x @ to_le16 y) @ to_le16 z @ body) ! 7) = z"
  "take 6 (([a, b] @ to_le16 x @ to_le16 y) @ to_le16 z @ body) = [a, b] @ to_le16 x @ to_le16 y"
  "drop 8 (([a, b] @ to_le16 x @ to_le16 y) @ to_le16 z @ body) = body"
  by (simp_all add: to_le16_def)

lemma Image_parse_assemble:
  assumes "config_ok rules (c, p)"
  shows "Image_parse rules (assemble q c p @ rest) = Some \<lparr>img_seq = q, img_config = c, img_profile = p\<rparr>"
proof -
  define h where "h = [IMAGE_MAGIC, IMAGE_VERSION] @ to_le16 q @ to_le16 (of_nat (CONFIG_LEN + PROFILE_LEN))"
  define crc where "crc = osc_crc_continue (osc_crc h) (c @ p)"
  have e: "assemble q c p = h @ to_le16 crc @ (c @ p)"
    by (simp add: assemble_def persist_header_def Let_def h_def crc_def osc_crc_continue_append)
  have l: "length c = 128" "length p = 64" using assms by (simp_all add: config_ok_def persist_lens)
  define w where "w = h @ to_le16 crc @ (c @ p)"
  have g: "get_range (assemble q c p @ rest) 0 IMAGE_LEN = Some w"
    using l by (simp add: get_range_def e persist_lens h_def w_def)
  have d: "drop (HEADER_LEN + CONFIG_LEN) w = p" "take CONFIG_LEN (c @ p) = c"
    using l by (simp_all add: persist_lens h_def w_def)
  note n = header_nth [of IMAGE_MAGIC IMAGE_VERSION q "of_nat (CONFIG_LEN + PROFILE_LEN)" crc "c @ p",
      folded h_def, folded w_def]
  have f: "Image_fields_allowed rules \<lparr>img_seq = q, img_config = c, img_profile = p\<rparr>"
    using assms fields_allowed_seq(1) [of rules q c p] by (simp add: config_ok_def)
  have x: "osc_crc_continue (osc_crc (take 6 w)) (c @ p) = crc"
    unfolding n(6) by (simp add: crc_def h_def)
  have hd: "drop HEADER_LEN w = c @ p" unfolding HEADER_LEN_def by (rule n(7))
  show ?thesis
    unfolding Image_parse_def g bind.bind_lunit Let_def n(1-5) hd x d using f by simp
qed

lemma CalibImage_parse_assemble:
  assumes "calib_ok rules k"
  shows "CalibImage_parse rules (calib_assemble q k @ rest) = Some \<lparr>cimg_seq = q, cimg_calib = k\<rparr>"
proof -
  define h where "h = [CALIB_IMAGE_MAGIC, CALIB_IMAGE_VERSION] @ to_le16 q @ to_le16 (of_nat CALIB_LEN)"
  define crc where "crc = osc_crc_continue (osc_crc h) k"
  have e: "calib_assemble q k = h @ to_le16 crc @ k"
    by (simp add: calib_assemble_def calib_header_def Let_def h_def crc_def)
  have l: "length k = 256" using assms by (simp add: calib_ok_def persist_lens)
  define w where "w = h @ to_le16 crc @ k"
  have g: "get_range (calib_assemble q k @ rest) 0 CALIB_IMAGE_LEN = Some w"
    using l by (simp add: get_range_def e persist_lens h_def w_def)
  note n = header_nth [of CALIB_IMAGE_MAGIC CALIB_IMAGE_VERSION q "of_nat CALIB_LEN" crc k, folded h_def, folded w_def]
  have f: "CalibImage_fields_allowed rules \<lparr>cimg_seq = q, cimg_calib = k\<rparr>"
    using assms fields_allowed_seq(2) [of rules q k] by (simp add: calib_ok_def)
  have x: "osc_crc_continue (osc_crc (take 6 w)) k = crc"
    unfolding n(6) by (simp add: crc_def h_def)
  have hd: "drop HEADER_LEN w = k" unfolding HEADER_LEN_def by (rule n(7))
  show ?thesis
    unfolding CalibImage_parse_def g bind.bind_lunit Let_def n(1-5) hd x using f by simp
qed

interpretation cfg: image_codec "\<lambda>q cp. assemble q (fst cp) (snd cp)" "Image_parse rules" img_seq
  "\<lambda>i. (img_config i, img_profile i)" "config_ok rules" for rules
proof unfold_locales
  fix b q assume "config_ok rules b"
  then show "\<exists>i. Image_parse rules (assemble q (fst b) (snd b)) = Some i \<and> img_seq i = q \<and> (img_config i, img_profile i) = b"
    using Image_parse_assemble [of rules "fst b" "snd b" q "[]"] by simp
qed

interpretation cal: image_codec calib_assemble "CalibImage_parse rules" cimg_seq cimg_calib "calib_ok rules" for rules
proof unfold_locales
  fix b q assume "calib_ok rules b"
  then show "\<exists>i. CalibImage_parse rules (calib_assemble q b) = Some i \<and> cimg_seq i = q \<and> cimg_calib i = b"
    using CalibImage_parse_assemble [of rules b q "[]"] by simp
qed

section \<open>The store\<close>

text \<open>For both image pairs: the slot the next save leaves alone is empty or one sequence step behind.\<close>

definition store_inv :: "AllowedRule list \<Rightarrow> ConfigStore \<Rightarrow> bool" where
  "store_inv rules cs \<longleftrightarrow>
     (\<forall>i. Image_parse rules (slot_bytes (cs_mem cs) (Slot_other (cs_next_slot cs))) = Some i
        \<longrightarrow> img_seq i + 1 = cs_next_seq cs)
     \<and> (\<forall>i. CalibImage_parse rules (calib_slot_bytes (cs_mem cs) (Slot_other (cs_calib_next_slot cs))) = Some i
        \<longrightarrow> cimg_seq i + 1 = cs_calib_next_seq cs)"

lemma store_inv_live:
  "store_inv rules cs \<longleftrightarrow> cfg.live_ok rules (slot_bytes (cs_mem cs)) (cs_next_slot cs) (cs_next_seq cs)
     \<and> cal.live_ok rules (calib_slot_bytes (cs_mem cs)) (cs_calib_next_slot cs) (cs_calib_next_seq cs)"
  by (simp add: store_inv_def cfg.live_ok_def cal.live_ok_def)

lemma Slot_other_neq [simp]: "Slot_other s \<noteq> s" "s \<noteq> Slot_other s" "Slot_other (Slot_other s) = s"
  by (cases s; simp)+

definition page_free :: "nat \<Rightarrow> nat \<Rightarrow> nat \<Rightarrow> bool" where
  "page_free a b n \<longleftrightarrow> (\<forall>i<n. (b + i) div PAGE_SIZE \<noteq> a div PAGE_SIZE)"

lemma page_freeI: "b = PAGE_SIZE * q \<Longrightarrow> n \<le> PAGE_SIZE * k \<Longrightarrow> a div PAGE_SIZE < q \<or> q + k \<le> a div PAGE_SIZE \<Longrightarrow> page_free a b n"
  unfolding page_free_def
proof (intro allI impI)
  fix i assume h: "b = PAGE_SIZE * q" "n \<le> PAGE_SIZE * k" "a div PAGE_SIZE < q \<or> q + k \<le> a div PAGE_SIZE" "i < n"
  have "(b + i) div PAGE_SIZE = q + i div PAGE_SIZE" using h(1) by (simp add: PAGE_SIZE_def)
  moreover have "i div PAGE_SIZE < k" using h(2,4) by (simp add: less_mult_imp_div_less mult.commute)
  ultimately show "(b + i) div PAGE_SIZE \<noteq> a div PAGE_SIZE" using h(3) by linarith
qed

lemma flash_frame:
  assumes "flash_local hal" "page_free a b n"
  shows "read_mem (hal_erase hal m a) b n = read_mem m b n"
    and "read_mem (hal_write hal m a segs) b n = read_mem m b n"
  using assms by (simp_all add: read_mem_def flash_local_def page_free_def)

lemma slots_apart:
  "s \<noteq> s' \<Longrightarrow> page_free (slot_addr s) (slot_addr s') IMAGE_LEN"
  "page_free (slot_addr s) (calib_slot_addr s') CALIB_IMAGE_LEN"
  "page_free (calib_slot_addr s) (slot_addr s') IMAGE_LEN"
  "page_free (calib_slot_addr s + PAGE_SIZE) (slot_addr s') IMAGE_LEN"
  "s \<noteq> s' \<Longrightarrow> page_free (calib_slot_addr s) (calib_slot_addr s') CALIB_IMAGE_LEN"
  "s \<noteq> s' \<Longrightarrow> page_free (calib_slot_addr s + PAGE_SIZE) (calib_slot_addr s') CALIB_IMAGE_LEN"
  by (cases s; cases s'; simp;
      rule page_freeI [where q = "slot_addr s' div 256" and k = 1] page_freeI [where q = "calib_slot_addr s' div 256" and k = 2];
      simp add: PAGE_SIZE_def persist_lens)+

text \<open>The memory after the config program, and after the calib program.\<close>

definition mem_config :: "FlashHal \<Rightarrow> ConfigStore \<Rightarrow> bytes \<Rightarrow> bytes \<Rightarrow> flash_mem" where
  "mem_config hal cs c p = hal_write hal (hal_erase hal (cs_mem cs) (slot_addr (cs_next_slot cs)))
     (slot_addr (cs_next_slot cs)) [persist_header (cs_next_seq cs) c p, c, p]"

definition mem_calib :: "FlashHal \<Rightarrow> ConfigStore \<Rightarrow> flash_mem \<Rightarrow> bytes \<Rightarrow> flash_mem" where
  "mem_calib hal cs m k =
     (let a = calib_slot_addr (cs_calib_next_slot cs)
      in hal_write hal (hal_write hal (hal_erase hal (hal_erase hal m a) (a + PAGE_SIZE)) a
           [calib_header (cs_calib_next_seq cs) k, take CALIB_PAGE1_BODY k]) (a + PAGE_SIZE) [drop CALIB_PAGE1_BODY k])"

lemma three_parts:
  "take HEADER_LEN w = h \<and> take CONFIG_LEN (drop HEADER_LEN w) = c \<and> drop (HEADER_LEN + CONFIG_LEN) w = p \<Longrightarrow> w = h @ c @ p"
  by (metis append_take_drop_id drop_drop add.commute)

lemma save_cases:
  obtains
    (config_bad) "ConfigStore_save hal cs c p k = (cs\<lparr>cs_mem := mem_config hal cs c p\<rparr>, False)"
  | (calib_bad) m where "m = mem_calib hal cs (mem_config hal cs c p) k"
      "ConfigStore_save hal cs c p k
       = (cs\<lparr>cs_mem := m, cs_next_slot := Slot_other (cs_next_slot cs), cs_next_seq := cs_next_seq cs + 1\<rparr>, False)"
      "slot_bytes (mem_config hal cs c p) (cs_next_slot cs) = assemble (cs_next_seq cs) c p"
  | (saved) m where "m = mem_calib hal cs (mem_config hal cs c p) k"
      "ConfigStore_save hal cs c p k
       = (cs\<lparr>cs_mem := m, cs_next_slot := Slot_other (cs_next_slot cs), cs_next_seq := cs_next_seq cs + 1,
              cs_calib_next_slot := Slot_other (cs_calib_next_slot cs), cs_calib_next_seq := cs_calib_next_seq cs + 1\<rparr>, True)"
      "slot_bytes (mem_config hal cs c p) (cs_next_slot cs) = assemble (cs_next_seq cs) c p"
      "calib_slot_bytes m (cs_calib_next_slot cs) = calib_assemble (cs_calib_next_seq cs) k"
proof -
  define m where "m = mem_calib hal cs (mem_config hal cs c p) k"
  define st where "st = slot_bytes (mem_config hal cs c p) (cs_next_slot cs)"
  define i1 where "i1 \<longleftrightarrow> take HEADER_LEN st = persist_header (cs_next_seq cs) c p
    \<and> take CONFIG_LEN (drop HEADER_LEN st) = c \<and> drop (HEADER_LEN + CONFIG_LEN) st = p"
  define sc where "sc = calib_slot_bytes m (cs_calib_next_slot cs)"
  define i2 where "i2 \<longleftrightarrow> take HEADER_LEN sc = calib_header (cs_calib_next_seq cs) k \<and> drop HEADER_LEN sc = k"
  have e: "ConfigStore_save hal cs c p k =
    (if \<not> i1 then (cs\<lparr>cs_mem := mem_config hal cs c p\<rparr>, False)
     else if \<not> i2
     then (cs\<lparr>cs_mem := m, cs_next_slot := Slot_other (cs_next_slot cs), cs_next_seq := cs_next_seq cs + 1\<rparr>, False)
     else (cs\<lparr>cs_mem := m, cs_next_slot := Slot_other (cs_next_slot cs), cs_next_seq := cs_next_seq cs + 1,
              cs_calib_next_slot := Slot_other (cs_calib_next_slot cs), cs_calib_next_seq := cs_calib_next_seq cs + 1\<rparr>, True))"
    unfolding ConfigStore_save_def Let_def i1_def i2_def st_def sc_def m_def mem_config_def mem_calib_def by simp
  have a1: "i1 \<Longrightarrow> st = assemble (cs_next_seq cs) c p"
    unfolding i1_def assemble_def by (rule three_parts)
  have a2: "i2 \<Longrightarrow> sc = calib_assemble (cs_calib_next_seq cs) k"
    unfolding i2_def calib_assemble_def by (metis append_take_drop_id)
  show thesis
  proof (cases i1)
    case False
    then show thesis using config_bad e by simp
  next
    case t1: True
    show thesis
    proof (cases i2)
      case False
      then show thesis using calib_bad [of m] t1 e a1 by (simp add: m_def st_def)
    next
      case True
      then show thesis using saved [of m] t1 e a1 a2 by (simp add: m_def st_def sc_def)
    qed
  qed
qed

lemma mem_config_frame:
  assumes "flash_local hal"
  shows "slot_bytes (mem_config hal cs c p) (Slot_other (cs_next_slot cs)) = slot_bytes (cs_mem cs) (Slot_other (cs_next_slot cs))"
    and "calib_slot_bytes (mem_config hal cs c p) s = calib_slot_bytes (cs_mem cs) s"
  by (simp_all add: slot_bytes_def calib_slot_bytes_def mem_config_def flash_frame [OF assms] slots_apart)

lemma mem_calib_frame:
  assumes "flash_local hal"
  shows "slot_bytes (mem_calib hal cs m k) s = slot_bytes m s"
    and "calib_slot_bytes (mem_calib hal cs m k) (Slot_other (cs_calib_next_slot cs)) = calib_slot_bytes m (Slot_other (cs_calib_next_slot cs))"
  by (simp_all add: slot_bytes_def calib_slot_bytes_def mem_calib_def Let_def flash_frame [OF assms] slots_apart)

lemma save_keeps_inv:
  assumes "flash_local hal" "store_inv rules cs" "config_ok rules (c, p)" "calib_ok rules k"
  shows "store_inv rules (fst (ConfigStore_save hal cs c p k))"
proof -
  note fr = mem_config_frame [OF assms(1)] mem_calib_frame [OF assms(1)]
  have l: "cfg.live_ok rules (slot_bytes (cs_mem cs)) (cs_next_slot cs) (cs_next_seq cs)"
      "cal.live_ok rules (calib_slot_bytes (cs_mem cs)) (cs_calib_next_slot cs) (cs_calib_next_seq cs)"
    using assms(2) by (simp_all add: store_inv_live)
  show ?thesis
  proof (rule save_cases [of hal cs c p k])
    assume "ConfigStore_save hal cs c p k = (cs\<lparr>cs_mem := mem_config hal cs c p\<rparr>, False)"
    then show ?thesis
      using cfg.live_kept [OF l(1)] cal.live_kept [OF l(2)] fr by (simp add: store_inv_live)
  next
    fix m assume m: "m = mem_calib hal cs (mem_config hal cs c p) k"
      "ConfigStore_save hal cs c p k
       = (cs\<lparr>cs_mem := m, cs_next_slot := Slot_other (cs_next_slot cs), cs_next_seq := cs_next_seq cs + 1\<rparr>, False)"
      "slot_bytes (mem_config hal cs c p) (cs_next_slot cs) = assemble (cs_next_seq cs) c p"
    then show ?thesis
      using cfg.live_written [OF assms(3), of "slot_bytes m" "cs_next_slot cs" "cs_next_seq cs"] cal.live_kept [OF l(2)] fr
      by (simp add: store_inv_live)
  next
    fix m assume m: "m = mem_calib hal cs (mem_config hal cs c p) k"
      "ConfigStore_save hal cs c p k
       = (cs\<lparr>cs_mem := m, cs_next_slot := Slot_other (cs_next_slot cs), cs_next_seq := cs_next_seq cs + 1,
              cs_calib_next_slot := Slot_other (cs_calib_next_slot cs), cs_calib_next_seq := cs_calib_next_seq cs + 1\<rparr>, True)"
      "slot_bytes (mem_config hal cs c p) (cs_next_slot cs) = assemble (cs_next_seq cs) c p"
      "calib_slot_bytes m (cs_calib_next_slot cs) = calib_assemble (cs_calib_next_seq cs) k"
    then show ?thesis
      using cfg.live_written [OF assms(3), of "slot_bytes m" "cs_next_slot cs" "cs_next_seq cs"]
        cal.live_written [OF assms(4), of "calib_slot_bytes m" "cs_calib_next_slot cs" "cs_calib_next_seq cs"] fr
      by (simp add: store_inv_live)
  qed
qed

lemma boot_load_picks:
  assumes "cfg.pick rules (slot_bytes (cs_mem cs)) = (Some i, ns)" "cal.pick rules (calib_slot_bytes (cs_mem cs)) = (Some j, ns')"
    "length (img_config i) = CONFIG_LEN" "length (img_profile i) = PROFILE_LEN" "length (cimg_calib j) = CALIB_LEN"
    "length table = TABLE_SIZE"
  shows "ConfigStore_boot_load rules cs table = Some
    (cs\<lparr>cs_next_slot := ns, cs_next_seq := img_seq i + 1, cs_calib_next_slot := ns', cs_calib_next_seq := cimg_seq j + 1\<rparr>,
     overlay (overlay (overlay table 16 (drop 16 (img_config i))) 640 (img_profile i)) 128 (cimg_calib j))"
  using assms
  by (simp add: ConfigStore_boot_load_def boot_overlay_def boot_overlay_calib_def cfg.pick_def cal.pick_def
      overlay_persistent_def overlay_persistent_calib_def get_range_def ID_ADDR_def CONFIG_BASE_ADDR_def PROFILE_BASE_ADDR_def
      CALIB_BASE_ADDR_def persist_lens TABLE_SIZE_def raw_write_def copy_slice_def overlay_def)

lemma save_boot:
  assumes "flash_local hal" "store_inv rules cs" "config_ok rules (c, p)" "calib_ok rules k" "length table = TABLE_SIZE"
    "ConfigStore_save hal cs c p k = (cs', True)"
  shows "ConfigStore_boot_load rules cs' table = Some (cs', overlay (overlay (overlay table 16 (drop 16 c)) 640 p) 128 k)"
proof (rule save_cases [of hal cs c p k])
  fix m assume m: "m = mem_calib hal cs (mem_config hal cs c p) k"
      "ConfigStore_save hal cs c p k
       = (cs\<lparr>cs_mem := m, cs_next_slot := Slot_other (cs_next_slot cs), cs_next_seq := cs_next_seq cs + 1,
              cs_calib_next_slot := Slot_other (cs_calib_next_slot cs), cs_calib_next_seq := cs_calib_next_seq cs + 1\<rparr>, True)"
      "slot_bytes (mem_config hal cs c p) (cs_next_slot cs) = assemble (cs_next_seq cs) c p"
      "calib_slot_bytes m (cs_calib_next_slot cs) = calib_assemble (cs_calib_next_seq cs) k"
  note fr = mem_config_frame [OF assms(1)] mem_calib_frame [OF assms(1)]
  have "cfg.live_ok rules (slot_bytes m) (cs_next_slot cs) (cs_next_seq cs)"
    using assms(2) fr m(1) by (auto simp: store_inv_live intro: cfg.live_kept)
  then obtain i where i: "cfg.pick rules (slot_bytes m) = (Some i, Slot_other (cs_next_slot cs))" "img_seq i = cs_next_seq cs"
      "img_config i = c" "img_profile i = p"
    using cfg.pick_written [OF assms(3), of "slot_bytes m" "cs_next_slot cs" "cs_next_seq cs"] fr(3) m(1,3) by auto
  have "cal.live_ok rules (calib_slot_bytes m) (cs_calib_next_slot cs) (cs_calib_next_seq cs)"
    using assms(2) fr m(1) by (auto simp: store_inv_live intro: cal.live_kept)
  then obtain j where j: "cal.pick rules (calib_slot_bytes m) = (Some j, Slot_other (cs_calib_next_slot cs))"
      "cimg_seq j = cs_calib_next_seq cs" "cimg_calib j = k"
    using cal.pick_written [OF assms(4), of "calib_slot_bytes m" "cs_calib_next_slot cs" "cs_calib_next_seq cs"] m(4) by auto
  have l: "length c = CONFIG_LEN" "length p = PROFILE_LEN" "length k = CALIB_LEN"
    using assms(3,4) by (simp_all add: config_ok_def calib_ok_def)
  have e: "cs' = cs\<lparr>cs_mem := m, cs_next_slot := Slot_other (cs_next_slot cs), cs_next_seq := cs_next_seq cs + 1,
      cs_calib_next_slot := Slot_other (cs_calib_next_slot cs), cs_calib_next_seq := cs_calib_next_seq cs + 1\<rparr>"
    using m(2) assms(6) by simp
  show ?thesis
    using boot_load_picks [of rules cs' i _ j, OF _ _ _ _ _ assms(5)] i j l by (simp add: e)
qed (use assms(6) in simp_all)

section \<open>A working flash\<close>

text \<open>NOR flash as the reference manual has it: an erase sets the page to ones, a page program stores the
  streamed segments and leaves ones behind them.\<close>

definition nor_flash :: FlashHal where
  "nor_flash = \<lparr>hal_erase = (\<lambda>m a x. if x div PAGE_SIZE = a div PAGE_SIZE then 0xFF else m x),
     hal_write = (\<lambda>m a segs x. if x div PAGE_SIZE = a div PAGE_SIZE
        then (if a \<le> x \<and> x - a < length (concat segs) then concat segs ! (x - a) else 0xFF) else m x)\<rparr>"

definition blank_store :: ConfigStore where
  "blank_store = \<lparr>cs_mem = (\<lambda>x. 0xFF), cs_next_slot = Slot_A, cs_next_seq = 1, cs_calib_next_slot = Slot_A, cs_calib_next_seq = 1\<rparr>"

lemma nor_flash_local: "flash_local nor_flash"
  by (simp add: flash_local_def nor_flash_def)

lemma read_mem_add: "read_mem m a (n + n') = read_mem m a n @ read_mem m (a + n) n'"
  by (rule nth_equalityI) (auto simp: read_mem_def nth_append)

lemma nor_program:
  assumes "a mod PAGE_SIZE = 0" "length (concat segs) = n" "n \<le> PAGE_SIZE"
  shows "read_mem (hal_write nor_flash m a segs) a n = concat segs"
proof -
  have "(a + i) div PAGE_SIZE = a div PAGE_SIZE" if "i < n" for i
  proof -
    obtain q where "a = PAGE_SIZE * q" using assms(1) by auto
    with that assms(3) show ?thesis by (simp add: PAGE_SIZE_def)
  qed
  then show ?thesis using assms(2) by (intro nth_equalityI) (simp_all add: read_mem_def nor_flash_def)
qed

lemma slot_addr_aligned: "slot_addr s mod PAGE_SIZE = 0" "calib_slot_addr s mod PAGE_SIZE = 0" "(calib_slot_addr s + PAGE_SIZE) mod PAGE_SIZE = 0"
  by (cases s; simp add: PAGE_SIZE_def)+

lemma nor_config: "length c = CONFIG_LEN \<Longrightarrow> length p = PROFILE_LEN \<Longrightarrow>
    slot_bytes (mem_config nor_flash cs c p) (cs_next_slot cs) = assemble (cs_next_seq cs) c p"
  unfolding slot_bytes_def mem_config_def
  by (subst nor_program) (simp_all add: slot_addr_aligned [unfolded PAGE_SIZE_def] persist_lens PAGE_SIZE_def assemble_def)

lemma nor_calib:
  assumes "length k = CALIB_LEN"
  shows "calib_slot_bytes (mem_calib nor_flash cs m k) (cs_calib_next_slot cs) = calib_assemble (cs_calib_next_seq cs) k"
proof -
  define a where "a = calib_slot_addr (cs_calib_next_slot cs)"
  have l: "length k = 256" using assms by (simp add: CALIB_LEN_def)
  have al: "a mod PAGE_SIZE = 0" "(a + PAGE_SIZE) mod PAGE_SIZE = 0" using slot_addr_aligned a_def by simp_all
  have f: "page_free (a + PAGE_SIZE) a PAGE_SIZE"
    by (rule page_freeI [where q = "a div PAGE_SIZE" and k = 1]) (use al(1) in \<open>auto simp: PAGE_SIZE_def\<close>)
  have n: "CALIB_IMAGE_LEN = PAGE_SIZE + 8" by (simp add: persist_lens PAGE_SIZE_def)
  have "read_mem (mem_calib nor_flash cs m k) a PAGE_SIZE = calib_header (cs_calib_next_seq cs) k @ take CALIB_PAGE1_BODY k"
    unfolding mem_calib_def Let_def a_def [symmetric] flash_frame(2) [OF nor_flash_local f]
    by (subst nor_program) (simp_all add: al [unfolded PAGE_SIZE_def] l PAGE_SIZE_def CALIB_PAGE1_BODY_def HEADER_LEN_def)
  moreover have "read_mem (mem_calib nor_flash cs m k) (a + PAGE_SIZE) 8 = drop CALIB_PAGE1_BODY k"
    unfolding mem_calib_def Let_def a_def [symmetric]
    by (subst nor_program) (simp_all add: al [unfolded PAGE_SIZE_def] l PAGE_SIZE_def CALIB_PAGE1_BODY_def HEADER_LEN_def)
  ultimately show ?thesis
    unfolding calib_slot_bytes_def a_def [symmetric] n read_mem_add by (simp add: calib_assemble_def)
qed

lemma nor_save_eq:
  assumes "length c = CONFIG_LEN" "length p = PROFILE_LEN" "length k = CALIB_LEN"
  shows "ConfigStore_save nor_flash cs c p k =
    (cs\<lparr>cs_mem := mem_calib nor_flash cs (mem_config nor_flash cs c p) k, cs_next_slot := Slot_other (cs_next_slot cs),
       cs_next_seq := cs_next_seq cs + 1, cs_calib_next_slot := Slot_other (cs_calib_next_slot cs),
       cs_calib_next_seq := cs_calib_next_seq cs + 1\<rparr>, True)"
  using nor_config [OF assms(1,2), of cs] nor_calib [OF assms(3), of cs "mem_config nor_flash cs c p"] assms
  unfolding ConfigStore_save_def Let_def
  by (simp add: mem_config_def mem_calib_def Let_def assemble_def calib_assemble_def HEADER_LEN_def)

lemma nor_saves:
  "length c = CONFIG_LEN \<Longrightarrow> length p = PROFILE_LEN \<Longrightarrow> length k = CALIB_LEN \<Longrightarrow> snd (ConfigStore_save nor_flash cs c p k)"
  by (simp add: nor_save_eq)

section \<open>Durability, power cuts, factory state\<close>

lemma blank_parse: "Image_parse rules (slot_bytes (\<lambda>x. 0xFF) s) = None" "CalibImage_parse rules (calib_slot_bytes (\<lambda>x. 0xFF) s) = None"
  by (simp_all add: Image_parse_def CalibImage_parse_def slot_bytes_def calib_slot_bytes_def read_mem_def get_range_def
      persist_lens IMAGE_MAGIC_def CALIB_IMAGE_MAGIC_def)

lemma blank_store_inv: "store_inv rules blank_store"
  by (simp add: store_inv_def blank_store_def blank_parse)

text \<open>Property C21: a save that reports success is durable.  Whatever the flash hardware did, as long as it kept to the
  pages it was told to touch, the next boot overlays exactly the saved config (behind the identity front), profile and
  calib bytes, and resumes the A/B state the save left.\<close>

theorem save_survives_boot:
  assumes "flash_local hal" "store_inv rules cs" "config_ok rules (c, p)" "calib_ok rules k" "length table = TABLE_SIZE"
    "ConfigStore_save hal cs c p k = (cs', True)"
  shows "ConfigStore_boot_load rules cs' table = Some (cs', overlay (overlay (overlay table 16 (drop 16 c)) 640 p) 128 k)"
  using assms by (rule save_boot)

theorem save_survives_boot_witness:
  defines "cs' \<equiv> fst (ConfigStore_save nor_flash blank_store (replicate 128 7) (replicate 64 8) (replicate 256 9))"
  shows "ConfigStore_boot_load [] cs' (replicate 1024 0) = Some (cs',
    overlay (overlay (overlay (replicate 1024 0) 16 (replicate 112 7)) 640 (replicate 64 8)) 128 (replicate 256 9))"
proof -
  have "ConfigStore_save nor_flash blank_store (replicate 128 7) (replicate 64 8) (replicate 256 9) = (cs', True)"
    using nor_saves [of "replicate 128 7" "replicate 64 8" "replicate 256 9" blank_store]
    by (simp add: cs'_def persist_lens prod_eq_iff)
  then show ?thesis
    using save_survives_boot [OF nor_flash_local blank_store_inv [of "[]"], of "replicate 128 7" "replicate 64 8" "replicate 256 9"
        "replicate 1024 0" cs']
    by (simp add: config_ok_def calib_ok_def persist_lens TABLE_SIZE_def Image_fields_allowed_def CalibImage_fields_allowed_def)
qed

text \<open>Property C22: the A/B bookkeeping is an invariant: a save keeps it whether it succeeds, fails its config
  readback or fails its calib readback, and boot establishes it from any flash contents.\<close>

theorem store_inv_kept:
  assumes "flash_local hal" "store_inv rules cs" "config_ok rules (c, p)" "calib_ok rules k"
  shows "store_inv rules (fst (ConfigStore_save hal cs c p k))
    \<and> (\<forall>table cs1 t1. ConfigStore_boot_load rules cs0 table = Some (cs1, t1) \<longrightarrow> store_inv rules cs1)"
proof (intro conjI allI impI)
  fix table cs1 t1 assume "ConfigStore_boot_load rules cs0 table = Some (cs1, t1)"
  then obtain t pick cpick where b: "boot_overlay rules table (slot_bytes (cs_mem cs0) Slot_A) (slot_bytes (cs_mem cs0) Slot_B) = Some (t, pick)"
      "boot_overlay_calib rules t (calib_slot_bytes (cs_mem cs0) Slot_A) (calib_slot_bytes (cs_mem cs0) Slot_B) = Some (t1, cpick)"
    and cs1: "cs1 = cs0\<lparr>cs_next_slot := bp_next_slot pick, cs_next_seq := bp_next_seq pick,
                   cs_calib_next_slot := bp_next_slot cpick, cs_calib_next_seq := bp_next_seq cpick\<rparr>"
    by (auto simp: ConfigStore_boot_load_def bind_eq_Some_conv)
  have "cfg.live_ok rules (slot_bytes (cs_mem cs0)) (bp_next_slot pick) (bp_next_seq pick)"
    using b(1) cfg.live_pick [of rules "slot_bytes (cs_mem cs0)"] cfg.live_none [of rules "slot_bytes (cs_mem cs0)"]
    by (auto simp: boot_overlay_def cfg.pick_def bind_eq_Some_conv split: prod.splits option.splits)
  moreover have "cal.live_ok rules (calib_slot_bytes (cs_mem cs0)) (bp_next_slot cpick) (bp_next_seq cpick)"
    using b(2) cal.live_pick [of rules "calib_slot_bytes (cs_mem cs0)"] cal.live_none [of rules "calib_slot_bytes (cs_mem cs0)"]
    by (auto simp: boot_overlay_calib_def cal.pick_def bind_eq_Some_conv split: prod.splits option.splits)
  ultimately show "store_inv rules cs1" by (simp add: store_inv_live cs1)
qed (rule save_keeps_inv [OF assms])

theorem store_inv_kept_witness:
  "store_inv [] (fst (ConfigStore_save nor_flash blank_store (replicate 128 7) (replicate 64 8) (replicate 256 9)))"
  using store_inv_kept [OF nor_flash_local blank_store_inv [of "[]"], of "replicate 128 7" "replicate 64 8" "replicate 256 9" blank_store]
  by (simp add: config_ok_def calib_ok_def persist_lens Image_fields_allowed_def CalibImage_fields_allowed_def)



text \<open>A wipe that reports success is a factory reset: the next boot overlays nothing, so the board
  defaults stand, and the next save starts over at slot A with sequence number 1.\<close>

lemma wipe_is_factory_state:
  assumes "ConfigStore_wipe hal cs = (cs', True)"
  shows "ConfigStore_boot_load rules cs' table = Some (cs', table) \<and> cs_next_slot cs' = Slot_A \<and> cs_next_seq cs' = 1"
proof -
  have b: "slot_bytes (cs_mem cs') s = replicate IMAGE_LEN 0xFF \<and> calib_slot_bytes (cs_mem cs') s = replicate CALIB_IMAGE_LEN 0xFF" for s
    using assms by (cases s) (auto simp: ConfigStore_wipe_def Let_def list_ex_iff split: if_splits
        intro!: replicate_eqI simp: slot_bytes_def calib_slot_bytes_def read_mem_def)
  have n: "Image_parse rules (replicate IMAGE_LEN 0xFF) = None" "CalibImage_parse rules (replicate CALIB_IMAGE_LEN 0xFF) = None"
    by (simp_all add: Image_parse_def CalibImage_parse_def get_range_def persist_lens IMAGE_MAGIC_def CALIB_IMAGE_MAGIC_def)
  have "cs_next_slot cs' = Slot_A" "cs_next_seq cs' = 1" "cs_calib_next_slot cs' = Slot_A" "cs_calib_next_seq cs' = 1"
    using assms by (auto simp: ConfigStore_wipe_def Let_def split: if_splits)
  then show ?thesis
    using b n by (simp add: ConfigStore_boot_load_def boot_overlay_def boot_overlay_calib_def pick_newest_def)
qed

lemma wipe_is_factory_state_example:
  "ConfigStore_boot_load [] (fst (ConfigStore_wipe nor_flash blank_store)) [] = Some (fst (ConfigStore_wipe nor_flash blank_store), [])"
proof -
  have "snd (ConfigStore_wipe nor_flash blank_store)"
    by (simp add: ConfigStore_wipe_def Let_def nor_flash_def blank_store_def slot_bytes_def calib_slot_bytes_def read_mem_def list_ex_iff)
  then show ?thesis
    using wipe_is_factory_state [of nor_flash blank_store "fst (ConfigStore_wipe nor_flash blank_store)" "[]" "[]"]
    by (simp add: prod_eq_iff)
qed

end
