(* ===== verification/Decode.thy ===== *)
theory Decode
  imports Group Dispatch
begin

text \<open>
  Frame to request mapping (\<open>drivers/src/bus/decode.rs\<close>): addressing, the reply contract and the chain slot.
  The input is a whole, CRC-clean frame, seen through the ring seam as a \<open>FrameBytes\<close>.
\<close>

datatype Decoded =
    Decoded_Status
  | Decoded_Skip
  | Decoded_Own Request bool u8

definition own_read :: "u16 \<Rightarrow> u16 \<Rightarrow> u8 \<Rightarrow> Decoded" where
  "own_read addr count slot = Decoded_Own (Request_Read addr count) True slot"

definition own_read_profile :: "u8 \<Rightarrow> u8 \<Rightarrow> Decoded" where
  "own_read_profile profile slot = Decoded_Own (Request_ReadProfile profile) True slot"

definition own_write :: "u16 \<Rightarrow> FrameBytes \<Rightarrow> bool \<Rightarrow> Decoded" where
  "own_write addr data hold = Decoded_Own (Request_Write addr data hold) False 0"

definition plain_request :: "Opcode \<Rightarrow> u8 \<Rightarrow> bool \<Rightarrow> FrameBytes \<Rightarrow> Request" where
  "plain_request op inst broadcast pay =
     (case op of
        Opcode_Ping \<Rightarrow> Request_Ping
      | Opcode_Read \<Rightarrow>
          (if Inst_profile inst
           then (case ProfileReq_parse pay of Some r \<Rightarrow> Request_ReadProfile (ProfileReq_slot r) | None \<Rightarrow> Request_Unsupported)
           else (case ReadReq_parse pay of Some r \<Rightarrow> Request_Read (ReadReq_addr r) (ReadReq_count r) | None \<Rightarrow> Request_Unsupported))
      | Opcode_Write \<Rightarrow>
          (case WriteReq_parse pay of
             Some w \<Rightarrow> Request_Write (WriteReq_addr w) (WriteReq_data w) (Inst_hold inst) | None \<Rightarrow> Request_Unsupported)
      | Opcode_Commit \<Rightarrow> Request_Commit
      | Opcode_Mgmt \<Rightarrow>
          (case MgmtReq_parse pay of
             Some m \<Rightarrow>
               (case MgmtReq_op m of
                  MgmtOp_Enum \<Rightarrow>
                    (case EnumReq_parse (MgmtReq_args m) of
                       Some e \<Rightarrow> Request_Enumerate (EnumReq_prefix_len e) (EnumReq_prefix e) | None \<Rightarrow> Request_Unsupported)
                | MgmtOp_Assign \<Rightarrow>
                    (case AssignReq_parse (MgmtReq_args m) of
                       Some a \<Rightarrow> Request_Assign (AssignReq_uid a) (AssignReq_new_id a) | None \<Rightarrow> Request_Unsupported)
                | MgmtOp_Cal \<Rightarrow>
                    (case CalReq_parse (MgmtReq_args m) of
                       Some c \<Rightarrow> if broadcast then Request_Calibrate (CalReq_gap_us c) (CalReq_gaps c) else Request_Unsupported
                     | None \<Rightarrow> Request_Unsupported)
                | oper \<Rightarrow> Request_Mgmt oper (MgmtReq_args m))
           | None \<Rightarrow> Request_Unsupported)
      | _ \<Rightarrow> Request_Unsupported)"

definition enum_or_assign :: "Request \<Rightarrow> bool" where
  "enum_or_assign req \<longleftrightarrow> (case req of Request_Enumerate _ _ \<Rightarrow> True | Request_Assign _ _ \<Rightarrow> True | _ \<Rightarrow> False)"

definition plain :: "Opcode \<Rightarrow> u8 \<Rightarrow> u8 \<Rightarrow> FrameBytes \<Rightarrow> u8 \<Rightarrow> Decoded" where
  "plain op inst frame_id pay own =
     (let broadcast = Id_is_broadcast frame_id
      in if \<not> Id_addresses frame_id own then Decoded_Skip
         else let req = plain_request op inst broadcast pay;
                  may_reply = (\<not> Inst_noreply inst \<and> (\<not> broadcast \<or> enum_or_assign req))
              in Decoded_Own req may_reply 0)"

definition gread :: "u8 \<Rightarrow> FrameBytes \<Rightarrow> u8 \<Rightarrow> Decoded" where
  "gread inst pay own =
     (case (Inst_profile inst, Inst_per_target inst) of
        (False, True) \<Rightarrow>
          (case Option.bind (GreadPerTarget_parse pay) (\<lambda>g. GreadPerTarget_find g own) of
             Some (slot, t) \<Rightarrow> own_read (GreadTarget_addr t) (GreadTarget_count t) slot
           | None \<Rightarrow> Decoded_Skip)
      | (False, False) \<Rightarrow>
          (case GreadUniform_parse pay of
             Some g \<Rightarrow> (case GreadUniform_slot_of g own of
                          Some slot \<Rightarrow> own_read (GreadUniform_addr g) (GreadUniform_count g) slot
                        | None \<Rightarrow> Decoded_Skip)
           | None \<Rightarrow> Decoded_Skip)
      | (True, True) \<Rightarrow>
          (case Option.bind (GreadProfilePerTarget_parse pay) (\<lambda>g. GreadProfilePerTarget_find g own) of
             Some (slot, t) \<Rightarrow> own_read_profile (GreadProfileTarget_slot t) slot
           | None \<Rightarrow> Decoded_Skip)
      | (True, False) \<Rightarrow>
          (case GreadProfileUniform_parse pay of
             Some g \<Rightarrow> (case GreadProfileUniform_slot_of g own of
                          Some slot \<Rightarrow> own_read_profile (GreadProfileUniform_slot g) slot
                        | None \<Rightarrow> Decoded_Skip)
           | None \<Rightarrow> Decoded_Skip))"

definition gwrite :: "u8 \<Rightarrow> FrameBytes \<Rightarrow> u8 \<Rightarrow> Decoded" where
  "gwrite inst pay own =
     (let hold = Inst_hold inst
      in if Inst_per_target inst then
           (case Option.bind (GwritePerTarget_parse pay) (\<lambda>g. GwritePerTarget_find g own) of
              Some t \<Rightarrow> own_write (GwriteTarget_addr t) (GwriteTarget_data t) hold
            | None \<Rightarrow> Decoded_Skip)
         else
           (case GwriteUniform_parse pay of
              Some g \<Rightarrow> (case GwriteUniform_find g own of
                           Some data \<Rightarrow> own_write (GwriteUniform_addr g) data hold
                         | None \<Rightarrow> Decoded_Skip)
            | None \<Rightarrow> Decoded_Skip))"

definition decode :: "FrameBytes \<Rightarrow> u8 \<Rightarrow> Decoded" where
  "decode frame i =
     (case (FrameBytes_u8_at frame 0, FrameBytes_u8_at frame 1, FrameBytes_u8_at frame 2, FrameBytes_u8_at frame 3) of
        (Some b0, Some b1, Some b2, Some b3) \<Rightarrow>
          let h = \<lparr>hdr_brk = b0, hdr_id = b1, hdr_len = b2, hdr_inst = b3\<rparr>
          in if Inst_is_status (hdr_inst h) then Decoded_Status
             else (case Inst_opcode (hdr_inst h) of
                     None \<Rightarrow> Decoded_Skip
                   | Some op \<Rightarrow>
                     (case FrameBytes_sub frame 4 (unat (Header_payload_len h)) of
                        None \<Rightarrow> Decoded_Skip
                      | Some pay \<Rightarrow>
                        (case op of
                           Opcode_Gread \<Rightarrow> gread (hdr_inst h) pay i
                         | Opcode_Gwrite \<Rightarrow> gwrite (hdr_inst h) pay i
                         | _ \<Rightarrow> plain op (hdr_inst h) (hdr_id h) pay i)))
      | _ \<Rightarrow> Decoded_Skip)"

section \<open>Slots and addressing\<close>

text \<open>The id list of a group read, in order.\<close>

definition gread_ids :: "u8 \<Rightarrow> FrameBytes \<Rightarrow> u8 list" where
  "gread_ids inst pay =
     (case (Inst_profile inst, Inst_per_target inst) of
        (False, True) \<Rightarrow> map GreadTarget_id (GreadPerTarget_iter pay)
      | (False, False) \<Rightarrow> (case GreadUniform_parse pay of Some g \<Rightarrow> GreadUniform_ids g | None \<Rightarrow> [])
      | (True, True) \<Rightarrow> map GreadProfileTarget_id (GreadProfilePerTarget_iter pay)
      | (True, False) \<Rightarrow> (case GreadProfileUniform_parse pay of Some g \<Rightarrow> GreadProfileUniform_ids g | None \<Rightarrow> []))"

lemma length_collect: "length (collect n next rest) \<le> n"
  by (induction n arbitrary: rest) (auto split: option.split prod.split)

lemma position_map: "position (\<lambda>x. f x = a) xs = position (\<lambda>i. i = a) (map f xs)"
  by (induction xs) auto

lemma sub_len: "FrameBytes_sub f s n = Some g \<Longrightarrow> FrameBytes_len g = n"
proof -
  assume g: "FrameBytes_sub f s n = Some g"
  have "get_range (FrameBytes_bytes f) s (s + n) = Some (FrameBytes_bytes g)"
    using FrameBytes_sub_bytes [of f s n] g by simp
  then have "s + n \<le> length (FrameBytes_bytes f)" "FrameBytes_bytes g = take n (drop s (FrameBytes_bytes f))"
    by (auto simp: get_range_def split: if_splits)
  then show ?thesis by (simp add: FrameBytes_len_bytes)
qed

lemma gread_ids_length: "length (gread_ids inst pay) \<le> FrameBytes_len pay"
  by (auto simp: gread_ids_def GreadPerTarget_iter_def GreadProfilePerTarget_iter_def length_collect GreadUniform_parse_def
      GreadProfileUniform_parse_def GreadUniform_ids_def GreadProfileUniform_ids_def bind_eq_Some_conv checked_sub_def
      simp flip: FrameBytes_len_bytes dest!: sub_len split: bool.split option.split if_splits)

lemma gread_slot:
  assumes "gread inst pay own = Decoded_Own req mr s" "FrameBytes_len pay \<le> 256"
  shows "unat s < length (gread_ids inst pay) \<and> gread_ids inst pay ! unat s = own
    \<and> mr \<and> (\<forall>j < unat s. gread_ids inst pay ! j \<noteq> own)"
proof -
  have l: "length (gread_ids inst pay) \<le> 256" using gread_ids_length assms(2) le_trans by blast
  have "map_option of_nat (position (\<lambda>i. i = own) (gread_ids inst pay)) = Some s \<and> mr"
    using assms(1)
    by (auto simp: gread_def gread_ids_def own_read_def own_read_profile_def GreadPerTarget_find_def GreadProfilePerTarget_find_def
        GreadUniform_slot_of_def GreadProfileUniform_slot_of_def GreadUniform_ids_def GreadProfileUniform_ids_def
        enumerate_find_position GreadPerTarget_parse_def GreadProfilePerTarget_parse_def
        position_map [of GreadTarget_id] position_map [of GreadProfileTarget_id]
        split: bool.splits option.splits prod.splits if_splits)
  then show ?thesis unfolding position_u8 [OF l] by blast
qed

lemma gwrite_silent: "gwrite inst pay own = Decoded_Own req mr s \<Longrightarrow> \<not> mr"
  by (auto simp: gwrite_def own_write_def Let_def split: if_splits option.splits)

lemma plain_own:
  "plain op inst fid pay own = Decoded_Own req mr s \<longleftrightarrow>
     Id_addresses fid own \<and> req = plain_request op inst (Id_is_broadcast fid) pay
     \<and> mr = (\<not> Inst_noreply inst \<and> (\<not> Id_is_broadcast fid \<or> enum_or_assign req)) \<and> s = 0"
  by (auto simp: plain_def Let_def)

lemma decode_cases:
  assumes "decode f own = Decoded_Own req mr s"
  obtains h pay op where "FrameBytes_u8_at f 0 = Some (hdr_brk h)" "FrameBytes_u8_at f 1 = Some (hdr_id h)"
    "FrameBytes_u8_at f 2 = Some (hdr_len h)" "FrameBytes_u8_at f 3 = Some (hdr_inst h)" "Inst_opcode (hdr_inst h) = Some op"
    "FrameBytes_sub f 4 (unat (Header_payload_len h)) = Some pay" "FrameBytes_len pay \<le> 256"
    "(case op of Opcode_Gread \<Rightarrow> gread (hdr_inst h) pay own | Opcode_Gwrite \<Rightarrow> gwrite (hdr_inst h) pay own
      | _ \<Rightarrow> plain op (hdr_inst h) (hdr_id h) pay own) = Decoded_Own req mr s"
proof -
  obtain b0 b1 b2 b3 where b: "FrameBytes_u8_at f 0 = Some b0" "FrameBytes_u8_at f 1 = Some b1"
      "FrameBytes_u8_at f 2 = Some b2" "FrameBytes_u8_at f 3 = Some b3"
    using assms by (auto simp: decode_def split: option.splits)
  define h where "h = \<lparr>hdr_brk = b0, hdr_id = b1, hdr_len = b2, hdr_inst = b3\<rparr>"
  obtain op pay where "Inst_opcode (hdr_inst h) = Some op" and p: "FrameBytes_sub f 4 (unat (Header_payload_len h)) = Some pay"
    and "(case op of Opcode_Gread \<Rightarrow> gread (hdr_inst h) pay own | Opcode_Gwrite \<Rightarrow> gwrite (hdr_inst h) pay own
      | _ \<Rightarrow> plain op (hdr_inst h) (hdr_id h) pay own) = Decoded_Own req mr s"
    using assms unfolding decode_def b prod.case option.case Let_def h_def [symmetric] by (auto split: option.splits if_splits)
  moreover have "FrameBytes_len pay \<le> 256"
    unfolding sub_len [OF p] by (rule less_imp_le, rule order.strict_trans2 [OF unsigned_less]) simp
  ultimately show thesis using that [of h op pay] b by (simp add: h_def)
qed

text \<open>Property C24: no two servos with different IDs answer the same frame in the same reply slot.  When both may
  reply, either the frame is a group read and their chain slots differ, or it is the ENUM or ASSIGN
  request whose replier the UID elects.\<close>

theorem decode_no_collision:
  assumes "own1 \<noteq> own2" "decode f own1 = Decoded_Own req1 True s1" "decode f own2 = Decoded_Own req2 True s2"
  shows "s1 \<noteq> s2 \<or> enum_or_assign req1 \<and> req1 = req2"
proof -
  obtain h pay op where 1: "FrameBytes_u8_at f 0 = Some (hdr_brk h)" "FrameBytes_u8_at f 1 = Some (hdr_id h)"
    "FrameBytes_u8_at f 2 = Some (hdr_len h)" "FrameBytes_u8_at f 3 = Some (hdr_inst h)" "Inst_opcode (hdr_inst h) = Some op"
    "FrameBytes_sub f 4 (unat (Header_payload_len h)) = Some pay" "FrameBytes_len pay \<le> 256"
    "(case op of Opcode_Gread \<Rightarrow> gread (hdr_inst h) pay own1 | Opcode_Gwrite \<Rightarrow> gwrite (hdr_inst h) pay own1
      | _ \<Rightarrow> plain op (hdr_inst h) (hdr_id h) pay own1) = Decoded_Own req1 True s1"
    using decode_cases [OF assms(2)] by metis
  obtain h' pay' op' where 2: "FrameBytes_u8_at f 0 = Some (hdr_brk h')" "FrameBytes_u8_at f 1 = Some (hdr_id h')"
    "FrameBytes_u8_at f 2 = Some (hdr_len h')" "FrameBytes_u8_at f 3 = Some (hdr_inst h')" "Inst_opcode (hdr_inst h') = Some op'"
    "FrameBytes_sub f 4 (unat (Header_payload_len h')) = Some pay'" "FrameBytes_len pay' \<le> 256"
    "(case op' of Opcode_Gread \<Rightarrow> gread (hdr_inst h') pay' own2 | Opcode_Gwrite \<Rightarrow> gwrite (hdr_inst h') pay' own2
      | _ \<Rightarrow> plain op' (hdr_inst h') (hdr_id h') pay' own2) = Decoded_Own req2 True s2"
    using decode_cases [OF assms(3)] by metis
  have "h' = h" using 1(1-4) 2(1-4) by simp
  with 1 2 have e: "op' = op" "pay' = pay" by simp_all
  note r = 1(8) 2(8) [unfolded \<open>h' = h\<close> e]
  have pl: ?thesis if "plain op (hdr_inst h) (hdr_id h) pay own1 = Decoded_Own req1 True s1"
      "plain op (hdr_inst h) (hdr_id h) pay own2 = Decoded_Own req2 True s2"
    using that assms(1) by (auto simp: plain_own Id_addresses_def)
  show ?thesis
  proof (cases op)
    case Opcode_Gread
    then have "gread_ids (hdr_inst h) pay ! unat s1 = own1" "gread_ids (hdr_inst h) pay ! unat s2 = own2"
      using gread_slot [OF _ 1(7)] r by auto
    with assms(1) show ?thesis by auto
  next
    case Opcode_Gwrite
    then have "gwrite (hdr_inst h) pay own1 = Decoded_Own req1 True s1" using r(1) by simp
    from gwrite_silent [OF this] show ?thesis by simp
  qed (use pl r in auto)
qed

theorem decode_no_collision_witness:
  "\<exists>req1 req2 s1 s2. decode (FrameBytes_new [0, 0xFE, 9, 0x50, 0, 2, 4, 0] [1, 2, 0, 0]) 1 = Decoded_Own req1 True s1
     \<and> decode (FrameBytes_new [0, 0xFE, 9, 0x50, 0, 2, 4, 0] [1, 2, 0, 0]) 2 = Decoded_Own req2 True s2
     \<and> (s1 \<noteq> s2 \<or> enum_or_assign req1 \<and> req1 = req2)"
proof -
  have d: "decode (FrameBytes_new [0, 0xFE, 9, 0x50, 0, 2, 4, 0] [1, 2, 0, 0]) 1 = Decoded_Own (Request_Read 0x200 4) True 0"
    "decode (FrameBytes_new [0, 0xFE, 9, 0x50, 0, 2, 4, 0] [1, 2, 0, 0]) 2 = Decoded_Own (Request_Read 0x200 4) True 1"
    by code_simp+
  then show ?thesis using decode_no_collision [OF _ d] by (intro exI conjI) auto
qed

lemma plain_request_ok: "plain_request op inst b pay = Request_Enumerate n p \<Longrightarrow> unat n \<le> 128 \<and> length p = 16"
proof -
  assume "plain_request op inst b pay = Request_Enumerate n p"
  then show ?thesis
    by (auto simp: plain_request_def EnumReq_parse_eq split: Opcode.splits MgmtOp.splits option.splits if_splits)
qed

lemma gread_request: "gread inst pay own = Decoded_Own req mr s \<Longrightarrow> (\<exists>a c. req = Request_Read a c) \<or> (\<exists>p. req = Request_ReadProfile p)"
  by (auto simp: gread_def own_read_def own_read_profile_def split: bool.splits option.splits)

lemma gwrite_request: "gwrite inst pay own = Decoded_Own req mr s \<Longrightarrow> \<exists>a d hold. req = Request_Write a d hold"
  by (auto simp: gwrite_def own_write_def Let_def split: if_splits option.splits)

text \<open>What the dispatcher asks of an ENUM request always holds of a decoded one.\<close>

lemma decode_request_ok:
  assumes "decode f own = Decoded_Own (Request_Enumerate n p) mr s"
  shows "unat n \<le> 128 \<and> length p = 16"
  using assms
proof (cases rule: decode_cases)
  case (1 h pay op)
  from 1(8) have "op \<noteq> Opcode_Gread \<and> op \<noteq> Opcode_Gwrite" using gread_request gwrite_request by fastforce
  with 1(8) have "plain op (hdr_inst h) (hdr_id h) pay own = Decoded_Own (Request_Enumerate n p) mr s"
    by (cases op) simp_all
  then have "plain_request op (hdr_inst h) (Id_is_broadcast (hdr_id h)) pay = Request_Enumerate n p"
    by (simp add: plain_own)
  then show ?thesis by (rule plain_request_ok)
qed

end
