(* ===== verification/Chain.thy ===== *)
theory Chain
  imports Prelude
begin

text \<open>
  Reply sequencing (\<open>drivers/src/bus/chain.rs\<close>): when a staged reply may start.  The composite owns the
  deadline and drives this machine with ticks; the ticks wrap at 32 bits.
\<close>

datatype ChainOut =
    ChainOut_None
  | ChainOut_Wait u32
  | ChainOut_Trigger bool

datatype ChainState =
    Chain_Idle
  | Chain_Pending bool
  | Chain_Waiting u8 bool

record Chain =
  ch_state :: ChainState
  ch_reply_gap :: u32
  ch_reclaim :: u32
  ch_allowance :: u32

definition Chain_new :: Chain where
  "Chain_new = \<lparr>ch_state = Chain_Idle, ch_reply_gap = 0, ch_reclaim = 0, ch_allowance = 0\<rparr>"

definition Chain_active :: "Chain \<Rightarrow> bool" where
  "Chain_active c \<longleftrightarrow> ch_state c \<noteq> Chain_Idle"

definition Chain_waiting_for :: "Chain \<Rightarrow> bool" where
  "Chain_waiting_for c \<longleftrightarrow> (case ch_state c of Chain_Waiting _ _ \<Rightarrow> True | _ \<Rightarrow> False)"

definition Chain_reset :: "Chain \<Rightarrow> Chain" where
  "Chain_reset c = c\<lparr>ch_state := Chain_Idle\<rparr>"

definition Chain_on_reply_staged :: "Chain \<Rightarrow> u8 \<Rightarrow> u32 \<Rightarrow> u32 \<Rightarrow> u32 \<Rightarrow> u32 \<Rightarrow> Chain \<times> ChainOut" where
  "Chain_on_reply_staged c slot end_at reply_gap reclaim allowance =
     (let c = c\<lparr>ch_reply_gap := reply_gap, ch_reclaim := reclaim, ch_allowance := allowance\<rparr>
      in if slot = 0
         then (c\<lparr>ch_state := Chain_Pending False\<rparr>, ChainOut_Wait (end_at + reply_gap))
         else (c\<lparr>ch_state := Chain_Waiting slot False\<rparr>, ChainOut_Wait (end_at + reply_gap + reclaim)))"

definition Chain_on_break_observed :: "Chain \<Rightarrow> u32 \<Rightarrow> Chain \<times> ChainOut" where
  "Chain_on_break_observed c now =
     (case ch_state c of
        Chain_Waiting _ _ \<Rightarrow> (c, ChainOut_Wait (now + ch_allowance c))
      | _ \<Rightarrow> (c, ChainOut_None))"

definition saturating_dec :: "u8 \<Rightarrow> u8" where
  "saturating_dec r = (if r = 0 then 0 else r - 1)"

definition Chain_on_status_end :: "Chain \<Rightarrow> u32 \<Rightarrow> Chain \<times> ChainOut" where
  "Chain_on_status_end c end_at =
     (case ch_state c of
        Chain_Waiting remaining silent \<Rightarrow>
          (let remaining = saturating_dec remaining
           in if remaining = 0
              then (c\<lparr>ch_state := Chain_Pending silent\<rparr>, ChainOut_Wait (end_at + ch_reply_gap c))
              else (c\<lparr>ch_state := Chain_Waiting remaining silent\<rparr>,
                    ChainOut_Wait (end_at + ch_reply_gap c + ch_reclaim c)))
      | _ \<Rightarrow> (c, ChainOut_None))"

definition Chain_on_deadline :: "Chain \<Rightarrow> u32 \<Rightarrow> Chain \<times> ChainOut" where
  "Chain_on_deadline c now =
     (case ch_state c of
        Chain_Pending silent \<Rightarrow> (c\<lparr>ch_state := Chain_Idle\<rparr>, ChainOut_Trigger silent)
      | Chain_Waiting remaining _ \<Rightarrow>
          (let remaining = saturating_dec remaining
           in if remaining = 0
              then (c\<lparr>ch_state := Chain_Idle\<rparr>, ChainOut_Trigger True)
              else (c\<lparr>ch_state := Chain_Waiting remaining True\<rparr>, ChainOut_Wait (now + ch_reclaim c)))
      | Chain_Idle \<Rightarrow> (c, ChainOut_None))"

section \<open>Event sequences\<close>

text \<open>What the wire and the deadline can deliver while a reply is staged.\<close>

datatype ChainEv = Ev_Break u32 | Ev_Status u32 | Ev_Deadline u32

fun chain_step :: "Chain \<Rightarrow> ChainEv \<Rightarrow> Chain \<times> ChainOut" where
  "chain_step c (Ev_Break t) = Chain_on_break_observed c t"
| "chain_step c (Ev_Status t) = Chain_on_status_end c t"
| "chain_step c (Ev_Deadline t) = Chain_on_deadline c t"

text \<open>The \<open>predecessor_silent\<close> flags of the triggers a sequence of events produces, in order.\<close>

fun triggers :: "Chain \<Rightarrow> ChainEv list \<Rightarrow> bool list" where
  "triggers c [] = []"
| "triggers c (e # es) =
     (case chain_step c e of
        (c', ChainOut_Trigger silent) \<Rightarrow> silent # triggers c' es
      | (c', _) \<Rightarrow> triggers c' es)"

fun is_break :: "ChainEv \<Rightarrow> bool" where
  "is_break (Ev_Break _) = True" | "is_break _ = False"

fun is_deadline :: "ChainEv \<Rightarrow> bool" where
  "is_deadline (Ev_Deadline _) = True" | "is_deadline _ = False"

lemmas chain_defs = Chain_on_break_observed_def Chain_on_status_end_def Chain_on_deadline_def

lemma triggers_idle: "ch_state c = Chain_Idle \<Longrightarrow> triggers c es = []"
proof (induction es)
  case (Cons e es)
  then show ?case by (cases e) (simp_all add: chain_defs)
qed simp

lemma triggers_pending:
  "ch_state c = Chain_Pending s \<Longrightarrow> triggers c es = (if list_ex is_deadline es then [s] else [])"
proof (induction es)
  case (Cons e es)
  then show ?case by (cases e) (simp_all add: chain_defs triggers_idle)
qed simp

lemma deadline_filter: "list_ex is_deadline (filter (\<lambda>e. \<not> is_break e) es) = list_ex is_deadline es"
proof (induction es)
  case (Cons e es)
  then show ?case by (cases e) simp_all
qed simp

text \<open>What a sequence of non-break events makes of a slot with \<open>n\<close> predecessors to wait for.\<close>

definition chain_spec :: "nat \<Rightarrow> bool \<Rightarrow> ChainEv list \<Rightarrow> bool list" where
  "chain_spec n silent ps =
     (if n \<le> length ps \<and> (0 < n \<and> is_deadline (ps ! (n - 1)) \<or> list_ex is_deadline (drop n ps))
      then [silent \<or> list_ex is_deadline (take n ps)] else [])"

lemma chain_spec_0: "chain_spec 0 s ps = (if list_ex is_deadline ps then [s] else [])"
  by (simp add: chain_spec_def)

lemma chain_spec_Suc_Cons:
  "chain_spec (Suc n) s (p # ps) =
     (if n = 0 \<and> is_deadline p then [True] else chain_spec n (s \<or> is_deadline p) ps)"
  by (cases n) (auto simp: chain_spec_def)

lemma unat_dec: "r \<noteq> 0 \<Longrightarrow> unat r = Suc n \<Longrightarrow> unat (saturating_dec r) = n"
  using unat_minus_one [of r] by (simp add: saturating_dec_def)

lemma triggers_waiting:
  "ch_state c = Chain_Waiting r s \<Longrightarrow> r \<noteq> 0 \<Longrightarrow>
   triggers c es = chain_spec (unat r) s (filter (\<lambda>e. \<not> is_break e) es)"
proof (induction es arbitrary: c r s)
  case Nil
  then show ?case by (auto simp: chain_spec_def unat_eq_0)
next
  case (Cons e es)
  obtain n where n: "unat r = Suc n" using Cons.prems(2) by (metis not0_implies_Suc unat_eq_0)
  note d = unat_dec [OF Cons.prems(2) n]
  have z: "saturating_dec r = 0 \<longleftrightarrow> n = 0" using d by (metis unat_eq_0)
  show ?case
  proof (cases e)
    case (Ev_Break t)
    then show ?thesis using Cons by (simp add: chain_defs)
  next
    case (Ev_Status t)
    show ?thesis
    proof (cases "n = 0")
      case True
      then show ?thesis using Cons.prems Ev_Status n z
        by (simp add: chain_defs triggers_pending chain_spec_Suc_Cons chain_spec_0 deadline_filter)
    next
      case False
      then show ?thesis using Cons.prems Cons.IH [of _ "saturating_dec r" s] Ev_Status n z d by (simp add: chain_defs chain_spec_Suc_Cons)
    qed
  next
    case (Ev_Deadline t)
    show ?thesis
    proof (cases "n = 0")
      case True
      then show ?thesis using Cons.prems Ev_Deadline n z by (simp add: chain_defs triggers_idle chain_spec_Suc_Cons)
    next
      case False
      then show ?thesis using Cons.prems Cons.IH [of _ "saturating_dec r" True] Ev_Deadline n z d by (simp add: chain_defs chain_spec_Suc_Cons)
    qed
  qed
qed

lemma staged_triggers:
  "triggers (fst (Chain_on_reply_staged c slot end_at gap reclaim allowance)) es
   = chain_spec (unat slot) False (filter (\<lambda>e. \<not> is_break e) es)"
proof (cases "slot = 0")
  case True
  then show ?thesis by (simp add: Chain_on_reply_staged_def Let_def triggers_pending chain_spec_0 deadline_filter)
next
  case False
  then show ?thesis by (simp add: Chain_on_reply_staged_def Let_def triggers_waiting)
qed

text \<open>Property C25: a staged reply starts at most once, and exactly when its turn has come: after one status frame or
  one expired reclaim window per predecessor, on the deadline that follows (or on the last
  window's own expiry).  Breaks only move deadlines.  The error flag it starts with says whether
  some predecessor's window expired.\<close>

theorem chain_triggers:
  "triggers (fst (Chain_on_reply_staged c slot end_at gap reclaim allowance)) es =
     (let ps = filter (\<lambda>e. \<not> is_break e) es; n = unat slot
      in if n \<le> length ps \<and> (0 < n \<and> is_deadline (ps ! (n - 1)) \<or> list_ex is_deadline (drop n ps))
         then [list_ex is_deadline (take n ps)] else [])"
  by (simp add: staged_triggers chain_spec_def Let_def)

lemma deadlines_filter:
  "filter is_deadline (filter (\<lambda>e. \<not> is_break e) es) = filter is_deadline es"
proof (induction es)
  case (Cons e es)
  then show ?case by (cases e) simp_all
qed simp

lemma chain_spec_live:
  assumes "n < length (filter is_deadline ps)"
  shows "chain_spec n s ps \<noteq> []"
proof -
  have "length (filter is_deadline (take n ps)) \<le> n"
    using length_filter_le [of is_deadline "take n ps"] by simp
  moreover have "filter is_deadline ps = filter is_deadline (take n ps) @ filter is_deadline (drop n ps)"
    by (metis append_take_drop_id filter_append)
  ultimately have "filter is_deadline (drop n ps) \<noteq> []" using assms by auto
  then have "list_ex is_deadline (drop n ps)" by (auto simp: list_ex_iff filter_empty_conv)
  moreover have "n \<le> length ps" using assms length_filter_le [of is_deadline ps] by linarith
  ultimately show ?thesis by (simp add: chain_spec_def)
qed



end
