(* ===== verification/Framer.thy ===== *)
theory Framer
  imports Frames
begin

text \<open>
  The stream-continuity receive resolver (\<open>drivers/src/bus/framer.rs\<close>) and the ring helpers of
  \<open>drivers/src/bus/mod.rs\<close>.  The ring is a byte list whose length is a power of two; \<open>None\<close> is the panic of an
  index outside it.  Ticks are 32-bit and wrap.
\<close>

definition ring_wrap :: "nat \<Rightarrow> nat \<Rightarrow> nat" where
  "ring_wrap i len = i AND (len - 1)"

definition tick_reached :: "u32 \<Rightarrow> u32 \<Rightarrow> bool" where
  "tick_reached a b \<longleftrightarrow> a - b < 0xFFFFFFFF div 2"

definition FRAME_MAX :: nat where
  "FRAME_MAX = footprint 0xFF"

definition REPLY_GAP_US :: u32 where "REPLY_GAP_US = 12"

definition SPIN_PER_BYTE :: u32 where "SPIN_PER_BYTE = 64"

text \<open>The slice bounds are checked as Rust checks them.\<close>

definition frame_view :: "bytes \<Rightarrow> u16 \<Rightarrow> u16 \<Rightarrow> FrameBytes option" where
  "frame_view ring anchor fp =
     (let a = unat anchor; n = unat fp; len = length ring
      in if a + n \<le> len
         then do { s \<leftarrow> get_range ring a (a + n); Some (FrameBytes_new s []) }
         else do { h \<leftarrow> get_range ring a len;
                   t \<leftarrow> (if len - a \<le> n then get_range ring 0 (n - (len - a)) else None);
                   Some (FrameBytes_new h t) })"

record FrameSpan =
  fs_anchor :: u16
  fs_footprint :: u16
  fs_packet_end :: u32

datatype FramerOut =
    FramerOut_None
  | FramerOut_Wait u32
  | FramerOut_Covered FrameSpan u32
  | FramerOut_Frame FrameSpan

definition HEADER_SPAN_BYTES :: u16 where "HEADER_SPAN_BYTES = 4"
definition BREAK_RING_BYTE :: u8 where "BREAK_RING_BYTE = 0"
definition BREAK_TAIL_EPS_DIV :: u32 where "BREAK_TAIL_EPS_DIV = 2"
definition DRIFT_SHIFT :: nat where "DRIFT_SHIFT = 6"
definition COVERED_TAIL_BYTES :: u32 where "COVERED_TAIL_BYTES = 2"
definition STARVE_GIVEUP_BYTES :: u32 where "STARVE_GIVEUP_BYTES = STARVE_HORIZON_BYTE_TIMES"
definition HUNT_BYTES_PER_WAKE :: nat where "HUNT_BYTES_PER_WAKE = 64"

definition wire_lead :: "u32 \<Rightarrow> u32 \<Rightarrow> u32" where
  "wire_lead bytes tpb = (let t = bytes * tpb in t + drop_bit DRIFT_SHIFT t)"

record Frontier =
  fr_covered :: bool
  fr_observed :: bool
  fr_seen :: u16
  fr_progress_tick :: u32

definition Frontier_idle :: Frontier where
  "Frontier_idle = \<lparr>fr_covered = False, fr_observed = False, fr_seen = 0, fr_progress_tick = 0\<rparr>"

definition Frontier_advance :: "Frontier \<Rightarrow> u16 \<Rightarrow> u32 \<Rightarrow> Frontier" where
  "Frontier_advance f cursor now =
     (if \<not> fr_observed f then f\<lparr>fr_observed := True, fr_seen := cursor, fr_progress_tick := now\<rparr>
      else if cursor = fr_seen f then f
      else f\<lparr>fr_seen := cursor, fr_progress_tick := now\<rparr>)"

record Framer =
  fm_anchor :: u16
  fm_hunting :: bool
  fm_frontier :: Frontier
  fm_fault_seen :: u16
  fm_drops :: u32

definition Framer_new :: Framer where
  "Framer_new = \<lparr>fm_anchor = 0, fm_hunting = False, fm_frontier = Frontier_idle, fm_fault_seen = 0, fm_drops = 0\<rparr>"

definition Framer_resync :: "Framer \<Rightarrow> u16 \<Rightarrow> Framer" where
  "Framer_resync f cursor = f\<lparr>fm_anchor := cursor, fm_frontier := Frontier_idle, fm_fault_seen := cursor\<rparr>"

definition Framer_on_wire_fault :: "Framer \<Rightarrow> u16 \<Rightarrow> Framer \<times> bool" where
  "Framer_on_wire_fault f cursor =
     (if cursor = fm_fault_seen f then (f, False) else (f\<lparr>fm_fault_seen := cursor\<rparr>, True))"

definition Framer_on_frame_rejected :: "Framer \<Rightarrow> u16 \<Rightarrow> nat \<Rightarrow> Framer" where
  "Framer_on_frame_rejected f anchor ring_len =
     f\<lparr>fm_hunting := True, fm_anchor := of_nat (ring_wrap (unat anchor + 1) ring_len), fm_frontier := Frontier_idle\<rparr>"

definition Framer_on_frame_verified :: "Framer \<Rightarrow> Framer" where
  "Framer_on_frame_verified f = f\<lparr>fm_hunting := False\<rparr>"

definition Framer_caught_up :: "Framer \<Rightarrow> u16 \<Rightarrow> bool" where
  "Framer_caught_up f cursor \<longleftrightarrow> fm_anchor f = cursor"

definition Framer_probing :: "Framer \<Rightarrow> bool" where
  "Framer_probing f = fm_hunting f"

definition ring_dist :: "u16 \<Rightarrow> u16 \<Rightarrow> nat \<Rightarrow> u16" where
  "ring_dist cursor anchor len = of_nat (ring_wrap ((unat cursor + len) - unat anchor) len)"

definition Framer_give_up :: "Framer \<Rightarrow> nat \<Rightarrow> u32 \<Rightarrow> Framer \<times> FramerOut" where
  "Framer_give_up f len now =
     (let f = (if \<not> fm_hunting f then f\<lparr>fm_drops := fm_drops f + 1, fm_hunting := True\<rparr> else f)
      in (f\<lparr>fm_anchor := of_nat (ring_wrap (unat (fm_anchor f) + 1) len), fm_frontier := Frontier_idle\<rparr>, FramerOut_Wait now))"

definition Framer_wait :: "Framer \<Rightarrow> u32 \<Rightarrow> u32 \<Rightarrow> u32 \<Rightarrow> u16 \<Rightarrow> nat \<Rightarrow> Framer \<times> FramerOut" where
  "Framer_wait f aim now tpb cursor len =
     (let giveup_span = STARVE_GIVEUP_BYTES * tpb;
          stalled = (fr_observed (fm_frontier f) \<and> cursor = fr_seen (fm_frontier f));
          f = f\<lparr>fm_frontier := Frontier_advance (fm_frontier f) cursor now\<rparr>
      in if stalled \<and> tick_reached now (fr_progress_tick (fm_frontier f) + giveup_span)
         then Framer_give_up f len now
         else let horizon = fr_progress_tick (fm_frontier f) + giveup_span;
                  sooner = (if aim - now \<le> horizon - now then aim else horizon)
              in (f, FramerOut_Wait sooner))"

text \<open>The scan for the next plausible candidate: \<open>Inl\<close> is an early return of \<open>resolve\<close>, \<open>Inr\<close> the bytes
  received from the anchor it stopped at.  The first argument is the budget left.\<close>

fun hunt :: "nat \<Rightarrow> bytes \<Rightarrow> u32 \<Rightarrow> Framer \<Rightarrow> u16 \<Rightarrow> (Framer \<times> (FramerOut + u16)) option" where
  "hunt 0 ring now f received = Some (f, Inl (FramerOut_Wait now))"
| "hunt (Suc budget) ring now f received =
     (let len = length ring; a = unat (fm_anchor f)
      in do { b \<leftarrow> nth_opt ring a;
              plausible \<leftarrow> (if b \<noteq> BREAK_RING_BYTE then Some False
                            else if received < HEADER_SPAN_BYTES then Some True
                            else do { l \<leftarrow> nth_opt ring (ring_wrap (a + 2) len); Some (l \<ge> 3) });
              if plausible then Some (f, Inr received)
              else let f = f\<lparr>fm_hunting := True, fm_anchor := of_nat (ring_wrap (a + 1) len), fm_frontier := Frontier_idle\<rparr>;
                       received = received - 1
                   in if received = 0 then Some (f, Inl FramerOut_None)
                      else if budget = 0 then Some (f, Inl (FramerOut_Wait now))
                      else hunt budget ring now f received })"

definition ring_header :: "bytes \<Rightarrow> u16 \<Rightarrow> Header option" where
  "ring_header ring anchor =
     do { bs \<leftarrow> those (map (\<lambda>i. nth_opt ring (ring_wrap (unat anchor + i) (length ring))) [0..<4]);
          Header_from_bytes bs }"

text \<open>The part of \<open>resolve\<close> behind the scan: \<open>received\<close> bytes lie from the candidate's anchor on.\<close>

definition Framer_candidate :: "Framer \<Rightarrow> bytes \<Rightarrow> u16 \<Rightarrow> u16 \<Rightarrow> u32 \<Rightarrow> u32 \<Rightarrow> (Framer \<times> FramerOut) option" where
  "Framer_candidate f ring received cursor now tpb =
     (let len = length ring
      in if received < HEADER_SPAN_BYTES then
           let aim = now + wire_lead (ucast (HEADER_SPAN_BYTES - received)) tpb + tpb div BREAK_TAIL_EPS_DIV
           in Some (Framer_wait f aim now tpb cursor len)
         else do {
           h \<leftarrow> ring_header ring (fm_anchor f);
           let fp = of_nat (Header_frame_end h) :: u16
           in if received \<ge> fp then
                let anchor = fm_anchor f
                in Some (f\<lparr>fm_anchor := of_nat (ring_wrap (unat anchor + unat fp) len), fm_frontier := Frontier_idle\<rparr>,
                         FramerOut_Frame \<lparr>fs_anchor = anchor, fs_footprint = fp, fs_packet_end = now\<rparr>)
              else
                let missing = ucast (fp - received) :: u32
                in if \<not> fr_covered (fm_frontier f) \<and> missing \<le> COVERED_TAIL_BYTES then
                     let fr = (Frontier_advance (fm_frontier f) cursor now)\<lparr>fr_covered := True\<rparr>;
                         packet_end = now + wire_lead missing tpb
                     in Some (f\<lparr>fm_frontier := fr\<rparr>,
                              FramerOut_Covered \<lparr>fs_anchor = fm_anchor f, fs_footprint = fp, fs_packet_end = packet_end\<rparr> packet_end)
                   else
                     let to_target = (if fr_covered (fm_frontier f) then missing else missing - COVERED_TAIL_BYTES);
                         aim = now + wire_lead to_target tpb
                     in Some (Framer_wait f aim now tpb cursor len) })"

definition Framer_resolve :: "Framer \<Rightarrow> bytes \<Rightarrow> u16 \<Rightarrow> u32 \<Rightarrow> u32 \<Rightarrow> (Framer \<times> FramerOut) option" where
  "Framer_resolve f ring cursor now tpb =
     (let len = length ring
      in if len = 0 then Some (f, FramerOut_None)
         else let received = ring_dist cursor (fm_anchor f) len
         in if received = 0 then Some (f\<lparr>fm_frontier := Frontier_idle\<rparr>, FramerOut_None)
         else do {
           (f, r) \<leftarrow> hunt HUNT_BYTES_PER_WAKE ring now f received;
           case r of
             Inl out \<Rightarrow> Some (f, out)
           | Inr received \<Rightarrow> Framer_candidate f ring received cursor now tpb })"

section \<open>Ring arithmetic\<close>

definition ring_ok :: "bytes \<Rightarrow> bool" where
  "ring_ok ring \<longleftrightarrow> (\<exists>k\<le>15. length ring = 2 ^ k)"

lemma ring_okE:
  assumes "ring_ok ring"
  obtains k where "k \<le> 15" "length ring = 2 ^ k" "0 < length ring" "length ring \<le> 32768"
proof -
  obtain k where k: "k \<le> 15" "length ring = 2 ^ k" using assms by (auto simp: ring_ok_def)
  moreover have "(2::nat) ^ k \<le> 2 ^ 15" using k(1) by (intro power_increasing) auto
  ultimately show thesis using that by auto
qed

lemma ring_wrap_mod: "ring_ok ring \<Longrightarrow> ring_wrap i (length ring) = i mod length ring"
proof -
  assume "ring_ok ring"
  then obtain k where "length ring = 2 ^ k" by (auto simp: ring_ok_def)
  then show ?thesis
    using take_bit_eq_mask [of k i] take_bit_eq_mod [of k i] mask_eq_exp_minus_1 [of k, where ?'a = nat]
    by (simp add: ring_wrap_def)
qed

lemma unat_ucast_16_32: "unat (ucast (x :: u16) :: u32) = unat x"
proof -
  have "unat x < 2 ^ 16" by (rule order.strict_trans2 [OF unsigned_less]) simp
  then have "unat x < 2 ^ 32" by simp
  then show ?thesis by (simp add: unsigned_ucast_eq take_bit_nat_eq_self_iff)
qed

lemma unat_of_nat_small: "n < 65536 \<Longrightarrow> unat (of_nat n :: u16) = n"
  by (simp add: unat_of_nat)

lemma dist_mod_cases: "a < L \<Longrightarrow> c < L \<Longrightarrow> (c + L - a) mod L = (if a \<le> c then c - a else c + L - a)" for a c L :: nat
proof -
  assume h: "a < L" "c < L"
  show ?thesis
  proof (cases "a \<le> c")
    case True
    then have e: "c + L - a = (c - a) + L" using h by simp
    have "c - a < L" using h by simp
    then have "(c + L - a) mod L = c - a" unfolding e by (simp only: mod_add_self2 mod_less)
    with True show ?thesis by (simp only: if_True)
  qed (use h in simp)
qed

lemma add_mod_cases: "a < L \<Longrightarrow> k < L \<Longrightarrow> (a + k) mod L = (if a + k < L then a + k else a + k - L)" for a k L :: nat
  by (simp add: mod_if)

lemma dist_advance:
  fixes a c k L :: nat
  assumes "a < L" "c < L" "k \<le> (c + L - a) mod L"
  shows "(c + L - (a + k) mod L) mod L = (c + L - a) mod L - k"
proof -
  have "0 < L" using assms by simp
  then have d: "(c + L - a) mod L < L" by simp
  then have k: "k < L" using assms(3) by linarith
  have m: "(a + k) mod L < L" using \<open>0 < L\<close> by simp
  show ?thesis
    using assms k d m dist_mod_cases [OF assms(1,2)] dist_mod_cases [OF m assms(2)] add_mod_cases [OF assms(1) k]
    by (auto split: if_splits)
qed

lemma ring_dist_mod:
  assumes "ring_ok ring" "unat a < length ring" "unat c < length ring"
  shows "unat (ring_dist c a (length ring)) = (unat c + length ring - unat a) mod length ring"
proof -
  have l: "length ring \<le> 32768" "0 < length ring" using ring_okE [OF assms(1)] by metis+
  have "(unat c + length ring - unat a) mod length ring < length ring" using l(2) by (rule mod_less_divisor)
  then have "(unat c + length ring - unat a) mod length ring < 65536" using l(1) by linarith
  then show ?thesis by (simp add: ring_dist_def ring_wrap_mod [OF assms(1)] unat_of_nat_small)
qed

section \<open>The hunt\<close>

text \<open>The bytes from an anchor on, seen through the wrap.\<close>

definition ringed :: "bytes \<Rightarrow> nat \<Rightarrow> nat \<Rightarrow> bytes" where
  "ringed ring a n = map (\<lambda>i. ring ! ((a + i) mod length ring)) [0..<n]"

text \<open>A plausible frame start: a break byte and, once readable, a LEN that covers INST and CRC.\<close>

definition plausible_at :: "bytes \<Rightarrow> nat \<Rightarrow> nat \<Rightarrow> bool" where
  "plausible_at ring a n \<longleftrightarrow> ring ! a = 0 \<and> (n < 4 \<or> 3 \<le> ring ! ((a + 2) mod length ring))"

definition skipped :: "bytes \<Rightarrow> Framer \<Rightarrow> nat \<Rightarrow> Framer" where
  "skipped ring f j = (if j = 0 then f
     else f\<lparr>fm_hunting := True, fm_anchor := of_nat ((unat (fm_anchor f) + j) mod length ring), fm_frontier := Frontier_idle\<rparr>)"

lemma skipped_skipped:
  assumes "0 < length ring" "length ring \<le> 32768"
  shows "skipped ring (skipped ring f 1) j = skipped ring f (Suc j)"
proof -
  have "(unat (fm_anchor f) + 1) mod length ring < 65536"
    using mod_less_divisor [OF assms(1), of "unat (fm_anchor f) + 1"] assms(2) by linarith
  then show ?thesis by (auto simp: skipped_def unat_of_nat_small mod_simps)
qed

lemma skipped_anchor:
  assumes "0 < length ring" "length ring \<le> 32768" "unat (fm_anchor f) < length ring"
  shows "unat (fm_anchor (skipped ring f j)) = (unat (fm_anchor f) + j) mod length ring"
proof -
  have "(unat (fm_anchor f) + j) mod length ring < 65536"
    using mod_less_divisor [OF assms(1), of "unat (fm_anchor f) + j"] assms(2) by linarith
  then show ?thesis using assms(3) by (simp add: skipped_def unat_of_nat_small)
qed

lemma hunt_step:
  assumes "ring_ok ring" "unat (fm_anchor f) < length ring" "0 < unat received"
  shows "hunt (Suc b) ring now f received =
    (if plausible_at ring (unat (fm_anchor f)) (unat received) then Some (f, Inr received)
     else if unat received = 1 then Some (skipped ring f 1, Inl FramerOut_None)
     else hunt b ring now (skipped ring f 1) (received - 1))"
proof -
  have l: "0 < length ring" using ring_okE [OF assms(1)] by metis
  then have m: "(unat (fm_anchor f) + 2) mod length ring < length ring" by simp
  have r1: "received = 1 \<longleftrightarrow> unat received = Suc 0"
    using unsigned_word_eqI [of received 1, where ?'a = nat] by auto
  have r4: "received < HEADER_SPAN_BYTES \<longleftrightarrow> unat received < 4"
    by (simp add: HEADER_SPAN_BYTES_def word_less_nat_alt)
  show ?thesis
    using assms(2) m by (auto simp: Let_def r1 r4 plausible_at_def BREAK_RING_BYTE_def ring_wrap_mod [OF assms(1)] skipped_def)
qed

lemma hunt_spec:
  assumes "ring_ok ring" "unat (fm_anchor f) < length ring" "0 < unat received"
  shows "\<exists>j r. hunt b ring now f received = Some (skipped ring f j, r) \<and> j \<le> unat received \<and> j \<le> b
    \<and> (\<forall>i<j. \<not> plausible_at ring ((unat (fm_anchor f) + i) mod length ring) (unat received - i))
    \<and> (case r of
         Inr rc \<Rightarrow> unat rc = unat received - j \<and> j < unat received
             \<and> plausible_at ring ((unat (fm_anchor f) + j) mod length ring) (unat rc)
       | Inl out \<Rightarrow> out = FramerOut_None \<and> j = unat received \<or> out = FramerOut_Wait now \<and> j = b \<and> j < unat received)"
  using assms(2,3)
proof (induction b arbitrary: f received)
  case 0
  then show ?case by (intro exI [of _ 0]) (simp add: skipped_def)
next
  case (Suc b)
  have l: "0 < length ring" "length ring \<le> 32768" using ring_okE [OF assms(1)] by metis+
  note st = hunt_step [OF assms(1) Suc.prems, of b now]
  show ?case
  proof (cases "plausible_at ring (unat (fm_anchor f)) (unat received)")
    case True
    then show ?thesis using st Suc.prems
      by (intro exI [of _ 0] exI [of _ "Inr received"]) (simp add: skipped_def)
  next
    case np: False
    show ?thesis
    proof (cases "unat received = 1")
      case True
      then show ?thesis using st np Suc.prems
        by (intro exI [of _ 1] exI [of _ "Inl FramerOut_None"]) simp
    next
      case False
      define g where "g = skipped ring f 1"
      define rc where "rc = received - 1"
      have rc: "unat rc = unat received - 1"
        using unat_minus_one [of received] Suc.prems(2) unfolding rc_def by (metis less_irrefl unat_0)
      have ga: "unat (fm_anchor g) = (unat (fm_anchor f) + 1) mod length ring"
        unfolding g_def by (rule skipped_anchor [OF l Suc.prems(1)])
      then have gl: "unat (fm_anchor g) < length ring" using l by simp
      have rp: "0 < unat rc" using rc False Suc.prems(2) by linarith
      obtain j r where j: "hunt b ring now g rc = Some (skipped ring g j, r)" "j \<le> unat rc" "j \<le> b"
          "\<forall>i<j. \<not> plausible_at ring ((unat (fm_anchor g) + i) mod length ring) (unat rc - i)"
          "case r of
             Inr rc' \<Rightarrow> unat rc' = unat rc - j \<and> j < unat rc \<and> plausible_at ring ((unat (fm_anchor g) + j) mod length ring) (unat rc')
           | Inl out \<Rightarrow> out = FramerOut_None \<and> j = unat rc \<or> out = FramerOut_Wait now \<and> j = b \<and> j < unat rc"
        using Suc.IH [OF gl rp] by blast
      have am: "(unat (fm_anchor g) + i) mod length ring = (unat (fm_anchor f) + Suc i) mod length ring" for i
        unfolding ga by (simp add: mod_simps)
      have "\<forall>i<Suc j. \<not> plausible_at ring ((unat (fm_anchor f) + i) mod length ring) (unat received - i)"
      proof (intro allI impI)
        fix i assume "i < Suc j"
        then show "\<not> plausible_at ring ((unat (fm_anchor f) + i) mod length ring) (unat received - i)"
          using np j(4) am rc Suc.prems(1) by (cases i) auto
      qed
      moreover have "hunt (Suc b) ring now f received = Some (skipped ring f (Suc j), r)"
        using st np False j(1) skipped_skipped [OF l, of f j] by (simp add: g_def rc_def)
      ultimately show ?thesis
        using j rc rp am by (intro exI [of _ "Suc j"] exI [of _ r]) (auto split: sum.splits)
    qed
  qed
qed

section \<open>One resolution step\<close>

definition span_at :: "bytes \<Rightarrow> nat \<Rightarrow> nat" where
  "span_at ring a = footprint (ring ! ((a + 2) mod length ring))"

lemma span_at_bounds: "3 \<le> span_at ring a" "span_at ring a \<le> 258"
proof -
  have "unat (ring ! ((a + 2) mod length ring)) < 256" by (rule order.strict_trans2 [OF unsigned_less]) simp
  then show "3 \<le> span_at ring a" "span_at ring a \<le> 258" by (simp_all add: span_at_def footprint_def)
qed

lemma span_at_plausible: "plausible_at ring a n \<Longrightarrow> 4 \<le> n \<Longrightarrow> 6 \<le> span_at ring a"
  by (simp add: span_at_def footprint_def plausible_at_def word_le_nat_alt)

lemma ring_header_eq:
  assumes "ring_ok ring" "unat anchor < length ring"
  shows "\<exists>h. ring_header ring anchor = Some h \<and> Header_frame_end h = span_at ring (unat anchor)"
proof -
  have "\<And>i. i mod length ring < length ring" using ring_okE [OF assms(1)] mod_less_divisor by metis
  then have n: "\<And>i. nth_opt ring (ring_wrap i (length ring)) = Some (ring ! (i mod length ring))"
    by (simp add: ring_wrap_mod [OF assms(1)])
  have u: "[0..<4] = [0, 1, 2, 3::nat]" by (simp add: upt_rec)
  show ?thesis by (simp add: ring_header_def u n Header_frame_end_def span_at_def)
qed

lemma candidate_cases:
  fixes received :: u16
  assumes "ring_ok ring" "unat (fm_anchor f) < length ring"
  defines "n \<equiv> unat received" and "fp \<equiv> span_at ring (unat (fm_anchor f))"
  obtains
    (partial) aim where "n < 4 \<or> n < fp \<and> (fr_covered (fm_frontier f) \<or> n + 2 < fp)"
      "Framer_candidate f ring received cursor now tpb = Some (Framer_wait f aim now tpb cursor (length ring))"
  | (covered) fr e where "4 \<le> n" "n < fp" "fp \<le> n + 2" "\<not> fr_covered (fm_frontier f)"
      "Framer_candidate f ring received cursor now tpb = Some (f\<lparr>fm_frontier := fr\<rparr>,
         FramerOut_Covered \<lparr>fs_anchor = fm_anchor f, fs_footprint = of_nat fp, fs_packet_end = e\<rparr> e)"
  | (frame) "4 \<le> n" "fp \<le> n"
      "Framer_candidate f ring received cursor now tpb = Some
         (f\<lparr>fm_anchor := of_nat ((unat (fm_anchor f) + fp) mod length ring), fm_frontier := Frontier_idle\<rparr>,
          FramerOut_Frame \<lparr>fs_anchor = fm_anchor f, fs_footprint = of_nat fp, fs_packet_end = now\<rparr>)"
proof -
  have r4: "received < HEADER_SPAN_BYTES \<longleftrightarrow> n < 4" by (simp add: HEADER_SPAN_BYTES_def word_less_nat_alt n_def)
  obtain hd where hd: "ring_header ring (fm_anchor f) = Some hd" "Header_frame_end hd = fp"
    using ring_header_eq [OF assms(1,2)] fp_def by auto
  define w :: u16 where "w = of_nat fp"
  have w: "unat w = fp" using span_at_bounds(2) [of ring "unat (fm_anchor f)"] by (simp add: w_def unat_of_nat_small fp_def)
  note ev = Framer_candidate_def [of f ring received cursor now tpb, unfolded r4 hd bind.bind_lunit Let_def hd(2) w_def [symmetric]
      w ring_wrap_mod [OF assms(1)]]
  consider "n < 4" | "4 \<le> n" "fp \<le> n" | "4 \<le> n" "n < fp" by linarith
  then show thesis
  proof cases
    case 1
    then show thesis using partial ev by auto
  next
    case 2
    then have "w \<le> received" by (simp add: word_le_nat_alt w n_def)
    then show thesis using frame [OF 2] ev 2(1) by (simp flip: w_def)
  next
    case 3
    then have nl: "\<not> w \<le> received" by (simp add: word_le_nat_alt w n_def)
    then have "received \<le> w" by simp
    from unat_sub [OF this] have m: "unat (ucast (w - received) :: u32) = fp - n" by (simp add: w n_def unat_ucast_16_32)
    have c: "(ucast (w - received) :: u32) \<le> COVERED_TAIL_BYTES \<longleftrightarrow> fp \<le> n + 2"
      using 3(2) by (auto simp: word_le_nat_alt m COVERED_TAIL_BYTES_def)
    show thesis
    proof (cases "\<not> fr_covered (fm_frontier f) \<and> fp \<le> n + 2")
      case True
      then show thesis using covered [OF 3] ev 3(1) nl c by (simp flip: w_def)
    next
      case False
      then show thesis using partial ev 3 nl c by auto
    qed
  qed
qed

lemma resolve_cases:
  fixes cursor :: u16
  assumes "ring_ok ring" "unat (fm_anchor f) < length ring"
  defines "n \<equiv> unat (ring_dist cursor (fm_anchor f) (length ring))"
  obtains
    (caught) "n = 0" "Framer_resolve f ring cursor now tpb = Some (f\<lparr>fm_frontier := Frontier_idle\<rparr>, FramerOut_None)"
  | (noise) "0 < n" "Framer_resolve f ring cursor now tpb = Some (skipped ring f n, FramerOut_None)"
  | (budget) "64 < n" "Framer_resolve f ring cursor now tpb = Some (skipped ring f 64, FramerOut_Wait now)"
  | (candidate) j rc where "j < n" "j \<le> 64" "unat rc = n - j" "plausible_at ring ((unat (fm_anchor f) + j) mod length ring) (n - j)"
      "\<forall>i<j. \<not> plausible_at ring ((unat (fm_anchor f) + i) mod length ring) (n - i)"
      "Framer_resolve f ring cursor now tpb = Framer_candidate (skipped ring f j) ring rc cursor now tpb"
proof -
  have l: "0 < length ring" using ring_okE [OF assms(1)] by metis
  define rc where "rc = ring_dist cursor (fm_anchor f) (length ring)"
  have nrc: "unat rc = n" by (simp add: n_def rc_def)
  have e: "Framer_resolve f ring cursor now tpb = (if rc = 0 then Some (f\<lparr>fm_frontier := Frontier_idle\<rparr>, FramerOut_None)
     else (case hunt 64 ring now f rc of None \<Rightarrow> None | Some (f, r) \<Rightarrow>
       (case r of Inl out \<Rightarrow> Some (f, out) | Inr received \<Rightarrow> Framer_candidate f ring received cursor now tpb)))"
    using l unfolding Framer_resolve_def Let_def rc_def [symmetric] HUNT_BYTES_PER_WAKE_def by (simp split: option.split)
  show thesis
  proof (cases "rc = 0")
    case True
    then show thesis using caught e nrc by simp
  next
    case False
    then have np: "0 < unat rc" by (simp add: unat_gt_0)
    obtain j r where j: "hunt 64 ring now f rc = Some (skipped ring f j, r)" "j \<le> unat rc" "j \<le> 64"
       "\<forall>i<j. \<not> plausible_at ring ((unat (fm_anchor f) + i) mod length ring) (unat rc - i)"
       "case r of
         Inr rc' \<Rightarrow> unat rc' = unat rc - j \<and> j < unat rc \<and> plausible_at ring ((unat (fm_anchor f) + j) mod length ring) (unat rc')
       | Inl out \<Rightarrow> out = FramerOut_None \<and> j = unat rc \<or> out = FramerOut_Wait now \<and> j = 64 \<and> j < unat rc"
      using hunt_spec [OF assms(1,2) np, of 64 now] by blast
    then show thesis using e False np noise budget candidate [of j] nrc by (cases r) auto
  qed
qed

lemma wait_cases:
  obtains
    (waits) t where "Framer_wait f aim now tpb cursor len = (f\<lparr>fm_frontier := Frontier_advance (fm_frontier f) cursor now\<rparr>, FramerOut_Wait t)"
  | (dies) d where "Framer_wait f aim now tpb cursor len = (f\<lparr>fm_drops := d, fm_hunting := True,
        fm_anchor := of_nat (ring_wrap (unat (fm_anchor f) + 1) len), fm_frontier := Frontier_idle\<rparr>, FramerOut_Wait now)"
proof -
  let ?f = "f\<lparr>fm_frontier := Frontier_advance (fm_frontier f) cursor now\<rparr>"
  have "Framer_give_up ?f len now = (f\<lparr>fm_drops := if fm_hunting f then fm_drops f else fm_drops f + 1, fm_hunting := True,
        fm_anchor := of_nat (ring_wrap (unat (fm_anchor f) + 1) len), fm_frontier := Frontier_idle\<rparr>, FramerOut_Wait now)"
    by (simp add: Framer_give_up_def Let_def)
  moreover have "\<exists>c s. Framer_wait f aim now tpb cursor len = (if c then Framer_give_up ?f len now else (?f, FramerOut_Wait s))"
    unfolding Framer_wait_def Let_def by (intro exI) (rule refl)
  ultimately show thesis using waits dies by metis
qed

text \<open>The bytes between the ladder and the write cursor.\<close>

definition backlog :: "Framer \<Rightarrow> bytes \<Rightarrow> u16 \<Rightarrow> nat" where
  "backlog f ring cursor = unat (ring_dist cursor (fm_anchor f) (length ring))"

lemma backlog_advance:
  assumes "ring_ok ring" "unat (fm_anchor f) < length ring" "unat cursor < length ring"
    "k \<le> backlog f ring cursor" "fm_anchor g = of_nat ((unat (fm_anchor f) + k) mod length ring)"
  shows "backlog g ring cursor = backlog f ring cursor - k" "unat (fm_anchor g) < length ring"
proof -
  have l: "0 < length ring" "length ring \<le> 32768" using ring_okE [OF assms(1)] by metis+
  have m: "(unat (fm_anchor f) + k) mod length ring < length ring" using l(1) by (rule mod_less_divisor)
  then have a: "unat (fm_anchor g) = (unat (fm_anchor f) + k) mod length ring"
    unfolding assms(5) using l(2) by (intro unat_of_nat_small) linarith
  then show ga: "unat (fm_anchor g) < length ring" using m by simp
  show "backlog g ring cursor = backlog f ring cursor - k"
    using assms(4) unfolding backlog_def ring_dist_mod [OF assms(1) ga assms(3)] ring_dist_mod [OF assms(1-3)] a
    by (rule dist_advance [OF assms(2,3)])
qed

lemma backlog_skipped:
  assumes "ring_ok ring" "unat (fm_anchor f) < length ring" "unat cursor < length ring" "k \<le> backlog f ring cursor"
  shows "backlog (skipped ring f k) ring cursor = backlog f ring cursor - k \<and> unat (fm_anchor (skipped ring f k)) < length ring"
proof (cases "k = 0")
  case True
  then show ?thesis using assms(2) by (simp add: skipped_def)
next
  case False
  then have "fm_anchor (skipped ring f k) = of_nat ((unat (fm_anchor f) + k) mod length ring)" by (simp add: skipped_def)
  from backlog_advance [OF assms this] show ?thesis by simp
qed

lemma backlog_wait:
  assumes "ring_ok ring" "unat (fm_anchor f) < length ring" "unat cursor < length ring" "0 < backlog f ring cursor"
    "Framer_wait f aim now tpb cursor (length ring) = (f', out)"
  shows "unat (fm_anchor f') < length ring \<and> backlog f' ring cursor \<le> backlog f ring cursor \<and> (\<exists>t. out = FramerOut_Wait t)"
proof (rule wait_cases [of f aim now tpb cursor "length ring"])
  fix t assume "Framer_wait f aim now tpb cursor (length ring) = (f\<lparr>fm_frontier := Frontier_advance (fm_frontier f) cursor now\<rparr>, FramerOut_Wait t)"
  then show ?thesis using assms(2,5) by (auto simp: backlog_def)
next
  fix d assume "Framer_wait f aim now tpb cursor (length ring) = (f\<lparr>fm_drops := d, fm_hunting := True,
        fm_anchor := of_nat (ring_wrap (unat (fm_anchor f) + 1) (length ring)), fm_frontier := Frontier_idle\<rparr>, FramerOut_Wait now)"
  then have e: "f' = f\<lparr>fm_drops := d, fm_hunting := True,
        fm_anchor := of_nat (ring_wrap (unat (fm_anchor f) + 1) (length ring)), fm_frontier := Frontier_idle\<rparr>" "out = FramerOut_Wait now"
    using assms(5) by simp_all
  have "backlog f' ring cursor = backlog f ring cursor - 1 \<and> unat (fm_anchor f') < length ring"
    using backlog_advance [OF assms(1-3), of 1 f'] assms(4) e by (simp add: ring_wrap_mod [OF assms(1)])
  with e show ?thesis by auto
qed

text \<open>Property C27: a resolution step never reads outside the ring and never loses track of it.  From an anchor and a
  cursor inside the ring it returns; the anchor stays inside; it never moves past the cursor; a
  reported frame lies between the old anchor and the cursor, is at least six bytes, and is
  consumed; nothing is resolvable only when every ringed byte has been consumed.\<close>

theorem framer_step_safe:
  assumes "ring_ok ring" "unat (fm_anchor f) < length ring" "unat cursor < length ring"
  shows "\<exists>f' out. Framer_resolve f ring cursor now tpb = Some (f', out) \<and> unat (fm_anchor f') < length ring
    \<and> backlog f' ring cursor \<le> backlog f ring cursor
    \<and> (case out of
         FramerOut_None \<Rightarrow> backlog f' ring cursor = 0
       | FramerOut_Wait t \<Rightarrow> True
       | FramerOut_Covered sp e \<Rightarrow> fs_anchor sp = fm_anchor f' \<and> unat (fs_footprint sp) \<le> backlog f' ring cursor + 2
       | FramerOut_Frame sp \<Rightarrow> 6 \<le> unat (fs_footprint sp)
           \<and> backlog f' ring cursor + unat (fs_footprint sp) \<le> backlog f ring cursor)"
proof (rule resolve_cases [OF assms(1,2), of cursor now tpb], fold backlog_def)
  assume "backlog f ring cursor = 0"
    "Framer_resolve f ring cursor now tpb = Some (f\<lparr>fm_frontier := Frontier_idle\<rparr>, FramerOut_None)"
  then show ?thesis using assms(2) by (simp add: backlog_def)
next
  assume "0 < backlog f ring cursor"
    "Framer_resolve f ring cursor now tpb = Some (skipped ring f (backlog f ring cursor), FramerOut_None)"
  then show ?thesis using backlog_skipped [OF assms, of "backlog f ring cursor"] by simp
next
  assume "64 < backlog f ring cursor" "Framer_resolve f ring cursor now tpb = Some (skipped ring f 64, FramerOut_Wait now)"
  then show ?thesis using backlog_skipped [OF assms, of 64] by simp
next
  fix j rc assume j: "j < backlog f ring cursor" "unat rc = backlog f ring cursor - j"
    "plausible_at ring ((unat (fm_anchor f) + j) mod length ring) (backlog f ring cursor - j)"
    "Framer_resolve f ring cursor now tpb = Framer_candidate (skipped ring f j) ring rc cursor now tpb"
  define g where "g = skipped ring f j"
  have g: "backlog g ring cursor = backlog f ring cursor - j" "unat (fm_anchor g) < length ring"
    using backlog_skipped [OF assms, of j] j(1) by (simp_all add: g_def)
  have ga: "unat (fm_anchor g) = (unat (fm_anchor f) + j) mod length ring"
    unfolding g_def using ring_okE [OF assms(1)] by (metis skipped_anchor assms(2))
  show ?thesis
  proof (rule candidate_cases [OF assms(1) g(2), of rc cursor now tpb])
    fix aim assume "Framer_candidate g ring rc cursor now tpb = Some (Framer_wait g aim now tpb cursor (length ring))"
    then show ?thesis using backlog_wait [OF assms(1) g(2) assms(3), of aim now tpb] g(1) j(1,4)
      by (cases "Framer_wait g aim now tpb cursor (length ring)") (force simp: g_def)
  next
    fix fr e assume h: "span_at ring (unat (fm_anchor g)) \<le> unat rc + 2"
      "Framer_candidate g ring rc cursor now tpb = Some (g\<lparr>fm_frontier := fr\<rparr>,
         FramerOut_Covered \<lparr>fs_anchor = fm_anchor g, fs_footprint = of_nat (span_at ring (unat (fm_anchor g))), fs_packet_end = e\<rparr> e)"
    then show ?thesis using g j(2,4) span_at_bounds(2) [of ring "unat (fm_anchor g)"]
      by (simp add: g_def [symmetric] backlog_def unat_of_nat_small)
  next
    assume h: "4 \<le> unat rc" "span_at ring (unat (fm_anchor g)) \<le> unat rc"
      "Framer_candidate g ring rc cursor now tpb = Some
         (g\<lparr>fm_anchor := of_nat ((unat (fm_anchor g) + span_at ring (unat (fm_anchor g))) mod length ring), fm_frontier := Frontier_idle\<rparr>,
          FramerOut_Frame \<lparr>fs_anchor = fm_anchor g, fs_footprint = of_nat (span_at ring (unat (fm_anchor g))), fs_packet_end = now\<rparr>)"
    let ?k = "span_at ring (unat (fm_anchor g))"
    have "6 \<le> ?k" using span_at_plausible j(2,3) h(1) ga by simp
    moreover have "?k \<le> backlog g ring cursor" using h(2) j(2) g(1) by simp
    ultimately show ?thesis
      using backlog_advance [OF assms(1) g(2) assms(3), of ?k "g\<lparr>fm_anchor := of_nat ((unat (fm_anchor g) + ?k) mod length ring), fm_frontier := Frontier_idle\<rparr>"]
        h(3) j(4) g(1) span_at_bounds(2) [of ring "unat (fm_anchor g)"]
      by (simp add: g_def [symmetric] unat_of_nat_small)
  qed
qed

section \<open>A clean stream\<close>

lemma length_ringed [simp]: "length (ringed ring a n) = n"
  by (simp add: ringed_def)

lemma nth_ringed [simp]: "i < n \<Longrightarrow> ringed ring a n ! i = ring ! ((a + i) mod length ring)"
  by (simp add: ringed_def)

lemma take_ringed: "m \<le> n \<Longrightarrow> take m (ringed ring a n) = ringed ring a m"
  by (rule nth_equalityI) simp_all

lemma drop_ringed: "drop m (ringed ring a n) = ringed ring ((a + m) mod length ring) (n - m)"
  by (rule nth_equalityI) (simp_all add: mod_simps add.assoc)

lemma ringed_segments:
  assumes "a < length ring" "m \<le> length ring"
  shows "ringed ring a m = take m (drop a ring) @ take (m - (length ring - a)) ring"
proof (rule nth_equalityI)
  fix i assume "i < length (ringed ring a m)"
  then have i: "i < m" by simp
  show "ringed ring a m ! i = (take m (drop a ring) @ take (m - (length ring - a)) ring) ! i"
  proof (cases "a + i < length ring")
    case True
    then have "i < length ring - a" by linarith
    then show ?thesis using True i assms by (simp add: nth_append)
  next
    case False
    then have "(a + i) mod length ring = a + i - length ring" using i assms by (simp add: mod_if)
    moreover have "length (take m (drop a ring)) = length ring - a" using False i assms by simp
    moreover have "\<not> i < length ring - a" "i - (length ring - a) = a + i - length ring"
        "a + i - length ring < m - (length ring - a)" using False i assms by linarith+
    ultimately show ?thesis using i by (simp only: nth_append nth_ringed if_False nth_take)
  qed
qed (use assms in simp)

lemma frame_view_ringed:
  assumes "unat anchor < length ring" "unat fp \<le> length ring"
  shows "\<exists>v. frame_view ring anchor fp = Some v \<and> FrameBytes_bytes v = ringed ring (unat anchor) (unat fp)"
  using ringed_segments [OF assms] assms
  by (auto simp: frame_view_def Let_def get_range_def FrameBytes_bytes_def FrameBytes_new_def)

text \<open>A frame on the wire: break byte, at least header and CRC, and as long as its LEN says.\<close>

definition frame_wf :: "bytes \<Rightarrow> bool" where
  "frame_wf w \<longleftrightarrow> 6 \<le> length w \<and> w ! 0 = 0 \<and> length w = footprint (w ! 2)"

lemma resolve_plausible:
  assumes "ring_ok ring" "unat (fm_anchor f) < length ring" "0 < backlog f ring cursor"
    "plausible_at ring (unat (fm_anchor f)) (backlog f ring cursor)"
  shows "Framer_resolve f ring cursor now tpb = Framer_candidate f ring (ring_dist cursor (fm_anchor f) (length ring)) cursor now tpb"
proof -
  have l: "0 < length ring" using ring_okE [OF assms(1)] by metis
  define rc where "rc = ring_dist cursor (fm_anchor f) (length ring)"
  have "hunt (Suc 63) ring now f rc = Some (f, Inr rc)"
    using hunt_step [OF assms(1,2), of rc 63 now] assms(3,4) by (simp add: backlog_def rc_def del: hunt.simps)
  moreover have "rc \<noteq> 0" using assms(3) by (auto simp: backlog_def rc_def)
  ultimately show ?thesis
    using l unfolding Framer_resolve_def Let_def rc_def [symmetric] HUNT_BYTES_PER_WAKE_def by simp
qed

lemma clean_step:
  assumes "ring_ok ring" "unat (fm_anchor f) < length ring" "unat cursor < length ring"
    "ringed ring (unat (fm_anchor f)) (backlog f ring cursor) = w @ rest" "frame_wf w"
  defines "f' \<equiv> f\<lparr>fm_anchor := of_nat ((unat (fm_anchor f) + length w) mod length ring), fm_frontier := Frontier_idle\<rparr>"
  shows "Framer_resolve f ring cursor now tpb = Some (f', FramerOut_Frame
      \<lparr>fs_anchor = fm_anchor f, fs_footprint = of_nat (length w), fs_packet_end = now\<rparr>)"
    and "\<exists>v. frame_view ring (fm_anchor f) (of_nat (length w)) = Some v \<and> FrameBytes_bytes v = w"
    and "unat (fm_anchor f') < length ring" "ringed ring (unat (fm_anchor f')) (backlog f' ring cursor) = rest"
proof -
  have l: "length ring \<le> 32768" "0 < length ring" using ring_okE [OF assms(1)] by metis+
  define n where "n = backlog f ring cursor"
  define a where "a = unat (fm_anchor f)"
  note r = assms(4) [folded n_def a_def]
  have n: "n = length w + length rest" using arg_cong [OF r, of length] by simp
  have "n = (unat cursor + length ring - a) mod length ring"
    unfolding n_def backlog_def a_def by (rule ring_dist_mod [OF assms(1-3)])
  then have nl: "n < length ring" using l(2) by simp
  have w: "w = ringed ring a (length w)" using arg_cong [OF r, of "take (length w)"] n by (simp add: take_ringed)
  have al: "a < length ring" using assms(2) by (simp add: a_def)
  have len: "6 \<le> length w" using assms(5) by (simp add: frame_wf_def)
  have len2: "0 < length w" "2 < length w" using len by linarith+
  have "w ! 0 = ring ! a"
    using arg_cong [OF w, of "\<lambda>x. x ! 0"] nth_ringed [OF len2(1), of ring a] al by simp
  moreover have "w ! 2 = ring ! ((a + 2) mod length ring)"
    using arg_cong [OF w, of "\<lambda>x. x ! 2"] nth_ringed [OF len2(2), of ring a] by simp
  ultimately have s: "span_at ring a = length w" "plausible_at ring a n"
    using assms(5) by (simp_all add: span_at_def plausible_at_def frame_wf_def footprint_def word_le_nat_alt)
  define rc where "rc = ring_dist cursor (fm_anchor f) (length ring)"
  have rc: "unat rc = n" by (simp add: rc_def n_def backlog_def)
  have rp: "Framer_resolve f ring cursor now tpb = Framer_candidate f ring rc cursor now tpb"
    unfolding rc_def by (rule resolve_plausible [OF assms(1,2)]) (use s(2) n len2 in \<open>simp_all add: n_def a_def\<close>)
  show "Framer_resolve f ring cursor now tpb = Some (f', FramerOut_Frame
      \<lparr>fs_anchor = fm_anchor f, fs_footprint = of_nat (length w), fs_packet_end = now\<rparr>)"
    unfolding rp
  proof (rule candidate_cases [OF assms(1,2), of rc cursor now tpb])
  qed (use n len s rc in \<open>simp_all add: a_def [symmetric] f'_def\<close>)
  show "\<exists>v. frame_view ring (fm_anchor f) (of_nat (length w)) = Some v \<and> FrameBytes_bytes v = w"
    using frame_view_ringed [of "fm_anchor f" ring "of_nat (length w)"] w n nl l al by (simp add: unat_of_nat_small a_def)
  have "fm_anchor f' = of_nat ((unat (fm_anchor f) + length w) mod length ring)" by (simp add: f'_def)
  from backlog_advance [OF assms(1-3) _ this] have b: "backlog f' ring cursor = n - length w" "unat (fm_anchor f') < length ring"
    using n by (simp_all add: n_def)
  then show "unat (fm_anchor f') < length ring" by simp
  have "(a + length w) mod length ring < 65536" using mod_less_divisor [OF l(2), of "a + length w"] l(1) by linarith
  then have "unat (fm_anchor f') = (a + length w) mod length ring" by (simp add: f'_def a_def unat_of_nat_small)
  then show "ringed ring (unat (fm_anchor f')) (backlog f' ring cursor) = rest"
    using arg_cong [OF r, of "drop (length w)"] b(1) by (simp add: drop_ringed)
qed

text \<open>The resolver called until it stops reporting frames, as the composite calls it; the first argument bounds
  the calls.\<close>

fun ladder :: "nat \<Rightarrow> Framer \<Rightarrow> bytes \<Rightarrow> u16 \<Rightarrow> u32 \<Rightarrow> u32 \<Rightarrow> (Framer \<times> FrameSpan list) option" where
  "ladder 0 f ring cursor now tpb = Some (f, [])"
| "ladder (Suc k) f ring cursor now tpb =
     do { (f', out) \<leftarrow> Framer_resolve f ring cursor now tpb;
          case out of
            FramerOut_Frame sp \<Rightarrow> do { (g, sps) \<leftarrow> ladder k f' ring cursor now tpb; Some (g, sp # sps) }
          | _ \<Rightarrow> Some (f', []) }"

lemma ladder_clean:
  assumes "ring_ok ring" "unat (fm_anchor f) < length ring" "unat cursor < length ring"
    "ringed ring (unat (fm_anchor f)) (backlog f ring cursor) = concat ws @ rest" "list_all frame_wf ws"
  shows "\<exists>f' sps. ladder (length ws) f ring cursor now tpb = Some (f', sps)
    \<and> map (\<lambda>sp. map_option FrameBytes_bytes (frame_view ring (fs_anchor sp) (fs_footprint sp))) sps = map Some ws
    \<and> ringed ring (unat (fm_anchor f')) (backlog f' ring cursor) = rest"
  using assms(2,4,5)
proof (induction ws arbitrary: f)
  case (Cons w ws)
  have r: "ringed ring (unat (fm_anchor f)) (backlog f ring cursor) = w @ (concat ws @ rest)" "frame_wf w"
    using Cons.prems by simp_all
  note st = clean_step [OF assms(1) Cons.prems(1) assms(3) r]
  from Cons.IH [OF st(3,4)] Cons.prems(3) st(1,2) show ?case by auto
qed simp


definition demo_ring :: bytes where
  "demo_ring = [0x20, 0xAA, 0xBB, 0, 9, 0, 0, 0, 0, 0, 0, 0, 0, 0, 1, 3]"


theorem framer_step_safe_witness:
  "\<exists>f' out. Framer_resolve Framer_new demo_ring 5 0 480 = Some (f', out) \<and> unat (fm_anchor f') < 16"
proof -
  have "ring_ok demo_ring" unfolding ring_ok_def demo_ring_def by (rule exI [of _ 4]) simp
  then show ?thesis
    using framer_step_safe [of demo_ring Framer_new 5 0 480] by (auto simp: demo_ring_def Framer_new_def)
qed

section \<open>Starved partials\<close>

lemma wait_starves:
  assumes "fr_observed (fm_frontier f)" "fr_seen (fm_frontier f) = cursor"
    "tick_reached now (fr_progress_tick (fm_frontier f) + STARVE_GIVEUP_BYTES * tpb)"
  shows "Framer_wait f aim now tpb cursor len =
    (f\<lparr>fm_drops := if fm_hunting f then fm_drops f else fm_drops f + 1, fm_hunting := True,
        fm_anchor := of_nat (ring_wrap (unat (fm_anchor f) + 1) len), fm_frontier := Frontier_idle\<rparr>, FramerOut_Wait now)"
  using assms by (simp add: Framer_wait_def Let_def Frontier_advance_def Framer_give_up_def)

lemma wait_fresh:
  assumes "fm_frontier f = Frontier_idle" "Framer_wait f aim now tpb cursor len = (f1, FramerOut_Wait t)"
  shows "f1 = f\<lparr>fm_frontier := \<lparr>fr_covered = False, fr_observed = True, fr_seen = cursor, fr_progress_tick = now\<rparr>\<rparr>
    \<and> t - now \<le> STARVE_GIVEUP_BYTES * tpb"
proof -
  have "f1 = f\<lparr>fm_frontier := \<lparr>fr_covered = False, fr_observed = True, fr_seen = cursor, fr_progress_tick = now\<rparr>\<rparr>"
    "t = (if aim - now \<le> now + STARVE_GIVEUP_BYTES * tpb - now then aim else now + STARVE_GIVEUP_BYTES * tpb)"
    using assms by (simp_all add: Framer_wait_def Let_def Frontier_advance_def Frontier_idle_def)
  then show ?thesis by auto
qed

lemma parked_partial:
  assumes "ring_ok ring" "unat (fm_anchor f) < length ring" "unat cursor < length ring"
    "Framer_resolve f ring cursor now tpb = Some (f1, FramerOut_Wait t)" "backlog f1 ring cursor = backlog f ring cursor"
  obtains aim and rc :: u16 where "0 < backlog f ring cursor" "plausible_at ring (unat (fm_anchor f)) (backlog f ring cursor)"
    "unat rc = backlog f ring cursor" "Framer_wait f aim now tpb cursor (length ring) = (f1, FramerOut_Wait t)"
    "unat rc < 4 \<or> unat rc < span_at ring (unat (fm_anchor f))
       \<and> (fr_covered (fm_frontier f) \<or> unat rc + 2 < span_at ring (unat (fm_anchor f)))"
proof (rule resolve_cases [OF assms(1,2), of cursor now tpb], fold backlog_def)
  fix j rc assume j: "j < backlog f ring cursor" "unat rc = backlog f ring cursor - j"
    "plausible_at ring ((unat (fm_anchor f) + j) mod length ring) (backlog f ring cursor - j)"
    "Framer_resolve f ring cursor now tpb = Framer_candidate (skipped ring f j) ring rc cursor now tpb"
  define g where "g = skipped ring f j"
  have g: "backlog g ring cursor = backlog f ring cursor - j" "unat (fm_anchor g) < length ring"
    using backlog_skipped [OF assms(1-3), of j] j(1) by (simp_all add: g_def)
  show thesis
  proof (rule candidate_cases [OF assms(1) g(2), of rc cursor now tpb])
    fix aim assume c: "unat rc < 4 \<or> unat rc < span_at ring (unat (fm_anchor g)) \<and>
        (fr_covered (fm_frontier g) \<or> unat rc + 2 < span_at ring (unat (fm_anchor g)))"
      "Framer_candidate g ring rc cursor now tpb = Some (Framer_wait g aim now tpb cursor (length ring))"
    then have w: "Framer_wait g aim now tpb cursor (length ring) = (f1, FramerOut_Wait t)" using assms(4) j(4) g_def by simp
    have "0 < backlog g ring cursor" using g(1) j(1) by simp
    from backlog_wait [OF assms(1) g(2) assms(3) this w] have "j = 0" using assms(5) g(1) j(1) by linarith
    then have "g = f" by (simp add: g_def skipped_def)
    with \<open>j = 0\<close> show thesis using that [of rc aim] c(1) w j assms(2) by simp
  qed (use assms(4) j(4) g_def in simp_all)
next
  assume "64 < backlog f ring cursor" "Framer_resolve f ring cursor now tpb = Some (skipped ring f 64, FramerOut_Wait now)"
  then show thesis using backlog_skipped [OF assms(1-3), of 64] assms(4,5) by simp
qed (use assms(4) in simp_all)

lemma starved_partial:
  assumes "ring_ok ring" "unat (fm_anchor f) < length ring" "unat cursor < length ring" "fm_frontier f = Frontier_idle"
    "Framer_resolve f ring cursor now tpb = Some (f1, FramerOut_Wait t)" "backlog f1 ring cursor = backlog f ring cursor"
    "tick_reached now1 (now + STARVE_GIVEUP_BYTES * tpb)"
  shows "t - now \<le> STARVE_GIVEUP_BYTES * tpb \<and> (\<exists>f2. Framer_resolve f1 ring cursor now1 tpb = Some (f2, FramerOut_Wait now1)
    \<and> backlog f2 ring cursor + 1 = backlog f ring cursor \<and> fm_hunting f2)"
proof -
  obtain aim and rc :: u16 where p: "0 < backlog f ring cursor" "plausible_at ring (unat (fm_anchor f)) (backlog f ring cursor)"
    "unat rc = backlog f ring cursor" "Framer_wait f aim now tpb cursor (length ring) = (f1, FramerOut_Wait t)"
    "unat rc < 4 \<or> unat rc < span_at ring (unat (fm_anchor f))
       \<and> (fr_covered (fm_frontier f) \<or> unat rc + 2 < span_at ring (unat (fm_anchor f)))"
    using parked_partial [OF assms(1-3,5,6)] by metis
  have f1: "f1 = f\<lparr>fm_frontier := \<lparr>fr_covered = False, fr_observed = True, fr_seen = cursor, fr_progress_tick = now\<rparr>\<rparr>"
    and t: "t - now \<le> STARVE_GIVEUP_BYTES * tpb" using wait_fresh [OF assms(4) p(4)] by simp_all
  have a: "fm_anchor f1 = fm_anchor f" "unat (fm_anchor f1) < length ring" using f1 assms(2) by simp_all
  have r: "Framer_resolve f1 ring cursor now1 tpb = Framer_candidate f1 ring (ring_dist cursor (fm_anchor f1) (length ring)) cursor now1 tpb"
    by (rule resolve_plausible [OF assms(1) a(2)]) (use p assms(6) a in simp_all)
  have rc: "ring_dist cursor (fm_anchor f1) (length ring) = rc"
    using p(3) unfolding backlog_def a by (metis word_unat_eq_iff)
  show ?thesis
  proof (rule candidate_cases [OF assms(1) a(2), of rc cursor now1 tpb])
    fix aim1 assume "Framer_candidate f1 ring rc cursor now1 tpb = Some (Framer_wait f1 aim1 now1 tpb cursor (length ring))"
    moreover define f2 where "f2 = f1\<lparr>fm_drops := if fm_hunting f1 then fm_drops f1 else fm_drops f1 + 1, fm_hunting := True,
        fm_anchor := of_nat (ring_wrap (unat (fm_anchor f1) + 1) (length ring)), fm_frontier := Frontier_idle\<rparr>"
    moreover have "Framer_wait f1 aim1 now1 tpb cursor (length ring) = (f2, FramerOut_Wait now1)"
      unfolding f2_def by (rule wait_starves) (use f1 assms(7) in simp_all)
    moreover have "backlog f2 ring cursor = backlog f1 ring cursor - 1"
      by (rule backlog_advance(1) [OF assms(1) a(2) assms(3)]) (use p(1) assms(6) in \<open>simp_all add: f2_def ring_wrap_mod [OF assms(1)]\<close>)
    ultimately show ?thesis using t r rc p(1) assms(6) by (simp add: f2_def)
  qed (use p(5) f1 assms(4) a in \<open>auto simp: Frontier_idle_def\<close>)
qed

text \<open>A dead transmitter cannot park the resolver.  When the resolver, looking afresh, can only wait for more
  bytes of a partial frame, its wake is at most 64 byte-times away, however long the frame claims to be; and if by
  then no byte has arrived, it gives the partial up, moves its anchor one byte on and hunts.\<close>

lemma framer_starved_partial:
  assumes "ring_ok ring" "unat (fm_anchor f) < length ring" "unat cursor < length ring" "fm_frontier f = Frontier_idle"
    "Framer_resolve f ring cursor now tpb = Some (f1, FramerOut_Wait t)" "backlog f1 ring cursor = backlog f ring cursor"
    "tick_reached now1 (now + STARVE_GIVEUP_BYTES * tpb)"
  shows "t - now \<le> STARVE_GIVEUP_BYTES * tpb \<and> (\<exists>f2. Framer_resolve f1 ring cursor now1 tpb = Some (f2, FramerOut_Wait now1)
    \<and> backlog f2 ring cursor + 1 = backlog f ring cursor \<and> fm_hunting f2)"
  using assms by (rule starved_partial)

lemma framer_starved_partial_example:
  "\<exists>f1 f2 t. Framer_resolve (Framer_new\<lparr>fm_anchor := 13\<rparr>) demo_ring 15 0 480 = Some (f1, FramerOut_Wait t)
     \<and> Framer_resolve f1 demo_ring 15 30720 480 = Some (f2, FramerOut_Wait 30720) \<and> backlog f2 demo_ring 15 = 1"
proof -
  define f1 where "f1 = Framer_new\<lparr>fm_anchor := 13, fm_frontier := \<lparr>fr_covered = False, fr_observed = True, fr_seen = 15, fr_progress_tick = 0\<rparr>\<rparr>"
  have ok: "ring_ok demo_ring" unfolding ring_ok_def demo_ring_def by (rule exI [of _ 4]) simp
  have r: "Framer_resolve (Framer_new\<lparr>fm_anchor := 13\<rparr>) demo_ring 15 0 480 = Some (f1, FramerOut_Wait 1215)"
    unfolding f1_def by code_simp
  have b: "backlog f1 demo_ring 15 = backlog (Framer_new\<lparr>fm_anchor := 13\<rparr>) demo_ring 15"
    "backlog (Framer_new\<lparr>fm_anchor := 13\<rparr>) demo_ring 15 = 2" unfolding f1_def by code_simp+
  have t: "tick_reached 30720 (0 + STARVE_GIVEUP_BYTES * 480)" by code_simp
  show ?thesis
    using framer_starved_partial [OF ok _ _ _ r b(1) t] r b(2) by (auto simp: demo_ring_def Framer_new_def)
qed

end
