(* ===== verification/Signed.thy ===== *)
theory Signed
  imports Prelude
begin

text \<open>
  Signed Rust integers: an \<open>i8\<close>, \<open>i16\<close>, \<open>i32\<close> or \<open>i64\<close> is an \<open>int\<close>; \<open>wrap32\<close> and its siblings are what a plain operation
  or a truncating cast leaves (two's complement), \<open>sat32\<close> is what a saturating one leaves; division
  truncates toward zero.
\<close>

definition wrap8 :: "int \<Rightarrow> int" where "wrap8 x = signed_take_bit 7 x"
definition wrap16 :: "int \<Rightarrow> int" where "wrap16 x = signed_take_bit 15 x"
definition wrap32 :: "int \<Rightarrow> int" where "wrap32 x = signed_take_bit 31 x"
definition wrap64 :: "int \<Rightarrow> int" where "wrap64 x = signed_take_bit 63 x"

definition clamp :: "int \<Rightarrow> int \<Rightarrow> int \<Rightarrow> int" where
  "clamp x lo hi = (if x < lo then lo else if x > hi then hi else x)"

definition sat32 :: "int \<Rightarrow> int" where
  "sat32 x = clamp x (- (2 ^ 31)) (2 ^ 31 - 1)"

definition i32_ok :: "int \<Rightarrow> bool" where
  "i32_ok x \<longleftrightarrow> - (2 ^ 31) \<le> x \<and> x < 2 ^ 31"

text \<open>\<open>a / b\<close> and \<open>a % b\<close> of Rust.\<close>

definition tdiv :: "int \<Rightarrow> int \<Rightarrow> int" where
  "tdiv a b = sgn a * sgn b * (\<bar>a\<bar> div \<bar>b\<bar>)"

text \<open>\<open>x.unsigned_abs()\<close>.\<close>

definition unsigned_abs32 :: "int \<Rightarrow> u32" where
  "unsigned_abs32 x = word_of_int \<bar>x\<bar>"

lemma wrap8_id [simp]: "- 128 \<le> x \<Longrightarrow> x < 128 \<Longrightarrow> wrap8 x = x"
  using signed_take_bit_int_eq_self_iff [of 7 x] by (simp add: wrap8_def)

lemma wrap16_id [simp]: "- 32768 \<le> x \<Longrightarrow> x < 32768 \<Longrightarrow> wrap16 x = x"
  using signed_take_bit_int_eq_self_iff [of 15 x] by (simp add: wrap16_def)

lemma wrap32_id [simp]: "i32_ok x \<Longrightarrow> wrap32 x = x"
  using signed_take_bit_int_eq_self_iff [of 31 x] by (simp add: wrap32_def i32_ok_def)

lemma wrap64_id: "- (2 ^ 63) \<le> x \<Longrightarrow> x < 2 ^ 63 \<Longrightarrow> wrap64 x = x"
  using signed_take_bit_int_eq_self_iff [of 63 x] by (simp add: wrap64_def)

lemma i32_okI: "- 2147483648 \<le> x \<Longrightarrow> x < 2147483648 \<Longrightarrow> i32_ok x"
  by (simp add: i32_ok_def)

lemma i32_okD: "i32_ok x \<Longrightarrow> - 2147483648 \<le> x \<and> x \<le> 2147483647"
  by (simp add: i32_ok_def)

lemma wrap32_ok [simp]: "i32_ok (wrap32 x)"
  using signed_take_bit_int_greater_eq_minus_exp [of 31 x] signed_take_bit_int_less_exp [of 31 x]
  by (simp add: wrap32_def i32_ok_def)

lemma clamp_bounds: "lo \<le> hi \<Longrightarrow> lo \<le> clamp x lo hi \<and> clamp x lo hi \<le> hi"
  by (simp add: clamp_def)

lemma clamp_id [simp]: "lo \<le> x \<Longrightarrow> x \<le> hi \<Longrightarrow> clamp x lo hi = x"
  by (simp add: clamp_def)

lemma clamp_mono: "lo \<le> hi \<Longrightarrow> x \<le> y \<Longrightarrow> clamp x lo hi \<le> clamp y lo hi"
  by (simp add: clamp_def)

lemma sat32_ok [simp]: "i32_ok (sat32 x)"
  by (simp add: sat32_def clamp_def i32_ok_def)

lemma sat32_id [simp]: "i32_ok x \<Longrightarrow> sat32 x = x"
  by (simp add: sat32_def i32_ok_def)

lemma sat32_mono: "x \<le> y \<Longrightarrow> sat32 x \<le> sat32 y"
  by (simp add: sat32_def clamp_mono)

lemma tdiv_pos: "0 \<le> a \<Longrightarrow> 0 < b \<Longrightarrow> tdiv a b = a div b"
  by (cases "a = 0") (simp_all add: tdiv_def)

lemma tdiv_neg: "a \<le> 0 \<Longrightarrow> 0 < b \<Longrightarrow> tdiv a b = - ((- a) div b)"
  by (cases "a = 0") (simp_all add: tdiv_def)

lemma unat_unsigned_abs32: "i32_ok x \<Longrightarrow> unat (unsigned_abs32 x) = nat \<bar>x\<bar>"
proof -
  assume "i32_ok x"
  then have "0 \<le> \<bar>x\<bar>" "\<bar>x\<bar> < 2 ^ 32" by (auto simp: i32_ok_def)
  then have "uint (unsigned_abs32 x) = \<bar>x\<bar>"
    unfolding unsigned_abs32_def unsigned_of_int by (simp add: take_bit_int_eq_self)
  then show ?thesis by (simp flip: nat_uint_eq)
qed

end
