(* ===== verification/Trim.thy ===== *)
theory Trim
  imports Signed
begin

text \<open>
  The clock-trim controller (\<open>drivers/src/bus/trim.rs\<close>): the division-free parts-per-million quotient, the
  self-measured step effect and the stepped correction.
\<close>

definition STEP_PPM_MIN :: int where "STEP_PPM_MIN = 800"
definition STEP_PPM_MAX :: int where "STEP_PPM_MAX = 4000"
definition STEPS_MAX :: int where "STEPS_MAX = 4"
definition TOTAL_MAX :: int where "TOTAL_MAX = 15"

record TrimLoop =
  tl_total :: int
  tl_step_ppm :: int
  tl_last_ppm :: int
  tl_last_steps :: int

definition TrimLoop_new :: "u32 \<Rightarrow> TrimLoop" where
  "TrimLoop_new step_ppm_nominal =
     \<lparr>tl_total = 0, tl_step_ppm = sint step_ppm_nominal, tl_last_ppm = 0, tl_last_steps = 0\<rparr>"

lemma unat_half_less: "b \<noteq> 0 \<Longrightarrow> unat (drop_bit 1 (b :: u32)) < unat b"
proof -
  assume "b \<noteq> 0"
  then have "unat b div 2 < unat b" by (simp add: unat_gt_0)
  then show ?thesis by (simp add: unat_div drop_bit_Suc)
qed

text \<open>The restoring division, one quotient bit per round.\<close>

function ppm_loop :: "u32 \<Rightarrow> u64 \<Rightarrow> u64 \<Rightarrow> u32 \<Rightarrow> u32" where
  "ppm_loop b rem dshift q =
     (if b = 0 then q
      else if rem \<ge> dshift then ppm_loop (drop_bit 1 b) (rem - dshift) (drop_bit 1 dshift) (q OR b)
      else ppm_loop (drop_bit 1 b) rem (drop_bit 1 dshift) q)"
  by auto

termination
  by (relation "measure (\<lambda>(b, rem, dshift, q). unat b)") (use unat_half_less in auto)

declare ppm_loop.simps [simp del]

definition ppm :: "int \<Rightarrow> u32 \<Rightarrow> int" where
  "ppm err span =
     (let neg = err < 0;
          rem = (ucast (unsigned_abs32 err) :: u64) * 1000000;
          (q, rem) = (if rem \<ge> push_bit 20 (ucast span) then (push_bit 20 1 - 1, 0) else (0 :: u32, rem));
          q = ppm_loop (push_bit 19 1) rem (push_bit 19 (ucast span)) q
      in if neg then wrap32 (- sint q) else sint q)"

text \<open>The self-measured step effect.\<close>

definition observed_step :: "int \<Rightarrow> int \<Rightarrow> int" where
  "observed_step delta last_steps =
     (let mag = unsigned_abs32 delta;
          q = (if unsigned_abs32 last_steps = 1 then mag
               else if unsigned_abs32 last_steps = 2 then mag div 2
               else if unsigned_abs32 last_steps = 3 then mag div 3
               else mag div 4)
      in if (delta < 0) = (last_steps < 0) then sint q else wrap32 (- sint q))"

definition step_count :: "int \<Rightarrow> int \<Rightarrow> int" where
  "step_count step_ppm p =
     (let d = word_of_int step_ppm :: u32;
          t = 2 * unsigned_abs32 p;
          mag = (\<Sum>k\<leftarrow>[0, 1, 2, 3]. if t \<ge> (2 * k + 1) * d then 1 else 0)
      in if p < 0 then - mag else mag)"

definition TrimLoop_on_window :: "TrimLoop \<Rightarrow> int \<Rightarrow> u32 \<Rightarrow> TrimLoop \<times> int option" where
  "TrimLoop_on_window t err_ticks span_ticks =
     (if span_ticks = 0 then (t, None)
      else let p = ppm err_ticks span_ticks;
               t = (if tl_last_steps t \<noteq> 0 then
                      let observed = observed_step (wrap32 (tl_last_ppm t - p)) (tl_last_steps t)
                      in if STEP_PPM_MIN \<le> observed \<and> observed \<le> STEP_PPM_MAX then t\<lparr>tl_step_ppm := observed\<rparr> else t
                    else t);
               steps = step_count (tl_step_ppm t) p;
               tot = clamp (wrap32 (tl_total t + steps)) (- TOTAL_MAX) TOTAL_MAX;
               applied = wrap32 (tot - tl_total t);
               t = t\<lparr>tl_last_ppm := p, tl_last_steps := applied\<rparr>
           in if applied = 0 then (t, None)
              else (t\<lparr>tl_total := wrap8 tot\<rparr>, Some (wrap8 tot)))"

section \<open>The quotient\<close>

lemma unat_exp_u32: "k < 32 \<Longrightarrow> unat ((2 :: u32) ^ k) = 2 ^ k"
  using unsigned_of_nat [of "2 ^ k", where ?'b = 32 and ?'a = nat] by (simp add: take_bit_nat_eq_self_iff)

lemma u32_or_exp:
  fixes q :: u32
  assumes "k < 32" "2 ^ Suc k dvd unat q"
  shows "unat (q OR 2 ^ k) = unat q + 2 ^ k"
proof -
  have nb: "\<not> bit (unat q) k"
  proof -
    obtain m where "unat q = 2 ^ Suc k * m" using assms(2) by auto
    then have "unat q div 2 ^ k = 2 * m" by simp
    then show ?thesis by (simp add: bit_iff_odd)
  qed
  have "unat ((2 :: u32) ^ k) = 2 ^ k"
    using assms(1) by (rule unat_exp_u32)
  then have "unat (q OR 2 ^ k) = unat q OR 2 ^ k" by (simp add: unsigned_or_eq)
  also have "\<dots> = unat q + 2 ^ k"
    by (rule disjunctive_add_eq_or [symmetric], rule bit_eqI) (use nb in \<open>auto simp: bit_and_iff bit_exp_iff\<close>)
  finally show ?thesis .
qed

lemma unat_half: "unat (drop_bit 1 (w :: u64)) = unat w div 2" "drop_bit 1 ((2 :: u32) ^ Suc k) = (if Suc k < 32 then 2 ^ k else 0)"
proof -
  show "unat (drop_bit 1 w) = unat w div 2" by (simp add: unat_div drop_bit_Suc)
  show "drop_bit 1 ((2 :: u32) ^ Suc k) = (if Suc k < 32 then 2 ^ k else 0)"
    by (rule bit_word_eqI) (auto simp: bit_simps)
qed

lemma ppm_loop_exact:
  assumes "0 < S" "k < 20" "unat dshift = S * 2 ^ k" "unat rem < S * 2 ^ Suc k" "2 ^ Suc k dvd unat q"
  shows "unat (ppm_loop (2 ^ k) rem dshift q) = unat q + unat rem div S"
  using assms(2-)
proof (induction k arbitrary: rem dshift q)
  case (0)
  have z: "ppm_loop 0 r d q = q" for r d q by (simp add: ppm_loop.simps)
  have le: "dshift \<le> rem \<longleftrightarrow> S \<le> unat rem" using 0 by (simp add: word_le_nat_alt)
  show ?case
  proof (cases "S \<le> unat rem")
    case True
    then have "unat rem div S = 1" using 0(3) assms(1) by (simp add: div_nat_eqI)
    then show ?thesis using True le 0(4) u32_or_exp [of 0 q] by (simp add: ppm_loop.simps [of 1] z)
  next
    case False
    then show ?thesis using le by (simp add: ppm_loop.simps [of 1] z)
  qed
next
  case (Suc k)
  define b :: u32 where "b = 2 ^ Suc k"
  have b: "b \<noteq> 0" "drop_bit 1 b = 2 ^ k"
    using Suc.prems(1) unat_exp_u32 [of "Suc k"] unat_half(2) [of k] by (auto simp: b_def)
  have le: "dshift \<le> rem \<longleftrightarrow> S * 2 ^ Suc k \<le> unat rem" using Suc.prems(2) by (simp add: word_le_nat_alt)
  have d: "unat (drop_bit 1 dshift) = S * 2 ^ k" using Suc.prems(2) by (simp only: unat_half) simp
  show ?case
  proof (cases "S * 2 ^ Suc k \<le> unat rem")
    case True
    have r: "unat (rem - dshift) = unat rem - S * 2 ^ Suc k"
      using True le Suc.prems(2) by (metis unat_sub)
    then have rl: "unat (rem - dshift) < S * 2 ^ Suc k" using Suc.prems(3) by simp
    have q: "unat (q OR b) = unat q + 2 ^ Suc k"
      unfolding b_def using u32_or_exp [of "Suc k" q] Suc.prems(1,4) by simp
    have "2 ^ Suc k dvd unat q" using Suc.prems(4) by (rule dvd_trans [rotated]) simp
    then have dv: "2 ^ Suc k dvd unat (q OR b)" by (simp only: q) (rule dvd_add, simp_all)
    have "unat rem = 2 ^ Suc k * S + unat (rem - dshift)" using True r by (simp add: mult.commute)
    then have "unat rem div S = 2 ^ Suc k + unat (rem - dshift) div S" using assms(1) by simp
    then show ?thesis
      unfolding b_def [symmetric] ppm_loop.simps [of b] using Suc.IH [OF _ d rl dv] Suc.prems(1) q True le b by simp
  next
    case False
    have dv: "2 ^ Suc k dvd unat q" using Suc.prems(4) by (rule dvd_trans [rotated]) simp
    then show ?thesis
      unfolding b_def [symmetric] ppm_loop.simps [of b] using Suc.IH [OF _ d _ dv, of rem] Suc.prems(1) False le b by simp
  qed
qed

lemma ucast_u32_u64: "unat (ucast (w :: u32) :: u64) = unat w"
proof -
  have "unat w < 2 ^ 32" by (rule order.strict_trans2 [OF unsigned_less]) simp
  then have "unat w < 2 ^ 64" by simp
  then show ?thesis by (simp add: unsigned_ucast_eq take_bit_nat_eq_self_iff)
qed

lemma unat_push_u64: "unat (w :: u64) * 2 ^ n < 2 ^ 64 \<Longrightarrow> unat (push_bit n w) = unat w * 2 ^ n"
  unfolding unsigned_push_bit_eq by (simp add: push_bit_eq_mult take_bit_nat_eq_self_iff)

lemma ppm_numerator: "i32_ok err \<Longrightarrow> unat ((ucast (unsigned_abs32 err) :: u64) * 1000000) = nat \<bar>err\<bar> * 1000000"
proof -
  assume e: "i32_ok err"
  then have "nat \<bar>err\<bar> \<le> 2147483648" by (auto simp: i32_ok_def)
  then have "nat \<bar>err\<bar> * 1000000 < 2 ^ 64" by simp
  then show ?thesis using e
    by (simp add: unat_word_ariths ucast_u32_u64 unat_unsigned_abs32)
qed

lemma sint_small: "unat (q :: u32) < 2147483648 \<Longrightarrow> sint q = int (unat q)"
proof -
  assume h: "unat q < 2147483648"
  have u: "uint q = int (unat q)" by simp
  have "int (unat q) < int 2147483648" using h by (simp only: of_nat_less_iff)
  then have b: "uint q < 2147483648" unfolding u by simp
  moreover have "- 2147483648 \<le> uint q" using unsigned_greater_eq [of q, where ?'a = int] by linarith
  ultimately have "sint q = uint q" unfolding sint_uint using signed_take_bit_int_eq_self [of 31 "uint q"] by simp
  then show ?thesis by simp
qed

lemma ppm_exact_abs:
  assumes "i32_ok err" "span \<noteq> 0" "nat \<bar>err\<bar> \<le> unat span"
  defines "e \<equiv> nat \<bar>err\<bar>"
  shows "ppm err span = (if err < 0 then - int (e * 1000000 div unat span) else int (e * 1000000 div unat span))"
    and "e * 1000000 div unat span \<le> 1000000"
proof -
  define S where "S = unat span"
  have S: "0 < S" "S < 4294967296"
    using assms(2) unsigned_less [of span, where ?'a = nat] by (simp_all add: S_def unat_gt_0)
  have e: "e \<le> S" using assms(3) by (simp add: e_def S_def)
  then have "e * 1000000 \<le> S * 1000000" by simp
  then have q: "e * 1000000 div S \<le> 1000000" using S(1) by (metis div_le_mono nonzero_mult_div_cancel_left less_not_refl2)
  then show "e * 1000000 div unat span \<le> 1000000" by (simp add: S_def)
  define rem where "rem = (ucast (unsigned_abs32 err) :: u64) * 1000000"
  have rem: "unat rem = e * 1000000" unfolding rem_def e_def by (rule ppm_numerator [OF assms(1)])
  have p: "unat (push_bit 20 (ucast span :: u64)) = S * 2 ^ 20" "unat (push_bit 19 (ucast span :: u64)) = S * 2 ^ 19"
    using S by (simp_all add: unat_push_u64 ucast_u32_u64 S_def)
  have lt: "e * 1000000 < S * 2 ^ 20"
  proof -
    have "e * 1000000 \<le> S * 1000000" using e by simp
    also have "\<dots> < S * 2 ^ 20" using S(1) by simp
    finally show ?thesis .
  qed
  have nl: "\<not> push_bit 20 (ucast span) \<le> rem" using lt rem p(1) by (simp add: word_le_nat_alt)
  have "unat (ppm_loop (2 ^ 19) rem (push_bit 19 (ucast span)) 0) = unat (0 :: u32) + unat rem div S"
    by (rule ppm_loop_exact [OF S(1)]) (use p rem lt in simp_all)
  then have l: "unat (ppm_loop (push_bit 19 1) rem (push_bit 19 (ucast span)) 0) = e * 1000000 div S"
    by (simp add: rem push_bit_eq_mult)
  then have "sint (ppm_loop (push_bit 19 1) rem (push_bit 19 (ucast span)) 0) = int (e * 1000000 div S)"
    using q by (subst sint_small) simp_all
  then show "ppm err span = (if err < 0 then - int (e * 1000000 div unat span) else int (e * 1000000 div unat span))"
    using nl q by (simp add: ppm_def Let_def rem_def [symmetric] S_def [symmetric] i32_ok_def)
qed

text \<open>Property C38: inside its domain the division-free quotient is exact: for an error no larger than the span it is
  \<open>err * 1000000 / span\<close> truncated toward zero.\<close>

theorem ppm_exact:
  assumes "i32_ok err" "span \<noteq> 0" "\<bar>err\<bar> \<le> uint span"
  shows "ppm err span = tdiv (err * 1000000) (uint span)"
proof -
  have u: "uint span = int (unat span)" by simp
  have "nat \<bar>err\<bar> \<le> unat span" using assms(3) unfolding u by (simp only: nat_le_iff)
  note p = ppm_exact_abs(1) [OF assms(1,2) this]
  have s: "0 < uint span" using assms(2) by (simp add: word_neq_0_conv word_less_def)
  have d: "int (nat \<bar>err\<bar> * 1000000 div unat span) = \<bar>err\<bar> * 1000000 div uint span"
    by (simp add: zdiv_int)
  show ?thesis
  proof (cases "err < 0")
    case True
    then show ?thesis using p d s by (simp add: tdiv_neg)
  next
    case False
    then show ?thesis using p d s by (simp add: tdiv_pos)
  qed
qed

theorem ppm_exact_witness: "ppm (- 5) 480 = - 10416"
  using ppm_exact [of "- 5" 480] by (simp add: i32_ok_def tdiv_def)

section \<open>The stepped correction\<close>

lemma count_min4: "(\<Sum>k\<leftarrow>[0, 1, 2, 3 :: nat]. if Suc k \<le> x then 1 else 0) = int (min 4 x)"
proof -
  consider "x = 0" | "x = 1" | "x = 2" | "x = 3" | "4 \<le> x" by linarith
  then show ?thesis by cases auto
qed

lemma half_step_iff: "0 < d \<Longrightarrow> (2 * k + 1) * d \<le> t \<longleftrightarrow> Suc k \<le> (t + d) div (2 * d)" for d t k :: nat
  by (subst less_eq_div_iff_mult_less_eq) (auto simp: algebra_simps)

lemma step_count_abs:
  assumes "0 < d" "d \<le> 4000000" "\<bar>p\<bar> \<le> 1048576"
  shows "step_count d p = (if p < 0 then - 1 else 1) * int (min 4 ((2 * nat \<bar>p\<bar> + nat d) div (2 * nat d)))"
proof -
  define D where "D = (word_of_int d :: u32)"
  define T where "T = 2 * unsigned_abs32 p"
  have D: "unat D = nat d" using assms(1,2) by (simp add: D_def unsigned_of_int take_bit_int_eq_self flip: nat_uint_eq)
  have "i32_ok p" using assms(3) by (auto simp: i32_ok_def)
  from unat_unsigned_abs32 [OF this] have T: "unat T = 2 * nat \<bar>p\<bar>"
    using assms(3) by (simp add: T_def unat_word_ariths)
  have Dl: "unat D \<le> 4000000" "0 < unat D" using D assms by simp_all
  have m: "unat (1 * D) = (2 * 0 + 1) * nat d" "unat (3 * D) = (2 * 1 + 1) * nat d" "unat (5 * D) = (2 * 2 + 1) * nat d"
      "unat (7 * D) = (2 * 3 + 1) * nat d"
    using Dl D by (simp_all add: unat_word_ariths)
  have c: "1 * D \<le> T \<longleftrightarrow> Suc 0 \<le> (unat T + nat d) div (2 * nat d)" "3 * D \<le> T \<longleftrightarrow> Suc 1 \<le> (unat T + nat d) div (2 * nat d)"
      "5 * D \<le> T \<longleftrightarrow> Suc 2 \<le> (unat T + nat d) div (2 * nat d)" "7 * D \<le> T \<longleftrightarrow> Suc 3 \<le> (unat T + nat d) div (2 * nat d)"
    unfolding word_le_nat_alt m using assms(1) by (simp_all only: half_step_iff zero_less_nat_eq)
  define x where "x = (unat T + nat d) div (2 * nat d)"
  have "(\<Sum>k\<leftarrow>[0, 1, 2, 3 :: u32]. if T \<ge> (2 * k + 1) * D then 1 else 0) = (\<Sum>k\<leftarrow>[0, 1, 2, 3 :: nat]. if Suc k \<le> x then 1 else 0 :: int)"
    using c by (simp add: x_def)
  then show ?thesis
    unfolding step_count_def Let_def D_def [symmetric] T_def [symmetric] count_min4 by (simp add: x_def T)
qed

lemma step_count_bound: "\<bar>step_count d p\<bar> \<le> 4"
  by (simp add: step_count_def Let_def)

lemma on_window_eq:
  assumes "\<bar>tl_total t\<bar> \<le> 15" "TrimLoop_on_window t err span = (t', r)" "span \<noteq> 0"
  shows "\<exists>s. tl_total t' = clamp (tl_total t + step_count s (ppm err span)) (- 15) 15
    \<and> (s = tl_step_ppm t \<or> tl_last_steps t \<noteq> 0 \<and> 800 \<le> s \<and> s \<le> 4000) \<and> tl_step_ppm t' = s \<and> tl_last_ppm t' = ppm err span
    \<and> tl_last_steps t' = tl_total t' - tl_total t
    \<and> r = (if tl_total t' = tl_total t then None else Some (tl_total t'))"
proof -
  define p where "p = ppm err span"
  define ob where "ob = observed_step (wrap32 (tl_last_ppm t - p)) (tl_last_steps t)"
  define s where "s = (if tl_last_steps t \<noteq> 0 \<and> 800 \<le> ob \<and> ob \<le> 4000 then ob else tl_step_ppm t)"
  define c where "c = clamp (tl_total t + step_count s p) (- 15) 15"
  have b: "\<bar>step_count s p\<bar> \<le> 4" by (rule step_count_bound)
  have cb: "- 15 \<le> c" "c \<le> 15" using clamp_bounds [of "- 15" 15] by (simp_all add: c_def)
  have "i32_ok (tl_total t + step_count s p)" "i32_ok (c - tl_total t)"
    by (rule i32_okI; use b cb assms(1) in linarith)+
  then have w: "wrap32 (tl_total t + step_count s p) = tl_total t + step_count s p" "wrap32 (c - tl_total t) = c - tl_total t"
      "wrap8 c = c"
    using cb by simp_all
  have ts: "(if tl_last_steps t \<noteq> 0 then if STEP_PPM_MIN \<le> ob \<and> ob \<le> STEP_PPM_MAX then t\<lparr>tl_step_ppm := ob\<rparr> else t else t)
      = t\<lparr>tl_step_ppm := s\<rparr>"
    by (simp add: s_def STEP_PPM_MIN_def STEP_PPM_MAX_def)
  have "(t', r) = (let t1 = t\<lparr>tl_step_ppm := s, tl_last_ppm := p, tl_last_steps := c - tl_total t\<rparr>
     in if c - tl_total t = 0 then (t1, None) else (t1\<lparr>tl_total := c\<rparr>, Some c))"
    using assms(2,3) w unfolding TrimLoop_on_window_def Let_def p_def [symmetric] ob_def [symmetric] ts
    by (cases "c = tl_total t") (simp_all add: TOTAL_MAX_def flip: c_def)
  then have "tl_total t' = c" "tl_step_ppm t' = s" "tl_last_ppm t' = p" "tl_last_steps t' = c - tl_total t"
      "r = (if c = tl_total t then None else Some c)"
    by (auto simp: Let_def split: if_splits)
  then show ?thesis by (intro exI [of _ s]) (auto simp: c_def p_def s_def)
qed

lemma on_window_bounds:
  assumes "\<bar>tl_total t\<bar> \<le> 15" "TrimLoop_on_window t err span = (t', r)"
  shows "\<bar>tl_total t'\<bar> \<le> 15 \<and> \<bar>tl_total t' - tl_total t\<bar> \<le> 4
    \<and> r = (if tl_total t' = tl_total t then None else Some (tl_total t'))
    \<and> (span \<noteq> 0 \<longrightarrow> tl_last_steps t' = tl_total t' - tl_total t)"
proof (cases "span = 0")
  case True
  then show ?thesis using assms by (auto simp: TrimLoop_on_window_def)
next
  case False
  obtain s where s: "tl_total t' = clamp (tl_total t + step_count s (ppm err span)) (- 15) 15"
      "tl_last_steps t' = tl_total t' - tl_total t" "r = (if tl_total t' = tl_total t then None else Some (tl_total t'))"
    using on_window_eq [OF assms False] by blast
  have "\<bar>step_count s (ppm err span)\<bar> \<le> 4" by (rule step_count_bound)
  with s(1) assms(1) have "\<bar>tl_total t'\<bar> \<le> 15 \<and> \<bar>tl_total t' - tl_total t\<bar> \<le> 4" by (auto simp: clamp_def)
  with s show ?thesis by blast
qed

lemma trim_total_bound:
  "\<bar>tl_total t\<bar> \<le> 15 \<Longrightarrow> TrimLoop_on_window t err span = (t', r) \<Longrightarrow> \<bar>tl_total t'\<bar> \<le> 15"
  using on_window_bounds by blast

text \<open>The trim loop stays on its rails and says what it did.  Whatever window it is fed, the accumulated trim stays
  within 15 steps and moves by at most 4; it answers with the new total exactly when that changed,
  and remembers the correction that was really applied.\<close>

lemma trim_window_bounds:
  assumes "\<bar>tl_total t\<bar> \<le> 15" "TrimLoop_on_window t err span = (t', r)"
  shows "\<bar>tl_total t'\<bar> \<le> 15 \<and> \<bar>tl_total t' - tl_total t\<bar> \<le> 4
    \<and> r = (if tl_total t' = tl_total t then None else Some (tl_total t'))
    \<and> (span \<noteq> 0 \<longrightarrow> tl_last_steps t' = tl_total t' - tl_total t)"
  using assms by (rule on_window_bounds)

lemma trim_window_bounds_example:
  "\<bar>tl_total (fst (TrimLoop_on_window (TrimLoop_new 2500) 30 480))\<bar> \<le> 15"
  using trim_window_bounds [of "TrimLoop_new 2500" 30 480 "fst (TrimLoop_on_window (TrimLoop_new 2500) 30 480)"
      "snd (TrimLoop_on_window (TrimLoop_new 2500) 30 480)"] by (simp add: TrimLoop_new_def)

text \<open>A correction is the measured error rounded to the nearest step.  For an error inside the span the number of
  steps is \<open>ppm / step_ppm\<close> rounded half away from zero and cut at 4, so when it is not cut the
  residual error is at most half a step.\<close>

lemma trim_step_rounds:
  assumes "0 < d" "d \<le> 4000000" "\<bar>p\<bar> \<le> 1000000"
  shows "\<bar>step_count d p\<bar> = min 4 ((2 * \<bar>p\<bar> + d) div (2 * d)) \<and> 0 \<le> p * step_count d p
    \<and> (2 * \<bar>p\<bar> < 9 * d \<longrightarrow> 2 * \<bar>p - step_count d p * d\<bar> \<le> d)"
proof -
  define x where "x = (2 * \<bar>p\<bar> + d) div (2 * d)"
  have x: "int ((2 * nat \<bar>p\<bar> + nat d) div (2 * nat d)) = x" using assms(1) by (simp add: x_def zdiv_int)
  have x0: "0 \<le> x" using assms(1) by (simp add: x_def pos_imp_zdiv_nonneg_iff)
  have s: "step_count d p = (if p < 0 then - 1 else 1) * min 4 x"
    using step_count_abs [OF assms(1,2), of p] assms(3) x by (simp add: of_nat_min)
  have a: "\<bar>step_count d p\<bar> = min 4 x" using s x0 by simp
  have q: "0 \<le> p * step_count d p" using s x0 by (simp add: zero_le_mult_iff mult_le_0_iff)
  have "2 * \<bar>p - step_count d p * d\<bar> \<le> d" if h: "2 * \<bar>p\<bar> < 9 * d"
  proof -
    have l: "x * (2 * d) \<le> 2 * \<bar>p\<bar> + d" "2 * \<bar>p\<bar> + d < x * (2 * d) + 2 * d"
      using div_mult_mod_eq [of "2 * \<bar>p\<bar> + d" "2 * d"] pos_mod_bound [of "2 * d" "2 * \<bar>p\<bar> + d"]
        pos_mod_sign [of "2 * d" "2 * \<bar>p\<bar> + d"] assms(1) unfolding x_def [symmetric] by linarith+
    then have r: "2 * \<bar>\<bar>p\<bar> - x * d\<bar> \<le> d" by (simp add: algebra_simps abs_if split: if_splits)
    have "x * (2 * d) < 5 * (2 * d)" using l(1) h by linarith
    then have "x < 5" using assms(1) by (simp add: mult_less_cancel_right)
    then have "step_count d p * d = (if p < 0 then - (x * d) else x * d)" using s by simp
    then show ?thesis using r by (auto simp: abs_if split: if_splits)
  qed
  with a q show ?thesis by (simp add: x_def)
qed

lemma trim_step_rounds_example: "2 * \<bar>6000 - step_count 2500 6000 * 2500\<bar> \<le> (2500 :: int)"
  using trim_step_rounds [of 2500 6000] by simp

end
