(* ===== verification/Clock.thy ===== *)
theory Clock
  imports Framer Trim
begin

text \<open>
  The clock-discipline driver (\<open>drivers/src/bus/clock.rs\<close>): the CAL break train, the differential drift tracker, and the
  hand-off of completed measurements to the trim loop.  The bench probe calls are not modelled:
  they write counters nothing reads.
\<close>

definition TRIM_GATE_SHIFT :: nat where "TRIM_GATE_SHIFT = 4"
definition CAL_WATCHDOG_GAPS :: u32 where "CAL_WATCHDOG_GAPS = 2"
definition DRIFT_BASELINE_PAIRS :: u8 where "DRIFT_BASELINE_PAIRS = 32"
definition DRIFT_WINDOW_PAIRS :: u8 where "DRIFT_WINDOW_PAIRS = 128"
definition DRIFT_SANITY_PPM :: u32 where "DRIFT_SANITY_PPM = 8000"

record CalRun =
  cr_gap_ticks :: u32
  cr_gaps_left :: u8
  cr_total :: u8
  cr_valid :: u8
  cr_last_break :: u32
  cr_cursor :: u16
  cr_err :: int
  cr_span :: u32

datatype VerifiedSpan = VerifiedSpan_None | VerifiedSpan_One u16 bool | VerifiedSpan_Many

record ClockTracker =
  ck_pending_cal :: "(u16 \<times> u8) option"
  ck_cal :: "CalRun option"
  ck_cal_ready :: bool
  ck_drift_prev :: "(u32 \<times> u16) option"
  ck_drift_seen :: VerifiedSpan
  ck_drift_base :: "int option"
  ck_drift_base_err :: int
  ck_drift_base_n :: u8
  ck_drift_win_err :: int
  ck_drift_win_span :: u32
  ck_drift_win_n :: u8
  ck_drift_ready :: bool
  ck_cadence_err :: int
  ck_cadence_span :: u32
  ck_trim :: TrimLoop

definition ClockTracker_new :: "u32 \<Rightarrow> ClockTracker" where
  "ClockTracker_new step_ppm =
     \<lparr>ck_pending_cal = None, ck_cal = None, ck_cal_ready = False, ck_drift_prev = None,
      ck_drift_seen = VerifiedSpan_None, ck_drift_base = None, ck_drift_base_err = 0, ck_drift_base_n = 0,
      ck_drift_win_err = 0, ck_drift_win_span = 0, ck_drift_win_n = 0, ck_drift_ready = False,
      ck_cadence_err = 0, ck_cadence_span = 0, ck_trim = TrimLoop_new step_ppm\<rparr>"

definition ClockTracker_cal_active :: "ClockTracker \<Rightarrow> bool" where
  "ClockTracker_cal_active c \<longleftrightarrow> ck_cal c \<noteq> None \<or> ck_pending_cal c \<noteq> None"

definition ClockTracker_restart :: "ClockTracker \<Rightarrow> ClockTracker" where
  "ClockTracker_restart c = c\<lparr>ck_drift_prev := None, ck_drift_seen := VerifiedSpan_None, ck_drift_base := None,
     ck_drift_base_err := 0, ck_drift_base_n := 0, ck_drift_win_err := 0, ck_drift_win_span := 0,
     ck_drift_win_n := 0, ck_drift_ready := False\<rparr>"

definition cal_watchdog_at :: "u32 \<Rightarrow> u32 \<Rightarrow> u32" where
  "cal_watchdog_at now gap_ticks = now + gap_ticks * CAL_WATCHDOG_GAPS"

text \<open>One ruler mark on a live train.\<close>

definition CalRun_mark :: "CalRun \<Rightarrow> u32 \<Rightarrow> u16 \<Rightarrow> CalRun" where
  "CalRun_mark cal now cursor =
     (let delta = now - cr_last_break cal;
          err = sint (delta - cr_gap_ticks cal);
          cal = cal\<lparr>cr_cursor := cursor, cr_last_break := now\<rparr>;
          cal = (if unsigned_abs32 err \<le> drop_bit TRIM_GATE_SHIFT (cr_gap_ticks cal)
                 then cal\<lparr>cr_err := wrap32 (cr_err cal + err), cr_span := cr_span cal + cr_gap_ticks cal,
                          cr_valid := cr_valid cal + 1\<rparr>
                 else cal)
      in cal\<lparr>cr_gaps_left := (if cr_gaps_left cal = 0 then 0 else cr_gaps_left cal - 1)\<rparr>)"

definition ClockTracker_on_cal_break :: "ClockTracker \<Rightarrow> u32 \<Rightarrow> u16 \<Rightarrow> u32 \<Rightarrow> ClockTracker \<times> u32 option" where
  "ClockTracker_on_cal_break c now cursor ticks_per_us =
     (case ck_pending_cal c of
        Some (gap_us, gaps) \<Rightarrow>
          let c = ClockTracker_restart (c\<lparr>ck_pending_cal := None\<rparr>);
              gap_ticks = ucast gap_us * ticks_per_us
          in (c\<lparr>ck_cal := Some \<lparr>cr_gap_ticks = gap_ticks, cr_gaps_left = gaps, cr_total = gaps, cr_valid = 0,
                                 cr_last_break = now, cr_cursor = cursor, cr_err = 0, cr_span = 0\<rparr>\<rparr>,
              Some (cal_watchdog_at now gap_ticks))
      | None \<Rightarrow>
        (case ck_cal c of
           None \<Rightarrow> (c, None)
         | Some cal \<Rightarrow>
           if cursor = cr_cursor cal then (c, None)
           else let cal = CalRun_mark cal now cursor
                in if cr_gaps_left cal \<noteq> 0
                   then (c\<lparr>ck_cal := Some cal\<rparr>, Some (cal_watchdog_at now (cr_gap_ticks cal)))
                   else let c = c\<lparr>ck_cal := None\<rparr>;
                            c = (if (ucast (cr_valid cal) :: u32) * 2 \<ge> ucast (cr_total cal)
                                 then c\<lparr>ck_cadence_err := cr_err cal, ck_cadence_span := cr_span cal, ck_cal_ready := True\<rparr>
                                 else c)
                        in (c, Some now)))"

definition ClockTracker_abandon_cal :: "ClockTracker \<Rightarrow> ClockTracker" where
  "ClockTracker_abandon_cal c = c\<lparr>ck_cal := None, ck_pending_cal := None\<rparr>"

definition saturating_add32 :: "u32 \<Rightarrow> u32 \<Rightarrow> u32" where
  "saturating_add32 a b = (if unat a + unat b < 2 ^ 32 then a + b else 0xFFFFFFFF)"

text \<open>An accepted chain pair enters the baseline or the current window.\<close>

definition ClockTracker_pair :: "ClockTracker \<Rightarrow> int \<Rightarrow> u32 \<Rightarrow> ClockTracker" where
  "ClockTracker_pair c err span =
     (case ck_drift_base c of
        None \<Rightarrow>
          let c = c\<lparr>ck_drift_base_err := wrap32 (ck_drift_base_err c + err), ck_drift_base_n := ck_drift_base_n c + 1\<rparr>
          in if ck_drift_base_n c \<ge> DRIFT_BASELINE_PAIRS
             then c\<lparr>ck_drift_base := Some (tdiv (ck_drift_base_err c) (uint DRIFT_BASELINE_PAIRS))\<rparr> else c
      | Some base \<Rightarrow>
          let c = c\<lparr>ck_drift_win_err := wrap32 (ck_drift_win_err c + wrap32 (err - base)),
                    ck_drift_win_span := saturating_add32 (ck_drift_win_span c) span,
                    ck_drift_win_n := ck_drift_win_n c + 1\<rparr>
          in if ck_drift_win_n c \<ge> DRIFT_WINDOW_PAIRS
             then let c = (if \<not> ck_cal_ready c \<and> \<not> ck_drift_ready c
                           then c\<lparr>ck_cadence_err := ck_drift_win_err c, ck_cadence_span := ck_drift_win_span c,
                                  ck_drift_ready := True\<rparr>
                           else c)
                  in c\<lparr>ck_drift_win_err := 0, ck_drift_win_span := 0, ck_drift_win_n := 0\<rparr>
             else c)"

definition ClockTracker_on_drift_break :: "ClockTracker \<Rightarrow> u32 \<Rightarrow> u16 \<Rightarrow> nat \<Rightarrow> u32 \<Rightarrow> ClockTracker" where
  "ClockTracker_on_drift_break c now cursor len tpb =
     (let prev = ck_drift_prev c;
          seen = ck_drift_seen c;
          c = c\<lparr>ck_drift_prev := Some (now, cursor), ck_drift_seen := VerifiedSpan_None\<rparr>
      in case prev of
           None \<Rightarrow> c
         | Some (t1, c1) \<Rightarrow>
           (case seen of
              VerifiedSpan_One fp True \<Rightarrow>
                if len = 0 \<or> (of_nat (ring_wrap (unat cursor + len - unat c1) len) :: u16) \<noteq> fp then c
                else let span = ucast fp * tpb;
                         err = sint (now - t1 - span)
                     in if unsigned_abs32 err > drop_bit TRIM_GATE_SHIFT span then c
                        else ClockTracker_pair c err span
            | _ \<Rightarrow> c))"

definition ClockTracker_pair_open :: "ClockTracker \<Rightarrow> bool" where
  "ClockTracker_pair_open c \<longleftrightarrow> ck_drift_seen c = VerifiedSpan_None"

definition ClockTracker_note_verified :: "ClockTracker \<Rightarrow> u16 \<Rightarrow> bool \<Rightarrow> ClockTracker" where
  "ClockTracker_note_verified c fp silent =
     c\<lparr>ck_drift_seen := (case ck_drift_seen c of VerifiedSpan_None \<Rightarrow> VerifiedSpan_One fp silent | _ \<Rightarrow> VerifiedSpan_Many)\<rparr>"

definition ClockTracker_poll :: "ClockTracker \<Rightarrow> ClockTracker \<times> int option" where
  "ClockTracker_poll c =
     (if ck_cal_ready c then
        let err = ck_cadence_err c; span = ck_cadence_span c;
            c = ClockTracker_restart (c\<lparr>ck_cal_ready := False, ck_cadence_err := 0, ck_cadence_span := 0\<rparr>);
            (t, r) = TrimLoop_on_window (ck_trim c) err span
        in (c\<lparr>ck_trim := t\<rparr>, r)
      else if \<not> ck_drift_ready c then (c, None)
      else
        let err = ck_cadence_err c; span = ck_cadence_span c;
            c = c\<lparr>ck_drift_ready := False, ck_cadence_err := 0, ck_cadence_span := 0\<rparr>
        in if span = 0 then (c, None)
           else if (ucast (unsigned_abs32 err) :: u64) * 1000000 \<ge> (ucast DRIFT_SANITY_PPM + 1) * ucast span then (c, None)
           else let (t, out) = TrimLoop_on_window (ck_trim c) err span;
                    c = c\<lparr>ck_trim := t\<rparr>
                in (if out \<noteq> None then ClockTracker_restart c else c, out))"

section \<open>Measurements stay in the domain of the trim loop\<close>

definition cal_ok :: "CalRun \<Rightarrow> bool" where
  "cal_ok r \<longleftrightarrow> unat (cr_gap_ticks r) \<le> 16776960 \<and> unat (cr_valid r) + unat (cr_gaps_left r) \<le> 255
     \<and> (cr_gaps_left r = 0 \<longrightarrow> cr_valid r = 0)
     \<and> unat (cr_span r) = unat (cr_valid r) * unat (cr_gap_ticks r)
     \<and> 16 * \<bar>cr_err r\<bar> \<le> int (unat (cr_valid r) * unat (cr_gap_ticks r))"

definition clock_ok :: "ClockTracker \<Rightarrow> bool" where
  "clock_ok c \<longleftrightarrow> (\<forall>r. ck_cal c = Some r \<longrightarrow> cal_ok r)
     \<and> i32_ok (ck_cadence_err c) \<and> i32_ok (ck_drift_win_err c)
     \<and> (ck_cal_ready c \<longrightarrow> 16 * \<bar>ck_cadence_err c\<bar> \<le> uint (ck_cadence_span c))
     \<and> \<bar>tl_total (ck_trim c)\<bar> \<le> 15"

lemma sint_i32_ok [simp]: "i32_ok (sint (w :: u32))"
  using sint_ge [of w] sint_lt [of w] by (simp add: i32_ok_def)

lemma i32_of_sixteenth: "16 * \<bar>x\<bar> \<le> k \<Longrightarrow> k \<le> 4294967296 \<Longrightarrow> i32_ok x"
  by (rule i32_okI) linarith+

lemma gate_bound:
  assumes "unsigned_abs32 err \<le> drop_bit TRIM_GATE_SHIFT g" "i32_ok err"
  shows "16 * \<bar>err\<bar> \<le> int (unat g)"
proof -
  have "unat g < 2 ^ 32" by (rule order.strict_trans2 [OF unsigned_less]) simp
  then have "take_bit 32 (unat g) = unat g" by (simp add: take_bit_nat_eq_self)
  then have "nat \<bar>err\<bar> \<le> unat g div 16"
    using assms(1) unfolding word_le_nat_alt unat_unsigned_abs32 [OF assms(2)] TRIM_GATE_SHIFT_def unsigned_drop_bit_eq
    by (simp add: drop_bit_eq_div)
  then have "16 * nat \<bar>err\<bar> \<le> unat g" by linarith
  then have "int (16 * nat \<bar>err\<bar>) \<le> int (unat g)" by (simp only: of_nat_le_iff)
  then show ?thesis by simp
qed

lemma mark_span:
  assumes "cal_ok r" "cr_gaps_left r \<noteq> 0 \<or> cr_valid r = 0"
  shows "unat (cr_span r + cr_gap_ticks r) = (unat (cr_valid r) + 1) * unat (cr_gap_ticks r)"
    and "unat (cr_valid r + 1) = unat (cr_valid r) + 1"
proof -
  have "unat (cr_valid r) + unat (cr_gaps_left r) \<le> 255" using assms(1) by (simp add: cal_ok_def)
  moreover have "0 < unat (cr_gaps_left r) \<or> unat (cr_valid r) = 0" using assms(2) by (auto simp: unat_gt_0)
  ultimately have v: "unat (cr_valid r) < 255" by linarith
  then show "unat (cr_valid r + 1) = unat (cr_valid r) + 1" by (simp add: unat_word_ariths)
  have "(unat (cr_valid r) + 1) * unat (cr_gap_ticks r) \<le> 255 * 16776960"
    using v assms(1) by (intro mult_mono) (simp_all add: cal_ok_def)
  then show "unat (cr_span r + cr_gap_ticks r) = (unat (cr_valid r) + 1) * unat (cr_gap_ticks r)"
    using assms(1) by (simp add: unat_word_ariths cal_ok_def)
qed

text \<open>A mark keeps the measurement: what it adds is within a sixteenth of the gap.\<close>

lemma mark_measures:
  fixes now :: u32 and cursor :: u16
  assumes "cal_ok r"
  defines "r' \<equiv> CalRun_mark r now cursor"
  shows "cr_gap_ticks r' = cr_gap_ticks r \<and> unat (cr_valid r') \<le> unat (cr_valid r) + 1
    \<and> unat (cr_gaps_left r') = unat (cr_gaps_left r) - 1 \<and> unat (cr_valid r') \<le> 255
    \<and> unat (cr_span r') = unat (cr_valid r') * unat (cr_gap_ticks r)
    \<and> 16 * \<bar>cr_err r'\<bar> \<le> int (unat (cr_valid r') * unat (cr_gap_ticks r))"
proof -
  define err where "err = sint (now - cr_last_break r - cr_gap_ticks r)"
  have gl: "cr_gaps_left r \<noteq> 0 \<Longrightarrow> unat (cr_gaps_left r - 1) = unat (cr_gaps_left r) - Suc 0"
    using unat_minus_one [of "cr_gaps_left r"] by simp
  have d: "cr_gaps_left r \<noteq> 0 \<or> cr_valid r = 0" using assms(1) by (auto simp: cal_ok_def)
  show ?thesis
  proof (cases "unsigned_abs32 err \<le> drop_bit TRIM_GATE_SHIFT (cr_gap_ticks r)")
    case True
    have e: "16 * \<bar>err\<bar> \<le> int (unat (cr_gap_ticks r))" by (rule gate_bound [OF True]) (simp add: err_def)
    have v: "unat (cr_valid r) \<le> 254" using mark_span(2) [OF assms(1) d] unsigned_less [of "cr_valid r + 1", where ?'a = nat] by simp
    have "16 * \<bar>cr_err r + err\<bar> \<le> 16 * \<bar>cr_err r\<bar> + 16 * \<bar>err\<bar>"
      using mult_left_mono [OF abs_triangle_ineq [of "cr_err r" err], of 16] by (simp add: distrib_left)
    also have "\<dots> \<le> int (unat (cr_valid r) * unat (cr_gap_ticks r)) + int (unat (cr_gap_ticks r))"
      using e assms(1) by (simp add: cal_ok_def)
    finally have b: "16 * \<bar>cr_err r + err\<bar> \<le> int ((unat (cr_valid r) + 1) * unat (cr_gap_ticks r))" by (simp add: algebra_simps)
    have "(unat (cr_valid r) + 1) * unat (cr_gap_ticks r) \<le> 255 * 16776960"
      using v assms(1) by (intro mult_mono) (simp_all add: cal_ok_def)
    then have "int ((unat (cr_valid r) + 1) * unat (cr_gap_ticks r)) \<le> 4278124800" by linarith
    then have "i32_ok (cr_err r + err)" by (intro i32_of_sixteenth [OF b]) linarith
    then show ?thesis
      using True b v mark_span [OF assms(1) d] gl unfolding r'_def CalRun_mark_def Let_def err_def [symmetric] by simp
  next
    case False
    then show ?thesis
      using assms(1) gl unfolding r'_def CalRun_mark_def Let_def err_def [symmetric] by (simp add: cal_ok_def)
  qed
qed

lemma mark_ok: "cal_ok r \<Longrightarrow> cr_gaps_left (CalRun_mark r now cursor) \<noteq> 0 \<Longrightarrow> cal_ok (CalRun_mark r now cursor)"
proof -
  assume h: "cal_ok r" "cr_gaps_left (CalRun_mark r now cursor) \<noteq> 0"
  have "0 < unat (cr_gaps_left (CalRun_mark r now cursor))" using h(2) by (simp add: unat_gt_0)
  then show ?thesis using h mark_measures [OF h(1), of now cursor] unfolding cal_ok_def by auto
qed

lemma cal_break_ok:
  assumes "clock_ok c" "unat tpu \<le> 256"
  shows "clock_ok (fst (ClockTracker_on_cal_break c now cursor tpu))"
proof (cases "ck_pending_cal c")
  case (Some p)
  obtain gap_us gaps where p: "p = (gap_us, gaps)" by (cases p)
  have g: "unat gap_us * unat tpu \<le> 65535 * 256"
    using assms(2) unsigned_less [of gap_us, where ?'a = nat] by (intro mult_mono) simp_all
  then have "unat (ucast gap_us * tpu) = unat gap_us * unat tpu"
    by (simp add: unat_word_ariths unat_ucast_16_32)
  then have "unat (ucast gap_us * tpu) \<le> 16776960" using g by simp
  moreover have "unat gaps \<le> 255" using unsigned_less [of gaps, where ?'a = nat] by simp
  ultimately have "cal_ok \<lparr>cr_gap_ticks = ucast gap_us * tpu, cr_gaps_left = gaps, cr_total = gaps, cr_valid = 0,
      cr_last_break = now, cr_cursor = cursor, cr_err = 0, cr_span = 0\<rparr>"
    by (simp add: cal_ok_def)
  then show ?thesis
    using assms(1) Some p by (simp add: ClockTracker_on_cal_break_def Let_def clock_ok_def ClockTracker_restart_def i32_okI)
next
  case None
  show ?thesis
  proof (cases "ck_cal c")
    case (Some r)
    then have r: "cal_ok r" using assms(1) by (simp add: clock_ok_def)
    define r' where "r' = CalRun_mark r now cursor"
    have m: "unat (cr_valid r') \<le> 255" "unat (cr_span r') = unat (cr_valid r') * unat (cr_gap_ticks r)"
      "16 * \<bar>cr_err r'\<bar> \<le> int (unat (cr_valid r') * unat (cr_gap_ticks r))"
      using mark_measures [OF r, of now cursor] by (simp_all add: r'_def)
    have s: "16 * \<bar>cr_err r'\<bar> \<le> uint (cr_span r')" using m(3) unfolding m(2) [symmetric] by simp
    moreover have "uint (cr_span r') < 4294967296" using unsigned_less [of "cr_span r'", where ?'a = int] by simp
    ultimately have i: "i32_ok (cr_err r')" by (intro i32_of_sixteenth [OF s]) linarith
    have k: "cr_gaps_left r' \<noteq> 0 \<Longrightarrow> cal_ok r'" unfolding r'_def by (rule mark_ok [OF r])
    show ?thesis
      using assms(1) None Some s i k
      by (simp add: ClockTracker_on_cal_break_def Let_def clock_ok_def flip: r'_def)
  qed (use assms(1) None in \<open>simp add: ClockTracker_on_cal_break_def\<close>)
qed

lemma pair_ok: "clock_ok c \<Longrightarrow> clock_ok (ClockTracker_pair c err span)"
  by (auto simp: ClockTracker_pair_def clock_ok_def Let_def i32_okI split: option.split)

lemma drift_break_ok: "clock_ok c \<Longrightarrow> clock_ok (ClockTracker_on_drift_break c now cursor len tpb)"
proof -
  assume h: "clock_ok c"
  define c' where "c' = c\<lparr>ck_drift_prev := Some (now, cursor), ck_drift_seen := VerifiedSpan_None\<rparr>"
  have "clock_ok c'" using h by (simp add: clock_ok_def c'_def)
  then show ?thesis using pair_ok [of c']
    by (auto simp: ClockTracker_on_drift_break_def Let_def c'_def [symmetric] split: option.split VerifiedSpan.split bool.split)
qed

lemma restart_ok: "clock_ok c \<Longrightarrow> clock_ok (ClockTracker_restart c)"
  by (simp add: clock_ok_def ClockTracker_restart_def i32_okI)

text \<open>What a poll hands to the trim loop is always a window the quotient is exact on.\<close>

lemma poll_feeds:
  assumes "clock_ok c" "ClockTracker_poll c = (c', r)"
  shows "ck_trim c' = ck_trim c \<and> r = None
    \<or> (\<exists>err span. TrimLoop_on_window (ck_trim c) err span = (ck_trim c', r) \<and> i32_ok err \<and> \<bar>err\<bar> \<le> uint span)"
proof (cases "ck_cal_ready c")
  case True
  have "16 * \<bar>ck_cadence_err c\<bar> \<le> uint (ck_cadence_span c)" using True assms(1) by (simp add: clock_ok_def)
  then have b: "\<bar>ck_cadence_err c\<bar> \<le> uint (ck_cadence_span c)" by linarith
  have "TrimLoop_on_window (ck_trim c) (ck_cadence_err c) (ck_cadence_span c) = (ck_trim c', r)"
    using True assms(2) by (auto simp: ClockTracker_poll_def Let_def ClockTracker_restart_def split: prod.splits)
  then show ?thesis using b assms(1) by (auto simp: clock_ok_def)
next
  case nc: False
  define err where "err = ck_cadence_err c"
  define span where "span = ck_cadence_span c"
  have i: "i32_ok err" using assms(1) by (simp add: clock_ok_def err_def)
  consider (idle) "ck_trim c' = ck_trim c" "r = None"
    | (fed) "TrimLoop_on_window (ck_trim c) err span = (ck_trim c', r)"
        "\<not> (ucast DRIFT_SANITY_PPM + 1) * ucast span \<le> (ucast (unsigned_abs32 err) :: u64) * 1000000"
    using assms(2) nc unfolding ClockTracker_poll_def Let_def err_def [symmetric] span_def [symmetric]
    by (auto simp: ClockTracker_restart_def split: if_splits prod.splits)
  then show ?thesis
  proof cases
    case fed
    have s: "unat span < 4294967296" using unsigned_less [of span, where ?'a = nat] by simp
    have "unat ((ucast DRIFT_SANITY_PPM + 1) * ucast span :: u64) = 8001 * unat span"
      using s by (simp add: DRIFT_SANITY_PPM_def unat_word_ariths ucast_u32_u64)
    then have "nat \<bar>err\<bar> * 1000000 < 8001 * unat span"
      using fed(2) ppm_numerator [OF i] by (simp add: word_le_nat_alt not_le)
    then have "nat \<bar>err\<bar> \<le> unat span" by linarith
    then have "int (nat \<bar>err\<bar>) \<le> int (unat span)" by (simp only: of_nat_le_iff)
    then have "\<bar>err\<bar> \<le> uint span" by simp
    with fed(1) i show ?thesis by blast
  qed simp
qed

lemma poll_ok: "clock_ok c \<Longrightarrow> clock_ok (fst (ClockTracker_poll c))"
proof -
  assume h: "clock_ok c"
  obtain c' r where p: "ClockTracker_poll c = (c', r)" by fastforce
  have "\<bar>tl_total (ck_trim c')\<bar> \<le> 15"
    using poll_feeds [OF h p] trim_total_bound h by (auto simp: clock_ok_def)
  moreover have "(\<forall>r. ck_cal c' = Some r \<longrightarrow> cal_ok r) \<and> i32_ok (ck_cadence_err c') \<and> i32_ok (ck_drift_win_err c')
     \<and> (ck_cal_ready c' \<longrightarrow> 16 * \<bar>ck_cadence_err c'\<bar> \<le> uint (ck_cadence_span c'))"
    using h p by (auto simp: ClockTracker_poll_def Let_def clock_ok_def ClockTracker_restart_def i32_okI split: if_splits prod.splits)
  ultimately show ?thesis by (simp add: p clock_ok_def)
qed

section \<open>Reachable states\<close>

text \<open>Everything the composite does to the tracker, in any order, at any ticks.\<close>

inductive clock_reach :: "u32 \<Rightarrow> ClockTracker \<Rightarrow> bool" for tpu :: u32 where
  boot: "clock_reach tpu (ClockTracker_new step_ppm)"
| announce: "clock_reach tpu c \<Longrightarrow> clock_reach tpu (c\<lparr>ck_pending_cal := Some (gap_us, gaps)\<rparr>)"
| cal_break: "clock_reach tpu c \<Longrightarrow> clock_reach tpu (fst (ClockTracker_on_cal_break c now cursor tpu))"
| abandon: "clock_reach tpu c \<Longrightarrow> clock_reach tpu (ClockTracker_abandon_cal c)"
| drift_break: "clock_reach tpu c \<Longrightarrow> clock_reach tpu (ClockTracker_on_drift_break c now cursor len tpb)"
| verified: "clock_reach tpu c \<Longrightarrow> clock_reach tpu (ClockTracker_note_verified c fp silent)"
| rate_change: "clock_reach tpu c \<Longrightarrow> clock_reach tpu (ClockTracker_restart c)"
| poll: "clock_reach tpu c \<Longrightarrow> clock_reach tpu (fst (ClockTracker_poll c))"

lemma clock_reach_ok: "clock_reach tpu c \<Longrightarrow> unat tpu \<le> 256 \<Longrightarrow> clock_ok c"
proof (induction rule: clock_reach.induct)
  case (boot step_ppm)
  then show ?case by (simp add: clock_ok_def ClockTracker_new_def TrimLoop_new_def i32_okI)
next
  case (announce c gap_us gaps)
  then show ?case by (simp add: clock_ok_def)
next
  case (abandon c)
  then show ?case by (simp add: clock_ok_def ClockTracker_abandon_cal_def)
next
  case (verified c fp silent)
  then show ?case by (simp add: clock_ok_def ClockTracker_note_verified_def)
qed (simp_all add: cal_break_ok drift_break_ok restart_ok poll_ok)

text \<open>Property C39: every window the clock tracker hands to the trim loop is one the quotient is exact on, in every state the
  composite can bring it to, for any sequence of breaks, frames, announcements and polls: either a
  poll leaves the trim alone, or it feeds an error no larger than its span, and the trim total stays within 15 steps.\<close>

theorem clock_windows_in_domain:
  assumes "clock_reach tpu c" "unat tpu \<le> 256" "ClockTracker_poll c = (c', r)"
  shows "\<bar>tl_total (ck_trim c')\<bar> \<le> 15 \<and> (ck_trim c' = ck_trim c \<and> r = None
    \<or> (\<exists>err span. TrimLoop_on_window (ck_trim c) err span = (ck_trim c', r) \<and> i32_ok err \<and> \<bar>err\<bar> \<le> uint span))"
proof -
  have ok: "clock_ok c" by (rule clock_reach_ok [OF assms(1,2)])
  then have "\<bar>tl_total (ck_trim c')\<bar> \<le> 15" using poll_ok [OF ok] assms(3) by (simp add: clock_ok_def)
  with poll_feeds [OF ok assms(3)] show ?thesis by blast
qed

theorem clock_windows_in_domain_witness:
  "\<exists>c c'. clock_reach 48 c \<and> ClockTracker_poll c = (c', Some 2) \<and> \<bar>tl_total (ck_trim c')\<bar> \<le> 15"
proof -
  define c0 where "c0 = (ClockTracker_new 2500)\<lparr>ck_pending_cal := Some (100, 1)\<rparr>"
  define c1 where "c1 = fst (ClockTracker_on_cal_break c0 1000 5 48)"
  define c2 where "c2 = fst (ClockTracker_on_cal_break c1 5824 6 48)"
  have r: "clock_reach 48 c2" unfolding c2_def c1_def c0_def by (intro clock_reach.intros)
  have "snd (ClockTracker_poll c2) = Some 2" unfolding c2_def c1_def c0_def by code_simp
  then have p: "ClockTracker_poll c2 = (fst (ClockTracker_poll c2), Some 2)" by (simp add: prod_eq_iff)
  show ?thesis using clock_windows_in_domain [OF r _ p] r p by auto
qed

end
