(* ===== verification/Tx.thy ===== *)
theory Tx
  imports Reply Framer
begin

text \<open>
  The status-reply TX engine (\<open>drivers/src/bus/tx.rs\<close>) with the two hardware roles it drives
  (\<open>drivers/src/traits/bus.rs\<close>): the CRC engine, whose provider is a parameter of the model with the trait's
  contract as the locale \<open>crc_engine\<close>, and the half-duplex wire, modelled by the log of calls made on it (as
  \<open>drivers/src/mocks/bus.rs\<close> records them).  The software engine of \<open>mocks/bus.rs\<close> interprets the contract.

  An address in the engine's snapshot buffer is a \<open>nat\<close>; a read behind it goes through the engine's memory.
  The outer \<open>None\<close> is a panic, a failed assertion of the provider or a read outside the snapshot buffer.
  The \<open>debug_assert\<close>s are not part of the release image and are not modelled.
\<close>

section \<open>The CRC engine and its contract\<close>

record 'c CrcEngine =
  crc_reset :: "'c \<Rightarrow> 'c"
  crc_feed :: "'c \<Rightarrow> bytes \<Rightarrow> 'c option"
  crc_snapshot :: "'c \<Rightarrow> u16 \<Rightarrow> bytes \<Rightarrow> ('c \<times> nat) option"
  crc_result :: "'c \<Rightarrow> 'c \<times> u16 option"
  crc_mem :: "'c \<Rightarrow> nat \<Rightarrow> u8 option"

definition read_mem_at :: "'c CrcEngine \<Rightarrow> 'c \<Rightarrow> nat \<Rightarrow> nat \<Rightarrow> bytes option" where
  "read_mem_at ce c a n = those (map (\<lambda>i. crc_mem ce c (a + i)) [0..<n])"

text \<open>\<open>FakeCrc\<close> of the driver's mocks: a software accumulator with an immediate result.\<close>

record FakeCrc =
  fc_state :: u16
  fc_snap :: bytes

definition FakeCrc_new :: FakeCrc where
  "FakeCrc_new = \<lparr>fc_state = 0, fc_snap = []\<rparr>"

definition FakeCrc_reset :: "FakeCrc \<Rightarrow> FakeCrc" where
  "FakeCrc_reset c = c\<lparr>fc_state := 0\<rparr>"

definition FakeCrc_feed :: "FakeCrc \<Rightarrow> bytes \<Rightarrow> FakeCrc option" where
  "FakeCrc_feed c span =
     (if length span mod 2 = 0 then Some (c\<lparr>fc_state := osc_crc_continue (fc_state c) span\<rparr>) else None)"

definition FakeCrc_snapshot :: "FakeCrc \<Rightarrow> u16 \<Rightarrow> bytes \<Rightarrow> (FakeCrc \<times> nat) option" where
  "FakeCrc_snapshot c off src =
     (let off = unat off;
          snap = (if length (fc_snap c) < off + length src
                  then fc_snap c @ replicate (off + length src - length (fc_snap c)) 0 else fc_snap c)
      in do { snap \<leftarrow> copy_slice snap off (off + length src) src;
              Some (c\<lparr>fc_snap := snap\<rparr>, off) })"

definition FakeCrc_result :: "FakeCrc \<Rightarrow> FakeCrc \<times> u16 option" where
  "FakeCrc_result c = (c, Some (fc_state c))"

definition FakeCrc_engine :: "FakeCrc CrcEngine" where
  "FakeCrc_engine = \<lparr>crc_reset = FakeCrc_reset, crc_feed = FakeCrc_feed, crc_snapshot = FakeCrc_snapshot,
     crc_result = FakeCrc_result, crc_mem = (\<lambda>c. nth_opt (fc_snap c))\<rparr>"

section \<open>The engine's state\<close>

definition REPLY_BUF :: nat where "REPLY_BUF = 16"
definition SMALL_COPY_MAX :: nat where "SMALL_COPY_MAX = 2"

datatype SendError = SendError_Busy | SendError_Overflow

datatype TxOut = TxOut_Armed | TxOut_Released

text \<open>A descriptor of one DMA arm or CRC feed; the pointer of \<open>Ext\<close> is \<open>None\<close> when null.\<close>

datatype Arm = Arm_Buf u16 u16 | Arm_Ext "nat option" u16

definition NO_ARM :: Arm where "NO_ARM = Arm_Buf 0 0"

datatype TxState = TxState_Idle | TxState_Staged "u8 option" | TxState_Streaming u8

text \<open>The byte the even-length feeds leave: in the frame buffer or in the snapshot.\<close>

datatype TailPtr = Tail_Buf nat | Tail_Ext nat

datatype WireEvent = WireEvent_Start | WireEvent_Send bytes | WireEvent_Release

record TxEngine =
  tx_wire :: "WireEvent list"
  tx_buf :: FrameBuf
  tx_arms :: "Arm list"
  tx_n_arms :: u8
  tx_feeds :: "Arm list"
  tx_n_feeds :: u8
  tx_crc_off :: u16
  tx_state :: TxState
  tx_result :: ResultCode
  tx_tail :: "TailPtr option"
  tx_alert :: bool
  tx_crc_misses :: u32

definition TxEngine_new :: "WireEvent list \<Rightarrow> TxEngine" where
  "TxEngine_new wire =
     \<lparr>tx_wire = wire, tx_buf = \<lparr>buf_bytes = replicate REPLY_BUF 0\<rparr>, tx_arms = replicate 4 NO_ARM, tx_n_arms = 0,
      tx_feeds = replicate 3 NO_ARM, tx_n_feeds = 0, tx_crc_off = 0, tx_state = TxState_Idle,
      tx_result = ResultCode_Ok, tx_tail = None, tx_alert = False, tx_crc_misses = 0\<rparr>"

definition TxEngine_busy :: "TxEngine \<Rightarrow> bool" where
  "TxEngine_busy t \<longleftrightarrow> tx_state t \<noteq> TxState_Idle"

definition TxEngine_staged :: "TxEngine \<Rightarrow> bool" where
  "TxEngine_staged t \<longleftrightarrow> (case tx_state t of TxState_Staged _ \<Rightarrow> True | _ \<Rightarrow> False)"

definition TxEngine_slot_key :: "TxEngine \<Rightarrow> u8 option" where
  "TxEngine_slot_key t = (case tx_state t of TxState_Staged k \<Rightarrow> k | _ \<Rightarrow> None)"

definition TxEngine_collision_tolerant :: "TxEngine \<Rightarrow> bool" where
  "TxEngine_collision_tolerant t \<longleftrightarrow> TxEngine_slot_key t \<noteq> None"

definition TxEngine_mark_collision_tolerant :: "TxEngine \<Rightarrow> u8 \<Rightarrow> TxEngine" where
  "TxEngine_mark_collision_tolerant t key =
     (case tx_state t of TxState_Staged _ \<Rightarrow> t\<lparr>tx_state := TxState_Staged (Some key)\<rparr> | _ \<Rightarrow> t)"

definition TxEngine_streaming :: "TxEngine \<Rightarrow> bool" where
  "TxEngine_streaming t \<longleftrightarrow> (case tx_state t of TxState_Streaming _ \<Rightarrow> True | _ \<Rightarrow> False)"

section \<open>Staging\<close>

text \<open>The small path's payload writer: each span behind the previous one.\<close>

fun gather_copy :: "bytes list \<Rightarrow> nat \<Rightarrow> bytes \<Rightarrow> bytes option" where
  "gather_copy [] at pay = Some pay"
| "gather_copy (s # spans) at pay =
     do { pay \<leftarrow> copy_slice pay at (at + length s) s; gather_copy spans (at + length s) pay }"

text \<open>The streaming path's copy into the engine's snapshot, each nonempty span at its cumulative offset.\<close>

fun gather_snapshot :: "'c CrcEngine \<Rightarrow> bytes list \<Rightarrow> 'c \<Rightarrow> u16 \<Rightarrow> nat option \<Rightarrow> ('c \<times> nat option) option" where
  "gather_snapshot ce [] c off ptr = Some (c, ptr)"
| "gather_snapshot ce (s # spans) c off ptr =
     (if s = [] then gather_snapshot ce spans c off ptr
      else do { (c, dst) \<leftarrow> crc_snapshot ce c off s;
                gather_snapshot ce spans c (off + of_nat (length s)) (if off = 0 then Some dst else ptr) })"

definition stage_small :: "TxEngine \<Rightarrow> u8 \<Rightarrow> u8 \<Rightarrow> u8 \<Rightarrow> bytes list \<Rightarrow> TxEngine option" where
  "stage_small t own inst p spans =
     do { b \<leftarrow> FrameBuf_start (tx_buf t) own inst;
          b \<leftarrow> FrameBuf_payload_mut b (gather_copy spans 0);
          b \<leftarrow> FrameBuf_finish b p;
          let cov = covered_len (len_for p);
              bulk = cov - cov mod 2
          in Some (t\<lparr>tx_buf := b,
                     tx_arms := (tx_arms t)[0 := Arm_Buf 1 (of_nat (cov - 1)), 1 := Arm_Buf (of_nat cov) 2],
                     tx_n_arms := 2,
                     tx_feeds := (tx_feeds t)[0 := Arm_Buf 0 (of_nat bulk)],
                     tx_n_feeds := 1,
                     tx_tail := (if cov mod 2 = 1 then Some (Tail_Buf (cov - 1)) else None),
                     tx_crc_off := of_nat cov\<rparr>) }"

definition stage_stream :: "'c CrcEngine \<Rightarrow> TxEngine \<Rightarrow> 'c \<Rightarrow> u8 \<Rightarrow> u8 \<Rightarrow> u8 \<Rightarrow> bytes list \<Rightarrow> (TxEngine \<times> 'c) option" where
  "stage_stream ce t c own inst p spans =
     do { b \<leftarrow> put_at (buf_bytes (tx_buf t)) 0 ALIGN_BYTE;
          b \<leftarrow> put_at b 1 own;
          b \<leftarrow> put_at b 2 (len_for p);
          b \<leftarrow> put_at b 3 inst;
          (c, ptr) \<leftarrow> gather_snapshot ce spans c 0 None;
          tail \<leftarrow> (if p AND 1 = 1 then map_option (\<lambda>a. Some (Tail_Ext (a + unat p - 1))) ptr else Some None);
          Some (t\<lparr>tx_buf := \<lparr>buf_bytes = b\<rparr>,
                  tx_arms := (tx_arms t)[0 := Arm_Buf 1 3, 1 := Arm_Ext ptr (ucast p), 2 := Arm_Buf 4 2],
                  tx_n_arms := 3,
                  tx_feeds := (tx_feeds t)[0 := Arm_Buf 0 4, 1 := Arm_Ext ptr (ucast (p AND NOT 1))],
                  tx_n_feeds := 2,
                  tx_tail := tail,
                  tx_crc_off := 4\<rparr>, c) }"

definition TxEngine_stage_gather ::
  "'c CrcEngine \<Rightarrow> TxEngine \<Rightarrow> 'c \<Rightarrow> u8 \<Rightarrow> ResultCode \<Rightarrow> bool \<Rightarrow> bytes list \<Rightarrow> (TxEngine \<times> 'c \<times> (SendError + unit)) option" where
  "TxEngine_stage_gather ce t c own result alert spans =
     (if TxEngine_busy t then Some (t, c, Inl SendError_Busy)
      else let n = sum_list (map length spans)
      in if n > unat MAX_PAYLOAD then Some (t, c, Inl SendError_Overflow)
      else let p = of_nat n; inst = Inst_status result alert
      in do { (t, c) \<leftarrow> (if n \<le> SMALL_COPY_MAX
                         then map_option (\<lambda>t. (t, c)) (stage_small t own inst p spans)
                         else stage_stream ce t c own inst p spans);
              let off = unat (tx_crc_off t)
              in do { b \<leftarrow> copy_slice (buf_bytes (tx_buf t)) off (off + 2) [0, 0];
                      Some (t\<lparr>tx_buf := \<lparr>buf_bytes = b\<rparr>, tx_result := result, tx_alert := alert,
                              tx_state := TxState_Staged None\<rparr>, c, Inr ()) } })"

definition TxEngine_stage ::
  "'c CrcEngine \<Rightarrow> TxEngine \<Rightarrow> 'c \<Rightarrow> u8 \<Rightarrow> ResultCode \<Rightarrow> bool \<Rightarrow> bytes \<Rightarrow> (TxEngine \<times> 'c \<times> (SendError + unit)) option" where
  "TxEngine_stage ce t c own result alert data = TxEngine_stage_gather ce t c own result alert [data]"

section \<open>Streaming\<close>

definition resolve :: "'c CrcEngine \<Rightarrow> 'c \<Rightarrow> FrameBuf \<Rightarrow> Arm \<Rightarrow> bytes option" where
  "resolve ce c buf arm =
     (case arm of
        Arm_Buf off len \<Rightarrow> get_range (buf_bytes buf) (unat off) (unat off + unat len)
      | Arm_Ext ptr len \<Rightarrow> Option.bind ptr (\<lambda>a. read_mem_at ce c a (unat len)))"

definition wire_log :: "TxEngine \<Rightarrow> WireEvent list \<Rightarrow> TxEngine" where
  "wire_log t es = t\<lparr>tx_wire := tx_wire t @ es\<rparr>"

definition override_result :: "ResultCode option \<Rightarrow> ResultCode \<Rightarrow> ResultCode" where
  "override_result over r = (case over of Some x \<Rightarrow> x | None \<Rightarrow> r)"

definition TxEngine_trigger :: "'c CrcEngine \<Rightarrow> TxEngine \<Rightarrow> 'c \<Rightarrow> ResultCode option \<Rightarrow> (TxEngine \<times> 'c) option" where
  "TxEngine_trigger ce t c over =
     (if \<not> TxEngine_staged t then Some (t, c)
      else do { b \<leftarrow> put_at (buf_bytes (tx_buf t)) 3 (Inst_status (override_result over (tx_result t)) (tx_alert t));
                let t = t\<lparr>tx_buf := \<lparr>buf_bytes = b\<rparr>\<rparr>;
                    c = crc_reset ce c;
                    t = wire_log t [WireEvent_Start]
                in do { a \<leftarrow> Option.bind (nth_opt (tx_arms t) 0) (resolve ce c (tx_buf t));
                        let t = wire_log t [WireEvent_Send a]
                        in do { f \<leftarrow> Option.bind (nth_opt (tx_feeds t) 0) (resolve ce c (tx_buf t));
                                c \<leftarrow> crc_feed ce c f;
                                Some (t\<lparr>tx_state := TxState_Streaming 1\<rparr>, c) } } })"

text \<open>The bounded poll both CRC users run: the result, or \<open>None\<close> when the budget runs out.\<close>

fun poll_result :: "'c CrcEngine \<Rightarrow> nat \<Rightarrow> 'c \<Rightarrow> 'c \<times> u16 option" where
  "poll_result ce budget c =
     (case crc_result ce c of
        (c, Some v) \<Rightarrow> (c, Some v)
      | (c, None) \<Rightarrow> (case budget of 0 \<Rightarrow> (c, None) | Suc b \<Rightarrow> poll_result ce b c))"

declare poll_result.simps [simp del]

definition fold_tail :: "'c CrcEngine \<Rightarrow> 'c \<Rightarrow> FrameBuf \<Rightarrow> TailPtr option \<Rightarrow> u16 \<Rightarrow> u16 option" where
  "fold_tail ce c buf tail v =
     (case tail of
        None \<Rightarrow> Some v
      | Some (Tail_Buf i) \<Rightarrow> map_option (\<lambda>b. osc_crc_continue v [b]) (nth_opt (buf_bytes buf) i)
      | Some (Tail_Ext a) \<Rightarrow> map_option (\<lambda>b. osc_crc_continue v [b]) (crc_mem ce c a))"

definition TxEngine_patch_crc :: "'c CrcEngine \<Rightarrow> TxEngine \<Rightarrow> 'c \<Rightarrow> (TxEngine \<times> 'c) option" where
  "TxEngine_patch_crc ce t c =
     (let (c, value) = poll_result ce (unat SPIN_PER_BYTE) c
      in case value of
           Some v \<Rightarrow>
             do { v \<leftarrow> fold_tail ce c (tx_buf t) (tx_tail t) v;
                  let off = unat (tx_crc_off t)
                  in do { b \<leftarrow> copy_slice (buf_bytes (tx_buf t)) off (off + 2) (to_le16 v);
                          Some (t\<lparr>tx_buf := \<lparr>buf_bytes = b\<rparr>\<rparr>, c) } }
         | None \<Rightarrow> Some (t\<lparr>tx_crc_misses := tx_crc_misses t + 1\<rparr>, c))"

definition TxEngine_on_arm_complete :: "'c CrcEngine \<Rightarrow> TxEngine \<Rightarrow> 'c \<Rightarrow> (TxEngine \<times> 'c \<times> TxOut) option" where
  "TxEngine_on_arm_complete ce t c =
     (case tx_state t of
        TxState_Streaming next \<Rightarrow>
          (if next < tx_n_arms t then
             let i = unat next
             in do { (t, c) \<leftarrow> (if i < unat (tx_n_feeds t)
                               then do { f \<leftarrow> Option.bind (nth_opt (tx_feeds t) i) (resolve ce c (tx_buf t));
                                         c \<leftarrow> crc_feed ce c f;
                                         Some (t, c) }
                               else TxEngine_patch_crc ce t c);
                     a \<leftarrow> Option.bind (nth_opt (tx_arms t) i) (resolve ce c (tx_buf t));
                     Some ((wire_log t [WireEvent_Send a])\<lparr>tx_state := TxState_Streaming (next + 1)\<rparr>, c, TxOut_Armed) }
           else Some ((wire_log t [WireEvent_Release])\<lparr>tx_state := TxState_Idle\<rparr>, c, TxOut_Released))
      | _ \<Rightarrow> Some (t, c, TxOut_Released))"

definition TxEngine_abort :: "TxEngine \<Rightarrow> TxEngine" where
  "TxEngine_abort t =
     (if TxEngine_busy t then (wire_log t [WireEvent_Release])\<lparr>tx_state := TxState_Idle\<rparr> else t)"

section \<open>A whole reply\<close>

text \<open>The trigger followed by arm completions until the last one has been taken.\<close>

fun tx_run :: "'c CrcEngine \<Rightarrow> nat \<Rightarrow> TxEngine \<Rightarrow> 'c \<Rightarrow> (TxEngine \<times> 'c \<times> TxOut list) option" where
  "tx_run ce 0 t c = Some (t, c, [])"
| "tx_run ce (Suc k) t c =
     do { (t, c, r) \<leftarrow> TxEngine_on_arm_complete ce t c;
          (t, c, rs) \<leftarrow> tx_run ce k t c;
          Some (t, c, r # rs) }"

definition tx_transmit :: "'c CrcEngine \<Rightarrow> TxEngine \<Rightarrow> 'c \<Rightarrow> ResultCode option \<Rightarrow> (TxEngine \<times> 'c \<times> TxOut list) option" where
  "tx_transmit ce t c over =
     do { (t, c) \<leftarrow> TxEngine_trigger ce t c over; tx_run ce (unat (tx_n_arms t)) t c }"

definition tx_wf :: "TxEngine \<Rightarrow> bool" where
  "tx_wf t \<longleftrightarrow> length (buf_bytes (tx_buf t)) = 16 \<and> length (tx_arms t) = 4 \<and> length (tx_feeds t) = 3"

definition sent :: "TxEngine \<Rightarrow> TxEngine \<Rightarrow> bytes \<Rightarrow> bool" where
  "sent t t' bs \<longleftrightarrow> (\<exists>parts. tx_wire t' = tx_wire t @ WireEvent_Start # map WireEvent_Send parts @ [WireEvent_Release]
     \<and> concat parts = bs)"

text \<open>The trailing value: the CRC of the covered bytes, or the zero placeholder and a counted miss when the
  engine did not deliver within its polls.\<close>

definition crc_landed :: "'c CrcEngine \<Rightarrow> TxEngine \<Rightarrow> TxEngine \<Rightarrow> bytes \<Rightarrow> u16 \<Rightarrow> bool" where
  "crc_landed ce t t' cov v \<longleftrightarrow>
     v = osc_crc cov \<and> tx_crc_misses t' = tx_crc_misses t
     \<or> v = 0 \<and> tx_crc_misses t' = tx_crc_misses t + 1 \<and> (\<exists>c. snd (poll_result ce (unat SPIN_PER_BYTE) c) = None)"

section \<open>The contract of the engine\<close>

lemma tx_run_unroll:
  "tx_run ce 2 t c = do { (t, c, r) \<leftarrow> TxEngine_on_arm_complete ce t c; (t, c, q) \<leftarrow> TxEngine_on_arm_complete ce t c; Some (t, c, [r, q]) }"
  "tx_run ce 3 t c = do { (t, c, r) \<leftarrow> TxEngine_on_arm_complete ce t c; (t, c, q) \<leftarrow> TxEngine_on_arm_complete ce t c;
     (t, c, s) \<leftarrow> TxEngine_on_arm_complete ce t c; Some (t, c, [r, q, s]) }"
  by (simp_all add: eval_nat_numeral split_def)

text \<open>The two layouts \<open>stage\<close> leaves: the copied frame, and the header and tail around the snapshot.\<close>

definition staged_small :: "u8 \<Rightarrow> u8 \<Rightarrow> bytes \<Rightarrow> TxEngine \<Rightarrow> bool" where
  "staged_small own l pay t \<longleftrightarrow> (\<exists>i0 r ar fr.
     buf_bytes (tx_buf t) = [0, own, l, i0] @ pay @ [0, 0] @ r \<and> length pay \<le> 2
     \<and> tx_arms t = Arm_Buf 1 (of_nat (3 + length pay)) # Arm_Buf (of_nat (4 + length pay)) 2 # ar \<and> tx_n_arms t = 2
     \<and> tx_feeds t = Arm_Buf 0 (of_nat (4 + length pay - length pay mod 2)) # fr \<and> tx_n_feeds t = 1
     \<and> tx_tail t = (if odd (length pay) then Some (Tail_Buf (3 + length pay)) else None) \<and> tx_crc_off t = of_nat (4 + length pay))"

definition staged_stream :: "nat \<Rightarrow> u8 \<Rightarrow> u8 \<Rightarrow> bytes \<Rightarrow> TxEngine \<Rightarrow> bool" where
  "staged_stream base own l pay t \<longleftrightarrow> (\<exists>i0 r ar fr n m.
     buf_bytes (tx_buf t) = [0, own, l, i0, 0, 0] @ r \<and> pay \<noteq> []
     \<and> tx_arms t = Arm_Buf 1 3 # Arm_Ext (Some base) n # Arm_Buf 4 2 # ar \<and> unat n = length pay \<and> tx_n_arms t = 3
     \<and> tx_feeds t = Arm_Buf 0 4 # Arm_Ext (Some base) m # fr \<and> unat m = length pay - length pay mod 2 \<and> tx_n_feeds t = 2
     \<and> tx_tail t = (if odd (length pay) then Some (Tail_Ext (base + length pay - 1)) else None) \<and> tx_crc_off t = 4)"

definition keeps_tx :: "TxEngine \<Rightarrow> TxEngine \<Rightarrow> bool" where
  "keeps_tx t t1 \<longleftrightarrow> tx_wf t1 \<and> tx_wire t1 = tx_wire t \<and> tx_crc_misses t1 = tx_crc_misses t \<and> tx_state t1 = TxState_Staged None"

lemma gather_copy_eq:
  "length (concat spans) \<le> length pay \<Longrightarrow>
   gather_copy spans (length w) (w @ pay) = Some (w @ concat spans @ drop (length (concat spans)) pay)"
proof (induction spans arbitrary: w pay)
  case (Cons s spans)
  have "copy_slice (w @ take (length s) pay @ drop (length s) pay) (length w) (length w + length s) s
      = Some (w @ s @ drop (length s) pay)"
    by (rule copy_slice_append) (use Cons.prems in auto)
  then show ?case using Cons.IH [of "drop (length s) pay" "w @ s"] Cons.prems by (simp add: add.commute)
qed simp

lemma unat_and_1: "unat (p AND 1 :: u8) = unat p mod 2"
  by (simp add: and_one_eq unat_mod)

lemma and_1_iff: "(p :: u8) AND 1 = 1 \<longleftrightarrow> odd (unat p)"
  using unat_and_1 [of p] by (metis odd_iff_mod_2_eq_one unat_1 word_unat_eq_iff)

lemma unat_and_not_1: "unat (p AND NOT 1 :: u8) = unat p - unat p mod 2"
proof -
  have "p AND NOT 1 = p AND NOT (p AND 1)" by (simp add: bit.de_Morgan_conj bit.conj_disj_distrib)
  also have "\<dots> = p - (p AND 1)" by (rule disjunctive_diff [symmetric]) (simp add: bit_and_iff)
  finally show ?thesis using unat_sub [of "p AND 1" p] unat_and_1 [of p] by (simp add: word_le_nat_alt)
qed

lemma unat_ucast_8_16: "unat (ucast (p :: u8) :: u16) = unat p"
proof -
  have "unat p < 2 ^ 8" by (rule order.strict_trans2 [OF unsigned_less]) simp
  then have "unat p < 2 ^ 16" by simp
  then show ?thesis by (simp add: unsigned_ucast_eq take_bit_nat_eq_self_iff)
qed

lemma length_le_2: "length xs \<le> 2 \<Longrightarrow> xs = [] \<or> (\<exists>a. xs = [a]) \<or> (\<exists>a b. xs = [a, b])"
  by (auto simp: le_Suc_eq length_Suc_conv numeral_2_eq_2)

lemma those_map_Some: "those (map Some xs) = Some xs"
  by (induction xs) simp_all

text \<open>What \<open>traits/bus.rs\<close> promises of a provider: feeds of even length accumulate into the CRC until the reset, a
  snapshot stays readable at the address it was copied to and leaves the accumulator alone, and the result is
  the accumulated CRC or nothing while the engine is busy.\<close>

locale crc_engine =
  fixes ce :: "'c CrcEngine" and acc :: "'c \<Rightarrow> u16" and base :: nat
  assumes reset: "acc (crc_reset ce c) = 0" "crc_mem ce (crc_reset ce c) = crc_mem ce c"
    and feed: "even (length s) \<Longrightarrow>
      \<exists>c'. crc_feed ce c s = Some c' \<and> acc c' = osc_crc_continue (acc c) s \<and> crc_mem ce c' = crc_mem ce c"
    and snapshot: "unat off + length s \<le> 252 \<Longrightarrow>
      \<exists>c'. crc_snapshot ce c off s = Some (c', base + unat off) \<and> acc c' = acc c
        \<and> (\<forall>i<length s. crc_mem ce c' (base + unat off + i) = Some (s ! i))
        \<and> (\<forall>a b. a < base + unat off \<longrightarrow> crc_mem ce c a = Some b \<longrightarrow> crc_mem ce c' a = Some b)"
    and result: "crc_result ce c = (c', r) \<Longrightarrow> acc c' = acc c \<and> crc_mem ce c' = crc_mem ce c \<and> (r = None \<or> r = Some (acc c))"
begin

lemma poll:
  "poll_result ce n c = (c', r) \<Longrightarrow> acc c' = acc c \<and> crc_mem ce c' = crc_mem ce c \<and> (r = None \<or> r = Some (acc c))"
proof (induction n arbitrary: c)
  case 0
  then show ?case by (auto simp: poll_result.simps [of ce 0] split: prod.splits option.splits dest: result)
next
  case (Suc n)
  obtain c1 r1 where r1: "crc_result ce c = (c1, r1)" by fastforce
  show ?case
  proof (cases r1)
    case None
    then have "poll_result ce n c1 = (c', r)" using Suc.prems r1 by (simp add: poll_result.simps [of ce "Suc n"])
    from Suc.IH [OF this] result [OF r1] show ?thesis by simp
  next
    case (Some v)
    then show ?thesis using Suc.prems r1 result [OF r1] by (simp add: poll_result.simps [of ce "Suc n"])
  qed
qed

lemma gather:
  assumes "unat off + length (concat spans) \<le> 252"
  shows "\<exists>c'. gather_snapshot ce spans c off ptr = Some (c', if concat spans \<noteq> [] \<and> off = 0 then Some base else ptr)
    \<and> acc c' = acc c
    \<and> (\<forall>i<length (concat spans). crc_mem ce c' (base + unat off + i) = Some (concat spans ! i))
    \<and> (\<forall>a b. a < base + unat off \<longrightarrow> crc_mem ce c a = Some b \<longrightarrow> crc_mem ce c' a = Some b)"
  using assms
proof (induction spans arbitrary: c off ptr)
  case Nil
  then show ?case by simp
next
  case (Cons s spans)
  show ?case
  proof (cases "s = []")
    case True
    then show ?thesis using Cons.IH [of off c ptr] Cons.prems by simp
  next
    case False
    have l: "unat off + length s \<le> 252" using Cons.prems by simp
    then obtain c1 where c1: "crc_snapshot ce c off s = Some (c1, base + unat off)" "acc c1 = acc c"
      "\<And>i. i < length s \<Longrightarrow> crc_mem ce c1 (base + unat off + i) = Some (s ! i)"
      "\<And>a b. a < base + unat off \<Longrightarrow> crc_mem ce c a = Some b \<Longrightarrow> crc_mem ce c1 a = Some b"
      using snapshot [OF l, of c] by blast
    define off' where "off' = off + (of_nat (length s) :: u16)"
    have u: "unat off' = unat off + length s"
      using l by (simp add: off'_def unat_word_ariths unat_of_nat_small)
    have z: "off' \<noteq> 0" using u False by (metis add_is_0 length_0_conv unat_0)
    have "unat off' + length (concat spans) \<le> 252" using Cons.prems u by simp
    from Cons.IH [OF this, of c1 "if off = 0 then Some (base + unat off) else ptr"] z obtain c2 where
      c2: "gather_snapshot ce spans c1 off' (if off = 0 then Some (base + unat off) else ptr)
          = Some (c2, if off = 0 then Some (base + unat off) else ptr)" "acc c2 = acc c1"
      "\<And>i. i < length (concat spans) \<Longrightarrow> crc_mem ce c2 (base + unat off' + i) = Some (concat spans ! i)"
      "\<And>a b. a < base + unat off' \<Longrightarrow> crc_mem ce c1 a = Some b \<Longrightarrow> crc_mem ce c2 a = Some b"
      by auto
    have m: "crc_mem ce c2 (base + unat off + i) = Some ((s @ concat spans) ! i)" if "i < length (s @ concat spans)" for i
    proof (cases "i < length s")
      case True
      then show ?thesis using c1(3) [OF True] c2(4) u by (simp add: nth_append)
    next
      case F: False
      then show ?thesis using c2(3) [of "i - length s"] that u by (simp add: nth_append add.assoc)
    qed
    have f: "crc_mem ce c2 a = Some b" if "a < base + unat off" "crc_mem ce c a = Some b" for a b
      using c1(4) [OF that] c2(4) that(1) u by simp
    show ?thesis using False c1(1,2) c2(1,2) m f by (auto simp: off'_def)
  qed
qed

lemma read_mem:
  assumes "\<And>i. i < n \<Longrightarrow> crc_mem ce c (a + i) = Some (xs ! i)" "n \<le> length xs"
  shows "read_mem_at ce c a n = Some (take n xs)"
proof -
  have "map (\<lambda>i. crc_mem ce c (a + i)) [0..<n] = map Some (take n xs)"
    using assms by (intro nth_equalityI) auto
  then show ?thesis by (simp add: read_mem_at_def those_map_Some)
qed

lemma transmit_small:
  assumes st: "tx_state t = TxState_Staged k" "buf_bytes (tx_buf t) = [0, own, l, i0] @ pay @ [0, 0] @ r" "length pay \<le> 2"
    "tx_arms t = Arm_Buf 1 (of_nat (3 + length pay)) # Arm_Buf (of_nat (4 + length pay)) 2 # ar" "tx_n_arms t = 2"
    "tx_feeds t = Arm_Buf 0 (of_nat (4 + length pay - length pay mod 2)) # fr" "tx_n_feeds t = 1"
    "tx_tail t = (if odd (length pay) then Some (Tail_Buf (3 + length pay)) else None)" "tx_crc_off t = of_nat (4 + length pay)"
    and i: "i = Inst_status (override_result over (tx_result t)) (tx_alert t)"
  shows "\<exists>t' c' v. tx_transmit ce t c over = Some (t', c', [TxOut_Armed, TxOut_Released]) \<and> tx_state t' = TxState_Idle
    \<and> sent t t' ([own, l, i] @ pay @ to_le16 v) \<and> crc_landed ce t t' ([0, own, l, i] @ pay) v \<and> tx_wf t' = tx_wf t"
proof -
  define cov where "cov = [0, own, l, i] @ pay"
  define bulk where "bulk = take (4 + length pay - length pay mod 2) cov"
  define t0 where "t0 = t\<lparr>tx_buf := \<lparr>buf_bytes = cov @ [0, 0] @ r\<rparr>, tx_wire := tx_wire t @ [WireEvent_Start, WireEvent_Send ([own, l, i] @ pay)],
     tx_state := TxState_Streaming 1\<rparr>"
  have "even (length bulk)" by (simp add: bulk_def cov_def)
  then obtain c1 where c1: "crc_feed ce (crc_reset ce c) bulk = Some c1" "acc c1 = osc_crc_continue 0 bulk"
    using feed [of bulk "crc_reset ce c"] reset by auto
  obtain c2 rv where p: "poll_result ce (unat SPIN_PER_BYTE) c1 = (c2, rv)" by fastforce
  have ex: "pay = [] \<or> (\<exists>a. pay = [a]) \<or> (\<exists>a b. pay = [a, b])" using st(3) by (rule length_le_2)
  then have tr: "TxEngine_trigger ce t c over = Some (t0, c1)"
    by (elim disjE exE)
      (use st c1(1) in \<open>simp_all add: TxEngine_trigger_def TxEngine_staged_def put_at_def get_range_def resolve_def Let_def wire_log_def
          i [symmetric] t0_def cov_def bulk_def\<close>)
  have f: "fold_tail ce c2 \<lparr>buf_bytes = cov @ [0, 0] @ r\<rparr> (tx_tail t) (osc_crc_continue 0 bulk) = Some (osc_crc cov)"
    using ex by (elim disjE exE) (use st in \<open>simp_all add: fold_tail_def osc_crc_def cov_def bulk_def\<close>)
  have cs: "copy_slice (cov @ [0, 0] @ r) (unat (tx_crc_off t)) (unat (tx_crc_off t) + 2) (to_le16 v) = Some (cov @ to_le16 v @ r)" for v
    using ex by (intro copy_slice_append) (use st(3,9) in \<open>auto simp: cov_def\<close>)
  have gr: "resolve ce c2 \<lparr>buf_bytes = cov @ to_le16 v @ r\<rparr> (tx_arms t ! 1) = Some (to_le16 v)" for v
    using ex by (elim disjE exE) (use st in \<open>simp_all add: resolve_def get_range_def cov_def\<close>)
  show ?thesis
  proof (cases rv)
    case None
    define t' where "t' = t0\<lparr>tx_crc_misses := tx_crc_misses t + 1, tx_state := TxState_Idle,
      tx_wire := tx_wire t0 @ [WireEvent_Send (to_le16 0), WireEvent_Release]\<rparr>"
    have "tx_transmit ce t c over = Some (t', c2, [TxOut_Armed, TxOut_Released])"
      using tr p None gr [of 0] st by (simp add: tx_transmit_def t0_def t'_def TxEngine_on_arm_complete_def TxEngine_patch_crc_def
          wire_log_def tx_run_unroll to_le16_def)
    moreover have "sent t t' ([own, l, i] @ pay @ to_le16 0)"
      unfolding sent_def by (rule exI [of _ "[[own, l, i] @ pay, to_le16 0]"]) (simp add: t'_def t0_def)
    moreover have "crc_landed ce t t' ([0, own, l, i] @ pay) 0"
      using p None unfolding crc_landed_def by (auto simp: t'_def t0_def intro!: exI [of _ c1])
    moreover have "tx_wf t' = tx_wf t" using st(2) by (simp add: tx_wf_def t'_def t0_def cov_def)
    ultimately show ?thesis by (auto simp: t'_def)
  next
    case (Some v)
    define t' where "t' = t0\<lparr>tx_buf := \<lparr>buf_bytes = cov @ to_le16 (osc_crc cov) @ r\<rparr>, tx_state := TxState_Idle,
      tx_wire := tx_wire t0 @ [WireEvent_Send (to_le16 (osc_crc cov)), WireEvent_Release]\<rparr>"
    have v: "v = osc_crc_continue 0 bulk" using poll [OF p] c1(2) Some by simp
    have "tx_transmit ce t c over = Some (t', c2, [TxOut_Armed, TxOut_Released])"
      using tr p Some gr [of "osc_crc cov"] f cs st unfolding v
      by (simp add: tx_transmit_def t0_def t'_def TxEngine_on_arm_complete_def TxEngine_patch_crc_def
          wire_log_def tx_run_unroll Let_def)
    moreover have "sent t t' ([own, l, i] @ pay @ to_le16 (osc_crc cov))"
      unfolding sent_def by (rule exI [of _ "[[own, l, i] @ pay, to_le16 (osc_crc cov)]"]) (simp add: t'_def t0_def)
    moreover have "crc_landed ce t t' ([0, own, l, i] @ pay) (osc_crc cov)"
      by (simp add: crc_landed_def t'_def t0_def cov_def)
    moreover have "tx_wf t' = tx_wf t" using st(2) by (simp add: tx_wf_def t'_def t0_def cov_def)
    ultimately show ?thesis by (auto simp: t'_def)
  qed
qed

lemma transmit_stream:
  assumes st: "tx_state t = TxState_Staged k" "buf_bytes (tx_buf t) = [0, own, l, i0, 0, 0] @ r"
    "\<And>j. j < length pay \<Longrightarrow> crc_mem ce c (base + j) = Some (pay ! j)" "pay \<noteq> []"
    "tx_arms t = Arm_Buf 1 3 # Arm_Ext (Some base) n # Arm_Buf 4 2 # ar" "unat n = length pay" "tx_n_arms t = 3"
    "tx_feeds t = Arm_Buf 0 4 # Arm_Ext (Some base) m # fr" "unat m = length pay - length pay mod 2" "tx_n_feeds t = 2"
    "tx_tail t = (if odd (length pay) then Some (Tail_Ext (base + length pay - 1)) else None)" "tx_crc_off t = 4"
    and i: "i = Inst_status (override_result over (tx_result t)) (tx_alert t)"
  shows "\<exists>t' c' v. tx_transmit ce t c over = Some (t', c', [TxOut_Armed, TxOut_Armed, TxOut_Released]) \<and> tx_state t' = TxState_Idle
    \<and> sent t t' ([own, l, i] @ pay @ to_le16 v) \<and> crc_landed ce t t' ([0, own, l, i] @ pay) v \<and> tx_wf t' = tx_wf t"
proof -
  define bulk where "bulk = take (length pay - length pay mod 2) pay"
  define t0 where "t0 = t\<lparr>tx_buf := \<lparr>buf_bytes = [0, own, l, i, 0, 0] @ r\<rparr>,
     tx_wire := tx_wire t @ [WireEvent_Start, WireEvent_Send [own, l, i]], tx_state := TxState_Streaming 1\<rparr>"
  define t1 where "t1 = t0\<lparr>tx_wire := tx_wire t0 @ [WireEvent_Send pay], tx_state := TxState_Streaming 2\<rparr>"
  obtain c1 where c1: "crc_feed ce (crc_reset ce c) [0, own, l, i] = Some c1" "acc c1 = osc_crc_continue 0 [0, own, l, i]"
    "crc_mem ce c1 = crc_mem ce c" using feed [of "[0, own, l, i]" "crc_reset ce c"] reset by auto
  have "even (length bulk)" by (simp add: bulk_def)
  then obtain c2 where c2: "crc_feed ce c1 bulk = Some c2" "acc c2 = osc_crc_continue 0 ([0, own, l, i] @ bulk)"
    "crc_mem ce c2 = crc_mem ce c" using feed [of bulk c1] c1 by auto
  obtain c3 rv where p: "poll_result ce (unat SPIN_PER_BYTE) c2 = (c3, rv)" by fastforce
  have tr: "TxEngine_trigger ce t c over = Some (t0, c1)"
    using st c1(1) by (simp add: TxEngine_trigger_def TxEngine_staged_def put_at_def get_range_def resolve_def Let_def wire_log_def
          i [symmetric] t0_def)
  have "read_mem_at ce c1 base (unat m) = Some bulk" "read_mem_at ce c2 base (unat n) = Some pay"
    using read_mem [of "length pay - length pay mod 2" c1 base pay] read_mem [of "length pay" c2 base pay] st c1(3) c2(3)
    by (simp_all add: bulk_def)
  then have s1: "TxEngine_on_arm_complete ce t0 c1 = Some (t1, c2, TxOut_Armed)"
    using st c2(1) by (simp add: TxEngine_on_arm_complete_def t0_def t1_def resolve_def wire_log_def)
  have last: "odd (length pay) \<Longrightarrow> bulk @ [pay ! (length pay - 1)] = pay"
    using st(4) by (cases pay rule: rev_cases) (auto simp: bulk_def)
  have "fold_tail ce c3 b (tx_tail t) (acc c2) = Some (osc_crc ([0, own, l, i] @ pay))" for b
  proof (cases "odd (length pay)")
    case True
    have "crc_mem ce c3 (base + length pay - 1) = Some (pay ! (length pay - 1))"
      using st(3) [of "length pay - 1"] st(4) poll [OF p] c2(3) Nat.add_diff_assoc [of 1 "length pay" base] by (simp add: Suc_le_eq)
    moreover have "osc_crc_continue x pay = crc_update (osc_crc_continue x bulk) (pay ! (length pay - 1))" for x
      using osc_crc_continue_append [of x bulk "[pay ! (length pay - 1)]"] unfolding last [OF True] by simp
    ultimately show ?thesis using True st(11) c2(2) by (simp add: fold_tail_def osc_crc_def)
  next
    case False
    then show ?thesis using st(11) c2(2) by (simp add: fold_tail_def osc_crc_def bulk_def)
  qed
  then have f: "fold_tail ce c3 b (tx_tail t) (acc c2) = Some (osc_crc ([0, own, l, i] @ pay))" for b .
  show ?thesis
  proof (cases rv)
    case None
    define t' where "t' = t1\<lparr>tx_crc_misses := tx_crc_misses t + 1, tx_state := TxState_Idle,
      tx_wire := tx_wire t1 @ [WireEvent_Send [0, 0], WireEvent_Release]\<rparr>"
    define t2 where "t2 = t1\<lparr>tx_crc_misses := tx_crc_misses t + 1,
      tx_wire := tx_wire t1 @ [WireEvent_Send [0, 0]], tx_state := TxState_Streaming 3\<rparr>"
    have s2: "TxEngine_on_arm_complete ce t1 c2 = Some (t2, c3, TxOut_Armed)"
      using st p None by (simp add: TxEngine_on_arm_complete_def TxEngine_patch_crc_def t2_def t1_def t0_def wire_log_def resolve_def get_range_def)
    have s3: "TxEngine_on_arm_complete ce t2 c3 = Some (t', c3, TxOut_Released)"
      using st by (simp add: TxEngine_on_arm_complete_def t'_def t2_def t1_def t0_def wire_log_def)
    have "tx_n_arms t0 = 3" using st(7) by (simp add: t0_def)
    then have "tx_transmit ce t c over = Some (t', c3, [TxOut_Armed, TxOut_Armed, TxOut_Released])"
      using tr s1 s2 s3 by (simp add: tx_transmit_def tx_run_unroll)
    moreover have "sent t t' ([own, l, i] @ pay @ to_le16 0)"
      unfolding sent_def by (rule exI [of _ "[[own, l, i], pay, to_le16 0]"]) (simp add: t'_def t1_def t0_def to_le16_def)
    moreover have "crc_landed ce t t' ([0, own, l, i] @ pay) 0"
      using p None unfolding crc_landed_def by (auto simp: t'_def t1_def t0_def intro!: exI [of _ c2])
    moreover have "tx_wf t' = tx_wf t" using st(2) by (simp add: tx_wf_def t'_def t1_def t0_def)
    ultimately show ?thesis by (auto simp: t'_def)
  next
    case (Some v)
    define x where "x = osc_crc ([0, own, l, i] @ pay)"
    define t' where "t' = t1\<lparr>tx_buf := \<lparr>buf_bytes = [0, own, l, i] @ to_le16 x @ r\<rparr>, tx_state := TxState_Idle,
      tx_wire := tx_wire t1 @ [WireEvent_Send (to_le16 x), WireEvent_Release]\<rparr>"
    have v: "fold_tail ce c3 (tx_buf t1) (tx_tail t) v = Some x" using poll [OF p] Some f by (simp add: x_def)
    have cs: "copy_slice ([0, own, l, i, 0, 0] @ r) 4 6 (to_le16 x) = Some ([0, own, l, i] @ to_le16 x @ r)"
      using copy_slice_append [of "[0, 0]" "to_le16 x" 4 "[0, own, l, i]" 6 r] by simp
    define t2 where "t2 = t1\<lparr>tx_buf := \<lparr>buf_bytes = [0, own, l, i] @ to_le16 x @ r\<rparr>,
      tx_wire := tx_wire t1 @ [WireEvent_Send (to_le16 x)], tx_state := TxState_Streaming 3\<rparr>"
    have "TxEngine_patch_crc ce t1 c2 = Some (t1\<lparr>tx_buf := \<lparr>buf_bytes = [0, own, l, i] @ to_le16 x @ r\<rparr>\<rparr>, c3)"
      using p Some v cs st(11,12) by (simp add: TxEngine_patch_crc_def t1_def t0_def)
    then have s2: "TxEngine_on_arm_complete ce t1 c2 = Some (t2, c3, TxOut_Armed)"
      using st by (simp add: TxEngine_on_arm_complete_def t2_def t1_def t0_def wire_log_def resolve_def get_range_def)
    have s3: "TxEngine_on_arm_complete ce t2 c3 = Some (t', c3, TxOut_Released)"
      using st by (simp add: TxEngine_on_arm_complete_def t'_def t2_def t1_def t0_def wire_log_def)
    have "tx_n_arms t0 = 3" using st(7) by (simp add: t0_def)
    then have "tx_transmit ce t c over = Some (t', c3, [TxOut_Armed, TxOut_Armed, TxOut_Released])"
      using tr s1 s2 s3 by (simp add: tx_transmit_def tx_run_unroll)
    moreover have "sent t t' ([own, l, i] @ pay @ to_le16 x)"
      unfolding sent_def by (rule exI [of _ "[[own, l, i], pay, to_le16 x]"]) (simp add: t'_def t1_def t0_def)
    moreover have "crc_landed ce t t' ([0, own, l, i] @ pay) x"
      by (simp add: crc_landed_def t'_def t1_def t0_def x_def)
    moreover have "tx_wf t' = tx_wf t" using st(2) by (simp add: tx_wf_def t'_def t1_def t0_def)
    ultimately show ?thesis by (auto simp: t'_def)
  qed
qed

lemma stage_small_shape:
  assumes "tx_wf t" "\<not> TxEngine_busy t" "length (concat spans) \<le> 2"
  shows "\<exists>t1. TxEngine_stage_gather ce t c own result alert spans = Some (t1, c, Inr ())
    \<and> staged_small own (len_for (of_nat (length (concat spans)))) (concat spans) t1 \<and> keeps_tx t t1 \<and> tx_result t1 = result \<and> tx_alert t1 = alert"
proof -
  define pay where "pay = concat spans"
  define i where "i = Inst_status result alert"
  obtain h0 h1 h2 h3 m c0 c1 where b: "buf_bytes (tx_buf t) = h0 # h1 # h2 # h3 # m @ [c0, c1]" "length m = 10"
    using six_bytes [of "buf_bytes (tx_buf t)"] assms(1) by (auto simp: tx_wf_def)
  obtain a0 a1 a2 a3 where a: "tx_arms t = [a0, a1, a2, a3]"
    using assms(1) by (auto simp: tx_wf_def length_Suc_conv eval_nat_numeral)
  obtain f0 f1 f2 where f: "tx_feeds t = [f0, f1, f2]"
    using assms(1) by (auto simp: tx_wf_def length_Suc_conv eval_nat_numeral)
  have n: "length pay \<le> 2" using assms(3) by (simp add: pay_def)
  obtain x y r where xy: "drop (length pay) m @ [c0, c1] = [x, y] @ r" "length r = 10 - length pay"
  proof -
    have "2 \<le> length (drop (length pay) m @ [c0, c1])" using b n by simp
    then obtain x y r where "drop (length pay) m @ [c0, c1] = x # y # r"
      by (metis Suc_le_length_iff numeral_2_eq_2)
    moreover from arg_cong [OF this, of length] have "length r = 10 - length pay" using b n by simp
    ultimately show ?thesis using that by simp
  qed
  have u: "unat (of_nat (length pay) :: u8) = length pay" using n by (simp add: unat_of_nat)
  have cov: "covered_len (len_for (of_nat (length pay))) = 4 + length pay"
    using span_math [of "of_nat (length pay)"] u n by (simp add: MAX_PAYLOAD_def word_le_nat_alt)
  have st: "FrameBuf_start (tx_buf t) own i = Some \<lparr>buf_bytes = 0 # own # 0 # i # m @ [c0, c1]\<rparr>"
    by (rule FrameBuf_start_eq) (rule b)
  have gc: "gather_copy spans 0 m = Some (pay @ drop (length pay) m)"
    using gather_copy_eq [of spans m "[]"] b n by (simp add: pay_def)
  have pl: "FrameBuf_payload_mut \<lparr>buf_bytes = 0 # own # 0 # i # m @ [c0, c1]\<rparr> (gather_copy spans 0)
      = Some \<lparr>buf_bytes = 0 # own # 0 # i # (pay @ drop (length pay) m) @ [c0, c1]\<rparr>"
    by (rule FrameBuf_payload_eq) (use gc b n in simp_all)
  have bu: "0 # own # len_for (of_nat (length pay)) # i # (pay @ drop (length pay) m) @ [c0, c1]
      = ([0, own, len_for (of_nat (length pay)), i] @ pay) @ [x, y] @ r" using xy(1) by simp
  have cs: "copy_slice (([0, own, len_for (of_nat (length pay)), i] @ pay) @ [x, y] @ r) (4 + length pay) (4 + length pay + 2) [0, 0]
      = Some (([0, own, len_for (of_nat (length pay)), i] @ pay) @ [0, 0] @ r)"
    by (rule copy_slice_append) simp_all
  define t1 where "t1 = t\<lparr>tx_buf := \<lparr>buf_bytes = ([0, own, len_for (of_nat (length pay)), i] @ pay) @ [0, 0] @ r\<rparr>,
     tx_arms := [Arm_Buf 1 (of_nat (3 + length pay)), Arm_Buf (of_nat (4 + length pay)) 2, a2, a3], tx_n_arms := 2,
     tx_feeds := [Arm_Buf 0 (of_nat (4 + length pay - length pay mod 2)), f1, f2], tx_n_feeds := 1,
     tx_tail := (if odd (length pay) then Some (Tail_Buf (3 + length pay)) else None), tx_crc_off := of_nat (4 + length pay),
     tx_result := result, tx_alert := alert, tx_state := TxState_Staged None\<rparr>"
  have m4: "(4 + length pay) mod 2 = length pay mod 2" by presburger
  have "stage_small t own i (of_nat (length pay)) spans = Some (t1\<lparr>tx_buf := \<lparr>buf_bytes = ([0, own, len_for (of_nat (length pay)), i] @ pay) @ [x, y] @ r\<rparr>,
      tx_result := tx_result t, tx_alert := tx_alert t, tx_state := tx_state t\<rparr>)"
    unfolding stage_small_def st using pl m4
    by (simp add: FrameBuf_finish_eq cov Let_def a f t1_def xy(1) odd_iff_mod_2_eq_one)
  moreover have "unat (of_nat (4 + length pay) :: u16) = 4 + length pay" using n by (intro unat_of_nat_small) simp
  ultimately have "TxEngine_stage_gather ce t c own result alert spans = Some (t1, c, Inr ())"
    using assms(2) n cs by (simp add: TxEngine_stage_gather_def MAX_PAYLOAD_def SMALL_COPY_MAX_def Let_def pay_def
        length_concat [symmetric] i_def t1_def)
  moreover have "staged_small own (len_for (of_nat (length (concat spans)))) (concat spans) t1"
    using n by (simp add: staged_small_def t1_def pay_def)
  moreover have "keeps_tx t t1" using xy n by (simp add: keeps_tx_def t1_def tx_wf_def)
  ultimately show ?thesis by (auto simp: t1_def)
qed

lemma stage_stream_shape:
  assumes "tx_wf t" "\<not> TxEngine_busy t" "2 < length (concat spans)" "length (concat spans) \<le> 252"
  shows "\<exists>t1 c1. TxEngine_stage_gather ce t c own result alert spans = Some (t1, c1, Inr ()) \<and> acc c1 = acc c
    \<and> (\<forall>j<length (concat spans). crc_mem ce c1 (base + j) = Some (concat spans ! j))
    \<and> staged_stream base own (len_for (of_nat (length (concat spans)))) (concat spans) t1 \<and> keeps_tx t t1
    \<and> tx_result t1 = result \<and> tx_alert t1 = alert"
proof -
  define pay where "pay = concat spans"
  define i where "i = Inst_status result alert"
  define p where "p = (of_nat (length pay) :: u8)"
  obtain h0 h1 h2 h3 m c0 c1 where b0: "buf_bytes (tx_buf t) = h0 # h1 # h2 # h3 # m @ [c0, c1]" "length m = 10"
    using six_bytes [of "buf_bytes (tx_buf t)"] assms(1) by (auto simp: tx_wf_def)
  then obtain x y r where b: "buf_bytes (tx_buf t) = [h0, h1, h2, h3, x, y] @ r" "length r = 10"
    by (cases m; cases "tl m") auto
  obtain a0 a1 a2 a3 where a: "tx_arms t = [a0, a1, a2, a3]"
    using assms(1) by (auto simp: tx_wf_def length_Suc_conv eval_nat_numeral)
  obtain f0 f1 f2 where f: "tx_feeds t = [f0, f1, f2]"
    using assms(1) by (auto simp: tx_wf_def length_Suc_conv eval_nat_numeral)
  have n: "2 < length pay" "length pay \<le> 252" "pay \<noteq> []" using assms(3,4) by (auto simp: pay_def simp del: concat_eq_Nil_conv)
  have u: "unat p = length pay" using n by (simp add: p_def unat_of_nat)
  obtain c1 where g: "gather_snapshot ce spans c 0 None = Some (c1, Some base)" "acc c1 = acc c"
    "\<And>j. j < length pay \<Longrightarrow> crc_mem ce c1 (base + j) = Some (pay ! j)"
    using gather [of 0 spans c None] n unfolding pay_def by (auto simp del: concat_eq_Nil_conv)
  define t1 where "t1 = t\<lparr>tx_buf := \<lparr>buf_bytes = [0, own, len_for p, i, 0, 0] @ r\<rparr>,
     tx_arms := [Arm_Buf 1 3, Arm_Ext (Some base) (ucast p), Arm_Buf 4 2, a3], tx_n_arms := 3,
     tx_feeds := [Arm_Buf 0 4, Arm_Ext (Some base) (ucast (p AND NOT 1)), f2], tx_n_feeds := 2,
     tx_tail := (if odd (length pay) then Some (Tail_Ext (base + length pay - 1)) else None), tx_crc_off := 4,
     tx_result := result, tx_alert := alert, tx_state := TxState_Staged None\<rparr>"
  have o: "p AND 1 = 1 \<longleftrightarrow> odd (length pay)" using u by (simp add: and_1_iff)
  have "stage_stream ce t c own i p spans = Some (t1\<lparr>tx_buf := \<lparr>buf_bytes = [0, own, len_for p, i, x, y] @ r\<rparr>,
      tx_result := tx_result t, tx_alert := tx_alert t, tx_state := tx_state t\<rparr>, c1)"
    using g(1) b(1) o u by (simp add: stage_stream_def put_at_def ALIGN_BYTE_def a f t1_def)
  moreover have "copy_slice ([0, own, len_for p, i, x, y] @ r) 4 6 [0, 0] = Some ([0, own, len_for p, i, 0, 0] @ r)"
    using copy_slice_append [of "[x, y]" "[0, 0]" 4 "[0, own, len_for p, i]" 6 r] by simp
  ultimately have "TxEngine_stage_gather ce t c own result alert spans = Some (t1, c1, Inr ())"
    using assms(2) n by (simp add: TxEngine_stage_gather_def MAX_PAYLOAD_def SMALL_COPY_MAX_def Let_def pay_def p_def
        length_concat [symmetric] i_def t1_def)
  moreover have "unat (ucast p :: u16) = length pay" "unat (ucast (p AND NOT 1) :: u16) = length pay - length pay mod 2"
    using u unat_and_not_1 [of p] by (simp_all add: unat_ucast_8_16 del: bit.conj_cancel_right)
  then have "staged_stream base own (len_for (of_nat (length (concat spans)))) (concat spans) t1"
    using n unfolding staged_stream_def pay_def [symmetric] p_def [symmetric]
    by (simp add: t1_def)
  moreover have "keeps_tx t t1" using b by (simp add: keeps_tx_def t1_def tx_wf_def)
  ultimately show ?thesis using g by (auto simp: t1_def pay_def)
qed

lemma transmit_staged:
  assumes "staged_small own l pay t \<or> staged_stream base own l pay t \<and> (\<forall>j<length pay. crc_mem ce c (base + j) = Some (pay ! j))"
  shows "\<exists>t' c' outs v. tx_transmit ce (t\<lparr>tx_state := TxState_Staged k\<rparr>) c over = Some (t', c', outs @ [TxOut_Released])
    \<and> set outs = {TxOut_Armed} \<and> tx_state t' = TxState_Idle
    \<and> sent t t' ([own, l, Inst_status (override_result over (tx_result t)) (tx_alert t)] @ pay @ to_le16 v)
    \<and> crc_landed ce t t' ([0, own, l, Inst_status (override_result over (tx_result t)) (tx_alert t)] @ pay) v \<and> tx_wf t' = tx_wf t"
proof -
  define s where "s = t\<lparr>tx_state := TxState_Staged k\<rparr>"
  define i where "i = Inst_status (override_result over (tx_result t)) (tx_alert t)"
  have i: "i = Inst_status (override_result over (tx_result s)) (tx_alert s)" by (simp add: i_def s_def)
  have st: "tx_state s = TxState_Staged k" by (simp add: s_def)
  have "\<exists>t' c' outs v. tx_transmit ce s c over = Some (t', c', outs @ [TxOut_Released]) \<and> set outs = {TxOut_Armed} \<and> tx_state t' = TxState_Idle
    \<and> sent s t' ([own, l, i] @ pay @ to_le16 v) \<and> crc_landed ce s t' ([0, own, l, i] @ pay) v \<and> tx_wf t' = tx_wf s"
    using assms
  proof
    assume "staged_small own l pay t"
    then obtain i0 r ar fr where "buf_bytes (tx_buf s) = [0, own, l, i0] @ pay @ [0, 0] @ r" "length pay \<le> 2"
      "tx_arms s = Arm_Buf 1 (of_nat (3 + length pay)) # Arm_Buf (of_nat (4 + length pay)) 2 # ar" "tx_n_arms s = 2"
      "tx_feeds s = Arm_Buf 0 (of_nat (4 + length pay - length pay mod 2)) # fr" "tx_n_feeds s = 1"
      "tx_tail s = (if odd (length pay) then Some (Tail_Buf (3 + length pay)) else None)" "tx_crc_off s = of_nat (4 + length pay)"
      unfolding staged_small_def s_def by auto
    from transmit_small [OF st this i, of c] show ?thesis
      by (elim exE) (rule exI, rule exI, rule exI [of _ "[TxOut_Armed]"], rule exI, auto)
  next
    assume m: "staged_stream base own l pay t \<and> (\<forall>j<length pay. crc_mem ce c (base + j) = Some (pay ! j))"
    then obtain i0 r ar fr n m where x: "buf_bytes (tx_buf s) = [0, own, l, i0, 0, 0] @ r" "pay \<noteq> []"
      "tx_arms s = Arm_Buf 1 3 # Arm_Ext (Some base) n # Arm_Buf 4 2 # ar" "unat n = length pay" "tx_n_arms s = 3"
      "tx_feeds s = Arm_Buf 0 4 # Arm_Ext (Some base) m # fr" "unat m = length pay - length pay mod 2" "tx_n_feeds s = 2"
      "tx_tail s = (if odd (length pay) then Some (Tail_Ext (base + length pay - 1)) else None)" "tx_crc_off s = 4"
      unfolding staged_stream_def s_def by auto
    have y: "\<And>j. j < length pay \<Longrightarrow> crc_mem ce c (base + j) = Some (pay ! j)" using m by blast
    have "\<exists>t' c' v. tx_transmit ce s c over = Some (t', c', [TxOut_Armed, TxOut_Armed, TxOut_Released]) \<and> tx_state t' = TxState_Idle
      \<and> sent s t' ([own, l, i] @ pay @ to_le16 v) \<and> crc_landed ce s t' ([0, own, l, i] @ pay) v \<and> tx_wf t' = tx_wf s"
      by (rule transmit_stream [OF st x(1) _ x(2-10) i]) (rule y)
    then show ?thesis
      by (elim exE) (rule exI, rule exI, rule exI [of _ "[TxOut_Armed, TxOut_Armed]"], rule exI, auto)
  qed
  then show ?thesis by (simp add: s_def i_def sent_def crc_landed_def tx_wf_def)
qed

lemma reply_exact:
  assumes "tx_wf t" "tx_state t = TxState_Idle" "length (concat spans) \<le> 252"
  shows "\<exists>t1 c1. TxEngine_stage_gather ce t c own result alert spans = Some (t1, c1, Inr ()) \<and> keeps_tx t t1 \<and> acc c1 = acc c
    \<and> (\<forall>k c2 over. crc_mem ce c2 = crc_mem ce c1 \<longrightarrow>
        (\<exists>t2 c3 outs v. tx_transmit ce (t1\<lparr>tx_state := TxState_Staged k\<rparr>) c2 over = Some (t2, c3, outs @ [TxOut_Released])
          \<and> set outs = {TxOut_Armed} \<and> tx_state t2 = TxState_Idle \<and> tx_wf t2
          \<and> sent t t2 ([own, len_for (of_nat (length (concat spans))), Inst_status (override_result over result) alert]
               @ concat spans @ to_le16 v)
          \<and> crc_landed ce t t2 ([0, own, len_for (of_nat (length (concat spans))), Inst_status (override_result over result) alert]
               @ concat spans) v))"
proof -
  have b: "\<not> TxEngine_busy t" using assms(2) by (simp add: TxEngine_busy_def)
  obtain t1 c1 where s: "TxEngine_stage_gather ce t c own result alert spans = Some (t1, c1, Inr ())" "acc c1 = acc c" "keeps_tx t t1"
    "tx_result t1 = result" "tx_alert t1 = alert"
    "staged_small own (len_for (of_nat (length (concat spans)))) (concat spans) t1
      \<or> staged_stream base own (len_for (of_nat (length (concat spans)))) (concat spans) t1
        \<and> (\<forall>j<length (concat spans). crc_mem ce c1 (base + j) = Some (concat spans ! j))"
  proof (cases "length (concat spans) \<le> 2")
    case True
    from stage_small_shape [OF assms(1) b True, of c own result alert] show ?thesis using that by blast
  next
    case False
    then have "2 < length (concat spans)" by simp
    from stage_stream_shape [OF assms(1) b this assms(3), of c own result alert] show ?thesis using that by blast
  qed
  have "\<exists>t2 c3 outs v. tx_transmit ce (t1\<lparr>tx_state := TxState_Staged k\<rparr>) c2 over = Some (t2, c3, outs @ [TxOut_Released])
      \<and> set outs = {TxOut_Armed} \<and> tx_state t2 = TxState_Idle \<and> tx_wf t2
      \<and> sent t t2 ([own, len_for (of_nat (length (concat spans))), Inst_status (override_result over result) alert] @ concat spans @ to_le16 v)
      \<and> crc_landed ce t t2 ([0, own, len_for (of_nat (length (concat spans))), Inst_status (override_result over result) alert] @ concat spans) v"
    if "crc_mem ce c2 = crc_mem ce c1" for k c2 over
  proof -
    have e: "sent t = sent t1" "crc_landed ce t = crc_landed ce t1" "tx_wf t1"
      using s(3) by (simp_all add: keeps_tx_def sent_def crc_landed_def fun_eq_iff)
    have "staged_small own (len_for (of_nat (length (concat spans)))) (concat spans) t1
      \<or> staged_stream base own (len_for (of_nat (length (concat spans)))) (concat spans) t1
        \<and> (\<forall>j<length (concat spans). crc_mem ce c2 (base + j) = Some (concat spans ! j))" using s(6) that by simp
    from transmit_staged [OF this, of k over] show ?thesis unfolding e(1,2) s(4,5) using e(3) by blast
  qed
  with s show ?thesis by blast
qed

lemma prompt_lands: "(\<And>c. snd (poll_result ce (unat SPIN_PER_BYTE) c) \<noteq> None) \<Longrightarrow> crc_landed ce t t' cov v \<Longrightarrow> v = osc_crc cov"
  unfolding crc_landed_def by blast

end

interpretation fake: crc_engine FakeCrc_engine fc_state 0
proof unfold_locales
  fix off :: u16 and s :: bytes and c :: FakeCrc
  define n where "n = unat off"
  define sn where "sn = (if length (fc_snap c) < n + length s then fc_snap c @ replicate (n + length s - length (fc_snap c)) 0 else fc_snap c)"
  have l: "n + length s \<le> length sn" by (simp add: sn_def)
  then have cs: "copy_slice sn n (n + length s) s = Some (take n sn @ s @ drop (n + length s) sn)" by (intro copy_slice_ok) simp_all
  have low: "a < n \<Longrightarrow> nth_opt (fc_snap c) a = Some b \<Longrightarrow> (take n sn @ s @ drop (n + length s) sn) ! a = b" for a b
    using l by (auto simp: sn_def nth_append nth_opt_def split: if_splits)
  have mid: "i < length s \<Longrightarrow> (take n sn @ s @ drop (n + length s) sn) ! (n + i) = s ! i" for i
    using l by (simp add: nth_append)
  show "\<exists>c'. crc_snapshot FakeCrc_engine c off s = Some (c', 0 + unat off) \<and> fc_state c' = fc_state c
        \<and> (\<forall>i<length s. crc_mem FakeCrc_engine c' (0 + unat off + i) = Some (s ! i))
        \<and> (\<forall>a b. a < 0 + unat off \<longrightarrow> crc_mem FakeCrc_engine c a = Some b \<longrightarrow> crc_mem FakeCrc_engine c' a = Some b)"
    using cs mid low l unfolding n_def [symmetric]
    by (auto simp: FakeCrc_engine_def FakeCrc_snapshot_def Let_def n_def [symmetric] sn_def [symmetric] nth_opt_def)
qed (auto simp: FakeCrc_engine_def FakeCrc_reset_def FakeCrc_feed_def FakeCrc_result_def)

text \<open>Property C15: a staged reply leaves exactly one well-formed frame.  For every engine that keeps the contract of the
  trait, every payload of at most 252 bytes (however it is scattered) and every result override, an idle transmitter
  stages the reply without touching the wire; however the CRC engine is used in between, as long as its snapshot
  stays, triggering it puts the break and then ID, LEN, status byte, the payload and a trailer on the wire and
  releases it after the last arm.  The trailer is the CRC of precisely the bytes that were sent, unless the engine
  failed to deliver within its poll budget, which ships zeros and is counted.\<close>

theorem tx_reply_exact:
  assumes "crc_engine ce acc base" "tx_wf t" "tx_state t = TxState_Idle" "length (concat spans) \<le> 252"
    and "frame = (\<lambda>over. [own, len_for (of_nat (length (concat spans))), Inst_status (override_result over result) alert] @ concat spans)"
  shows "\<exists>t1 c1. TxEngine_stage_gather ce t c own result alert spans = Some (t1, c1, Inr ()) \<and> keeps_tx t t1 \<and> acc c1 = acc c
    \<and> (\<forall>k c2 over. crc_mem ce c2 = crc_mem ce c1 \<longrightarrow>
        (\<exists>t2 c3 outs v. tx_transmit ce (t1\<lparr>tx_state := TxState_Staged k\<rparr>) c2 over = Some (t2, c3, outs @ [TxOut_Released])
          \<and> set outs = {TxOut_Armed} \<and> tx_state t2 = TxState_Idle \<and> tx_wf t2
          \<and> sent t t2 (frame over @ to_le16 v) \<and> crc_landed ce t t2 (0 # frame over) v))"
  using crc_engine.reply_exact [OF assms(1-4), of c own result alert] unfolding assms(5) by simp

theorem tx_reply_exact_witness:
  "\<exists>t1 c1 t2 c3 outs. TxEngine_stage_gather FakeCrc_engine (TxEngine_new []) FakeCrc_new 1 ResultCode_Ok False [[0x10, 0], [7]] = Some (t1, c1, Inr ())
     \<and> tx_transmit FakeCrc_engine (t1\<lparr>tx_state := TxState_Staged None\<rparr>) c1 None = Some (t2, c3, outs @ [TxOut_Released])
     \<and> sent (TxEngine_new []) t2 ([1, 6, Inst_status ResultCode_Ok False, 0x10, 0, 7]
         @ to_le16 (osc_crc [0, 1, 6, Inst_status ResultCode_Ok False, 0x10, 0, 7]))"
proof -
  have p: "snd (poll_result FakeCrc_engine n c) \<noteq> None" for n c
    by (simp add: poll_result.simps [of _ n] FakeCrc_engine_def FakeCrc_result_def)
  have w: "tx_wf (TxEngine_new [])" "tx_state (TxEngine_new []) = TxState_Idle"
    by (simp_all add: tx_wf_def TxEngine_new_def REPLY_BUF_def)
  obtain t1 c1 where s: "TxEngine_stage_gather FakeCrc_engine (TxEngine_new []) FakeCrc_new 1 ResultCode_Ok False [[0x10, 0], [7]] = Some (t1, c1, Inr ())"
    and r: "\<And>k c2 over. crc_mem FakeCrc_engine c2 = crc_mem FakeCrc_engine c1 \<Longrightarrow>
      \<exists>t2 c3 outs v. tx_transmit FakeCrc_engine (t1\<lparr>tx_state := TxState_Staged k\<rparr>) c2 over = Some (t2, c3, outs @ [TxOut_Released])
        \<and> sent (TxEngine_new []) t2 ([1, 6, Inst_status (override_result over ResultCode_Ok) False, 0x10, 0, 7] @ to_le16 v)
        \<and> crc_landed FakeCrc_engine (TxEngine_new []) t2 [0, 1, 6, Inst_status (override_result over ResultCode_Ok) False, 0x10, 0, 7] v"
    using tx_reply_exact [OF fake.crc_engine_axioms w, of "[[0x10, 0], [7]]" _ 1 ResultCode_Ok False FakeCrc_new, OF _ refl]
    by (force simp: len_for_def)
  from r [OF refl, of None None] obtain t2 c3 outs v where
    x: "tx_transmit FakeCrc_engine (t1\<lparr>tx_state := TxState_Staged None\<rparr>) c1 None = Some (t2, c3, outs @ [TxOut_Released])"
    "sent (TxEngine_new []) t2 ([1, 6, Inst_status ResultCode_Ok False, 0x10, 0, 7] @ to_le16 v)"
    "crc_landed FakeCrc_engine (TxEngine_new []) t2 [0, 1, 6, Inst_status ResultCode_Ok False, 0x10, 0, 7] v"
    by (auto simp: override_result_def)
  have "v = osc_crc [0, 1, 6, Inst_status ResultCode_Ok False, 0x10, 0, 7]" using fake.prompt_lands [OF p x(3)] .
  with s x show ?thesis by blast
qed

text \<open>A busy engine and an oversized payload are refused with nothing touched.\<close>

lemma stage_refused:
  "TxEngine_busy t \<Longrightarrow> TxEngine_stage_gather ce t c own result alert spans = Some (t, c, Inl SendError_Busy)"
  "\<not> TxEngine_busy t \<Longrightarrow> 252 < length (concat spans) \<Longrightarrow>
   TxEngine_stage_gather ce t c own result alert spans = Some (t, c, Inl SendError_Overflow)"
  by (simp_all add: TxEngine_stage_gather_def Let_def MAX_PAYLOAD_def length_concat)

end
