(* ===== verification/Bus.thy ===== *)
theory Bus
  imports Tx Decode Chain Clock Spine
begin

text \<open>
  The servo-side transport composite (\<open>drivers/src/bus/servo_bus.rs\<close> and its \<open>servo_bus/\<close> parts \<open>crc.rs\<close>,
  \<open>reply.rs\<close>, \<open>route.rs\<close>): the break, deadline and TX-complete interrupt handlers over the framer, the reply
  chain, the TX engine and the clock tracker, with the dispatcher behind them.

  The chip providers (receive ring, tick compare, USART) are a parameter record \<open>Providers\<close> over a world state: every
  read of the tick counter and of the DMA cursor may see a new world, and the ring bytes are those of the current
  world.  The CRC engine is the parameter of \<open>Tx\<close>, the dispatcher is the one of \<open>Dispatch\<close>, and its reply calls
  are replayed on the bus in the order it makes them.  The outer \<open>None\<close> is a panic.
\<close>

section \<open>Providers and state\<close>

record ('w, 'c) Providers =
  pr_now :: "'w \<Rightarrow> 'w \<times> u32"
  pr_cursor :: "'w \<Rightarrow> 'w \<times> u16"
  pr_bytes :: "'w \<Rightarrow> bytes"
  pr_set :: "'w \<Rightarrow> u32 \<Rightarrow> 'w"
  pr_cancel :: "'w \<Rightarrow> 'w"
  pr_apply :: "'w \<Rightarrow> BaudRate \<Rightarrow> 'w"
  pr_TICKS_PER_US :: u32
  pr_CLOCK_TRIM_STEP_PPM :: u32
  pr_crc :: "'c CrcEngine"

definition BYTE_TIME_NUMERATOR :: u32 where "BYTE_TIME_NUMERATOR = 10000000"
definition FRAME_ALLOWANCE_SLACK_BYTES :: u32 where "FRAME_ALLOWANCE_SLACK_BYTES = 8"
definition DEADLINE_DRAIN_MAX :: nat where "DEADLINE_DRAIN_MAX = 8"
definition FRAMES_PER_WAKE :: nat where "FRAMES_PER_WAKE = 16"

record LinkDiag =
  ld_crc_fail_count :: u32
  ld_framing_drop_count :: u32

record Pending =
  pd_anchor :: u16
  pd_footprint :: u16
  pd_packet_end :: u32
  pd_slot :: u8
  pd_staged :: bool
  pd_table :: bool

record ('w, 'c) ServoBus =
  sb_framer :: Framer
  sb_chain :: Chain
  sb_tx :: TxEngine
  sb_crc :: 'c
  sb_world :: 'w
  sb_id :: u8
  sb_rate :: BaudRate
  sb_tpb :: u32
  sb_response_deadline_us :: u16
  sb_pending_id :: "u8 option"
  sb_pending_baud :: "BaudRate option"
  sb_pending_reboot :: "BootMode option"
  sb_crc_fails :: u32
  sb_pending :: "Pending option"
  sb_framer_at :: "u32 option"
  sb_chain_at :: "u32 option"
  sb_clock :: ClockTracker

definition tpb_for :: "('w, 'c) Providers \<Rightarrow> BaudRate \<Rightarrow> u32" where
  "tpb_for P rate =
     (let compute = (\<lambda>ticks_per_us baud_hz. ticks_per_us * BYTE_TIME_NUMERATOR div baud_hz)
      in case rate of
           B500000 \<Rightarrow> compute (pr_TICKS_PER_US P) 500000
         | B1000000 \<Rightarrow> compute (pr_TICKS_PER_US P) 1000000
         | B2000000 \<Rightarrow> compute (pr_TICKS_PER_US P) 2000000
         | B3000000 \<Rightarrow> compute (pr_TICKS_PER_US P) 3000000)"

definition due :: "u32 \<Rightarrow> u32 option \<Rightarrow> bool" where
  "due now at = (case at of Some at \<Rightarrow> tick_reached now at | None \<Rightarrow> False)"

definition ServoBus_new ::
  "('w, 'c) Providers \<Rightarrow> 'w \<Rightarrow> 'c \<Rightarrow> WireEvent list \<Rightarrow> u8 \<Rightarrow> BaudRate \<Rightarrow> u16 \<Rightarrow> ('w, 'c) ServoBus" where
  "ServoBus_new P world crc tx own rate response_deadline_us =
     \<lparr>sb_framer = Framer_new, sb_chain = Chain_new, sb_tx = TxEngine_new tx, sb_crc = crc,
      sb_world = pr_apply P world rate, sb_id = own, sb_rate = rate, sb_tpb = tpb_for P rate,
      sb_response_deadline_us = response_deadline_us, sb_pending_id = None, sb_pending_baud = None,
      sb_pending_reboot = None, sb_crc_fails = 0, sb_pending = None, sb_framer_at = None, sb_chain_at = None,
      sb_clock = ClockTracker_new (pr_CLOCK_TRIM_STEP_PPM P)\<rparr>"

text \<open>The provider reads of a handler.\<close>

definition bus_now :: "('w, 'c) Providers \<Rightarrow> ('w, 'c) ServoBus \<Rightarrow> ('w, 'c) ServoBus \<times> u32" where
  "bus_now P b = (let (w, now) = pr_now P (sb_world b) in (b\<lparr>sb_world := w\<rparr>, now))"

definition bus_cursor :: "('w, 'c) Providers \<Rightarrow> ('w, 'c) ServoBus \<Rightarrow> ('w, 'c) ServoBus \<times> u16" where
  "bus_cursor P b = (let (w, c) = pr_cursor P (sb_world b) in (b\<lparr>sb_world := w\<rparr>, c))"

definition bus_ring :: "('w, 'c) Providers \<Rightarrow> ('w, 'c) ServoBus \<Rightarrow> bytes" where
  "bus_ring P b = pr_bytes P (sb_world b)"

section \<open>CRC over the ring\<close>

text \<open>The \<open>usize\<close> subtractions of a span below three bytes would wrap and the slice below would panic.\<close>

definition ServoBus_crc_feed :: "('w, 'c) Providers \<Rightarrow> ('w, 'c) ServoBus \<Rightarrow> u16 \<Rightarrow> u16 \<Rightarrow> ('w, 'c) ServoBus option" where
  "ServoBus_crc_feed P b anchor fp =
     (let ring = bus_ring P b; len = length ring;
          a = unat anchor;
          start = a + a mod 2;
          end = a + unat fp - 2;
          bulk_end = end - (end - start) mod 2;
          c = crc_reset (pr_crc P) (sb_crc b)
      in if unat fp < 3 then None
         else if bulk_end \<le> len
         then do { s \<leftarrow> get_range ring start bulk_end; c \<leftarrow> crc_feed (pr_crc P) c s; Some (b\<lparr>sb_crc := c\<rparr>) }
         else do { s \<leftarrow> get_range ring start len; c \<leftarrow> crc_feed (pr_crc P) c s;
                   s \<leftarrow> get_range ring 0 (bulk_end - len); c \<leftarrow> crc_feed (pr_crc P) c s; Some (b\<lparr>sb_crc := c\<rparr>) })"

definition ServoBus_crc_tail :: "bytes \<Rightarrow> u16 \<Rightarrow> u16 \<Rightarrow> u8 option option" where
  "ServoBus_crc_tail ring anchor fp =
     (let len = length ring;
          a = unat anchor;
          start = a + a mod 2;
          end = a + unat fp - 2
      in if (end - start) mod 2 = 1 then map_option Some (nth_opt ring ((end - 1) mod len)) else Some None)"

definition ServoBus_crc_verify :: "('w, 'c) Providers \<Rightarrow> ('w, 'c) ServoBus \<Rightarrow> u16 \<Rightarrow> u16 \<Rightarrow> (('w, 'c) ServoBus \<times> bool) option" where
  "ServoBus_crc_verify P b anchor fp =
     (let ring = bus_ring P b; len = length ring;
          covered = unat fp - 2;
          end = unat anchor + covered
      in do { lo \<leftarrow> nth_opt ring (end mod len);
              hi \<leftarrow> nth_opt ring ((end + 1) mod len);
              tail \<leftarrow> ServoBus_crc_tail ring anchor fp;
              let wire = from_le16 lo hi;
                  budget = SPIN_PER_BYTE * of_nat covered;
                  (c, value) = poll_result (pr_crc P) (unat budget) (sb_crc b);
                  b = b\<lparr>sb_crc := c\<rparr>
              in case value of
                   Some v \<Rightarrow> Some (b, (case tail of Some x \<Rightarrow> osc_crc_continue v [x] | None \<Rightarrow> v) = wire)
                 | None \<Rightarrow> Some (b, False) })"

definition ServoBus_crc_ok :: "('w, 'c) Providers \<Rightarrow> ('w, 'c) ServoBus \<Rightarrow> u16 \<Rightarrow> u16 \<Rightarrow> (('w, 'c) ServoBus \<times> bool) option" where
  "ServoBus_crc_ok P b anchor fp =
     (if bus_ring P b = [] \<or> unat fp < 2 then Some (b, False)
      else do { b \<leftarrow> ServoBus_crc_feed P b anchor fp; ServoBus_crc_verify P b anchor fp })"

definition ServoBus_ring_inst :: "('w, 'c) Providers \<Rightarrow> ('w, 'c) ServoBus \<Rightarrow> u16 \<Rightarrow> u8 option" where
  "ServoBus_ring_inst P b anchor =
     (let ring = bus_ring P b in nth_opt ring ((unat anchor + 3) mod length ring))"

section \<open>The reply surface\<close>

definition slot_key :: "bytes \<Rightarrow> u8" where
  "slot_key payload = (let crc = osc_crc payload in ucast (crc XOR drop_bit 8 crc))"

definition gather_key :: "bytes list \<Rightarrow> u8" where
  "gather_key spans = (let crc = foldl osc_crc_continue 0 spans in ucast (crc XOR drop_bit 8 crc))"

definition stage_reply :: "('w, 'c) Providers \<Rightarrow> bool \<Rightarrow> u8 \<Rightarrow> ResultCode \<Rightarrow> bool \<Rightarrow> bytes list \<Rightarrow> ('w, 'c) ServoBus \<times> bool
    \<Rightarrow> (('w, 'c) ServoBus \<times> bool) option" where
  "stage_reply P tolerant key result alert spans bs =
     (case bs of (b, staged) \<Rightarrow>
        do { (t, c, r) \<leftarrow> TxEngine_stage_gather (pr_crc P) (sb_tx b) (sb_crc b) (sb_id b) result alert spans;
             let b = b\<lparr>sb_tx := t, sb_crc := c\<rparr>
             in case r of
                  Inl _ \<Rightarrow> Some (b, staged)
                | Inr _ \<Rightarrow> Some (if tolerant then b\<lparr>sb_tx := TxEngine_mark_collision_tolerant (sb_tx b) key\<rparr>
                                 else b, True) })"

definition reply_event :: "('w, 'c) Providers \<Rightarrow> bool \<Rightarrow> ReplyEvent \<Rightarrow> ('w, 'c) ServoBus \<times> bool \<Rightarrow> (('w, 'c) ServoBus \<times> bool) option" where
  "reply_event P tolerant e bs =
     (case bs of (b, staged) \<Rightarrow>
        (case e of
           send_status result alert data \<Rightarrow> stage_reply P tolerant (slot_key data) result alert [data] bs
         | send_status_gather result alert spans \<Rightarrow> stage_reply P tolerant (gather_key spans) result alert spans bs
         | stage_id i \<Rightarrow> Some (b\<lparr>sb_pending_id := Some i\<rparr>, staged)
         | set_id i \<Rightarrow> Some (b\<lparr>sb_id := i\<rparr>, staged)
         | stage_baud r \<Rightarrow> Some (b\<lparr>sb_pending_baud := Some r\<rparr>, staged)
         | set_response_deadline us \<Rightarrow> Some (b\<lparr>sb_response_deadline_us := us\<rparr>, staged)
         | stage_reboot m \<Rightarrow> Some (b\<lparr>sb_pending_reboot := Some m\<rparr>, staged)
         | begin_clock_cal gap_us gaps \<Rightarrow> Some (b\<lparr>sb_clock := (sb_clock b)\<lparr>ck_pending_cal := Some (gap_us, gaps)\<rparr>\<rparr>, staged)))"

fun reply_events :: "('w, 'c) Providers \<Rightarrow> bool \<Rightarrow> ReplyEvent list \<Rightarrow> ('w, 'c) ServoBus \<times> bool \<Rightarrow> (('w, 'c) ServoBus \<times> bool) option" where
  "reply_events P tolerant [] bs = Some bs"
| "reply_events P tolerant (e # es) bs = do { bs \<leftarrow> reply_event P tolerant e bs; reply_events P tolerant es bs }"

section \<open>Routing\<close>

fun ch_rank :: "ChainState \<Rightarrow> nat" where
  "ch_rank Chain_Idle = 0"
| "ch_rank (Chain_Pending _) = 0"
| "ch_rank (Chain_Waiting r _) = unat r"

fun out_rank :: "ChainOut \<Rightarrow> Chain \<Rightarrow> nat" where
  "out_rank (ChainOut_Wait _) c = Suc (ch_rank (ch_state c))"
| "out_rank _ c = 0"

lemma on_deadline_rank: "Chain_on_deadline c now = (c', out) \<Longrightarrow> out_rank out c' < Suc (ch_rank (ch_state c))"
  by (auto simp: Chain_on_deadline_def saturating_dec_def Let_def unat_minus_one unat_gt_0 split: ChainState.splits if_splits)

text \<open>A wait whose tick has passed is consumed in place; every such round retires a predecessor.\<close>

function route_chain :: "('w, 'c) Providers \<Rightarrow> ('w, 'c) ServoBus \<Rightarrow> ChainOut \<Rightarrow> ('w, 'c) ServoBus option" where
  "route_chain P b ChainOut_None = Some b"
| "route_chain P b (ChainOut_Wait t) =
     (let (b, now) = bus_now P b
      in if \<not> tick_reached now t then Some (b\<lparr>sb_chain_at := Some t\<rparr>)
         else let (ch, out) = Chain_on_deadline (sb_chain b) now
              in route_chain P (b\<lparr>sb_chain := ch\<rparr>) out)"
| "route_chain P b (ChainOut_Trigger silent) =
     do { (t, c) \<leftarrow> TxEngine_trigger (pr_crc P) (sb_tx b) (sb_crc b) (if silent then Some ResultCode_PredecessorSilent else None);
          Some (b\<lparr>sb_tx := t, sb_crc := c\<rparr>) }"
  by pat_completeness auto

termination
  by (relation "measure (\<lambda>(P, b, out). out_rank out (sb_chain b))")
    (auto simp: bus_now_def split: prod.splits dest: on_deadline_rank [OF sym])

definition ServoBus_reply_gap :: "('w, 'c) Providers \<Rightarrow> u32" where
  "ServoBus_reply_gap P = REPLY_GAP_US * pr_TICKS_PER_US P"

definition ServoBus_reclaim :: "('w, 'c) Providers \<Rightarrow> ('w, 'c) ServoBus \<Rightarrow> u32" where
  "ServoBus_reclaim P b = ucast (sb_response_deadline_us b) * pr_TICKS_PER_US P"

definition ServoBus_frame_allowance :: "('w, 'c) ServoBus \<Rightarrow> u32" where
  "ServoBus_frame_allowance b = (of_nat FRAME_MAX + FRAME_ALLOWANCE_SLACK_BYTES) * sb_tpb b"

definition sequence_reply :: "('w, 'c) Providers \<Rightarrow> ('w, 'c) ServoBus \<Rightarrow> u8 \<Rightarrow> u32 \<Rightarrow> ('w, 'c) ServoBus option" where
  "sequence_reply P b slot packet_end =
     (let (b, gap) = (case TxEngine_slot_key (sb_tx b) of
            Some key \<Rightarrow>
              let (b, now) = bus_now P b;
                  draw = (key XOR ucast now) AND (ENUM_REPLY_SLOTS - 1)
              in (b, ServoBus_reply_gap P + ucast draw * sb_tpb b)
          | None \<Rightarrow> (b, ServoBus_reply_gap P));
          (ch, out) = Chain_on_reply_staged (sb_chain b) slot packet_end gap (ServoBus_reclaim P b) (ServoBus_frame_allowance b)
      in route_chain P (b\<lparr>sb_chain := ch\<rparr>) out)"

definition drop_staged :: "('w, 'c) ServoBus \<Rightarrow> ('w, 'c) ServoBus" where
  "drop_staged b =
     (let b = (if TxEngine_staged (sb_tx b) then b\<lparr>sb_tx := TxEngine_abort (sb_tx b)\<rparr> else b)
      in b\<lparr>sb_chain := Chain_reset (sb_chain b), sb_chain_at := None\<rparr>)"

definition is_enumerate :: "Request \<Rightarrow> bool" where
  "is_enumerate req \<longleftrightarrow> (case req of Request_Enumerate _ _ \<Rightarrow> True | _ \<Rightarrow> False)"

definition dispatch_decoded :: "('w, 'c) Providers \<Rightarrow> 'f Env \<Rightarrow> ('w, 'c) ServoBus \<Rightarrow> 'f Servo \<Rightarrow> u16 \<Rightarrow> u16
    \<Rightarrow> (('w, 'c) ServoBus \<times> 'f Servo \<times> (bool \<times> u8 \<times> Dispatched) option) option" where
  "dispatch_decoded P env b sv anchor fp =
     do { frame \<leftarrow> frame_view (bus_ring P b) anchor fp;
          case decode frame (sb_id b) of
            Decoded_Own req may_reply slot \<Rightarrow>
              do { (sv, out) \<leftarrow> dispatch env req may_reply (sv\<lparr>sv_reply := []\<rparr>);
                   (b, staged) \<leftarrow> reply_events P (is_enumerate req) (sv_reply sv) (b, False);
                   Some (b, sv, Some (staged, slot, out)) }
          | _ \<Rightarrow> Some (b, sv, None) }"

definition bus_commit :: "('w, 'c) Providers \<Rightarrow> 'f Env \<Rightarrow> ('w, 'c) ServoBus \<Rightarrow> 'f Servo \<Rightarrow> (('w, 'c) ServoBus \<times> 'f Servo) option" where
  "bus_commit P env b sv =
     do { sv \<leftarrow> Dispatcher_commit env (sv\<lparr>sv_reply := []\<rparr>);
          (b, _) \<leftarrow> reply_events P False (sv_reply sv) (b, False);
          Some (b, sv) }"

definition ServoBus_verdict_first :: "u8 \<Rightarrow> bool" where
  "ServoBus_verdict_first inst \<longleftrightarrow>
     (case Inst_opcode inst of
        Some Opcode_Ping \<Rightarrow> False | Some Opcode_Read \<Rightarrow> False | Some Opcode_Gread \<Rightarrow> False
      | Some Opcode_Write \<Rightarrow> False | Some Opcode_Gwrite \<Rightarrow> False | _ \<Rightarrow> True)"

definition drift_note_verified :: "('w, 'c) Providers \<Rightarrow> ('w, 'c) ServoBus \<Rightarrow> u16 \<Rightarrow> u16 \<Rightarrow> ('w, 'c) ServoBus option" where
  "drift_note_verified P b anchor fp =
     (if \<not> ClockTracker_pair_open (sb_clock b) then Some (b\<lparr>sb_clock := ClockTracker_note_verified (sb_clock b) fp False\<rparr>)
      else do { inst \<leftarrow> ServoBus_ring_inst P b anchor;
                let ring = bus_ring P b
                in if ring = [] then Some b
                   else do { i \<leftarrow> nth_opt ring (ring_wrap (unat anchor + 1) (length ring));
                             let silent = (case Inst_opcode inst of
                                   Some Opcode_Gwrite \<Rightarrow> True
                                 | Some Opcode_Write \<Rightarrow> Inst_noreply inst \<or> i = Id_BROADCAST
                                 | Some Opcode_Commit \<Rightarrow> Inst_noreply inst \<or> i = Id_BROADCAST
                                 | _ \<Rightarrow> False)
                             in Some (b\<lparr>sb_clock := ClockTracker_note_verified (sb_clock b) fp silent\<rparr>) } })"

definition frame_rejected :: "('w, 'c) Providers \<Rightarrow> ('w, 'c) ServoBus \<Rightarrow> u16 \<Rightarrow> ('w, 'c) ServoBus" where
  "frame_rejected P b anchor =
     (let b = (if \<not> Framer_probing (sb_framer b) then b\<lparr>sb_crc_fails := sb_crc_fails b + 1\<rparr> else b)
      in b\<lparr>sb_framer := Framer_on_frame_rejected (sb_framer b) anchor (length (bus_ring P b))\<rparr>)"

definition ServoBus_verify :: "('w, 'c) Providers \<Rightarrow> 'f Env \<Rightarrow> ('w, 'c) ServoBus \<Rightarrow> 'f Servo \<Rightarrow> Pending \<Rightarrow> (('w, 'c) ServoBus \<times> 'f Servo) option" where
  "ServoBus_verify P env b sv p =
     do { (b, good) \<leftarrow> ServoBus_crc_verify P b (pd_anchor p) (pd_footprint p);
          if \<not> good then
            let sv = (if pd_table p then Dispatcher_revert env sv else sv)
            in Some (frame_rejected P (drop_staged b) (pd_anchor p), sv)
          else
            do { b \<leftarrow> drift_note_verified P (b\<lparr>sb_framer := Framer_on_frame_verified (sb_framer b)\<rparr>) (pd_anchor p) (pd_footprint p);
                 (b, sv) \<leftarrow> (if pd_table p then bus_commit P env b sv else Some (b, sv));
                 b \<leftarrow> (if pd_staged p \<and> TxEngine_staged (sb_tx b) then sequence_reply P b (pd_slot p) (pd_packet_end p) else Some b);
                 Some (b, sv) } }"

text \<open>The two halves of \<open>route_frame\<close> behind the status snoop: the spine and the verdict-first path.\<close>

definition route_spine :: "('w, 'c) Providers \<Rightarrow> 'f Env \<Rightarrow> ('w, 'c) ServoBus \<Rightarrow> 'f Servo \<Rightarrow> FrameSpan \<Rightarrow> bool
    \<Rightarrow> (('w, 'c) ServoBus \<times> 'f Servo) option" where
  "route_spine P env b sv span complete =
     do { b \<leftarrow> ServoBus_crc_feed P b (fs_anchor span) (fs_footprint span);
          (b, sv, r) \<leftarrow> dispatch_decoded P env b sv (fs_anchor span) (fs_footprint span);
          if r = None \<and> \<not> complete then Some (b, sv)
          else let (staged, slot, table) = (case r of Some (staged, slot, out) \<Rightarrow> (staged, slot, out = Dispatched_Pending)
                                            | None \<Rightarrow> (False, 0, False));
                   p = \<lparr>pd_anchor = fs_anchor span, pd_footprint = fs_footprint span, pd_packet_end = fs_packet_end span,
                        pd_slot = slot, pd_staged = staged, pd_table = table\<rparr>
               in if complete then ServoBus_verify P env b sv p else Some (b\<lparr>sb_pending := Some p\<rparr>, sv) }"

definition route_gated :: "('w, 'c) Providers \<Rightarrow> 'f Env \<Rightarrow> ('w, 'c) ServoBus \<Rightarrow> 'f Servo \<Rightarrow> FrameSpan
    \<Rightarrow> (('w, 'c) ServoBus \<times> 'f Servo) option" where
  "route_gated P env b sv span =
     do { (b, good) \<leftarrow> ServoBus_crc_ok P b (fs_anchor span) (fs_footprint span);
          if \<not> good then Some (frame_rejected P b (fs_anchor span), sv)
          else do { b \<leftarrow> drift_note_verified P (b\<lparr>sb_framer := Framer_on_frame_verified (sb_framer b)\<rparr>) (fs_anchor span) (fs_footprint span);
                    let b = b\<lparr>sb_chain := Chain_reset (sb_chain b), sb_chain_at := None\<rparr>;
                        b = (if TxEngine_staged (sb_tx b) then b\<lparr>sb_tx := TxEngine_abort (sb_tx b)\<rparr> else b)
                    in do { (b, sv, r) \<leftarrow> dispatch_decoded P env b sv (fs_anchor span) (fs_footprint span);
                            case r of
                              None \<Rightarrow> Some (b, sv)
                            | Some (staged, slot, out) \<Rightarrow>
                              do { (b, sv) \<leftarrow> (if out = Dispatched_Pending then bus_commit P env b sv else Some (b, sv));
                                   b \<leftarrow> (if staged \<and> TxEngine_staged (sb_tx b) then sequence_reply P b slot (fs_packet_end span) else Some b);
                                   Some (b, sv) } } } }"

definition route_frame :: "('w, 'c) Providers \<Rightarrow> 'f Env \<Rightarrow> ('w, 'c) ServoBus \<Rightarrow> 'f Servo \<Rightarrow> FrameSpan \<Rightarrow> bool
    \<Rightarrow> (('w, 'c) ServoBus \<times> 'f Servo) option" where
  "route_frame P env b sv span complete =
     do { inst \<leftarrow> ServoBus_ring_inst P b (fs_anchor span);
          if Inst_is_status inst then
            (if complete
             then let (ch, out) = Chain_on_status_end (sb_chain b) (fs_packet_end span)
                  in map_option (\<lambda>b. (b, sv)) (route_chain P (b\<lparr>sb_chain := ch\<rparr>) out)
             else Some (b, sv))
          else if \<not> Chain_active (sb_chain b) \<and> \<not> TxEngine_busy (sb_tx b) \<and> \<not> ServoBus_verdict_first inst
          then route_spine P env b sv span complete
          else if \<not> complete then Some (b, sv)
          else route_gated P env b sv span }"

definition on_frame_end :: "('w, 'c) Providers \<Rightarrow> 'f Env \<Rightarrow> ('w, 'c) ServoBus \<Rightarrow> 'f Servo \<Rightarrow> FrameSpan
    \<Rightarrow> (('w, 'c) ServoBus \<times> 'f Servo) option" where
  "on_frame_end P env b sv span =
     (let pending = sb_pending b; b = b\<lparr>sb_pending := None\<rparr>
      in case pending of
           Some p \<Rightarrow> (if pd_anchor p = fs_anchor span \<and> pd_footprint p = fs_footprint span
                      then ServoBus_verify P env b sv p
                      else route_frame P env (drop_staged b) sv span True)
         | None \<Rightarrow> route_frame P env b sv span True)"

fun drive_framer :: "nat \<Rightarrow> ('w, 'c) Providers \<Rightarrow> 'f Env \<Rightarrow> ('w, 'c) ServoBus \<Rightarrow> 'f Servo \<Rightarrow> (('w, 'c) ServoBus \<times> 'f Servo) option" where
  "drive_framer 0 P env b sv = (let (b, now) = bus_now P b in Some (b\<lparr>sb_framer_at := Some now\<rparr>, sv))"
| "drive_framer (Suc n) P env b sv =
     (let (b, now) = bus_now P b; (b, cursor) = bus_cursor P b
      in do { (f, out) \<leftarrow> Framer_resolve (sb_framer b) (bus_ring P b) cursor now (sb_tpb b);
              let b = b\<lparr>sb_framer := f\<rparr>
              in case out of
                   FramerOut_None \<Rightarrow> Some (b\<lparr>sb_framer_at := None\<rparr>, sv)
                 | FramerOut_Wait t \<Rightarrow> Some (b\<lparr>sb_framer_at := Some t\<rparr>, sv)
                 | FramerOut_Covered span end_due \<Rightarrow> route_frame P env (b\<lparr>sb_framer_at := Some end_due\<rparr>) sv span False
                 | FramerOut_Frame span \<Rightarrow>
                     do { (b, sv) \<leftarrow> on_frame_end P env b sv span; drive_framer n P env b sv } })"

section \<open>Interrupt handlers\<close>

definition closer :: "u32 \<Rightarrow> u32 option \<Rightarrow> u32 option \<Rightarrow> u32 option" where
  "closer now best at =
     (let remaining = (\<lambda>at. if tick_reached now at then 0 else at - now)
      in case at of
           None \<Rightarrow> best
         | Some a \<Rightarrow> Some (case best of Some x \<Rightarrow> if remaining x \<le> remaining a then x else a | None \<Rightarrow> a))"

definition arm_deadline :: "('w, 'c) Providers \<Rightarrow> ('w, 'c) ServoBus \<Rightarrow> ('w, 'c) ServoBus" where
  "arm_deadline P b =
     (let (b, now) = bus_now P b
      in case closer now (closer now None (sb_framer_at b)) (sb_chain_at b) of
           Some at \<Rightarrow> b\<lparr>sb_world := pr_set P (sb_world b) at\<rparr>
         | None \<Rightarrow> b\<lparr>sb_world := pr_cancel P (sb_world b)\<rparr>)"

definition newest_is_break_byte :: "bytes \<Rightarrow> u16 \<Rightarrow> bool option" where
  "newest_is_break_byte ring cursor =
     (let len = length ring
      in if len = 0 then Some False
         else map_option (\<lambda>x. x = 0) (nth_opt ring (ring_wrap (unat cursor + len - 1) len)))"

definition ServoBus_on_break :: "('w, 'c) Providers \<Rightarrow> 'f Env \<Rightarrow> ('w, 'c) ServoBus \<Rightarrow> 'f Servo \<Rightarrow> (('w, 'c) ServoBus \<times> 'f Servo) option" where
  "ServoBus_on_break P env b sv =
     (let (b, now) = bus_now P b
      in if ClockTracker_cal_active (sb_clock b) then
           let (b, cursor) = bus_cursor P b;
               (ck, at) = ClockTracker_on_cal_break (sb_clock b) now cursor (pr_TICKS_PER_US P);
               b = b\<lparr>sb_clock := ck\<rparr>
           in case at of
                Some t \<Rightarrow> Some (arm_deadline P (b\<lparr>sb_framer_at := Some t\<rparr>), sv)
              | None \<Rightarrow> Some (b, sv)
         else
           let (b, cursor) = bus_cursor P b;
               (f, fresh) = Framer_on_wire_fault (sb_framer b) cursor;
               b = b\<lparr>sb_framer := f\<rparr>
           in do { b \<leftarrow> (if fresh
                         then do { brk \<leftarrow> newest_is_break_byte (bus_ring P b) cursor;
                                   if brk
                                   then let (b, cur) = bus_cursor P b
                                        in Some (b\<lparr>sb_clock := ClockTracker_on_drift_break (sb_clock b) now cur (length (bus_ring P b)) (sb_tpb b)\<rparr>)
                                   else Some b }
                         else Some b);
                   (b, sv) \<leftarrow> drive_framer FRAMES_PER_WAKE P env b sv;
                   let b = (if \<not> fresh \<and> sb_framer_at b = None then b\<lparr>sb_framer_at := Some (now + sb_tpb b)\<rparr> else b);
                       b = (if TxEngine_staged (sb_tx b) \<and> \<not> TxEngine_collision_tolerant (sb_tx b)
                               \<and> \<not> Chain_waiting_for (sb_chain b) \<and> sb_pending b = None
                            then let (b, cur) = bus_cursor P b
                                 in if \<not> Framer_caught_up (sb_framer b) cur
                                    then b\<lparr>sb_tx := TxEngine_abort (sb_tx b), sb_chain := Chain_reset (sb_chain b), sb_chain_at := None\<rparr>
                                    else b
                            else b);
                       (ch, out) = Chain_on_break_observed (sb_chain b) now
                   in do { b \<leftarrow> route_chain P (b\<lparr>sb_chain := ch\<rparr>) out;
                           Some (arm_deadline P b, sv) } })"

fun deadline_loop :: "nat \<Rightarrow> ('w, 'c) Providers \<Rightarrow> 'f Env \<Rightarrow> ('w, 'c) ServoBus \<Rightarrow> 'f Servo \<Rightarrow> (('w, 'c) ServoBus \<times> 'f Servo) option" where
  "deadline_loop 0 P env b sv = Some (b, sv)"
| "deadline_loop (Suc n) P env b sv =
     (let (b, now) = bus_now P b; framer_due = due now (sb_framer_at b)
      in do { (b, sv) \<leftarrow> (if framer_due
                          then drive_framer FRAMES_PER_WAKE P env
                                 (b\<lparr>sb_framer_at := None, sb_clock := ClockTracker_abandon_cal (sb_clock b)\<rparr>) sv
                          else Some (b, sv));
              let chain_due = due now (sb_chain_at b)
              in do { b \<leftarrow> (if chain_due
                            then let (ch, out) = Chain_on_deadline (sb_chain b) now
                                 in route_chain P (b\<lparr>sb_chain_at := None, sb_chain := ch\<rparr>) out
                            else Some b);
                      if \<not> framer_due \<and> \<not> chain_due then Some (b, sv) else deadline_loop n P env b sv } })"

definition ServoBus_on_deadline :: "('w, 'c) Providers \<Rightarrow> 'f Env \<Rightarrow> ('w, 'c) ServoBus \<Rightarrow> 'f Servo \<Rightarrow> (('w, 'c) ServoBus \<times> 'f Servo) option" where
  "ServoBus_on_deadline P env b sv =
     do { (b, sv) \<leftarrow> deadline_loop DEADLINE_DRAIN_MAX P env b sv; Some (arm_deadline P b, sv) }"

definition set_rate :: "('w, 'c) Providers \<Rightarrow> BaudRate \<Rightarrow> ('w, 'c) ServoBus \<Rightarrow> ('w, 'c) ServoBus" where
  "set_rate P rate b =
     b\<lparr>sb_world := pr_apply P (sb_world b) rate, sb_rate := rate, sb_tpb := tpb_for P rate,
       sb_clock := ClockTracker_restart (sb_clock b)\<rparr>"

definition ServoBus_on_tx_complete :: "('w, 'c) Providers \<Rightarrow> ('w, 'c) ServoBus \<Rightarrow> ('w, 'c) ServoBus option" where
  "ServoBus_on_tx_complete P b =
     do { (t, c, out) \<leftarrow> TxEngine_on_arm_complete (pr_crc P) (sb_tx b) (sb_crc b);
          let b = b\<lparr>sb_tx := t, sb_crc := c\<rparr>
          in if out = TxOut_Released then
               let b = (case sb_pending_id b of Some i \<Rightarrow> b\<lparr>sb_pending_id := None, sb_id := i\<rparr> | None \<Rightarrow> b)
               in Some (case sb_pending_baud b of Some r \<Rightarrow> set_rate P r (b\<lparr>sb_pending_baud := None\<rparr>) | None \<Rightarrow> b)
             else Some b }"

definition ServoBus_take_reboot :: "('w, 'c) ServoBus \<Rightarrow> ('w, 'c) ServoBus \<times> BootMode option" where
  "ServoBus_take_reboot b =
     (if TxEngine_busy (sb_tx b) then (b, None) else (b\<lparr>sb_pending_reboot := None\<rparr>, sb_pending_reboot b))"

definition ServoBus_diag :: "('w, 'c) ServoBus \<Rightarrow> LinkDiag" where
  "ServoBus_diag b = \<lparr>ld_crc_fail_count = sb_crc_fails b, ld_framing_drop_count = fm_drops (sb_framer b)\<rparr>"

definition ServoBus_poll_clock_trim :: "('w, 'c) ServoBus \<Rightarrow> ('w, 'c) ServoBus \<times> int option" where
  "ServoBus_poll_clock_trim b = (let (ck, r) = ClockTracker_poll (sb_clock b) in (b\<lparr>sb_clock := ck\<rparr>, r))"

definition ServoBus_on_rescue_break :: "('w, 'c) Providers \<Rightarrow> ('w, 'c) ServoBus \<Rightarrow> ('w, 'c) ServoBus" where
  "ServoBus_on_rescue_break P b =
     (if TxEngine_streaming (sb_tx b) then b
      else let b = set_rate P B500000 b;
               (b, cursor) = bus_cursor P b
           in arm_deadline P (b\<lparr>sb_framer := Framer_resync (sb_framer b) cursor, sb_chain := Chain_reset (sb_chain b),
                 sb_tx := TxEngine_abort (sb_tx b), sb_pending := None, sb_framer_at := None, sb_chain_at := None\<rparr>))"

end
