(* ===== verification/BusSafe.thy ===== *)
theory BusSafe
  imports Bus
begin

text \<open>
  Safety of the transport composite: the invariant of a servo's bus state, kept by every interrupt handler and
  main-loop entry, none of which can panic; in particular a chain slot is only ever held for a reply that is
  staged.  The laws the handlers need of their providers are the locale \<open>bus_env\<close>.
\<close>

section \<open>The TX engine never panics\<close>

definition arm_ok :: "'c CrcEngine \<Rightarrow> 'c \<Rightarrow> FrameBuf \<Rightarrow> Arm \<Rightarrow> bool" where
  "arm_ok ce c buf arm \<longleftrightarrow> resolve ce c buf arm \<noteq> None"

definition feed_ok :: "'c CrcEngine \<Rightarrow> 'c \<Rightarrow> FrameBuf \<Rightarrow> Arm \<Rightarrow> bool" where
  "feed_ok ce c buf arm \<longleftrightarrow> (\<exists>s. resolve ce c buf arm = Some s \<and> even (length s))"

definition sendable :: "'c CrcEngine \<Rightarrow> TxEngine \<Rightarrow> 'c \<Rightarrow> bool" where
  "sendable ce t c \<longleftrightarrow> 0 < unat (tx_n_arms t) \<and> unat (tx_n_arms t) \<le> 4 \<and> 0 < unat (tx_n_feeds t) \<and> unat (tx_n_feeds t) \<le> 3
     \<and> (\<forall>i<unat (tx_n_arms t). arm_ok ce c (tx_buf t) (tx_arms t ! i))
     \<and> (\<forall>i<unat (tx_n_feeds t). feed_ok ce c (tx_buf t) (tx_feeds t ! i))
     \<and> (case tx_tail t of None \<Rightarrow> True | Some (Tail_Buf i) \<Rightarrow> i < 16 | Some (Tail_Ext a) \<Rightarrow> crc_mem ce c a \<noteq> None)
     \<and> unat (tx_crc_off t) + 2 \<le> 16"

definition tx_ok :: "'c CrcEngine \<Rightarrow> TxEngine \<Rightarrow> 'c \<Rightarrow> bool" where
  "tx_ok ce t c \<longleftrightarrow> tx_wf t \<and> (TxEngine_busy t \<longrightarrow> sendable ce t c)"

lemma resolve_cong:
  assumes "length (buf_bytes b) = length (buf_bytes b')" "crc_mem ce c = crc_mem ce c'"
  shows "arm_ok ce c b arm = arm_ok ce c' b' arm" "feed_ok ce c b arm = feed_ok ce c' b' arm"
  using assms by (cases arm; auto simp: arm_ok_def feed_ok_def resolve_def get_range_def read_mem_at_def)+

lemma sendable_cong:
  assumes "tx_n_arms t = tx_n_arms t'" "tx_n_feeds t = tx_n_feeds t'" "tx_arms t = tx_arms t'" "tx_feeds t = tx_feeds t'"
    "tx_tail t = tx_tail t'" "tx_crc_off t = tx_crc_off t'" "length (buf_bytes (tx_buf t)) = length (buf_bytes (tx_buf t'))"
    "crc_mem ce c = crc_mem ce c'"
  shows "sendable ce t c = sendable ce t' c'"
  using assms resolve_cong [OF assms(7,8)] by (simp add: sendable_def split: option.split TailPtr.split)

lemma all_less_2: "(\<forall>i<2. P i) \<longleftrightarrow> P 0 \<and> P (Suc 0)" and all_less_3: "(\<forall>i<3. P i) \<longleftrightarrow> P 0 \<and> P (Suc 0) \<and> P (2 :: nat)"
  by (auto simp: less_Suc_eq eval_nat_numeral)

lemma small_sendable: "tx_wf t \<Longrightarrow> staged_small own l pay t \<Longrightarrow> sendable ce t c"
proof -
  assume w: "tx_wf t" and "staged_small own l pay t"
  then obtain i0 r ar fr where st: "buf_bytes (tx_buf t) = [0, own, l, i0] @ pay @ [0, 0] @ r" "length pay \<le> 2"
    "tx_arms t = Arm_Buf 1 (of_nat (3 + length pay)) # Arm_Buf (of_nat (4 + length pay)) 2 # ar" "tx_n_arms t = 2"
    "tx_feeds t = Arm_Buf 0 (of_nat (4 + length pay - length pay mod 2)) # fr" "tx_n_feeds t = 1"
    "tx_tail t = (if odd (length pay) then Some (Tail_Buf (3 + length pay)) else None)" "tx_crc_off t = of_nat (4 + length pay)"
    unfolding staged_small_def by auto
  have "length (buf_bytes (tx_buf t)) = 16" using w by (simp add: tx_wf_def)
  moreover have "unat (of_nat (3 + length pay) :: u16) = 3 + length pay" "unat (of_nat (4 + length pay) :: u16) = 4 + length pay"
    "unat (of_nat (4 + length pay - length pay mod 2) :: u16) = 4 + length pay - length pay mod 2"
    using st(2) by (intro unat_of_nat_small; simp)+
  moreover have "4 + length pay - length pay mod 2 \<le> 16" using st(2) by linarith
  ultimately show ?thesis using st unfolding sendable_def
    by (simp add: all_less_2 arm_ok_def feed_ok_def resolve_def get_range_def)
qed

context crc_engine
begin

lemma stream_sendable:
  assumes "tx_wf t" "staged_stream base own l pay t" "\<forall>j<length pay. crc_mem ce c (base + j) = Some (pay ! j)"
  shows "sendable ce t c"
proof -
  obtain i0 r ar fr n m where st: "buf_bytes (tx_buf t) = [0, own, l, i0, 0, 0] @ r" "pay \<noteq> []"
    "tx_arms t = Arm_Buf 1 3 # Arm_Ext (Some base) n # Arm_Buf 4 2 # ar" "unat n = length pay" "tx_n_arms t = 3"
    "tx_feeds t = Arm_Buf 0 4 # Arm_Ext (Some base) m # fr" "unat m = length pay - length pay mod 2" "tx_n_feeds t = 2"
    "tx_tail t = (if odd (length pay) then Some (Tail_Ext (base + length pay - 1)) else None)" "tx_crc_off t = 4"
    using assms(2) unfolding staged_stream_def by auto
  have r: "read_mem_at ce c base k = Some (take k pay)" if "k \<le> length pay" for k
    using read_mem [of k c base pay] assms(3) that by simp
  have "crc_mem ce c (base + length pay - 1) = Some (pay ! (length pay - 1))"
    using assms(3) [rule_format, of "length pay - 1"] st(2) Nat.add_diff_assoc [of 1 "length pay" base] by (simp add: Suc_le_eq)
  then show ?thesis using st r [of "length pay"] r [of "length pay - length pay mod 2"] unfolding sendable_def
    by (simp add: all_less_2 all_less_3 arm_ok_def feed_ok_def resolve_def get_range_def)
qed

lemma stage_total:
  assumes "tx_ok ce t c"
  shows "\<exists>t' c' r. TxEngine_stage_gather ce t c own result alert spans = Some (t', c', r) \<and> tx_ok ce t' c' \<and> acc c' = acc c
    \<and> (if r = Inr () then \<not> TxEngine_busy t \<and> TxEngine_staged t' else t' = t \<and> c' = c)"
proof -
  have w: "tx_wf t" using assms by (simp add: tx_ok_def)
  consider "TxEngine_busy t" | "\<not> TxEngine_busy t" "252 < length (concat spans)"
    | "\<not> TxEngine_busy t" "length (concat spans) \<le> 2" | "\<not> TxEngine_busy t" "2 < length (concat spans)" "length (concat spans) \<le> 252"
    by linarith
  then show ?thesis
  proof cases
    case 3
    from stage_small_shape [OF w 3, of c own result alert] show ?thesis
      using 3(1) small_sendable by (auto simp: tx_ok_def keeps_tx_def TxEngine_staged_def)
  next
    case 4
    from stage_stream_shape [OF w 4, of c own result alert] show ?thesis
      using 4(1) stream_sendable by (fastforce simp: tx_ok_def keeps_tx_def TxEngine_staged_def)
  qed (use assms in \<open>auto simp: stage_refused\<close>)
qed

lemma feed_total:
  assumes "feed_ok ce c buf arm"
  shows "\<exists>s c'. resolve ce c buf arm = Some s \<and> crc_feed ce c s = Some c' \<and> crc_mem ce c' = crc_mem ce c"
  using assms unfolding feed_ok_def by (metis feed)

lemma trigger_total:
  assumes "tx_ok ce t c"
  shows "\<exists>t' c'. TxEngine_trigger ce t c over = Some (t', c') \<and> tx_ok ce t' c' \<and> \<not> TxEngine_staged t'
    \<and> (TxEngine_busy t' \<longleftrightarrow> TxEngine_busy t)"
proof (cases "TxEngine_staged t")
  case False
  then show ?thesis using assms by (simp add: TxEngine_trigger_def)
next
  case True
  then have b: "TxEngine_busy t" by (auto simp: TxEngine_staged_def TxEngine_busy_def)
  with assms have s: "sendable ce t c" and w: "tx_wf t" by (auto simp: tx_ok_def)
  define buf where "buf = \<lparr>buf_bytes = (buf_bytes (tx_buf t))[3 := Inst_status (override_result over (tx_result t)) (tx_alert t)]\<rparr>"
  define c0 where "c0 = crc_reset ce c"
  define t0 where "t0 = wire_log (t\<lparr>tx_buf := buf\<rparr>) [WireEvent_Start]"
  have "sendable ce t0 c0"
    using s reset(2) by (subst sendable_cong [of _ t _ _ c]) (simp_all add: t0_def wire_log_def buf_def c0_def)
  then have s0: "sendable ce t0 c0" .
  then obtain a where a: "resolve ce c0 (tx_buf t0) (tx_arms t0 ! 0) = Some a"
    by (auto simp: sendable_def arm_ok_def)
  from s0 have "feed_ok ce c0 (tx_buf t0) (tx_feeds t0 ! 0)" by (auto simp: sendable_def)
  then obtain f c1 where f: "resolve ce c0 (tx_buf t0) (tx_feeds t0 ! 0) = Some f" "crc_feed ce c0 f = Some c1" "crc_mem ce c1 = crc_mem ce c0"
    using feed_total by blast
  have l: "0 < length (tx_arms t)" "0 < length (tx_feeds t)" "3 < length (buf_bytes (tx_buf t))" using w by (simp_all add: tx_wf_def)
  define t1 where "t1 = (wire_log t0 [WireEvent_Send a])\<lparr>tx_state := TxState_Streaming 1\<rparr>"
  have "TxEngine_trigger ce t c over = Some (t1, c1)"
    using True a f l by (simp add: TxEngine_trigger_def put_at_def Let_def t1_def t0_def c0_def buf_def wire_log_def)
  moreover have "sendable ce t1 c1"
    using s0 f(3) by (subst sendable_cong [of _ t0 _ _ c0]) (simp_all add: t1_def wire_log_def)
  moreover have "tx_wf t1" using w by (simp add: tx_wf_def t1_def t0_def wire_log_def buf_def)
  ultimately show ?thesis using b by (auto simp: tx_ok_def t1_def TxEngine_staged_def TxEngine_busy_def)
qed

lemma patch_total:
  assumes "tx_wf t" "sendable ce t c"
  shows "\<exists>t' c'. TxEngine_patch_crc ce t c = Some (t', c') \<and> tx_wf t' \<and> sendable ce t' c' \<and> tx_state t' = tx_state t \<and> tx_n_arms t' = tx_n_arms t"
proof -
  obtain c1 v where p: "poll_result ce (unat SPIN_PER_BYTE) c = (c1, v)" by fastforce
  have m: "crc_mem ce c1 = crc_mem ce c" using poll [OF p] by simp
  show ?thesis
  proof (cases v)
    case None
    then show ?thesis using p assms m
      by (auto simp: TxEngine_patch_crc_def tx_wf_def intro: sendable_cong [THEN iffD1, rotated -1])
  next
    case (Some x)
    have "\<exists>y. fold_tail ce c1 (tx_buf t) (tx_tail t) x = Some y"
      using assms m by (auto simp: fold_tail_def sendable_def tx_wf_def split: option.splits TailPtr.splits)
    then obtain y where y: "fold_tail ce c1 (tx_buf t) (tx_tail t) x = Some y" by blast
    define k where "k = unat (tx_crc_off t)"
    have k: "k + 2 \<le> length (buf_bytes (tx_buf t))" using assms by (simp add: sendable_def tx_wf_def k_def)
    then obtain d where d: "copy_slice (buf_bytes (tx_buf t)) k (k + 2) (to_le16 y) = Some d" by (simp add: copy_slice_def)
    have "sendable ce (t\<lparr>tx_buf := \<lparr>buf_bytes = d\<rparr>\<rparr>) c1"
      using assms(2) m length_copy_slice [OF d] by (subst sendable_cong [of _ t _ _ c]) simp_all
    then show ?thesis using Some p y d assms(1) length_copy_slice [OF d] by (simp add: TxEngine_patch_crc_def tx_wf_def k_def)
  qed
qed

lemma arm_complete_total:
  assumes "tx_ok ce t c"
  shows "\<exists>t' c' r. TxEngine_on_arm_complete ce t c = Some (t', c', r) \<and> tx_ok ce t' c' \<and> (TxEngine_staged t' \<longleftrightarrow> TxEngine_staged t)"
proof (cases "\<exists>n. tx_state t = TxState_Streaming n \<and> n < tx_n_arms t")
  case False
  then show ?thesis using assms by (cases "tx_state t")
      (auto simp: TxEngine_on_arm_complete_def wire_log_def tx_ok_def tx_wf_def TxEngine_busy_def TxEngine_staged_def)
next
  case True
  then obtain n where n: "tx_state t = TxState_Streaming n" "n < tx_n_arms t" by blast
  have w: "tx_wf t" and s: "sendable ce t c" using assms n(1) by (auto simp: tx_ok_def TxEngine_busy_def)
  have i: "unat n < unat (tx_n_arms t)" using n(2) by (simp add: word_less_nat_alt)
  have l: "unat n < length (tx_arms t)" "unat (tx_n_feeds t) \<le> length (tx_feeds t)"
    using i s w by (auto simp: tx_wf_def sendable_def)
  define step where "step = (if unat n < unat (tx_n_feeds t)
      then do { f \<leftarrow> Option.bind (nth_opt (tx_feeds t) (unat n)) (resolve ce c (tx_buf t)); c \<leftarrow> crc_feed ce c f; Some (t, c) }
      else TxEngine_patch_crc ce t c)"
  have "\<exists>t1 c1. step = Some (t1, c1) \<and> tx_wf t1 \<and> sendable ce t1 c1 \<and> tx_n_arms t1 = tx_n_arms t"
  proof (cases "unat n < unat (tx_n_feeds t)")
    case True
    then have "feed_ok ce c (tx_buf t) (tx_feeds t ! unat n)" using s by (simp add: sendable_def)
    then obtain f c1 where "resolve ce c (tx_buf t) (tx_feeds t ! unat n) = Some f" "crc_feed ce c f = Some c1" "crc_mem ce c1 = crc_mem ce c"
      using feed_total by blast
    then show ?thesis using True l w s by (auto simp: step_def intro: sendable_cong [THEN iffD1, rotated -1])
  next
    case False
    then show ?thesis using patch_total [OF w s] by (auto simp: step_def)
  qed
  then obtain t1 c1 where st: "step = Some (t1, c1)" "tx_wf t1" "sendable ce t1 c1" "tx_n_arms t1 = tx_n_arms t" by blast
  have "unat n < length (tx_arms t1)" using st(2) l(1) w by (simp add: tx_wf_def)
  moreover obtain a where "resolve ce c1 (tx_buf t1) (tx_arms t1 ! unat n) = Some a"
    using st(3,4) i by (auto simp: sendable_def arm_ok_def)
  ultimately have "TxEngine_on_arm_complete ce t c
      = Some ((wire_log t1 [WireEvent_Send a])\<lparr>tx_state := TxState_Streaming (n + 1)\<rparr>, c1, TxOut_Armed)"
    using n st(1) by (simp add: TxEngine_on_arm_complete_def step_def Let_def)
  moreover have "sendable ce ((wire_log t1 [WireEvent_Send a])\<lparr>tx_state := TxState_Streaming (n + 1)\<rparr>) c1"
    using st(3) by (subst sendable_cong [of _ t1 _ _ c1]) (simp_all add: wire_log_def)
  ultimately show ?thesis using st(2) n(1) by (auto simp: tx_ok_def tx_wf_def wire_log_def TxEngine_staged_def)
qed

lemma abort_ok: "tx_ok ce t c \<Longrightarrow> tx_ok ce (TxEngine_abort t) c"
  by (auto simp: tx_ok_def TxEngine_abort_def TxEngine_busy_def wire_log_def tx_wf_def)

end

section \<open>The invariant of the bus\<close>

definition span_ok :: "nat \<Rightarrow> u16 \<Rightarrow> u16 \<Rightarrow> bool" where
  "span_ok N anchor fp \<longleftrightarrow> unat anchor < N \<and> 6 \<le> unat fp \<and> unat fp \<le> 258"

definition bus_ok :: "('w, 'c) Providers \<Rightarrow> ('w \<Rightarrow> bool) \<Rightarrow> nat \<Rightarrow> ('w, 'c) ServoBus \<Rightarrow> bool" where
  "bus_ok P wok N b \<longleftrightarrow> wok (sb_world b) \<and> tx_ok (pr_crc P) (sb_tx b) (sb_crc b) \<and> unat (fm_anchor (sb_framer b)) < N
     \<and> (Chain_active (sb_chain b) \<longrightarrow> TxEngine_staged (sb_tx b))
     \<and> (case sb_pending b of None \<Rightarrow> True | Some p \<Rightarrow> span_ok N (pd_anchor p) (pd_footprint p))"

lemma servo_ok_reply [simp]: "servo_ok (sv\<lparr>sv_reply := r\<rparr>) = servo_ok sv"
  by (simp add: servo_ok_def split: option.split)

lemma commit_total:
  assumes "env_ok env" "servo_ok sv"
  shows "\<exists>sv'. Dispatcher_commit env sv = Some sv' \<and> servo_ok sv' \<and> sv_pending sv' = None"
proof (cases "sv_pending sv")
  case None
  then show ?thesis using assms by (simp add: Dispatcher_commit_def)
next
  case (Some p)
  obtain s0 ws d where s: "staged_rel s0 ws" "staged_rel (sv_staged sv) (ws @ [(pw_addr p, d)])" "pw_snap p = StagedWrites_snapshot s0"
    "length (sv_table sv) = TABLE_SIZE" using assms(2) Some by (auto simp: servo_ok_def)
  have e: "heapless_ok (env_hv env)" "rm_SIZE (env_map env) = TABLE_SIZE" using assms(1) by (simp_all add: env_ok_def)
  then have "RegisterFile_commit_from (env_hv env) (env_map env) (sv_table sv) (sv_staged sv) (pw_snap p)
      = Some (apply_log TABLE_SIZE (sv_table sv) [(pw_addr p, d)], s0)"
    using commit_effect [OF e(1) s(1,2), of "sv_table sv" "env_map env"] s(3,4) by simp
  then show ?thesis using Some s by (cases "pw_hold p") (auto simp: Dispatcher_commit_def Let_def servo_ok_def mark_dirty_if_persistent_def)
qed

lemma req_ok_decoded: "decode f own = Decoded_Own req mr s \<Longrightarrow> req_ok req"
  by (cases req) (simp_all add: req_ok_def decode_request_ok)

text \<open>What the framer promises of a span it hands out.\<close>

definition handed_span :: "bytes \<Rightarrow> FrameSpan \<Rightarrow> bool" where
  "handed_span ring sp \<longleftrightarrow> span_ok (length ring) (fs_anchor sp) (fs_footprint sp) \<and> ring ! unat (fs_anchor sp) = 0
     \<and> unat (fs_footprint sp) = span_at ring (unat (fs_anchor sp))"

definition out_ok :: "bytes \<Rightarrow> FramerOut \<Rightarrow> bool" where
  "out_ok ring out \<longleftrightarrow> (case out of FramerOut_Frame sp \<Rightarrow> handed_span ring sp | FramerOut_Covered sp _ \<Rightarrow> handed_span ring sp | _ \<Rightarrow> True)"

lemma ring_ok_len: "ring_ok ring \<Longrightarrow> 0 < length ring \<and> length ring \<le> 32768"
  by (erule ring_okE) blast

lemma wrapped_index:
  assumes "ring_ok ring"
  shows "unat (of_nat (ring_wrap i (length ring)) :: u16) < length ring"
proof -
  have l: "0 < length ring" "length ring \<le> 32768" using ring_ok_len [OF assms(1)] by simp_all
  have "i mod length ring < length ring" using l by simp
  moreover have "unat (of_nat (i mod length ring) :: u16) = i mod length ring"
    by (rule unat_of_nat_small) (use calculation l in linarith)
  ultimately show ?thesis by (simp add: ring_wrap_mod [OF assms])
qed

lemma wait_span:
  assumes "ring_ok ring" "unat (fm_anchor g) < length ring" "Framer_wait g aim now tpb cursor (length ring) = (f', out)"
  shows "unat (fm_anchor f') < length ring \<and> out_ok ring out"
proof -
  have l: "0 < length ring" "length ring \<le> 32768" using ring_ok_len [OF assms(1)] by simp_all
  have "unat (of_nat (ring_wrap (unat (fm_anchor g) + 1) (length ring)) :: u16) < length ring"
    by (rule wrapped_index [OF assms(1)])
  then show ?thesis using assms(2,3)
    by (cases rule: wait_cases [of g aim now tpb cursor "length ring"]) (auto simp: out_ok_def)
qed

lemma candidate_span:
  assumes "ring_ok ring" "unat (fm_anchor g) < length ring" "plausible_at ring (unat (fm_anchor g)) (unat rc)"
  shows "\<exists>f' out. Framer_candidate g ring rc cursor now tpb = Some (f', out) \<and> unat (fm_anchor f') < length ring \<and> out_ok ring out"
proof -
  define fp where "fp = span_at ring (unat (fm_anchor g))"
  have l: "0 < length ring" "length ring \<le> 32768" using ring_ok_len [OF assms(1)] by simp_all
  have b: "fp \<le> 258" using span_at_bounds(2) by (simp add: fp_def)
  then have u: "unat (of_nat fp :: u16) = fp" by (intro unat_of_nat_small) simp
  have z: "ring ! unat (fm_anchor g) = 0" using assms(3) by (simp add: plausible_at_def)
  have h: "handed_span ring \<lparr>fs_anchor = fm_anchor g, fs_footprint = of_nat fp, fs_packet_end = e\<rparr>" if "4 \<le> unat rc" for e
    using span_at_plausible [OF assms(3) that] assms(2) z u b by (simp add: handed_span_def span_ok_def fp_def)
  have m: "unat (of_nat ((unat (fm_anchor g) + fp) mod length ring) :: u16) < length ring"
    using l mod_less_divisor [OF l(1), of "unat (fm_anchor g) + fp"] by (subst unat_of_nat_small) linarith+
  show ?thesis
  proof (cases rule: candidate_cases [OF assms(1,2), of rc cursor now tpb])
    case (1 aim)
    then show ?thesis using wait_span [OF assms(1,2)] by (cases "Framer_wait g aim now tpb cursor (length ring)") auto
  next
    case (2 fr e)
    then show ?thesis using assms(2) h by (auto simp: out_ok_def fp_def)
  next
    case 3
    then show ?thesis using m h by (auto simp: out_ok_def fp_def)
  qed
qed

lemma resolve_span:
  assumes "ring_ok ring" "unat (fm_anchor f) < length ring" "unat cursor < length ring"
  shows "\<exists>f' out. Framer_resolve f ring cursor now tpb = Some (f', out) \<and> unat (fm_anchor f') < length ring \<and> out_ok ring out"
proof -
  have l: "0 < length ring" "length ring \<le> 32768" using ring_ok_len [OF assms(1)] by simp_all
  have sk: "unat (fm_anchor (skipped ring f j)) < length ring" for j
    using l by (simp add: skipped_anchor [OF l assms(2)])
  show ?thesis
  proof (cases rule: resolve_cases [OF assms(1,2), of cursor now tpb])
    case (4 j rc)
    then show ?thesis
      using candidate_span [OF assms(1) sk [of j], of rc cursor now tpb] skipped_anchor [OF l assms(2), of j] by simp
  qed (use assms(2) sk in \<open>auto simp: out_ok_def\<close>)
qed

lemma ringed_mod: "ringed ring (x mod length ring) n = ringed ring x n"
  by (simp add: ringed_def mod_simps)

lemma ringed_line: "s + m \<le> length ring \<Longrightarrow> ringed ring s m = take m (drop s ring)"
  by (intro nth_equalityI) simp_all

lemma ringed_wrap:
  assumes "s \<le> length ring" "m \<le> length ring"
  shows "ringed ring s (length ring - s + m) = take (length ring - s) (drop s ring) @ take m ring"
proof (rule nth_equalityI)
  fix i assume "i < length (ringed ring s (length ring - s + m))"
  then have i: "i < length ring - s + m" by simp
  show "ringed ring s (length ring - s + m) ! i = (take (length ring - s) (drop s ring) @ take m ring) ! i"
  proof (cases "i < length ring - s")
    case True
    then show ?thesis using i assms by (simp add: nth_append)
  next
    case False
    then have "s + i = length ring + (i - (length ring - s))" "i - (length ring - s) < m" using i assms by linarith+
    moreover from this(2) have "i - (length ring - s) < length ring" using assms(2) by linarith
    ultimately have "(s + i) mod length ring = i - (length ring - s)" by (metis mod_add_self1 mod_less)
    then show ?thesis using False i assms by (simp add: nth_append)
  qed
qed (use assms in simp)

section \<open>The providers' contract\<close>

text \<open>What the handlers rely on: the dispatcher's environment is well formed, the ring keeps its power-of-two length of
  at least 512 bytes and the cursor stays inside it, whatever the world does between two reads.\<close>

locale bus_env = crc_engine "pr_crc P" acc base for P :: "('w, 'c) Providers" and acc base +
  fixes env :: "'f Env" and wok :: "'w \<Rightarrow> bool" and N :: nat
  assumes env: "env_ok env"
    and ring_size: "\<exists>k. 9 \<le> k \<and> k \<le> 15 \<and> N = 2 ^ k"
    and ring_length: "wok w \<Longrightarrow> length (pr_bytes P w) = N"
    and cursor_in: "wok w \<Longrightarrow> unat (snd (pr_cursor P w)) < N"
    and world_kept: "wok w \<Longrightarrow> wok (fst (pr_now P w))" "wok w \<Longrightarrow> wok (fst (pr_cursor P w))"
      "wok w \<Longrightarrow> wok (pr_set P w t)" "wok w \<Longrightarrow> wok (pr_cancel P w)" "wok w \<Longrightarrow> wok (pr_apply P w r)"
begin

abbreviation ok :: "('w, 'c) ServoBus \<Rightarrow> bool" where
  "ok b \<equiv> bus_ok P wok N b"

lemma ring_512: "512 \<le> N" "even N"
proof -
  obtain k where k: "9 \<le> k" "N = 2 ^ k" using ring_size by blast
  then have "(2::nat) ^ 9 \<le> 2 ^ k" by (intro power_increasing) auto
  then show "512 \<le> N" "even N" using k by auto
qed

lemma ring_is_ok: "ok b \<Longrightarrow> ring_ok (bus_ring P b) \<and> length (bus_ring P b) = N"
  using ring_size ring_length by (auto simp: bus_ok_def bus_ring_def ring_ok_def)

lemma now_step: "bus_now P b = (b', n) \<Longrightarrow> ok b \<Longrightarrow> ok b' \<and> (\<exists>w. b' = b\<lparr>sb_world := w\<rparr>)"
  using world_kept(1) [of "sb_world b"] by (auto simp: bus_now_def bus_ok_def split: prod.splits)

lemma cursor_step: "bus_cursor P b = (b', c) \<Longrightarrow> ok b \<Longrightarrow> ok b' \<and> unat c < N \<and> (\<exists>w. b' = b\<lparr>sb_world := w\<rparr>)"
  using world_kept(2) [of "sb_world b"] cursor_in [of "sb_world b"] by (auto simp: bus_cursor_def bus_ok_def split: prod.splits)

lemma route_chain_ok:
  "ok b \<Longrightarrow> (\<And>s. out = ChainOut_Trigger s \<Longrightarrow> \<not> Chain_active (sb_chain b)) \<Longrightarrow> \<exists>b'. route_chain P b out = Some b' \<and> ok b'"
proof (induction "out_rank out (sb_chain b)" arbitrary: b out rule: less_induct)
  case less
  show ?case
  proof (cases out)
    case ChainOut_None
    then show ?thesis using less.prems by simp
  next
    case (ChainOut_Wait t)
    obtain b1 now where n: "bus_now P b = (b1, now)" by fastforce
    have b1: "ok b1" "sb_chain b1 = sb_chain b" using now_step [OF n less.prems(1)] by auto
    obtain ch out' where d: "Chain_on_deadline (sb_chain b1) now = (ch, out')" by fastforce
    define b2 where "b2 = b1\<lparr>sb_chain := ch\<rparr>"
    have r: "out_rank out' ch < out_rank out (sb_chain b)" using on_deadline_rank [OF d] b1(2) ChainOut_Wait by simp
    have a: "Chain_active ch \<Longrightarrow> Chain_active (sb_chain b1)" "\<And>s. out' = ChainOut_Trigger s \<Longrightarrow> \<not> Chain_active ch"
      using d by (auto simp: Chain_on_deadline_def Chain_active_def Let_def split: ChainState.splits if_splits)
    have "ok b2" using b1(1) a(1) by (auto simp: bus_ok_def b2_def)
    then have "\<exists>b'. route_chain P b2 out' = Some b' \<and> ok b'"
      using less.hyps [of out' b2] r a(2) by (simp add: b2_def)
    then show ?thesis using n d b1 ChainOut_Wait by (auto simp: b2_def bus_ok_def)
  next
    case (ChainOut_Trigger s)
    have "tx_ok (pr_crc P) (sb_tx b) (sb_crc b)" "\<not> Chain_active (sb_chain b)" using less.prems ChainOut_Trigger by (auto simp: bus_ok_def)
    then show ?thesis using ChainOut_Trigger less.prems(1) trigger_total [of "sb_tx b" "sb_crc b" "if s then Some ResultCode_PredecessorSilent else None"]
      by (auto simp: bus_ok_def)
  qed
qed

lemma sequence_ok:
  assumes "ok b" "TxEngine_staged (sb_tx b)"
  shows "\<exists>b'. sequence_reply P b slot e = Some b' \<and> ok b'"
proof -
  define r where "r = (case TxEngine_slot_key (sb_tx b) of
      Some key \<Rightarrow> let (b, now) = bus_now P b; draw = (key XOR ucast now) AND (ENUM_REPLY_SLOTS - 1)
        in (b, ServoBus_reply_gap P + ucast draw * sb_tpb b)
    | None \<Rightarrow> (b, ServoBus_reply_gap P))"
  obtain b1 gap where g: "r = (b1, gap)" by fastforce
  have b1: "ok b1" "sb_tx b1 = sb_tx b"
    using g assms now_step [of b] by (auto simp: r_def Let_def split: option.splits prod.splits)
  obtain ch out where s: "Chain_on_reply_staged (sb_chain b1) slot e gap (ServoBus_reclaim P b1) (ServoBus_frame_allowance b1) = (ch, out)"
    by fastforce
  have "\<exists>t. out = ChainOut_Wait t" using s by (auto simp: Chain_on_reply_staged_def Let_def split: if_splits)
  moreover have "ok (b1\<lparr>sb_chain := ch\<rparr>)" using b1 assms(2) by (simp add: bus_ok_def)
  ultimately have "\<exists>b'. route_chain P (b1\<lparr>sb_chain := ch\<rparr>) out = Some b' \<and> ok b'" by (intro route_chain_ok) auto
  then show ?thesis using g s by (simp add: sequence_reply_def r_def [symmetric])
qed

lemma drop_staged_ok: "ok b \<Longrightarrow> ok (drop_staged b)"
  by (auto simp: drop_staged_def bus_ok_def Let_def Chain_reset_def Chain_active_def abort_ok)

lemma reply_event_ok:
  assumes "ok b"
  shows "\<exists>b' s'. reply_event P tol e (b, s) = Some (b', s') \<and> ok b'"
proof -
  have st: "\<exists>b' s'. stage_reply P tol key result alert spans (b, s) = Some (b', s') \<and> ok b'" for key result alert spans
  proof -
    have "tx_ok (pr_crc P) (sb_tx b) (sb_crc b)" using assms by (simp add: bus_ok_def)
    from stage_total [OF this, of "sb_id b" result alert spans] obtain t' c' r where
      t: "TxEngine_stage_gather (pr_crc P) (sb_tx b) (sb_crc b) (sb_id b) result alert spans = Some (t', c', r)"
      "tx_ok (pr_crc P) t' c'" "if r = Inr () then \<not> TxEngine_busy (sb_tx b) \<and> TxEngine_staged t' else t' = sb_tx b \<and> c' = sb_crc b"
      by blast
    have m: "tx_ok (pr_crc P) (TxEngine_mark_collision_tolerant t' key) c'" "TxEngine_staged (TxEngine_mark_collision_tolerant t' key) = TxEngine_staged t'"
      using t(2) sendable_cong [of "TxEngine_mark_collision_tolerant t' key" t' "pr_crc P" c' c']
      by (auto simp: tx_ok_def TxEngine_mark_collision_tolerant_def tx_wf_def TxEngine_busy_def TxEngine_staged_def split: TxState.splits)
    show ?thesis using t m assms by (cases r) (auto simp: stage_reply_def bus_ok_def Let_def split: if_splits)
  qed
  show ?thesis using st assms by (cases e) (auto simp: reply_event_def bus_ok_def)
qed

lemma reply_events_ok: "ok b \<Longrightarrow> \<exists>b' s'. reply_events P tol es (b, s) = Some (b', s') \<and> ok b'"
proof (induction es arbitrary: b s)
  case (Cons e es)
  then show ?case using reply_event_ok [OF Cons.prems, of tol e s] by fastforce
qed simp

lemma commit_ok:
  assumes "ok b" "servo_ok sv"
  shows "\<exists>b' sv'. bus_commit P env b sv = Some (b', sv') \<and> ok b' \<and> servo_ok sv'"
proof -
  obtain sv' where "Dispatcher_commit env (sv\<lparr>sv_reply := []\<rparr>) = Some sv'" "servo_ok sv'"
    using commit_total [OF env, of "sv\<lparr>sv_reply := []\<rparr>"] assms(2) by auto
  then show ?thesis using reply_events_ok [OF assms(1), of False "sv_reply sv'" False] by (auto simp: bus_commit_def)
qed

lemma dispatch_decoded_ok:
  assumes "ok b" "servo_ok sv" "span_ok N anchor fp"
  shows "\<exists>b' sv' r. dispatch_decoded P env b sv anchor fp = Some (b', sv', r) \<and> ok b' \<and> servo_ok sv'"
proof -
  have "unat fp \<le> N" using assms(3) ring_512 by (simp add: span_ok_def)
  then obtain v where v: "frame_view (bus_ring P b) anchor fp = Some v"
    using frame_view_ringed [of anchor "bus_ring P b" fp] ring_is_ok [OF assms(1)] assms(3) by (auto simp: span_ok_def)
  show ?thesis
  proof (cases "decode v (sb_id b)")
    case (Decoded_Own req mr slot)
    obtain sv' d where d: "dispatch env req mr (sv\<lparr>sv_reply := []\<rparr>) = Some (sv', d)" "servo_ok sv'"
      using dispatch_step [OF env _ req_ok_decoded [OF Decoded_Own], of "sv\<lparr>sv_reply := []\<rparr>" mr] assms(2) by (auto simp: step_ok_def)
    obtain b' s' where "reply_events P (is_enumerate req) (sv_reply sv') (b, False) = Some (b', s')" "ok b'"
      using reply_events_ok [OF assms(1)] by blast
    then show ?thesis using v Decoded_Own d by (simp add: dispatch_decoded_def)
  qed (use v assms in \<open>simp_all add: dispatch_decoded_def\<close>)
qed

text \<open>CRC state changes that keep the snapshot keep the invariant.\<close>

lemma crc_kept: "ok b \<Longrightarrow> crc_mem (pr_crc P) c = crc_mem (pr_crc P) (sb_crc b) \<Longrightarrow> ok (b\<lparr>sb_crc := c\<rparr>)"
  using sendable_cong [of "sb_tx b" "sb_tx b" "pr_crc P" c "sb_crc b"] by (simp add: bus_ok_def tx_ok_def)

text \<open>The engine is fed the covered bytes but the leading break of an odd anchor and the odd tail byte.\<close>

lemma crc_feed_ok:
  assumes "ok b" "span_ok N anchor fp"
  shows "\<exists>c. ServoBus_crc_feed P b anchor fp = Some (b\<lparr>sb_crc := c\<rparr>) \<and> crc_mem (pr_crc P) c = crc_mem (pr_crc P) (sb_crc b)
    \<and> acc c = osc_crc_continue 0 (drop (unat anchor mod 2) (ringed (bus_ring P b) (unat anchor)
        (unat fp - 2 - (unat fp - 2 - unat anchor mod 2) mod 2)))"
proof -
  define ring a where "ring = bus_ring P b" and "a = unat anchor"
  define start where "start = a + a mod 2"
  define e where "e = a + unat fp - 2"
  define k where "k = e - (e - start) mod 2"
  define c0 where "c0 = crc_reset (pr_crc P) (sb_crc b)"
  have N: "length ring = N" using ring_is_ok [OF assms(1)] by (simp add: ring_def)
  have s: "a < N" "6 \<le> unat fp" "unat fp \<le> 258" using assms(2) by (simp_all add: span_ok_def a_def)
  have "even start" by (simp add: start_def)
  have se: "start \<le> e" using s by (simp add: start_def e_def)
  obtain x where x: "e = start + x" using se le_Suc_ex by blast
  have "k = start + 2 * (x div 2)" using minus_mod_eq_mult_div [of x 2] by (simp add: k_def x)
  then have k: "even k" "start \<le> k" "k \<le> e" using \<open>even start\<close> x by auto
  have sN: "start \<le> N"
  proof -
    have "start \<noteq> Suc N" using \<open>even start\<close> ring_512(2) by auto
    then show ?thesis using s(1) mod_less_divisor [of 2 a] unfolding start_def by linarith
  qed
  have kN: "k - N \<le> N" using k(3) s ring_512 unfolding e_def by linarith
  have c0: "crc_mem (pr_crc P) c0 = crc_mem (pr_crc P) (sb_crc b)" "acc c0 = 0" using reset by (simp_all add: c0_def)
  have D: "ServoBus_crc_feed P b anchor fp =
     (if k \<le> N then do { s \<leftarrow> get_range ring start k; c \<leftarrow> crc_feed (pr_crc P) c0 s; Some (b\<lparr>sb_crc := c\<rparr>) }
      else do { s \<leftarrow> get_range ring start N; c \<leftarrow> crc_feed (pr_crc P) c0 s;
                s \<leftarrow> get_range ring 0 (k - N); c \<leftarrow> crc_feed (pr_crc P) c s; Some (b\<lparr>sb_crc := c\<rparr>) })"
    unfolding ServoBus_crc_feed_def Let_def ring_def [symmetric] a_def [symmetric] start_def [symmetric] e_def [symmetric]
      k_def [symmetric] c0_def [symmetric] N using s(2) by simp
  have fed: "\<exists>c. ServoBus_crc_feed P b anchor fp = Some (b\<lparr>sb_crc := c\<rparr>) \<and> crc_mem (pr_crc P) c = crc_mem (pr_crc P) (sb_crc b)
      \<and> acc c = osc_crc_continue 0 (ringed ring start (k - start))"
  proof (cases "k \<le> N")
    case True
    have g: "get_range ring start k = Some (ringed ring start (k - start))"
      using True k N by (simp add: get_range_def ringed_line)
    have "even (length (ringed ring start (k - start)))" using k \<open>even start\<close> by simp
    from feed [OF this, of c0] show ?thesis using D True g c0 by auto
  next
    case False
    define m where "m = k - N"
    have g: "get_range ring start N = Some (take (N - start) (drop start ring))" "get_range ring 0 m = Some (take m ring)"
      using sN kN N by (simp_all add: get_range_def m_def)
    have ev: "even (length (take (N - start) (drop start ring)))" "even (length (take m ring))"
      using ring_512(2) \<open>even start\<close> k(1) N kN by (simp_all add: m_def)
    obtain c1 where c1: "crc_feed (pr_crc P) c0 (take (N - start) (drop start ring)) = Some c1" "crc_mem (pr_crc P) c1 = crc_mem (pr_crc P) (sb_crc b)"
      "acc c1 = osc_crc_continue 0 (take (N - start) (drop start ring))" using feed [OF ev(1), of c0] c0 by auto
    obtain c2 where c2: "crc_feed (pr_crc P) c1 (take m ring) = Some c2" "crc_mem (pr_crc P) c2 = crc_mem (pr_crc P) (sb_crc b)"
      "acc c2 = osc_crc_continue (acc c1) (take m ring)" using feed [OF ev(2), of c1] c1 by auto
    have "k - start = N - start + m" using False sN by (simp add: m_def)
    then have "ringed ring start (k - start) = take (N - start) (drop start ring) @ take m ring"
      using ringed_wrap [of start ring m] sN kN N by (simp add: m_def)
    then show ?thesis using D False g c1 c2 by (auto simp: m_def osc_crc_continue_append)
  qed
  have "e - start = unat fp - 2 - a mod 2" using s by (simp add: e_def start_def)
  then have ke: "k - a = unat fp - 2 - (unat fp - 2 - a mod 2) mod 2" using s by (simp add: k_def e_def)
  have "ringed ring start (k - start) = drop (a mod 2) (ringed ring a (k - a))"
    using drop_ringed [of "a mod 2" ring a "k - a"] ringed_mod [of ring start] N by (simp add: start_def)
  then show ?thesis using fed unfolding ke by (simp add: ring_def a_def)
qed

lemma crc_verify_ok:
  assumes "ok b" "span_ok N anchor fp"
  shows "\<exists>c good. ServoBus_crc_verify P b anchor fp = Some (b\<lparr>sb_crc := c\<rparr>, good) \<and> crc_mem (pr_crc P) c = crc_mem (pr_crc P) (sb_crc b)"
proof -
  define ring where "ring = bus_ring P b"
  have N: "length ring = N" "0 < N" using ring_is_ok [OF assms(1)] ring_512 by (auto simp: ring_def)
  obtain c v where p: "poll_result (pr_crc P) (unat (SPIN_PER_BYTE * of_nat (unat fp - 2))) (sb_crc b) = (c, v)" by fastforce
  have "\<exists>x. ServoBus_crc_tail ring anchor fp = Some x" using N by (simp add: ServoBus_crc_tail_def Let_def)
  then obtain x where "ServoBus_crc_tail ring anchor fp = Some x" by blast
  then have "ServoBus_crc_verify P b anchor fp = Some (b\<lparr>sb_crc := c\<rparr>, case v of None \<Rightarrow> False
      | Some v \<Rightarrow> (case x of Some y \<Rightarrow> osc_crc_continue v [y] | None \<Rightarrow> v)
          = from_le16 (ring ! ((unat anchor + (unat fp - 2)) mod N)) (ring ! ((unat anchor + (unat fp - 2) + 1) mod N)))"
    using p N by (cases v) (simp_all add: ServoBus_crc_verify_def ring_def [symmetric] Let_def)
  then show ?thesis using poll [OF p] by blast
qed

lemma drift_note_ok:
  assumes "ok b"
  shows "\<exists>ck. drift_note_verified P b anchor fp = Some (b\<lparr>sb_clock := ck\<rparr>)"
proof -
  define ring where "ring = bus_ring P b"
  have N: "length ring = N" "0 < N" "ring_ok ring" using ring_is_ok [OF assms] ring_512 by (auto simp: ring_def)
  have "ring_wrap (unat anchor + 1) (length ring) < length ring" unfolding ring_wrap_mod [OF N(3)] using N by simp
  then show ?thesis using N by (auto simp: drift_note_verified_def ServoBus_ring_inst_def ring_def [symmetric] Let_def)
qed

lemma rejected_ok:
  assumes "ok b"
  shows "ok (frame_rejected P b anchor)"
  using assms wrapped_index [of "bus_ring P b"] ring_is_ok [OF assms]
  by (auto simp: frame_rejected_def bus_ok_def Let_def Framer_on_frame_rejected_def bus_ring_def)

lemma verify_ok:
  assumes "ok b" "servo_ok sv" "span_ok N (pd_anchor p) (pd_footprint p)"
  shows "\<exists>b' sv'. ServoBus_verify P env b sv p = Some (b', sv') \<and> ok b' \<and> servo_ok sv'"
proof -
  obtain c good where v: "ServoBus_crc_verify P b (pd_anchor p) (pd_footprint p) = Some (b\<lparr>sb_crc := c\<rparr>, good)"
    "crc_mem (pr_crc P) c = crc_mem (pr_crc P) (sb_crc b)" using crc_verify_ok [OF assms(1,3)] by blast
  define b1 where "b1 = b\<lparr>sb_crc := c\<rparr>"
  have b1: "ok b1" using crc_kept [OF assms(1) v(2)] by (simp add: b1_def)
  show ?thesis
  proof (cases good)
    case False
    have "servo_ok (if pd_table p then Dispatcher_revert env sv else sv)"
      using assms(2) revert_dangling_ok [OF env assms(2)] by (simp add: revert_eq_dangling)
    then show ?thesis using False v(1) b1 rejected_ok [OF drop_staged_ok [OF b1]] by (simp add: ServoBus_verify_def b1_def)
  next
    case True
    define b2 where "b2 = b1\<lparr>sb_framer := Framer_on_frame_verified (sb_framer b1)\<rparr>"
    have "ok b2" using b1 by (simp add: b2_def bus_ok_def Framer_on_frame_verified_def)
    then obtain ck where d: "drift_note_verified P b2 (pd_anchor p) (pd_footprint p) = Some (b2\<lparr>sb_clock := ck\<rparr>)" using drift_note_ok by blast
    have b3: "ok (b2\<lparr>sb_clock := ck\<rparr>)" using \<open>ok b2\<close> by (simp add: bus_ok_def)
    obtain b4 sv4 where c4: "(if pd_table p then bus_commit P env (b2\<lparr>sb_clock := ck\<rparr>) sv else Some (b2\<lparr>sb_clock := ck\<rparr>, sv)) = Some (b4, sv4)"
      "ok b4" "servo_ok sv4" using commit_ok [OF b3 assms(2)] b3 assms(2) by (cases "pd_table p") auto
    obtain b5 where c5: "(if pd_staged p \<and> TxEngine_staged (sb_tx b4) then sequence_reply P b4 (pd_slot p) (pd_packet_end p) else Some b4) = Some b5" "ok b5"
      using sequence_ok [OF c4(2)] c4(2) by (cases "pd_staged p \<and> TxEngine_staged (sb_tx b4)") auto
    have "ServoBus_verify P env b sv p = do { b \<leftarrow> drift_note_verified P b2 (pd_anchor p) (pd_footprint p);
        (b, sv) \<leftarrow> (if pd_table p then bus_commit P env b sv else Some (b, sv));
        b \<leftarrow> (if pd_staged p \<and> TxEngine_staged (sb_tx b) then sequence_reply P b (pd_slot p) (pd_packet_end p) else Some b);
        Some (b, sv) }"
      using v(1) True by (simp add: ServoBus_verify_def b2_def b1_def)
    then have "ServoBus_verify P env b sv p = Some (b5, sv4)"
      unfolding d Option.bind.simps c4(1) prod.case c5(1) .
    then show ?thesis using c4(3) c5(2) by blast
  qed
qed

lemma spine_ok:
  assumes "ok b" "servo_ok sv" "span_ok N (fs_anchor span) (fs_footprint span)"
  shows "\<exists>b' sv'. route_spine P env b sv span complete = Some (b', sv') \<and> ok b' \<and> servo_ok sv'"
proof -
  obtain c where c: "ServoBus_crc_feed P b (fs_anchor span) (fs_footprint span) = Some (b\<lparr>sb_crc := c\<rparr>)"
    "crc_mem (pr_crc P) c = crc_mem (pr_crc P) (sb_crc b)" using crc_feed_ok [OF assms(1,3)] by blast
  obtain b2 sv2 r where d: "dispatch_decoded P env (b\<lparr>sb_crc := c\<rparr>) sv (fs_anchor span) (fs_footprint span) = Some (b2, sv2, r)" "ok b2" "servo_ok sv2"
    using dispatch_decoded_ok [OF crc_kept [OF assms(1) c(2)] assms(2,3)] by blast
  have v: "\<exists>b' sv'. ServoBus_verify P env b2 sv2 \<lparr>pd_anchor = fs_anchor span, pd_footprint = fs_footprint span, pd_packet_end = fs_packet_end span,
      pd_slot = slot, pd_staged = st, pd_table = tb\<rparr> = Some (b', sv') \<and> ok b' \<and> servo_ok sv'" for slot st tb
    using verify_ok [OF d(2,3), of "\<lparr>pd_anchor = fs_anchor span, pd_footprint = fs_footprint span, pd_packet_end = fs_packet_end span,
      pd_slot = slot, pd_staged = st, pd_table = tb\<rparr>"] assms(3) by simp
  have p: "ok (b2\<lparr>sb_pending := Some \<lparr>pd_anchor = fs_anchor span, pd_footprint = fs_footprint span, pd_packet_end = fs_packet_end span,
      pd_slot = slot, pd_staged = st, pd_table = tb\<rparr>\<rparr>)" for slot st tb
    using d(2) assms(3) by (simp add: bus_ok_def)
  show ?thesis using c(1) d v p unfolding route_spine_def Let_def by (cases r; cases complete) auto
qed

text \<open>The verdict-first path behind a good verdict: superseded replies go, then the frame is dispatched.\<close>

lemma gated_good:
  assumes "ok b" "servo_ok sv" "span_ok N (fs_anchor span) (fs_footprint span)"
    "ServoBus_crc_ok P b (fs_anchor span) (fs_footprint span) = Some (b\<lparr>sb_crc := c\<rparr>, True)"
    "crc_mem (pr_crc P) c = crc_mem (pr_crc P) (sb_crc b)"
  shows "\<exists>b3 b4 sv4 r. dispatch_decoded P env b3 sv (fs_anchor span) (fs_footprint span) = Some (b4, sv4, r) \<and> ok b4 \<and> servo_ok sv4
    \<and> sb_world b3 = sb_world b \<and> sb_id b3 = sb_id b
    \<and> route_gated P env b sv span = (case r of None \<Rightarrow> Some (b4, sv4)
       | Some (staged, slot, out) \<Rightarrow>
           do { (b, sv) \<leftarrow> (if out = Dispatched_Pending then bus_commit P env b4 sv4 else Some (b4, sv4));
                b \<leftarrow> (if staged \<and> TxEngine_staged (sb_tx b) then sequence_reply P b slot (fs_packet_end span) else Some b);
                Some (b, sv) })"
proof -
  define b1 where "b1 = b\<lparr>sb_crc := c\<rparr>"
  have b1: "ok b1" using crc_kept [OF assms(1,5)] by (simp add: b1_def)
  define b2 where "b2 = b1\<lparr>sb_framer := Framer_on_frame_verified (sb_framer b1)\<rparr>"
  have "ok b2" using b1 by (simp add: b2_def bus_ok_def Framer_on_frame_verified_def)
  then obtain ck where d: "drift_note_verified P b2 (fs_anchor span) (fs_footprint span) = Some (b2\<lparr>sb_clock := ck\<rparr>)" using drift_note_ok by blast
  define b3 where "b3 = (let b = b2\<lparr>sb_clock := ck, sb_chain := Chain_reset (sb_chain b2), sb_chain_at := None\<rparr>
    in if TxEngine_staged (sb_tx b) then b\<lparr>sb_tx := TxEngine_abort (sb_tx b)\<rparr> else b)"
  have b3: "ok b3" "sb_world b3 = sb_world b" "sb_id b3 = sb_id b"
    using \<open>ok b2\<close> by (auto simp: b3_def b2_def b1_def bus_ok_def Let_def Chain_reset_def Chain_active_def abort_ok)
  obtain b4 sv4 r where d4: "dispatch_decoded P env b3 sv (fs_anchor span) (fs_footprint span) = Some (b4, sv4, r)" "ok b4" "servo_ok sv4"
    using dispatch_decoded_ok [OF b3(1) assms(2,3)] by blast
  have "route_gated P env b sv span = (case r of None \<Rightarrow> Some (b4, sv4)
     | Some (staged, slot, out) \<Rightarrow>
         do { (b, sv) \<leftarrow> (if out = Dispatched_Pending then bus_commit P env b4 sv4 else Some (b4, sv4));
              b \<leftarrow> (if staged \<and> TxEngine_staged (sb_tx b) then sequence_reply P b slot (fs_packet_end span) else Some b);
              Some (b, sv) })"
    using assms(4) d d4(1) by (cases "TxEngine_staged (sb_tx b)") (simp_all add: route_gated_def b1_def b2_def b3_def Let_def)
  with d4 b3 show ?thesis by blast
qed

lemma crc_ok_total:
  assumes "ok b" "span_ok N anchor fp"
  shows "\<exists>c good. ServoBus_crc_ok P b anchor fp = Some (b\<lparr>sb_crc := c\<rparr>, good) \<and> crc_mem (pr_crc P) c = crc_mem (pr_crc P) (sb_crc b)"
proof -
  obtain c where c: "ServoBus_crc_feed P b anchor fp = Some (b\<lparr>sb_crc := c\<rparr>)"
    "crc_mem (pr_crc P) c = crc_mem (pr_crc P) (sb_crc b)" using crc_feed_ok [OF assms] by blast
  have "bus_ring P b \<noteq> [] \<and> \<not> unat fp < 2" using ring_is_ok [OF assms(1)] ring_512 assms(2) by (auto simp: span_ok_def)
  then show ?thesis using c crc_verify_ok [OF crc_kept [OF assms(1) c(2)] assms(2)] by (auto simp: ServoBus_crc_ok_def)
qed

lemma gated_ok:
  assumes "ok b" "servo_ok sv" "span_ok N (fs_anchor span) (fs_footprint span)"
  shows "\<exists>b' sv'. route_gated P env b sv span = Some (b', sv') \<and> ok b' \<and> servo_ok sv'"
proof -
  obtain c good where c: "ServoBus_crc_ok P b (fs_anchor span) (fs_footprint span) = Some (b\<lparr>sb_crc := c\<rparr>, good)"
    "crc_mem (pr_crc P) c = crc_mem (pr_crc P) (sb_crc b)" using crc_ok_total [OF assms(1,3)] by blast
  show ?thesis
  proof (cases good)
    case False
    then show ?thesis using c(1) rejected_ok [OF crc_kept [OF assms(1) c(2)]] assms(2) by (simp add: route_gated_def)
  next
    case True
    with gated_good [OF assms _ c(2)] c(1) obtain b4 sv4 r where d4: "ok b4" "servo_ok sv4"
      and e: "route_gated P env b sv span = (case r of None \<Rightarrow> Some (b4, sv4)
       | Some (staged, slot, out) \<Rightarrow>
           do { (b, sv) \<leftarrow> (if out = Dispatched_Pending then bus_commit P env b4 sv4 else Some (b4, sv4));
                b \<leftarrow> (if staged \<and> TxEngine_staged (sb_tx b) then sequence_reply P b slot (fs_packet_end span) else Some b);
                Some (b, sv) })" by auto
    show ?thesis
    proof (cases r)
      case None
      then show ?thesis using e d4 by simp
    next
      case (Some x)
      obtain staged slot out where x: "x = (staged, slot, out)" by (cases x)
      obtain b5 sv5 where c5: "(if out = Dispatched_Pending then bus_commit P env b4 sv4 else Some (b4, sv4)) = Some (b5, sv5)" "ok b5" "servo_ok sv5"
        using commit_ok [OF d4] d4 by (cases "out = Dispatched_Pending") auto
      obtain b6 where c6: "(if staged \<and> TxEngine_staged (sb_tx b5) then sequence_reply P b5 slot (fs_packet_end span) else Some b5) = Some b6" "ok b6"
        using sequence_ok [OF c5(2)] c5(2) by (cases "staged \<and> TxEngine_staged (sb_tx b5)") auto
      have "route_gated P env b sv span = Some (b6, sv5)"
        unfolding e Some x option.case prod.case c5(1) Option.bind.simps c6(1) ..
      then show ?thesis using c5(3) c6(2) by blast
    qed
  qed
qed

lemma route_frame_ok:
  assumes "ok b" "servo_ok sv" "span_ok N (fs_anchor span) (fs_footprint span)"
  shows "\<exists>b' sv'. route_frame P env b sv span complete = Some (b', sv') \<and> ok b' \<and> servo_ok sv'"
proof -
  have N: "length (bus_ring P b) = N" "0 < N" using ring_is_ok [OF assms(1)] ring_512 by auto
  then obtain inst where i: "ServoBus_ring_inst P b (fs_anchor span) = Some inst" by (simp add: ServoBus_ring_inst_def Let_def)
  obtain ch out where s: "Chain_on_status_end (sb_chain b) (fs_packet_end span) = (ch, out)" by fastforce
  have "Chain_active ch \<longleftrightarrow> Chain_active (sb_chain b)" "\<And>x. out \<noteq> ChainOut_Trigger x"
    using s by (auto simp: Chain_on_status_end_def Chain_active_def Let_def split: ChainState.splits if_splits)
  then have "\<exists>b'. route_chain P (b\<lparr>sb_chain := ch\<rparr>) out = Some b' \<and> ok b'"
    using assms(1) by (intro route_chain_ok) (auto simp: bus_ok_def)
  then show ?thesis using i s assms(1,2) spine_ok [OF assms] gated_ok [OF assms]
    by (auto simp: route_frame_def)
qed

lemma frame_end_ok:
  assumes "ok b" "servo_ok sv" "span_ok N (fs_anchor span) (fs_footprint span)"
  shows "\<exists>b' sv'. on_frame_end P env b sv span = Some (b', sv') \<and> ok b' \<and> servo_ok sv'"
proof -
  have b: "ok (b\<lparr>sb_pending := None\<rparr>)" using assms(1) by (simp add: bus_ok_def)
  show ?thesis
  proof (cases "sb_pending b")
    case None
    then show ?thesis using route_frame_ok [OF b assms(2,3)] by (simp add: on_frame_end_def)
  next
    case (Some p)
    have "span_ok N (pd_anchor p) (pd_footprint p)" using assms(1) Some by (simp add: bus_ok_def)
    then show ?thesis using Some verify_ok [OF b assms(2)] route_frame_ok [OF drop_staged_ok [OF b] assms(2,3)]
      by (auto simp: on_frame_end_def Let_def)
  qed
qed

lemma drive_ok: "ok b \<Longrightarrow> servo_ok sv \<Longrightarrow> \<exists>b' sv'. drive_framer n P env b sv = Some (b', sv') \<and> ok b' \<and> servo_ok sv'"
proof (induction n arbitrary: b sv)
  case 0
  obtain b1 now where n: "bus_now P b = (b1, now)" by fastforce
  show ?case using now_step [OF n 0(1)] n 0(2) by (simp add: bus_ok_def)
next
  case (Suc n)
  obtain b1 now where n: "bus_now P b = (b1, now)" by fastforce
  have b1: "ok b1" using now_step [OF n Suc.prems(1)] by blast
  obtain b2 cur where c: "bus_cursor P b1 = (b2, cur)" by fastforce
  have b2: "ok b2" "unat cur < N" using cursor_step [OF c b1] by blast+
  have r: "ring_ok (bus_ring P b2)" "length (bus_ring P b2) = N" using ring_is_ok [OF b2(1)] by blast+
  have "unat (fm_anchor (sb_framer b2)) < length (bus_ring P b2)" using b2(1) r by (simp add: bus_ok_def)
  from resolve_span [OF r(1) this, of cur now "sb_tpb b2"] b2(2) r obtain f out where
    f: "Framer_resolve (sb_framer b2) (bus_ring P b2) cur now (sb_tpb b2) = Some (f, out)" "unat (fm_anchor f) < N" "out_ok (bus_ring P b2) out"
    by auto
  define b3 where "b3 = b2\<lparr>sb_framer := f\<rparr>"
  have b3: "ok b3" "ok (b3\<lparr>sb_framer_at := t\<rparr>)" for t using b2(1) f(2) by (simp_all add: b3_def bus_ok_def)
  have D: "drive_framer (Suc n) P env b sv = (case out of
       FramerOut_None \<Rightarrow> Some (b3\<lparr>sb_framer_at := None\<rparr>, sv)
     | FramerOut_Wait t \<Rightarrow> Some (b3\<lparr>sb_framer_at := Some t\<rparr>, sv)
     | FramerOut_Covered span end_due \<Rightarrow> route_frame P env (b3\<lparr>sb_framer_at := Some end_due\<rparr>) sv span False
     | FramerOut_Frame span \<Rightarrow> do { (b, sv) \<leftarrow> on_frame_end P env b3 sv span; drive_framer n P env b sv })"
    using n c f(1) by (simp add: b3_def Let_def cong: FramerOut.case_cong)
  show ?case
  proof (cases out)
    case (FramerOut_Covered sp e)
    then have "span_ok N (fs_anchor sp) (fs_footprint sp)" using f(3) r by (simp add: out_ok_def handed_span_def)
    then show ?thesis using D FramerOut_Covered route_frame_ok [OF b3(2) Suc.prems(2)] by simp
  next
    case (FramerOut_Frame sp)
    then have "span_ok N (fs_anchor sp) (fs_footprint sp)" using f(3) r by (simp add: out_ok_def handed_span_def)
    from frame_end_ok [OF b3(1) Suc.prems(2) this] obtain b4 sv4 where
      "on_frame_end P env b3 sv sp = Some (b4, sv4)" "ok b4" "servo_ok sv4" by blast
    then show ?thesis using D FramerOut_Frame Suc.IH by simp
  qed (use D b3 Suc.prems(2) in simp_all)
qed

lemma arm_deadline_ok: "ok b \<Longrightarrow> ok (arm_deadline P b)"
proof -
  assume "ok b"
  obtain b1 now where n: "bus_now P b = (b1, now)" by fastforce
  have "ok b1" using now_step [OF n \<open>ok b\<close>] by blast
  then show ?thesis using n world_kept(3,4) by (auto simp: arm_deadline_def bus_ok_def split: option.split)
qed

lemma set_rate_ok: "ok b \<Longrightarrow> ok (set_rate P r b)"
  using world_kept(5) by (auto simp: set_rate_def bus_ok_def)

lemma break_tail_ok:
  assumes "ok b" "servo_ok sv"
  shows "\<exists>b' sv'. (let b = (if \<not> fresh \<and> sb_framer_at b = None then b\<lparr>sb_framer_at := Some (now + sb_tpb b)\<rparr> else b);
       b = (if TxEngine_staged (sb_tx b) \<and> \<not> TxEngine_collision_tolerant (sb_tx b) \<and> \<not> Chain_waiting_for (sb_chain b) \<and> sb_pending b = None
            then let (b, cur) = bus_cursor P b
                 in if \<not> Framer_caught_up (sb_framer b) cur
                    then b\<lparr>sb_tx := TxEngine_abort (sb_tx b), sb_chain := Chain_reset (sb_chain b), sb_chain_at := None\<rparr> else b
            else b);
       (ch, out) = Chain_on_break_observed (sb_chain b) now
     in do { b \<leftarrow> route_chain P (b\<lparr>sb_chain := ch\<rparr>) out; Some (arm_deadline P b, sv) }) = Some (b', sv') \<and> ok b' \<and> servo_ok sv'"
proof -
  define b1 where "b1 = (if \<not> fresh \<and> sb_framer_at b = None then b\<lparr>sb_framer_at := Some (now + sb_tpb b)\<rparr> else b)"
  have b1: "ok b1" using assms(1) by (simp add: b1_def bus_ok_def)
  define b2 where "b2 = (if TxEngine_staged (sb_tx b1) \<and> \<not> TxEngine_collision_tolerant (sb_tx b1) \<and> \<not> Chain_waiting_for (sb_chain b1) \<and> sb_pending b1 = None
            then let (b, cur) = bus_cursor P b1
                 in if \<not> Framer_caught_up (sb_framer b) cur
                    then b\<lparr>sb_tx := TxEngine_abort (sb_tx b), sb_chain := Chain_reset (sb_chain b), sb_chain_at := None\<rparr> else b
            else b1)"
  have "ok b2"
  proof -
    obtain b' cur where c: "bus_cursor P b1 = (b', cur)" by fastforce
    have "ok b'" using cursor_step [OF c b1] by blast
    then have "ok (b'\<lparr>sb_tx := TxEngine_abort (sb_tx b'), sb_chain := Chain_reset (sb_chain b'), sb_chain_at := None\<rparr>)"
      by (simp add: bus_ok_def Chain_reset_def Chain_active_def abort_ok)
    then show ?thesis using c b1 \<open>ok b'\<close> by (simp add: b2_def)
  qed
  obtain ch out where o: "Chain_on_break_observed (sb_chain b2) now = (ch, out)" by fastforce
  have "ch = sb_chain b2" "\<And>x. out \<noteq> ChainOut_Trigger x"
    using o by (auto simp: Chain_on_break_observed_def split: ChainState.splits)
  then obtain b3 where b3: "route_chain P (b2\<lparr>sb_chain := ch\<rparr>) out = Some b3" "ok b3"
    using route_chain_ok [of "b2\<lparr>sb_chain := ch\<rparr>" out] \<open>ok b2\<close> by (auto simp: bus_ok_def)
  show ?thesis
    unfolding Let_def b1_def [symmetric] b2_def [unfolded Let_def, symmetric] o prod.case b3(1) Option.bind.simps
    using arm_deadline_ok [OF b3(2)] assms(2) by blast
qed

lemma on_break_ok:
  assumes "ok b" "servo_ok sv"
  shows "\<exists>b' sv'. ServoBus_on_break P env b sv = Some (b', sv') \<and> ok b' \<and> servo_ok sv'"
proof -
  obtain b1 now where n: "bus_now P b = (b1, now)" by fastforce
  have b1: "ok b1" using now_step [OF n assms(1)] by blast
  obtain b2 cur where c: "bus_cursor P b1 = (b2, cur)" by fastforce
  have b2: "ok b2" "unat cur < N" "sb_clock b2 = sb_clock b1" using cursor_step [OF c b1] by auto
  show ?thesis
  proof (cases "ClockTracker_cal_active (sb_clock b1)")
    case True
    obtain ck at where k: "ClockTracker_on_cal_break (sb_clock b2) now cur (pr_TICKS_PER_US P) = (ck, at)" by fastforce
    have "ok (b2\<lparr>sb_clock := ck\<rparr>)" "ok (arm_deadline P (b2\<lparr>sb_clock := ck, sb_framer_at := x\<rparr>))" for x
      using b2(1) by (auto simp: bus_ok_def intro!: arm_deadline_ok [unfolded bus_ok_def])
    then show ?thesis using True n c k assms(2) by (cases at) (simp_all add: ServoBus_on_break_def)
  next
    case False
    obtain f fresh where w: "Framer_on_wire_fault (sb_framer b2) cur = (f, fresh)" by fastforce
    define b3 where "b3 = b2\<lparr>sb_framer := f\<rparr>"
    have b3: "ok b3" using b2(1) w by (auto simp: bus_ok_def b3_def Framer_on_wire_fault_def Let_def split: if_splits)
    have r: "ring_ok (bus_ring P b3)" "length (bus_ring P b3) = N" using ring_is_ok [OF b3] by blast+
    define g where "g = (if fresh
        then do { brk \<leftarrow> newest_is_break_byte (bus_ring P b3) cur;
                  if brk then let (b, cur) = bus_cursor P b3
                       in Some (b\<lparr>sb_clock := ClockTracker_on_drift_break (sb_clock b) now cur (length (bus_ring P b)) (sb_tpb b)\<rparr>)
                  else Some b3 }
        else Some b3)"
    have "\<exists>b4. g = Some b4 \<and> ok b4"
    proof -
      obtain b' cur' where c': "bus_cursor P b3 = (b', cur')" by fastforce
      have "ok b'" using cursor_step [OF c' b3] by blast
      then have "ok (b'\<lparr>sb_clock := x\<rparr>)" for x by (simp add: bus_ok_def)
      moreover have "ring_wrap (unat cur + N - 1) N < N" using ring_wrap_mod [OF r(1), of "unat cur + N - 1"] r ring_512 by simp
      then have "\<exists>x. newest_is_break_byte (bus_ring P b3) cur = Some x" using r ring_512 by (simp add: newest_is_break_byte_def Let_def)
      ultimately show ?thesis using c' b3 by (auto simp: g_def)
    qed
    then obtain b4 where b4: "g = Some b4" "ok b4" by blast
    obtain b5 sv5 where b5: "drive_framer FRAMES_PER_WAKE P env b4 sv = Some (b5, sv5)" "ok b5" "servo_ok sv5"
      using drive_ok [OF b4(2) assms(2)] by blast
    have "ServoBus_on_break P env b sv = do { b \<leftarrow> g; (b, sv) \<leftarrow> drive_framer FRAMES_PER_WAKE P env b sv;
       let b = (if \<not> fresh \<and> sb_framer_at b = None then b\<lparr>sb_framer_at := Some (now + sb_tpb b)\<rparr> else b);
           b = (if TxEngine_staged (sb_tx b) \<and> \<not> TxEngine_collision_tolerant (sb_tx b) \<and> \<not> Chain_waiting_for (sb_chain b) \<and> sb_pending b = None
                then let (b, cur) = bus_cursor P b
                     in if \<not> Framer_caught_up (sb_framer b) cur
                        then b\<lparr>sb_tx := TxEngine_abort (sb_tx b), sb_chain := Chain_reset (sb_chain b), sb_chain_at := None\<rparr> else b
                else b);
           (ch, out) = Chain_on_break_observed (sb_chain b) now
       in do { b \<leftarrow> route_chain P (b\<lparr>sb_chain := ch\<rparr>) out; Some (arm_deadline P b, sv) } }"
      using False n c w b2(3) unfolding ServoBus_on_break_def g_def b3_def by (simp only: prod.case Let_def if_False)
    then show ?thesis
      unfolding b4(1) Option.bind.simps b5(1) prod.case using break_tail_ok [OF b5(2,3), of fresh now] by simp
  qed
qed

lemma deadline_loop_ok:
  "ok b \<Longrightarrow> servo_ok sv \<Longrightarrow> \<exists>b' sv'. deadline_loop n P env b sv = Some (b', sv') \<and> ok b' \<and> servo_ok sv'"
proof (induction n arbitrary: b sv)
  case 0
  then show ?case by simp
next
  case (Suc n)
  obtain b1 now where n: "bus_now P b = (b1, now)" by fastforce
  have b1: "ok b1" using now_step [OF n Suc.prems(1)] by blast
  define fd where "fd = due now (sb_framer_at b1)"
  define b1' where "b1' = b1\<lparr>sb_framer_at := None, sb_clock := ClockTracker_abandon_cal (sb_clock b1)\<rparr>"
  have "ok b1'" using b1 by (simp add: b1'_def bus_ok_def)
  then obtain b2 sv2 where b2: "(if fd then drive_framer FRAMES_PER_WAKE P env b1' sv else Some (b1, sv)) = Some (b2, sv2)" "ok b2" "servo_ok sv2"
    using drive_ok [OF \<open>ok b1'\<close> Suc.prems(2), of FRAMES_PER_WAKE] b1 Suc.prems(2) by (cases fd) auto
  define cd where "cd = due now (sb_chain_at b2)"
  obtain ch out where d: "Chain_on_deadline (sb_chain b2) now = (ch, out)" by fastforce
  have a: "Chain_active ch \<Longrightarrow> Chain_active (sb_chain b2)" "\<And>s. out = ChainOut_Trigger s \<Longrightarrow> \<not> Chain_active ch"
    using d by (auto simp: Chain_on_deadline_def Chain_active_def Let_def split: ChainState.splits if_splits)
  have "ok (b2\<lparr>sb_chain_at := None, sb_chain := ch\<rparr>)" using b2(2) a(1) by (auto simp: bus_ok_def)
  then have "\<exists>b'. route_chain P (b2\<lparr>sb_chain_at := None, sb_chain := ch\<rparr>) out = Some b' \<and> ok b'"
    using a(2) by (intro route_chain_ok) simp_all
  then obtain b3 where b3: "(if cd then let (ch, out) = Chain_on_deadline (sb_chain b2) now
      in route_chain P (b2\<lparr>sb_chain_at := None, sb_chain := ch\<rparr>) out else Some b2) = Some b3" "ok b3"
    using b2(2) d by (cases cd) auto
  have "deadline_loop (Suc n) P env b sv = (if \<not> fd \<and> \<not> cd then Some (b3, sv2) else deadline_loop n P env b3 sv2)"
    unfolding deadline_loop.simps n prod.case Let_def fd_def [symmetric] b1'_def [symmetric] b2(1) Option.bind.simps
      cd_def [symmetric] b3(1) [unfolded Let_def] ..
  then show ?case using Suc.IH [OF b3(2) b2(3)] b3(2) b2(3) by simp
qed

lemma on_deadline_ok:
  assumes "ok b" "servo_ok sv"
  shows "\<exists>b' sv'. ServoBus_on_deadline P env b sv = Some (b', sv') \<and> ok b' \<and> servo_ok sv'"
  using deadline_loop_ok [OF assms, of DEADLINE_DRAIN_MAX] arm_deadline_ok by (auto simp: ServoBus_on_deadline_def)

lemma tx_complete_ok:
  assumes "ok b"
  shows "\<exists>b'. ServoBus_on_tx_complete P b = Some b' \<and> ok b'"
proof -
  obtain t' c' r where t: "TxEngine_on_arm_complete (pr_crc P) (sb_tx b) (sb_crc b) = Some (t', c', r)" "tx_ok (pr_crc P) t' c'"
    "TxEngine_staged t' = TxEngine_staged (sb_tx b)"
    using arm_complete_total [of "sb_tx b" "sb_crc b"] assms by (auto simp: bus_ok_def)
  define b1 where "b1 = b\<lparr>sb_tx := t', sb_crc := c'\<rparr>"
  have b1: "ok b1" using assms t by (simp add: b1_def bus_ok_def)
  define b2 where "b2 = (case sb_pending_id b1 of Some i \<Rightarrow> b1\<lparr>sb_pending_id := None, sb_id := i\<rparr> | None \<Rightarrow> b1)"
  have b2: "ok b2" using b1 by (cases "sb_pending_id b1") (simp_all add: b2_def bus_ok_def)
  have "ok (set_rate P x (b2\<lparr>sb_pending_baud := None\<rparr>))" for x using b2 by (intro set_rate_ok) (simp add: bus_ok_def)
  then have "ok (case sb_pending_baud b2 of Some r \<Rightarrow> set_rate P r (b2\<lparr>sb_pending_baud := None\<rparr>) | None \<Rightarrow> b2)"
    using b2 by (cases "sb_pending_baud b2") simp_all
  moreover have "ServoBus_on_tx_complete P b = (if r = TxOut_Released
      then Some (case sb_pending_baud b2 of Some r \<Rightarrow> set_rate P r (b2\<lparr>sb_pending_baud := None\<rparr>) | None \<Rightarrow> b2) else Some b1)"
    unfolding ServoBus_on_tx_complete_def t(1) Option.bind.simps prod.case Let_def b1_def [symmetric] b2_def [symmetric] ..
  ultimately show ?thesis using b1 by simp
qed

lemma rescue_ok: "ok b \<Longrightarrow> ok (ServoBus_on_rescue_break P b)"
proof -
  assume o: "ok b"
  obtain b1 cur where c: "bus_cursor P (set_rate P B500000 b) = (b1, cur)" by fastforce
  have "ok b1" "unat cur < N" using cursor_step [OF c set_rate_ok [OF o]] by blast+
  then have "ok (b1\<lparr>sb_framer := Framer_resync (sb_framer b1) cur, sb_chain := Chain_reset (sb_chain b1),
      sb_tx := TxEngine_abort (sb_tx b1), sb_pending := None, sb_framer_at := None, sb_chain_at := None\<rparr>)"
    by (simp add: bus_ok_def Framer_resync_def Chain_reset_def Chain_active_def abort_ok)
  then show ?thesis using o c arm_deadline_ok by (simp add: ServoBus_on_rescue_break_def)
qed

lemma new_ok: "wok w \<Longrightarrow> ok (ServoBus_new P w c log own rate dl)"
  using world_kept(5) ring_512 by (auto simp: ServoBus_new_def bus_ok_def tx_ok_def tx_wf_def TxEngine_new_def REPLY_BUF_def TxEngine_busy_def
      Framer_new_def Chain_new_def Chain_active_def)

end

section \<open>The test providers\<close>

text \<open>The provider bundle of \<open>mocks/bus.rs\<close>: a settable ring, cursor and tick, and records of what was armed.\<close>

definition RING_LEN :: nat where "RING_LEN = 512"

record TestWorld =
  tw_buf :: bytes
  tw_cursor :: u16
  tw_now :: u32
  tw_armed :: "u32 option"
  tw_cancels :: u32
  tw_bauds :: "BaudRate list"

definition FakeRing_place :: "nat \<Rightarrow> bytes \<Rightarrow> TestWorld \<Rightarrow> TestWorld" where
  "FakeRing_place at bs w = w\<lparr>tw_buf := foldl (\<lambda>buf (i, x). buf[(at + i) mod RING_LEN := x]) (tw_buf w) (zip [0..<length bs] bs)\<rparr>"

definition TestWorld_new :: TestWorld where
  "TestWorld_new = \<lparr>tw_buf = replicate RING_LEN 0, tw_cursor = 0, tw_now = 0, tw_armed = None, tw_cancels = 0, tw_bauds = []\<rparr>"

definition TestProviders :: "(TestWorld, FakeCrc) Providers" where
  "TestProviders = \<lparr>pr_now = (\<lambda>w. (w, tw_now w)), pr_cursor = (\<lambda>w. (w, tw_cursor w)), pr_bytes = tw_buf,
     pr_set = (\<lambda>w at. w\<lparr>tw_armed := Some at\<rparr>), pr_cancel = (\<lambda>w. w\<lparr>tw_armed := None, tw_cancels := tw_cancels w + 1\<rparr>),
     pr_apply = (\<lambda>w r. w\<lparr>tw_bauds := tw_bauds w @ [r]\<rparr>), pr_TICKS_PER_US = 1, pr_CLOCK_TRIM_STEP_PPM = 2500,
     pr_crc = FakeCrc_engine\<rparr>"

definition test_world_ok :: "TestWorld \<Rightarrow> bool" where
  "test_world_ok w \<longleftrightarrow> length (tw_buf w) = RING_LEN \<and> unat (tw_cursor w) < RING_LEN"

interpretation test: bus_env TestProviders fc_state 0 demo_env test_world_ok RING_LEN
proof -
  have e: "pr_crc TestProviders = FakeCrc_engine" by (simp add: TestProviders_def)
  show "bus_env TestProviders fc_state 0 demo_env test_world_ok RING_LEN"
    by (intro bus_env.intro bus_env_axioms.intro)
      (use fake.crc_engine_axioms demo_ok(1) in \<open>auto simp: e TestProviders_def test_world_ok_def RING_LEN_def intro!: exI [of _ 9]\<close>)
qed

section \<open>Every handler is safe\<close>

text \<open>The steps of a servo: its interrupts and main-loop polls, in any order.\<close>

inductive bus_step :: "('w, 'c) Providers \<Rightarrow> 'f Env \<Rightarrow> ('w \<Rightarrow> bool) \<Rightarrow> ('w, 'c) ServoBus \<times> 'f Servo \<Rightarrow> ('w, 'c) ServoBus \<times> 'f Servo \<Rightarrow> bool"
  for P env wok where
  step_world: "wok w \<Longrightarrow> bus_step P env wok (b, sv) (b\<lparr>sb_world := w\<rparr>, sv)"
| step_break: "ServoBus_on_break P env b sv = Some s \<Longrightarrow> bus_step P env wok (b, sv) s"
| step_deadline: "ServoBus_on_deadline P env b sv = Some s \<Longrightarrow> bus_step P env wok (b, sv) s"
| step_tx: "ServoBus_on_tx_complete P b = Some b' \<Longrightarrow> bus_step P env wok (b, sv) (b', sv)"
| step_rescue: "bus_step P env wok (b, sv) (ServoBus_on_rescue_break P b, sv)"
| step_trim: "bus_step P env wok (b, sv) (fst (ServoBus_poll_clock_trim b), sv)"
| step_reboot: "bus_step P env wok (b, sv) (fst (ServoBus_take_reboot b), sv)"

inductive_cases bus_stepE: "bus_step P env wok (b, sv) s"

context bus_env
begin

lemma trim_poll_ok: "ok b \<Longrightarrow> ok (fst (ServoBus_poll_clock_trim b))"
  by (simp add: ServoBus_poll_clock_trim_def bus_ok_def split: prod.split)

lemma reboot_ok: "ok b \<Longrightarrow> ok (fst (ServoBus_take_reboot b))"
  by (simp add: ServoBus_take_reboot_def bus_ok_def)

lemma step_ok_kept: "bus_step P env wok (b, sv) (b', sv') \<Longrightarrow> ok b \<Longrightarrow> servo_ok sv \<Longrightarrow> ok b' \<and> servo_ok sv'"
proof (erule bus_stepE, goal_cases)
  case (1 w)
  then show ?case by (simp add: bus_ok_def)
next
  case 2
  then show ?case using on_break_ok [of b sv] by simp
next
  case 3
  then show ?case using on_deadline_ok [of b sv] by simp
next
  case 4
  then show ?case using tx_complete_ok [of b] by auto
qed (simp_all add: rescue_ok trim_poll_ok reboot_ok)

lemma reach_ok:
  assumes "(bus_step P env wok)\<^sup>*\<^sup>* s s'" "ok (fst s)" "servo_ok (snd s)"
  shows "ok (fst s') \<and> servo_ok (snd s')"
  using assms
proof (induction rule: rtranclp_induct)
  case (step s1 s2)
  then show ?case using step_ok_kept [of "fst s1" "snd s1" "fst s2" "snd s2"] by simp
qed simp

lemma reach_safe:
  assumes "wok w" "servo_ok sv0" "(bus_step P env wok)\<^sup>*\<^sup>* (ServoBus_new P w c log own rate dl, sv0) (b, sv)"
  shows "servo_ok sv \<and> (Chain_active (sb_chain b) \<longrightarrow> TxEngine_staged (sb_tx b))
    \<and> (\<exists>s. ServoBus_on_break P env b sv = Some s) \<and> (\<exists>s. ServoBus_on_deadline P env b sv = Some s)
    \<and> (\<exists>b'. ServoBus_on_tx_complete P b = Some b')"
proof -
  have o: "ok b" "servo_ok sv" using reach_ok [OF assms(3)] new_ok [OF assms(1)] assms(2) by simp_all
  have "Chain_active (sb_chain b) \<longrightarrow> TxEngine_staged (sb_tx b)" using o(1) by (simp add: bus_ok_def)
  then show ?thesis using o on_break_ok [OF o] on_deadline_ok [OF o] tx_complete_ok [OF o(1)] by blast
qed

end

text \<open>Property C5: no interrupt can crash the servo.  From power-up, whatever breaks, deadlines, arm completions, rescue
  pulses and main-loop polls occur in whatever order, and whatever bytes the ring receives in between, every handler
  returns (no slice, index or CRC-feed assertion fails), the dispatcher's state stays well formed, and a chain slot is held
  only for a reply that is staged, so a trigger never fires over an empty transmitter.\<close>

theorem bus_handlers_safe:
  assumes "bus_env P acc base env wok N" "wok w" "servo_ok sv0"
    and "(bus_step P env wok)\<^sup>*\<^sup>* (ServoBus_new P w c log own rate dl, sv0) (b, sv)"
  shows "servo_ok sv \<and> (Chain_active (sb_chain b) \<longrightarrow> TxEngine_staged (sb_tx b))
    \<and> (\<exists>s. ServoBus_on_break P env b sv = Some s) \<and> (\<exists>s. ServoBus_on_deadline P env b sv = Some s)
    \<and> (\<exists>b'. ServoBus_on_tx_complete P b = Some b')"
  using bus_env.reach_safe [OF assms] .

theorem bus_handlers_safe_witness:
  "\<exists>s. ServoBus_on_break TestProviders demo_env (ServoBus_new TestProviders TestWorld_new FakeCrc_new [] 1 B1000000 500) demo_servo = Some s"
proof -
  have "test_world_ok TestWorld_new" by (simp add: test_world_ok_def TestWorld_new_def RING_LEN_def)
  from bus_handlers_safe [OF test.bus_env_axioms this demo_ok(2) rtranclp.rtrancl_refl, of FakeCrc_new "[]" 1 B1000000 500]
  show ?thesis by blast
qed

end
