(* ===== verification/Verdict.thy ===== *)
theory Verdict
  imports BusSafe
begin

text \<open>
  The CRC verdict gates every effect of a frame: the ring CRC the bus computes (around the seam, from an odd anchor,
  with the odd tail folded in) is the CRC of the frame's bytes, and what a frame does to the servo is what the
  dispatcher does with a good frame and nothing with a bad one, on every routing path.
\<close>

section \<open>The verdict over the ring\<close>

text \<open>A frame's CRC matches: the CRC of everything before the trailer is the trailer.\<close>

definition frame_good :: "bytes \<Rightarrow> bool" where
  "frame_good fb \<longleftrightarrow> osc_crc (take (length fb - 2) fb) = from_le16 (fb ! (length fb - 2)) (fb ! (length fb - 1))"

text \<open>An engine that delivers within every poll budget.\<close>

definition prompt :: "('w, 'c) Providers \<Rightarrow> bool" where
  "prompt P \<longleftrightarrow> (\<forall>n c. snd (poll_result (pr_crc P) n c) \<noteq> None)"

lemma ringed_Suc: "ringed ring a (Suc m) = ringed ring a m @ [ring ! ((a + m) mod length ring)]"
  by (simp add: ringed_def)

lemma osc_crc_zero: "osc_crc_continue 0 (0 # xs) = osc_crc_continue 0 xs"
  using osc_crc_leading_zero [of 1 xs] by simp

section \<open>Requests that may run ahead of their verdict\<close>

definition spine_req :: "Request \<Rightarrow> bool" where
  "spine_req req \<longleftrightarrow> (case req of Request_Ping \<Rightarrow> True | Request_Read _ _ \<Rightarrow> True | Request_ReadProfile _ \<Rightarrow> True
     | Request_Write _ _ _ \<Rightarrow> True | Request_Unsupported \<Rightarrow> True | _ \<Rightarrow> False)"

lemma decode_spine_req:
  assumes "decode v own = Decoded_Own req mr slot" "FrameBytes_u8_at v 3 = Some inst" "\<not> ServoBus_verdict_first inst"
  shows "spine_req req"
  using assms(1)
proof (cases rule: decode_cases)
  case (1 h pay op)
  have o: "Inst_opcode inst = Some op" "hdr_inst h = inst" using 1(4,5) assms(2) by simp_all
  then have "op \<in> {Opcode_Ping, Opcode_Read, Opcode_Gread, Opcode_Write, Opcode_Gwrite}"
    using assms(3) by (cases op) (simp_all add: ServoBus_verdict_first_def)
  then show ?thesis using 1(8) gread_request [of inst pay own req mr slot] gwrite_request [of inst pay own req mr slot]
    by (auto simp: o plain_own plain_request_def spine_req_def split: option.splits if_splits)
qed

text \<open>A handler whose only effect is to answer.\<close>

definition answers :: "'f Servo \<Rightarrow> 'f Servo \<Rightarrow> bool" where
  "answers sv sv' \<longleftrightarrow> (\<exists>r. list_all is_status r \<and> sv' = emit sv r)"

lemma answers_refl [simp]: "answers sv sv"
  unfolding answers_def by (intro exI [of _ "[]"]) simp

lemma answers_send [simp]: "answers sv (Dispatcher_send sv c a d)" "answers sv (emit sv [send_status_gather c a ds])"
  unfolding answers_def Dispatcher_send_def by (intro exI [of _ "[send_status c a d]"], simp, intro exI [of _ "[send_status_gather c a ds]"], simp)

lemma answers_ack [simp]: "answers sv (ack_code a mr c sv)" "answers sv (ack a mr x sv)" "answers sv (instruction_error a mr sv)"
  by (cases mr; simp add: ack_code_def ack_def instruction_error_def Let_def)+

lemma ping_answers: "Dispatcher_ping env a mr sv = Some sv' \<Longrightarrow> answers sv sv'"
  by (cases "RegisterFile_read (env_map env) (sv_table sv) MODEL_NUMBER 3"; cases mr) (auto simp: Dispatcher_ping_def Let_def)

lemma read_answers:
  assumes "Dispatcher_read env a mr addr n sv = Some sv'"
  shows "answers sv sv'"
proof (cases "RegisterFile_read (env_map env) (sv_table sv) addr n")
  case (Some y)
  then show ?thesis using assms by (cases y) (auto simp: Dispatcher_read_def split: if_splits)
qed (use assms in \<open>auto simp: Dispatcher_read_def split: if_splits\<close>)

lemma read_profile_answers:
  assumes "Dispatcher_read_profile env a mr slot sv = Some sv'"
  shows "answers sv sv'"
proof (cases "slot_words (sv_table sv) slot")
  case (Some ws)
  show ?thesis
  proof (cases "profile_loop env (sv_table sv) ws [] 0")
    case l: (Some y)
    show ?thesis using assms Some l by (cases y) (auto simp: Dispatcher_read_profile_def split: if_splits prod.splits)
  qed (use assms Some in \<open>auto simp: Dispatcher_read_profile_def split: if_splits\<close>)
qed (use assms in \<open>auto simp: Dispatcher_read_profile_def split: if_splits\<close>)

lemmas answers_handlers = ping_answers read_answers read_profile_answers

lemma write_answers:
  assumes "Dispatcher_write env a mr addr data hold sv = Some (sv', d)"
  shows "\<exists>r. list_all is_status r \<and> sv_reply sv' = sv_reply sv @ r"
proof -
  have k: "answers (sv\<lparr>sv_staged := st\<rparr>) s \<Longrightarrow> sv_reply sv' = sv_reply s \<Longrightarrow> ?thesis" for st s
    by (auto simp: answers_def)
  obtain h tq where h: "FrameBytes_segments data = (h, tq)" by fastforce
  obtain st x where s: "RegisterFile_stage_split (env_hv env) (env_map env) (sv_table sv) addr h tq (sv_staged sv) = Some (st, x)"
    using assms h by (cases "RegisterFile_stage_split (env_hv env) (env_map env) (sv_table sv) addr h tq (sv_staged sv)")
      (auto simp: Dispatcher_write_def Let_def)
  show ?thesis
  proof (cases x)
    case (Inl e)
    then have "answers (sv\<lparr>sv_staged := st\<rparr>) sv'"
      using assms h s by (cases e) (auto simp: Dispatcher_write_def Let_def split: if_splits)
    then show ?thesis by (rule k) simp
  next
    case (Inr u)
    then have "sv_reply sv' = sv_reply (ack a mr (Inr ()) (sv\<lparr>sv_staged := st\<rparr>))"
      using assms h s by (auto simp: Dispatcher_write_def Let_def)
    then show ?thesis by (rule k [OF answers_ack(2)])
  qed
qed

lemma dispatch_spine:
  assumes "env_ok env" "servo_ok sv" "sv_pending sv = None" "spine_req req" "dispatch env req mr sv = Some (sv', d)"
  shows "\<exists>r. list_all is_status r \<and> sv_reply sv' = sv_reply sv @ r
    \<and> (if d = Dispatched_Pending then Dispatcher_revert env sv' = emit sv r else sv' = emit sv r)"
proof -
  have l: "length (sv_table sv) = TABLE_SIZE" using assms(2) by (simp add: servo_ok_def)
  have d: "dispatch_match env (Dispatcher_alert sv) req mr sv = Some (sv', d)"
    using assms(3,5) by (simp add: dispatch_def revert_dangling_def)
  have fin: "answers sv sv' \<Longrightarrow> d = Dispatched_Done \<Longrightarrow> ?thesis" by (auto simp: answers_def)
  show ?thesis
  proof (cases req)
    case (Request_Write addr data hold)
    have w: "Dispatcher_write env (Dispatcher_alert sv) mr addr data hold sv = Some (sv', d)"
      using d Request_Write by (simp add: dispatch_match_def)
    obtain r where r: "list_all is_status r" "sv_reply sv' = sv_reply sv @ r" using write_answers [OF w] by blast
    obtain ws where ws: "staged_rel (sv_staged sv) ws" using servo_ok_staged [OF assms(2,3)] by blast
    show ?thesis
    proof (cases d)
      case Dispatched_Pending
      then have "dispatch env (Request_Write addr data hold) mr sv = Some (sv', Dispatched_Pending)" using assms(5) Request_Write by simp
      from pending_revert [OF assms(1-3) this] r Dispatched_Pending show ?thesis by auto
    next
      case Dispatched_Done
      with write_handler [OF assms(1) l ws, of "Dispatcher_alert sv" mr addr data hold] w have "replies mr sv sv'" by auto
      then obtain r' where "sv' = emit sv r'" by (auto simp: replies_def)
      with r Dispatched_Done show ?thesis by auto
    qed
  qed (rule fin; use assms(4) d in \<open>auto simp: spine_req_def dispatch_match_def finished_def dest: answers_handlers\<close>)+
qed

text \<open>The parts of the bus a reply does not touch, and its configuration.\<close>

definition bus_core :: "('w, 'c) ServoBus \<Rightarrow> 'w \<times> Framer \<times> Chain \<times> Pending option \<times> u32 option \<times> u32 option \<times> u32" where
  "bus_core b = (sb_world b, sb_framer b, sb_chain b, sb_pending b, sb_framer_at b, sb_chain_at b, sb_crc_fails b)"

definition bus_cfg :: "('w, 'c) ServoBus \<Rightarrow> u8 \<times> BaudRate \<times> u32 \<times> u16 \<times> u8 option \<times> BaudRate option \<times> BootMode option \<times> ClockTracker" where
  "bus_cfg b = (sb_id b, sb_rate b, sb_tpb b, sb_response_deadline_us b, sb_pending_id b, sb_pending_baud b, sb_pending_reboot b, sb_clock b)"

text \<open>Nothing was driven onto the wire; at most a claim was released.\<close>

definition quiet_wire :: "('w, 'c) ServoBus \<Rightarrow> ('w, 'c) ServoBus \<Rightarrow> bool" where
  "quiet_wire b b' \<longleftrightarrow> tx_wire (sb_tx b') = tx_wire (sb_tx b) \<or> tx_wire (sb_tx b') = tx_wire (sb_tx b) @ [WireEvent_Release]"

text \<open>What a frame may do to the servo: the dispatched request, committed when it staged a write, if the verdict is good
  and the frame is ours; nothing otherwise.\<close>

definition frame_effect :: "'f Env \<Rightarrow> Decoded \<Rightarrow> bool \<Rightarrow> 'f Servo \<Rightarrow> 'f Servo option" where
  "frame_effect env dec good sv =
     (case dec of
        Decoded_Own req may_reply slot \<Rightarrow>
          if good
          then do { (sv, out) \<leftarrow> dispatch env req may_reply (sv\<lparr>sv_reply := []\<rparr>);
                    if out = Dispatched_Pending then Dispatcher_commit env (sv\<lparr>sv_reply := []\<rparr>) else Some sv }
          else Some sv
      | _ \<Rightarrow> Some sv)"

text \<open>The dispatch state without the record of reply calls.\<close>

definition sans_reply :: "'f Servo \<Rightarrow> 'f Servo" where
  "sans_reply sv = sv\<lparr>sv_reply := []\<rparr>"

lemma sans_emit: "sans_reply (emit sv r) = sans_reply sv" "sans_reply (sv\<lparr>sv_reply := r\<rparr>) = sans_reply sv"
  by (simp_all add: sans_reply_def emit_def)

definition spine_pending :: "FrameSpan \<Rightarrow> (bool \<times> u8 \<times> Dispatched) option \<Rightarrow> Pending" where
  "spine_pending span r =
     (case r of
        Some (staged, slot, out) \<Rightarrow> \<lparr>pd_anchor = fs_anchor span, pd_footprint = fs_footprint span, pd_packet_end = fs_packet_end span,
          pd_slot = slot, pd_staged = staged, pd_table = (out = Dispatched_Pending)\<rparr>
      | None \<Rightarrow> \<lparr>pd_anchor = fs_anchor span, pd_footprint = fs_footprint span, pd_packet_end = fs_packet_end span,
          pd_slot = 0, pd_staged = False, pd_table = False\<rparr>)"

lemma spine_pending_span [simp]:
  "pd_anchor (spine_pending span r) = fs_anchor span" "pd_footprint (spine_pending span r) = fs_footprint span"
  by (simp_all add: spine_pending_def split: option.split)

lemma stage_wire:
  "TxEngine_stage_gather ce t c own result alert spans = Some (t', c', r) \<Longrightarrow> tx_wire t' = tx_wire t"
  by (auto simp: TxEngine_stage_gather_def stage_small_def stage_stream_def Let_def bind_eq_Some_conv split: if_splits)

context bus_env
begin

lemma crc_feed_acc:
  assumes "ok b" "span_ok N anchor fp" "bus_ring P b ! unat anchor = 0"
    and "ServoBus_crc_feed P b anchor fp = Some b'"
    and "par = (unat fp - 2 - unat anchor mod 2) mod 2"
  shows "acc (sb_crc b') = osc_crc (ringed (bus_ring P b) (unat anchor) (unat fp - 2 - par))"
proof -
  define ring a where "ring = bus_ring P b" and "a = unat anchor"
  have s: "a < N" "6 \<le> unat fp" "length ring = N" using assms(2) ring_is_ok [OF assms(1)] by (simp_all add: span_ok_def a_def ring_def)
  define F where "F = ringed ring a (unat fp - 2 - par)"
  have acc: "acc (sb_crc b') = osc_crc_continue 0 (drop (a mod 2) F)"
    using crc_feed_ok [OF assms(1,2)] assms(4,5) by (auto simp: F_def ring_def a_def)
  have par: "par < 2" using assms(5) by simp
  have "osc_crc_continue 0 (drop (a mod 2) F) = osc_crc_continue 0 F"
  proof (cases "a mod 2 = 0")
    case False
    have "F \<noteq> []" using s par by (auto simp: F_def ringed_def)
    moreover have "F ! 0 = 0" using par assms(3) s by (simp add: F_def ring_def a_def)
    ultimately have "F = 0 # drop 1 F" by (metis Cons_nth_drop_Suc One_nat_def drop0 length_greater_0_conv)
    moreover have "a mod 2 = 1" using False by simp
    ultimately show ?thesis by (metis osc_crc_zero)
  qed simp
  then show ?thesis using acc by (simp add: osc_crc_def F_def ring_def a_def)
qed

lemma crc_verdict:
  assumes "ok b" "span_ok N anchor fp" "par = (unat fp - 2 - unat anchor mod 2) mod 2"
    and "acc (sb_crc b) = osc_crc (ringed (bus_ring P b) (unat anchor) (unat fp - 2 - par))"
  shows "\<exists>c del. ServoBus_crc_verify P b anchor fp = Some (b\<lparr>sb_crc := c\<rparr>, del \<and> frame_good (ringed (bus_ring P b) (unat anchor) (unat fp)))
    \<and> crc_mem (pr_crc P) c = crc_mem (pr_crc P) (sb_crc b) \<and> (prompt P \<longrightarrow> del)"
proof -
  define ring a n where "ring = bus_ring P b" and "a = unat anchor" and "n = unat fp"
  have N: "length ring = N" "0 < N" using ring_is_ok [OF assms(1)] ring_512 by (auto simp: ring_def)
  have s: "a < N" "6 \<le> n" "n \<le> 258" using assms(2) by (simp_all add: span_ok_def a_def n_def)
  define fb where "fb = ringed ring a n"
  obtain c v where p: "poll_result (pr_crc P) (unat (SPIN_PER_BYTE * of_nat (unat fp - 2))) (sb_crc b) = (c, v)" by fastforce
  define x where "x = (if par = 1 then Some (ring ! ((a + n - 3) mod N)) else None)"
  have eo: "(a + n - 2 - (a + a mod 2)) mod 2 = par" using assms(3) s by (simp add: a_def n_def)
  have "ServoBus_crc_tail ring anchor fp = Some x"
    using eo N s by (simp add: ServoBus_crc_tail_def Let_def a_def [symmetric] n_def [symmetric] x_def)
  then have e: "ServoBus_crc_verify P b anchor fp = Some (b\<lparr>sb_crc := c\<rparr>, case v of None \<Rightarrow> False
      | Some v \<Rightarrow> (case x of Some y \<Rightarrow> osc_crc_continue v [y] | None \<Rightarrow> v) = from_le16 (ring ! ((a + (n - 2)) mod N)) (ring ! ((a + (n - 2) + 1) mod N)))"
    using p N by (cases v) (simp_all add: ServoBus_crc_verify_def ring_def [symmetric] Let_def a_def n_def)
  have tr: "fb ! (n - 2) = ring ! ((a + (n - 2)) mod N)" "fb ! (n - 1) = ring ! ((a + (n - 2) + 1) mod N)"
  proof -
    have e1: "a + (n - 2) + 1 = a + (n - 1)" using s by linarith
    show "fb ! (n - 2) = ring ! ((a + (n - 2)) mod N)" using s N by (simp add: fb_def)
    show "fb ! (n - 1) = ring ! ((a + (n - 2) + 1) mod N)" unfolding e1 using s N nth_ringed [of "n - 1" n ring a] by (simp add: fb_def del: nth_ringed)
  qed
  have "osc_crc (take (n - 2) fb) = (case x of Some y \<Rightarrow> osc_crc_continue (acc (sb_crc b)) [y] | None \<Rightarrow> acc (sb_crc b))"
  proof (cases "par = 1")
    case True
    have "n - 2 = Suc (n - 3)" using s by linarith
    then have "take (n - 2) fb = ringed ring a (n - 3) @ [ring ! ((a + (n - 3)) mod N)]"
      using take_ringed [of "n - 2" n ring a] ringed_Suc [of ring a "n - 3"] s N by (simp add: fb_def)
    then show ?thesis using True assms(4) s
      by (simp add: x_def osc_crc_def osc_crc_continue_append ring_def a_def n_def eval_nat_numeral)
  next
    case False
    then have "par = 0" using assms(3) by linarith
    then show ?thesis using assms(4) s by (simp add: x_def fb_def take_ringed ring_def a_def n_def)
  qed
  then have g: "frame_good fb \<longleftrightarrow> (case x of Some y \<Rightarrow> osc_crc_continue (acc (sb_crc b)) [y] | None \<Rightarrow> acc (sb_crc b))
      = from_le16 (ring ! ((a + (n - 2)) mod N)) (ring ! ((a + (n - 2) + 1) mod N))"
    using tr by (simp add: frame_good_def fb_def)
  have "v = None \<or> v = Some (acc (sb_crc b))" using poll [OF p] by blast
  then have "ServoBus_crc_verify P b anchor fp = Some (b\<lparr>sb_crc := c\<rparr>, v \<noteq> None \<and> frame_good fb)"
    unfolding g using e by (elim disjE) simp_all
  moreover have "prompt P \<longrightarrow> v \<noteq> None" using p by (metis prompt_def snd_conv)
  ultimately show ?thesis using poll [OF p] by (auto simp: fb_def ring_def a_def n_def)
qed

section \<open>Reply events on the bus\<close>

lemma stage_reply_keep:
  assumes "ok b" "stage_reply P tol key result alert spans (b, s) = Some (b', s')"
  shows "acc (sb_crc b') = acc (sb_crc b) \<and> bus_core b' = bus_core b \<and> bus_cfg b' = bus_cfg b \<and> tx_wire (sb_tx b') = tx_wire (sb_tx b)"
proof -
  have "tx_ok (pr_crc P) (sb_tx b) (sb_crc b)" using assms by (simp add: bus_ok_def)
  from stage_total [OF this, of "sb_id b" result alert spans] obtain t' c' r where
    t: "TxEngine_stage_gather (pr_crc P) (sb_tx b) (sb_crc b) (sb_id b) result alert spans = Some (t', c', r)" "acc c' = acc (sb_crc b)"
    by blast
  have w: "tx_wire (TxEngine_mark_collision_tolerant t' key) = tx_wire t'"
    by (simp add: TxEngine_mark_collision_tolerant_def split: TxState.splits)
  show ?thesis using assms(2) t stage_wire [OF t(1)] w
    by (cases r) (auto simp: stage_reply_def bus_core_def bus_cfg_def Let_def split: if_splits)
qed

lemma reply_events_keep:
  "ok b \<Longrightarrow> reply_events P tol es (b, s) = Some (b', s') \<Longrightarrow>
   acc (sb_crc b') = acc (sb_crc b) \<and> bus_core b' = bus_core b \<and> tx_wire (sb_tx b') = tx_wire (sb_tx b)
   \<and> (list_all is_status es \<longrightarrow> bus_cfg b' = bus_cfg b)"
proof (induction es arbitrary: b s)
  case (Cons e es)
  obtain b1 s1 where e: "reply_event P tol e (b, s) = Some (b1, s1)" "reply_events P tol es (b1, s1) = Some (b', s')"
    using Cons.prems(2) by (auto simp: bind_eq_Some_conv)
  have "acc (sb_crc b1) = acc (sb_crc b) \<and> bus_core b1 = bus_core b \<and> tx_wire (sb_tx b1) = tx_wire (sb_tx b)
      \<and> (is_status e \<longrightarrow> bus_cfg b1 = bus_cfg b)"
    using e(1) stage_reply_keep [OF Cons.prems(1)] by (cases e) (auto simp: reply_event_def bus_core_def bus_cfg_def)
  moreover have "ok b1" using reply_event_ok [OF Cons.prems(1), of tol e s] e(1) by auto
  ultimately show ?case using Cons.IH [OF _ e(2)] by simp
qed simp

section \<open>Effects of a frame\<close>

lemma rejected_quiet: "bus_cfg (frame_rejected P (drop_staged b) a) = bus_cfg b \<and> quiet_wire b (frame_rejected P (drop_staged b) a)"
  by (auto simp: frame_rejected_def drop_staged_def bus_cfg_def quiet_wire_def Let_def TxEngine_abort_def wire_log_def)

lemma verify_effect:
  assumes "ok b" "servo_ok sv" "span_ok N (pd_anchor p) (pd_footprint p)"
    "ServoBus_crc_verify P b (pd_anchor p) (pd_footprint p) = Some (b\<lparr>sb_crc := c\<rparr>, good)"
  shows "\<exists>b' sv'. ServoBus_verify P env b sv p = Some (b', sv')
    \<and> (if good then (if pd_table p then Dispatcher_commit env (sv\<lparr>sv_reply := []\<rparr>) = Some sv' else sv' = sv)
       else sv' = (if pd_table p then Dispatcher_revert env sv else sv) \<and> bus_cfg b' = bus_cfg b \<and> quiet_wire b b')"
proof -
  obtain b' sv' where v: "ServoBus_verify P env b sv p = Some (b', sv')" using verify_ok [OF assms(1-3)] by blast
  show ?thesis
  proof (cases good)
    case True
    then have "if pd_table p then Dispatcher_commit env (sv\<lparr>sv_reply := []\<rparr>) = Some sv' else sv' = sv"
      using v assms(4) by (auto simp: ServoBus_verify_def bus_commit_def bind_eq_Some_conv split: if_splits)
    then show ?thesis using v True by simp
  next
    case False
    then have "b' = frame_rejected P (drop_staged (b\<lparr>sb_crc := c\<rparr>)) (pd_anchor p)" "sv' = (if pd_table p then Dispatcher_revert env sv else sv)"
      using v assms(4) by (auto simp: ServoBus_verify_def)
    then show ?thesis using v False rejected_quiet [of "b\<lparr>sb_crc := c\<rparr>" "pd_anchor p"] by (simp add: bus_cfg_def quiet_wire_def)
  qed
qed

lemma decoded_effect:
  assumes "ok b" "servo_ok sv" "span_ok N anchor fp" "frame_view (bus_ring P b) anchor fp = Some v"
  shows "\<exists>b' sv' r. dispatch_decoded P env b sv anchor fp = Some (b', sv', r) \<and> ok b' \<and> servo_ok sv'
    \<and> acc (sb_crc b') = acc (sb_crc b) \<and> bus_core b' = bus_core b \<and> tx_wire (sb_tx b') = tx_wire (sb_tx b)
    \<and> (case r of
         None \<Rightarrow> (\<forall>req mr s. decode v (sb_id b) \<noteq> Decoded_Own req mr s) \<and> sv' = sv \<and> b' = b
       | Some (staged, slot, out) \<Rightarrow> (\<exists>req mr. decode v (sb_id b) = Decoded_Own req mr slot
           \<and> dispatch env req mr (sv\<lparr>sv_reply := []\<rparr>) = Some (sv', out)
           \<and> (list_all is_status (sv_reply sv') \<longrightarrow> bus_cfg b' = bus_cfg b)))"
proof -
  obtain b' sv' r where d: "dispatch_decoded P env b sv anchor fp = Some (b', sv', r)" "ok b'" "servo_ok sv'"
    using dispatch_decoded_ok [OF assms(1-3)] by blast
  show ?thesis
  proof (cases "decode v (sb_id b)")
    case (Decoded_Own req mr slot)
    then obtain staged out where x: "r = Some (staged, slot, out)" "dispatch env req mr (sv\<lparr>sv_reply := []\<rparr>) = Some (sv', out)"
      "reply_events P (is_enumerate req) (sv_reply sv') (b, False) = Some (b', staged)"
      using d(1) assms(4) by (auto simp: dispatch_decoded_def bind_eq_Some_conv)
    show ?thesis using d x Decoded_Own reply_events_keep [OF assms(1) x(3)] by auto
  qed (use d assms(4) in \<open>auto simp: dispatch_decoded_def\<close>)
qed

lemma spine_dispatch:
  assumes "ok b" "servo_ok sv" "sv_pending sv = None" "span_ok N (fs_anchor span) (fs_footprint span)"
    "bus_ring P b ! unat (fs_anchor span) = 0" "frame_view (bus_ring P b) (fs_anchor span) (fs_footprint span) = Some v"
    "ServoBus_ring_inst P b (fs_anchor span) = Some inst" "\<not> ServoBus_verdict_first inst"
    and par: "par = (unat (fs_footprint span) - 2 - unat (fs_anchor span) mod 2) mod 2"
  shows "\<exists>b2 sv2 r. (\<forall>complete. route_spine P env b sv span complete =
        (if r = None \<and> \<not> complete then Some (b2, sv2)
         else if complete then ServoBus_verify P env b2 sv2 (spine_pending span r)
         else Some (b2\<lparr>sb_pending := Some (spine_pending span r)\<rparr>, sv2)))
    \<and> ok b2 \<and> servo_ok sv2 \<and> bus_core b2 = bus_core b \<and> bus_cfg b2 = bus_cfg b \<and> tx_wire (sb_tx b2) = tx_wire (sb_tx b)
    \<and> acc (sb_crc b2) = osc_crc (ringed (bus_ring P b) (unat (fs_anchor span)) (unat (fs_footprint span) - 2 - par))
    \<and> sans_reply (if pd_table (spine_pending span r) then Dispatcher_revert env sv2 else sv2) = sans_reply sv
    \<and> frame_effect env (decode v (sb_id b)) True sv
        = (if pd_table (spine_pending span r) then Dispatcher_commit env (sv2\<lparr>sv_reply := []\<rparr>) else Some sv2)
    \<and> (r = None \<longrightarrow> sv2 = sv \<and> (\<forall>req mr s. decode v (sb_id b) \<noteq> Decoded_Own req mr s) \<and> (\<forall>good. frame_effect env (decode v (sb_id b)) good sv = Some sv))"
proof -
  obtain c where c: "ServoBus_crc_feed P b (fs_anchor span) (fs_footprint span) = Some (b\<lparr>sb_crc := c\<rparr>)"
    "crc_mem (pr_crc P) c = crc_mem (pr_crc P) (sb_crc b)" using crc_feed_ok [OF assms(1,4)] by blast
  define b1 where "b1 = b\<lparr>sb_crc := c\<rparr>"
  have b1: "ok b1" using crc_kept [OF assms(1) c(2)] by (simp add: b1_def)
  have a1: "acc (sb_crc b1) = osc_crc (ringed (bus_ring P b) (unat (fs_anchor span)) (unat (fs_footprint span) - 2 - par))"
    using crc_feed_acc [OF assms(1,4,5) c(1) par] by (simp add: b1_def)
  have e1: "bus_ring P b1 = bus_ring P b" "sb_id b1 = sb_id b" by (simp_all add: b1_def bus_ring_def)
  obtain b2 sv2 r where d: "dispatch_decoded P env b1 sv (fs_anchor span) (fs_footprint span) = Some (b2, sv2, r)" "ok b2" "servo_ok sv2"
    "acc (sb_crc b2) = acc (sb_crc b1)" "bus_core b2 = bus_core b1" "tx_wire (sb_tx b2) = tx_wire (sb_tx b1)"
    "case r of
         None \<Rightarrow> (\<forall>req mr s. decode v (sb_id b) \<noteq> Decoded_Own req mr s) \<and> sv2 = sv \<and> b2 = b1
       | Some (staged, slot, out) \<Rightarrow> (\<exists>req mr. decode v (sb_id b) = Decoded_Own req mr slot
           \<and> dispatch env req mr (sv\<lparr>sv_reply := []\<rparr>) = Some (sv2, out)
           \<and> (list_all is_status (sv_reply sv2) \<longrightarrow> bus_cfg b2 = bus_cfg b1))"
    using decoded_effect [OF b1 assms(2,4), of v, unfolded e1, OF assms(6)] by blast
  have R: "\<forall>complete. route_spine P env b sv span complete =
        (if r = None \<and> \<not> complete then Some (b2, sv2)
         else if complete then ServoBus_verify P env b2 sv2 (spine_pending span r)
         else Some (b2\<lparr>sb_pending := Some (spine_pending span r)\<rparr>, sv2))"
    using c(1) d(1) by (cases r) (auto simp: route_spine_def b1_def spine_pending_def Let_def split: prod.split)
  have kept: "bus_core b1 = bus_core b" "bus_cfg b1 = bus_cfg b" "tx_wire (sb_tx b1) = tx_wire (sb_tx b)"
    by (simp_all add: b1_def bus_core_def bus_cfg_def)
  show ?thesis
  proof (cases r)
    case None
    then have "frame_effect env (decode v (sb_id b)) good sv = Some sv" for good
      using d(7) by (cases "decode v (sb_id b)") (auto simp: frame_effect_def)
    then show ?thesis using None R d kept a1 by (intro exI [of _ b2] exI [of _ sv2] exI [of _ r]) (simp add: spine_pending_def)
  next
    case (Some x)
    obtain staged slot out where x: "x = (staged, slot, out)" by (cases x)
    then obtain req mr where q: "decode v (sb_id b) = Decoded_Own req mr slot" "dispatch env req mr (sv\<lparr>sv_reply := []\<rparr>) = Some (sv2, out)"
      "list_all is_status (sv_reply sv2) \<longrightarrow> bus_cfg b2 = bus_cfg b1" using d(7) Some by auto
    have n: "unat (fs_footprint span) \<le> N" "4 \<le> unat (fs_footprint span)" "length (bus_ring P b) = N"
      using assms(4) ring_512 ring_is_ok [OF assms(1)] by (auto simp: span_ok_def)
    have "FrameBytes_bytes v = ringed (bus_ring P b) (unat (fs_anchor span)) (unat (fs_footprint span))"
      using frame_view_ringed [of "fs_anchor span" "bus_ring P b" "fs_footprint span"] assms(4,6) n by (auto simp: span_ok_def)
    then have "FrameBytes_u8_at v 3 = Some inst"
      using assms(7) n by (auto simp: FrameBytes_u8_at_bytes ServoBus_ring_inst_def Let_def nth_opt_def split: if_splits)
    then have "spine_req req" by (rule decode_spine_req [OF q(1) _ assms(8)])
    from dispatch_spine [OF env _ _ this q(2)] assms(2,3) obtain rs where
      rs: "list_all is_status rs" "sv_reply sv2 = rs"
      "if out = Dispatched_Pending then Dispatcher_revert env sv2 = emit (sv\<lparr>sv_reply := []\<rparr>) rs else sv2 = emit (sv\<lparr>sv_reply := []\<rparr>) rs"
      by auto
    have "sans_reply (if pd_table (spine_pending span r) then Dispatcher_revert env sv2 else sv2) = sans_reply sv"
      using rs(3) Some x by (simp add: spine_pending_def sans_emit split: if_splits)
    moreover have "frame_effect env (decode v (sb_id b)) True sv
        = (if pd_table (spine_pending span r) then Dispatcher_commit env (sv2\<lparr>sv_reply := []\<rparr>) else Some sv2)"
      using q Some x by (simp add: frame_effect_def spine_pending_def)
    ultimately show ?thesis using Some R d kept a1 q(3) rs(1,2)
      by (intro exI [of _ b2] exI [of _ sv2] exI [of _ r]) simp
  qed
qed

lemma spine_complete:
  assumes "ok b" "servo_ok sv" "sv_pending sv = None" "span_ok N (fs_anchor span) (fs_footprint span)"
    "bus_ring P b ! unat (fs_anchor span) = 0" "frame_view (bus_ring P b) (fs_anchor span) (fs_footprint span) = Some v"
    "ServoBus_ring_inst P b (fs_anchor span) = Some inst" "\<not> ServoBus_verdict_first inst"
    and good: "good = frame_good (ringed (bus_ring P b) (unat (fs_anchor span)) (unat (fs_footprint span)))"
  shows "\<exists>b' sv' del e. route_spine P env b sv span True = Some (b', sv') \<and> (prompt P \<longrightarrow> del)
    \<and> frame_effect env (decode v (sb_id b)) (del \<and> good) sv = Some e \<and> sans_reply sv' = sans_reply e
    \<and> (\<not> (del \<and> good) \<longrightarrow> bus_cfg b' = bus_cfg b \<and> quiet_wire b b')"
proof -
  define par where "par = (unat (fs_footprint span) - 2 - unat (fs_anchor span) mod 2) mod 2"
  obtain b2 sv2 r where s: "route_spine P env b sv span True = ServoBus_verify P env b2 sv2 (spine_pending span r)"
    "ok b2" "servo_ok sv2" "bus_core b2 = bus_core b" "bus_cfg b2 = bus_cfg b" "tx_wire (sb_tx b2) = tx_wire (sb_tx b)"
    "acc (sb_crc b2) = osc_crc (ringed (bus_ring P b) (unat (fs_anchor span)) (unat (fs_footprint span) - 2 - par))"
    "sans_reply (if pd_table (spine_pending span r) then Dispatcher_revert env sv2 else sv2) = sans_reply sv"
    "frame_effect env (decode v (sb_id b)) True sv
        = (if pd_table (spine_pending span r) then Dispatcher_commit env (sv2\<lparr>sv_reply := []\<rparr>) else Some sv2)"
    using spine_dispatch [OF assms(1-8) par_def] by auto
  have ring: "bus_ring P b2 = bus_ring P b" using s(4) by (simp add: bus_ring_def bus_core_def)
  obtain c del where v: "ServoBus_crc_verify P b2 (fs_anchor span) (fs_footprint span) = Some (b2\<lparr>sb_crc := c\<rparr>, del \<and> good)" "prompt P \<longrightarrow> del"
    using crc_verdict [OF s(2) assms(4) par_def] s(7) by (auto simp: ring good)
  obtain b' sv' where w: "ServoBus_verify P env b2 sv2 (spine_pending span r) = Some (b', sv')"
    "if del \<and> good then (if pd_table (spine_pending span r) then Dispatcher_commit env (sv2\<lparr>sv_reply := []\<rparr>) = Some sv' else sv' = sv2)
     else sv' = (if pd_table (spine_pending span r) then Dispatcher_revert env sv2 else sv2) \<and> bus_cfg b' = bus_cfg b2 \<and> quiet_wire b2 b'"
    using verify_effect [OF s(2,3), of "spine_pending span r" c "del \<and> good"] assms(4) v(1) by auto
  show ?thesis
  proof (cases "del \<and> good")
    case True
    then have "frame_effect env (decode v (sb_id b)) (del \<and> good) sv = Some sv'" using s(9) w(2) by (simp split: if_splits)
    then show ?thesis using s(1) w(1) v(2) True
      by (intro exI [of _ b'] exI [of _ sv'] exI [of _ del] exI [of _ sv']) simp
  next
    case False
    then have "frame_effect env (decode v (sb_id b)) (del \<and> good) sv = Some sv" by (cases "decode v (sb_id b)") (auto simp: frame_effect_def)
    moreover have "sans_reply sv' = sans_reply sv" "bus_cfg b' = bus_cfg b" "quiet_wire b b'"
      using False w(2) s(5,6,8) by (auto simp: quiet_wire_def)
    ultimately show ?thesis using s(1) w(1) v(2)
      by (intro exI [of _ b'] exI [of _ sv'] exI [of _ del] exI [of _ sv]) simp
  qed
qed

lemma gated_complete:
  assumes "ok b" "servo_ok sv" "span_ok N (fs_anchor span) (fs_footprint span)"
    "bus_ring P b ! unat (fs_anchor span) = 0" "frame_view (bus_ring P b) (fs_anchor span) (fs_footprint span) = Some v"
    and good: "good = frame_good (ringed (bus_ring P b) (unat (fs_anchor span)) (unat (fs_footprint span)))"
  shows "\<exists>b' sv' del e. route_gated P env b sv span = Some (b', sv') \<and> (prompt P \<longrightarrow> del)
    \<and> frame_effect env (decode v (sb_id b)) (del \<and> good) sv = Some e \<and> sans_reply sv' = sans_reply e
    \<and> (\<not> (del \<and> good) \<longrightarrow> bus_cfg b' = bus_cfg b \<and> quiet_wire b b')"
proof -
  define par where "par = (unat (fs_footprint span) - 2 - unat (fs_anchor span) mod 2) mod 2"
  obtain c where c: "ServoBus_crc_feed P b (fs_anchor span) (fs_footprint span) = Some (b\<lparr>sb_crc := c\<rparr>)"
    "crc_mem (pr_crc P) c = crc_mem (pr_crc P) (sb_crc b)" using crc_feed_ok [OF assms(1,3)] by blast
  define b1 where "b1 = b\<lparr>sb_crc := c\<rparr>"
  have b1: "ok b1" "bus_ring P b1 = bus_ring P b" using crc_kept [OF assms(1) c(2)] by (simp_all add: b1_def bus_ring_def)
  obtain c2 del where v: "ServoBus_crc_verify P b1 (fs_anchor span) (fs_footprint span) = Some (b1\<lparr>sb_crc := c2\<rparr>, del \<and> good)" "prompt P \<longrightarrow> del"
    and mem2: "crc_mem (pr_crc P) c2 = crc_mem (pr_crc P) (sb_crc b)"
  proof -
    have "acc (sb_crc b1) = osc_crc (ringed (bus_ring P b1) (unat (fs_anchor span)) (unat (fs_footprint span) - 2 - par))"
      using crc_feed_acc [OF assms(1,3,4) c(1) par_def] unfolding b1(2) by (simp add: b1_def)
    from crc_verdict [OF b1(1) assms(3) par_def this, unfolded b1(2)] that c(2) show ?thesis by (auto simp: good b1_def)
  qed
  have "bus_ring P b \<noteq> [] \<and> \<not> unat (fs_footprint span) < 2" using ring_is_ok [OF assms(1)] ring_512 assms(3) by (auto simp: span_ok_def)
  then have k: "ServoBus_crc_ok P b (fs_anchor span) (fs_footprint span) = Some (b\<lparr>sb_crc := c2\<rparr>, del \<and> good)"
    using c(1) v(1) by (simp add: ServoBus_crc_ok_def b1_def)
  obtain b' sv' where g: "route_gated P env b sv span = Some (b', sv')" using gated_ok [OF assms(1-3)] by blast
  show ?thesis
  proof (cases "del \<and> good")
    case True
    have "\<exists>e. frame_effect env (decode v (sb_id b)) True sv = Some e \<and> sans_reply sv' = sans_reply e"
    proof -
      obtain b3 b4 sv4 r where d: "dispatch_decoded P env b3 sv (fs_anchor span) (fs_footprint span) = Some (b4, sv4, r)"
        "sb_world b3 = sb_world b" "sb_id b3 = sb_id b"
        and e: "route_gated P env b sv span = (case r of None \<Rightarrow> Some (b4, sv4)
         | Some (staged, slot, out) \<Rightarrow>
             do { (b, sv) \<leftarrow> (if out = Dispatched_Pending then bus_commit P env b4 sv4 else Some (b4, sv4));
                  b \<leftarrow> (if staged \<and> TxEngine_staged (sb_tx b) then sequence_reply P b slot (fs_packet_end span) else Some b);
                  Some (b, sv) })"
        using gated_good [OF assms(1-3), of c2] k True mem2 by auto
      have d4: "case r of None \<Rightarrow> sv' = sv4
         | Some (staged, slot, out) \<Rightarrow> (if out = Dispatched_Pending then Dispatcher_commit env (sv4\<lparr>sv_reply := []\<rparr>) = Some sv' else sv' = sv4)"
        using e [unfolded g, symmetric] by (cases r) (auto simp: bus_commit_def bind_eq_Some_conv split: if_splits)
      have "bus_ring P b3 = bus_ring P b" using d(2) by (simp add: bus_ring_def)
      then have "case decode v (sb_id b) of
          Decoded_Own req mr slot \<Rightarrow> (\<exists>staged out. r = Some (staged, slot, out) \<and> dispatch env req mr (sv\<lparr>sv_reply := []\<rparr>) = Some (sv4, out))
        | _ \<Rightarrow> r = None \<and> sv4 = sv"
        using d(1,3) assms(5) by (auto simp: dispatch_decoded_def bind_eq_Some_conv split: Decoded.splits)
      then show ?thesis using d4 by (cases "decode v (sb_id b)") (auto simp: frame_effect_def)
    qed
    then show ?thesis using g v(2) True by auto
  next
    case False
    then have "frame_effect env (decode v (sb_id b)) (del \<and> good) sv = Some sv" by (cases "decode v (sb_id b)") (auto simp: frame_effect_def)
    moreover have "b' = frame_rejected P (b\<lparr>sb_crc := c2\<rparr>) (fs_anchor span)" "sv' = sv" using False g k by (auto simp: route_gated_def)
    moreover have "bus_cfg b' = bus_cfg b" "tx_wire (sb_tx b') = tx_wire (sb_tx b)"
      using calculation(2) by (simp_all add: frame_rejected_def bus_cfg_def Let_def)
    ultimately show ?thesis using g v(2) by (auto simp: quiet_wire_def)
  qed
qed

lemma complete_frame:
  assumes "ok b" "servo_ok sv" "sv_pending sv = None" "handed_span (bus_ring P b) span"
    "ServoBus_ring_inst P b (fs_anchor span) = Some inst" "\<not> Inst_is_status inst"
    "frame_view (bus_ring P b) (fs_anchor span) (fs_footprint span) = Some v"
    and good: "good = frame_good (ringed (bus_ring P b) (unat (fs_anchor span)) (unat (fs_footprint span)))"
  shows "\<exists>b' sv' del e. route_frame P env b sv span True = Some (b', sv') \<and> (prompt P \<longrightarrow> del)
    \<and> frame_effect env (decode v (sb_id b)) (del \<and> good) sv = Some e \<and> sans_reply sv' = sans_reply e
    \<and> (\<not> (del \<and> good) \<longrightarrow> bus_cfg b' = bus_cfg b \<and> quiet_wire b b')"
proof -
  have h: "span_ok N (fs_anchor span) (fs_footprint span)" "bus_ring P b ! unat (fs_anchor span) = 0"
    using assms(4) ring_is_ok [OF assms(1)] by (auto simp: handed_span_def)
  show ?thesis
  proof (cases "\<not> Chain_active (sb_chain b) \<and> \<not> TxEngine_busy (sb_tx b) \<and> \<not> ServoBus_verdict_first inst")
    case True
    then show ?thesis using assms(5,6) spine_complete [OF assms(1-3) h assms(7,5) _ good] by (simp add: route_frame_def)
  next
    case False
    then have "route_frame P env b sv span True = route_gated P env b sv span" using assms(5,6) by (auto simp: route_frame_def)
    then show ?thesis using gated_complete [OF assms(1,2) h assms(7) good] by simp
  qed
qed

text \<open>The frontier path: dispatched at the covered checkpoint, resolved when the trailer has arrived in a later world.\<close>

lemma split_frame:
  assumes "ok b" "servo_ok sv" "sv_pending sv = None" "handed_span (bus_ring P b) span"
    "ServoBus_ring_inst P b (fs_anchor span) = Some inst" "\<not> Inst_is_status inst"
    "frame_view (bus_ring P b) (fs_anchor span) (fs_footprint span) = Some v"
    "\<not> Chain_active (sb_chain b)" "\<not> TxEngine_busy (sb_tx b)" "\<not> ServoBus_verdict_first inst"
    "decode v (sb_id b) = Decoded_Own req mr slot"
    "wok w" "ringed (pr_bytes P w) (unat (fs_anchor span)) (unat (fs_footprint span) - 2)
       = ringed (bus_ring P b) (unat (fs_anchor span)) (unat (fs_footprint span) - 2)"
    "fs_anchor span' = fs_anchor span" "fs_footprint span' = fs_footprint span"
    and good: "good = frame_good (ringed (pr_bytes P w) (unat (fs_anchor span)) (unat (fs_footprint span)))"
  shows "\<exists>b1 sv1 b' sv' del e. route_frame P env b sv span False = Some (b1, sv1)
    \<and> tx_wire (sb_tx b1) = tx_wire (sb_tx b)
    \<and> on_frame_end P env (b1\<lparr>sb_world := w\<rparr>) sv1 span' = Some (b', sv') \<and> (prompt P \<longrightarrow> del)
    \<and> frame_effect env (decode v (sb_id b)) (del \<and> good) sv = Some e \<and> sans_reply sv' = sans_reply e
    \<and> (\<not> (del \<and> good) \<longrightarrow> bus_cfg b' = bus_cfg b \<and> quiet_wire b b')"
proof -
  have h: "span_ok N (fs_anchor span) (fs_footprint span)" "bus_ring P b ! unat (fs_anchor span) = 0"
    using assms(4) ring_is_ok [OF assms(1)] by (auto simp: handed_span_def)
  define par where "par = (unat (fs_footprint span) - 2 - unat (fs_anchor span) mod 2) mod 2"
  obtain b2 sv2 r where R: "\<forall>complete. route_spine P env b sv span complete =
        (if r = None \<and> \<not> complete then Some (b2, sv2)
         else if complete then ServoBus_verify P env b2 sv2 (spine_pending span r)
         else Some (b2\<lparr>sb_pending := Some (spine_pending span r)\<rparr>, sv2))"
    and s: "ok b2" "servo_ok sv2" "bus_core b2 = bus_core b" "bus_cfg b2 = bus_cfg b" "tx_wire (sb_tx b2) = tx_wire (sb_tx b)"
    "acc (sb_crc b2) = osc_crc (ringed (bus_ring P b) (unat (fs_anchor span)) (unat (fs_footprint span) - 2 - par))"
    "sans_reply (if pd_table (spine_pending span r) then Dispatcher_revert env sv2 else sv2) = sans_reply sv"
    "frame_effect env (decode v (sb_id b)) True sv
        = (if pd_table (spine_pending span r) then Dispatcher_commit env (sv2\<lparr>sv_reply := []\<rparr>) else Some sv2)"
    "r = None \<longrightarrow> sv2 = sv \<and> (\<forall>req mr s. decode v (sb_id b) \<noteq> Decoded_Own req mr s) \<and> (\<forall>good. frame_effect env (decode v (sb_id b)) good sv = Some sv)"
    using spine_dispatch [OF assms(1-3) h assms(7,5,10) par_def] by blast
  define p where "p = spine_pending span r"
  have F: "route_frame P env b sv span False = route_spine P env b sv span False"
    using assms(5,6,8-10) by (simp add: route_frame_def)
  have rS: "r \<noteq> None" using s(9) assms(11) by blast
  then have F: "route_frame P env b sv span False = Some (b2\<lparr>sb_pending := Some p\<rparr>, sv2)" using F R [rule_format, of False] unfolding p_def by auto
  define b3 where "b3 = b2\<lparr>sb_world := w, sb_pending := None\<rparr>"
  have b3: "ok b3" "bus_ring P b3 = pr_bytes P w" "sb_crc b3 = sb_crc b2" "bus_cfg b3 = bus_cfg b" "tx_wire (sb_tx b3) = tx_wire (sb_tx b)"
    using s(1,4,5) assms(12) by (simp_all add: b3_def bus_ok_def bus_ring_def bus_cfg_def)
  have E: "on_frame_end P env (b2\<lparr>sb_pending := Some p, sb_world := w\<rparr>) sv2 span' = ServoBus_verify P env b3 sv2 p"
    using assms(14,15) by (simp add: on_frame_end_def p_def b3_def)
  have le: "unat (fs_footprint span) - 2 - par \<le> unat (fs_footprint span) - 2" by simp
  have "acc (sb_crc b3) = osc_crc (ringed (bus_ring P b3) (unat (fs_anchor span)) (unat (fs_footprint span) - 2 - par))"
    using take_ringed [OF le, of "pr_bytes P w"] take_ringed [OF le, of "bus_ring P b"] assms(13) s(6) b3(2,3) by metis
  from crc_verdict [OF b3(1) h(1) par_def this] obtain c del where
    v: "ServoBus_crc_verify P b3 (fs_anchor span) (fs_footprint span) = Some (b3\<lparr>sb_crc := c\<rparr>, del \<and> good)" "prompt P \<longrightarrow> del"
    unfolding b3(2) good by blast
  obtain b' sv' where x: "ServoBus_verify P env b3 sv2 p = Some (b', sv')"
    "if del \<and> good then (if pd_table p then Dispatcher_commit env (sv2\<lparr>sv_reply := []\<rparr>) = Some sv' else sv' = sv2)
     else sv' = (if pd_table p then Dispatcher_revert env sv2 else sv2) \<and> bus_cfg b' = bus_cfg b3 \<and> quiet_wire b3 b'"
    using verify_effect [OF b3(1) s(2), of p c "del \<and> good"] h(1) v(1) by (auto simp: p_def)
  have "\<exists>e. frame_effect env (decode v (sb_id b)) (del \<and> good) sv = Some e \<and> sans_reply sv' = sans_reply e
      \<and> (\<not> (del \<and> good) \<longrightarrow> bus_cfg b' = bus_cfg b \<and> quiet_wire b b')"
  proof (cases "del \<and> good")
    case True
    then show ?thesis using s(8) x(2) by (simp add: p_def [symmetric] split: if_splits)
  next
    case False
    then have "frame_effect env (decode v (sb_id b)) (del \<and> good) sv = Some sv" by (auto simp: assms(11) frame_effect_def)
    moreover have "sans_reply sv' = sans_reply sv" using False x(2) s(7) by (auto simp: p_def)
    moreover have "bus_cfg b' = bus_cfg b \<and> quiet_wire b b'" using False x(2) b3(4,5) by (auto simp: quiet_wire_def)
    ultimately show ?thesis by blast
  qed
  then show ?thesis using F E x(1) v(2) s(5)
    by - (rule exI [of _ "b2\<lparr>sb_pending := Some p\<rparr>"], rule exI [of _ sv2], rule exI [of _ b'], rule exI [of _ sv'], rule exI [of _ del], simp)
qed

end

section \<open>The gate\<close>

lemmas gate_laws = bus_env.complete_frame and split_laws = bus_env.split_frame

text \<open>Property C1: the CRC verdict gates every effect.  When the framer hands over a complete instruction frame, the servo
  afterwards is the servo the dispatcher (and, for a write, its commit) leaves if the frame's CRC matches, and the servo of
  before if it does not, whichever path (dispatch ahead of the verdict or verdict first) the frame takes.  A frame that fails
  changes neither identity, rate, pending changes nor the clock tracker and drives nothing.  An engine that
  is late counts as a failed verdict; one that delivers in time is never overruled.\<close>

theorem crc_gate:
  assumes "bus_env P acc base env wok N" "bus_ok P wok N b" "servo_ok sv" "sv_pending sv = None"
    and "handed_span (bus_ring P b) span" "ServoBus_ring_inst P b (fs_anchor span) = Some inst" "\<not> Inst_is_status inst"
    and "frame_view (bus_ring P b) (fs_anchor span) (fs_footprint span) = Some v"
    and "good = frame_good (ringed (bus_ring P b) (unat (fs_anchor span)) (unat (fs_footprint span)))"
  shows "\<exists>b' sv' in_time e. route_frame P env b sv span True = Some (b', sv') \<and> (prompt P \<longrightarrow> in_time)
    \<and> frame_effect env (decode v (sb_id b)) (in_time \<and> good) sv = Some e \<and> sans_reply sv' = sans_reply e
    \<and> (\<not> (in_time \<and> good) \<longrightarrow> bus_cfg b' = bus_cfg b \<and> quiet_wire b b')"
  by (rule gate_laws [OF assms])

text \<open>A ping for servo 1 in the test ring, with its trailer in place and before it arrived.\<close>

definition ping_world :: "bytes \<Rightarrow> TestWorld" where
  "ping_world trailer = TestWorld_new\<lparr>tw_buf := [0, 1, 3, 0x10] @ trailer @ replicate 506 0\<rparr>"

definition ping_bus :: "bytes \<Rightarrow> (TestWorld, FakeCrc) ServoBus" where
  "ping_bus trailer = ServoBus_new TestProviders (ping_world trailer) FakeCrc_new [] 1 B1000000 500"

definition ping_span :: FrameSpan where
  "ping_span = \<lparr>fs_anchor = 0, fs_footprint = 6, fs_packet_end = 60\<rparr>"

lemma ping_setup:
  assumes "length t = 2"
  shows "test_world_ok (ping_world t)" "bus_ok TestProviders test_world_ok RING_LEN (ping_bus t)"
    "bus_ring TestProviders (ping_bus t) = [0, 1, 3, 0x10] @ t @ replicate 506 0"
    "handed_span (bus_ring TestProviders (ping_bus t)) ping_span"
    "ServoBus_ring_inst TestProviders (ping_bus t) (fs_anchor ping_span) = Some 0x10"
    "frame_view (bus_ring TestProviders (ping_bus t)) (fs_anchor ping_span) (fs_footprint ping_span)
       = Some (FrameBytes_new ([0, 1, 3, 0x10] @ t) [])"
proof -
  show w: "test_world_ok (ping_world t)" using assms by (simp add: ping_world_def test_world_ok_def TestWorld_new_def RING_LEN_def)
  show "bus_ok TestProviders test_world_ok RING_LEN (ping_bus t)" unfolding ping_bus_def by (rule test.new_ok [OF w])
  show r: "bus_ring TestProviders (ping_bus t) = [0, 1, 3, 0x10] @ t @ replicate 506 0"
    by (simp add: ping_bus_def bus_ring_def ServoBus_new_def TestProviders_def ping_world_def)
  show "handed_span (bus_ring TestProviders (ping_bus t)) ping_span"
    using assms unfolding r by (simp add: handed_span_def span_ok_def ping_span_def span_at_def footprint_def)
  show "ServoBus_ring_inst TestProviders (ping_bus t) (fs_anchor ping_span) = Some 0x10"
    using assms r by (simp add: ServoBus_ring_inst_def ping_span_def Let_def)
  show "frame_view (bus_ring TestProviders (ping_bus t)) (fs_anchor ping_span) (fs_footprint ping_span)
       = Some (FrameBytes_new ([0, 1, 3, 0x10] @ t) [])"
    using assms unfolding r by (simp add: frame_view_def ping_span_def get_range_def)
qed

lemma prompt_test: "prompt TestProviders"
  by (simp add: prompt_def TestProviders_def FakeCrc_engine_def poll_result.simps FakeCrc_result_def)

theorem crc_gate_witness:
  "\<exists>b' sv' e. route_frame TestProviders demo_env (ping_bus [0x50, 0xFC]) demo_servo ping_span True = Some (b', sv')
     \<and> frame_effect demo_env (Decoded_Own Request_Ping True 0) True demo_servo = Some e \<and> sans_reply sv' = sans_reply e"
proof -
  have l: "length [0x50, 0xFC :: u8] = 2" by simp
  have g: "frame_good (ringed (bus_ring TestProviders (ping_bus [0x50, 0xFC])) (unat (fs_anchor ping_span)) (unat (fs_footprint ping_span)))"
    unfolding ping_setup(3) [OF l] by code_simp
  have s: "\<not> Inst_is_status 0x10" by code_simp
  have d: "decode (FrameBytes_new ([0, 1, 3, 0x10] @ [0x50, 0xFC]) []) 1 = Decoded_Own Request_Ping True 0" by code_simp
  show ?thesis
    using crc_gate [OF test.bus_env_axioms ping_setup(2) [OF l] demo_ok(2,3) ping_setup(4) [OF l] ping_setup(5) [OF l] s ping_setup(6) [OF l], of True] g d
      prompt_test by (auto simp: ping_bus_def ServoBus_new_def)
qed

text \<open>Property C16: running ahead of the verdict is invisible.  A frame dispatched as soon as its covered bytes are in the
  ring, and resolved when the trailer arrives in whatever the world has become by then, has exactly the effect of the
  frame handed over complete: dispatch and commit if the CRC matches, nothing at all if it does not.  Nothing reaches the
  wire before the verdict.\<close>

theorem early_dispatch_invisible:
  assumes "bus_env P acc base env wok N" "bus_ok P wok N b" "servo_ok sv" "sv_pending sv = None"
    and "handed_span (bus_ring P b) span" "ServoBus_ring_inst P b (fs_anchor span) = Some inst" "\<not> Inst_is_status inst"
    and "frame_view (bus_ring P b) (fs_anchor span) (fs_footprint span) = Some v"
    and "\<not> Chain_active (sb_chain b)" "\<not> TxEngine_busy (sb_tx b)" "\<not> ServoBus_verdict_first inst"
    and "decode v (sb_id b) = Decoded_Own req mr slot"
    and "wok w" "ringed (pr_bytes P w) (unat (fs_anchor span)) (unat (fs_footprint span) - 2)
       = ringed (bus_ring P b) (unat (fs_anchor span)) (unat (fs_footprint span) - 2)"
    and "fs_anchor span' = fs_anchor span" "fs_footprint span' = fs_footprint span"
    and "good = frame_good (ringed (pr_bytes P w) (unat (fs_anchor span)) (unat (fs_footprint span)))"
  shows "\<exists>b1 sv1 b' sv' in_time e. route_frame P env b sv span False = Some (b1, sv1)
    \<and> tx_wire (sb_tx b1) = tx_wire (sb_tx b)
    \<and> on_frame_end P env (b1\<lparr>sb_world := w\<rparr>) sv1 span' = Some (b', sv') \<and> (prompt P \<longrightarrow> in_time)
    \<and> frame_effect env (decode v (sb_id b)) (in_time \<and> good) sv = Some e \<and> sans_reply sv' = sans_reply e
    \<and> (\<not> (in_time \<and> good) \<longrightarrow> bus_cfg b' = bus_cfg b \<and> quiet_wire b b')"
  by (rule split_laws [OF assms])

theorem early_dispatch_invisible_witness:
  "\<exists>b1 sv1 b' sv'. route_frame TestProviders demo_env (ping_bus [0, 0]) demo_servo ping_span False = Some (b1, sv1)
     \<and> on_frame_end TestProviders demo_env (b1\<lparr>sb_world := ping_world [0x50, 0xFD]\<rparr>) sv1 ping_span = Some (b', sv')
     \<and> sans_reply sv' = sans_reply demo_servo"
proof -
  have l: "length [0, 0 :: u8] = 2" "length [0x50, 0xFD :: u8] = 2" by simp_all
  have e: "pr_bytes TestProviders (ping_world [0x50, 0xFD]) = [0, 1, 3, 0x10] @ [0x50, 0xFD] @ replicate 506 0"
    by (simp add: TestProviders_def ping_world_def)
  have g: "\<not> frame_good (ringed (pr_bytes TestProviders (ping_world [0x50, 0xFD])) (unat (fs_anchor ping_span)) (unat (fs_footprint ping_span)))"
    unfolding e by code_simp
  have s: "\<not> Inst_is_status 0x10" "\<not> ServoBus_verdict_first 0x10" by code_simp+
  have d: "decode (FrameBytes_new ([0, 1, 3, 0x10] @ [0, 0]) []) (sb_id (ping_bus [0, 0])) = Decoded_Own Request_Ping True 0"
  proof -
    have "sb_id (ping_bus [0, 0]) = 1" by (simp add: ping_bus_def ServoBus_new_def)
    moreover have "decode (FrameBytes_new ([0, 1, 3, 0x10] @ [0, 0]) []) 1 = Decoded_Own Request_Ping True 0" by code_simp
    ultimately show ?thesis by simp
  qed
  have i: "\<not> Chain_active (sb_chain (ping_bus [0, 0]))" "\<not> TxEngine_busy (sb_tx (ping_bus [0, 0]))"
    by (simp_all add: ping_bus_def ServoBus_new_def Chain_active_def Chain_new_def TxEngine_busy_def TxEngine_new_def)
  have r: "ringed (pr_bytes TestProviders (ping_world [0x50, 0xFD])) (unat (fs_anchor ping_span)) (unat (fs_footprint ping_span) - 2)
      = ringed (bus_ring TestProviders (ping_bus [0, 0])) (unat (fs_anchor ping_span)) (unat (fs_footprint ping_span) - 2)"
    unfolding e ping_setup(3) [OF l(1)] by code_simp
  show ?thesis
    using early_dispatch_invisible [OF test.bus_env_axioms ping_setup(2) [OF l(1)] demo_ok(2,3) ping_setup(4,5) [OF l(1)] s(1) ping_setup(6) [OF l(1)]
        i s(2) d ping_setup(1) [OF l(2)] r refl refl, of False] g by (auto simp: frame_effect_def split: Decoded.splits)
qed

end
