(* ===== verification/Fixed.thy ===== *)
theory Fixed
  imports Signed Complex_Main "HOL-Library.Log_Nat"
begin

text \<open>
  The fixed-point primitives of the control kernel (\<open>core/src/math.rs\<close>).  A plain \<open>i32\<close> or \<open>u32\<close> operation is checked: it is
  \<open>None\<close> where the build with overflow checks panics, so that a result \<open>Some\<close> says that nothing overflowed.
  Saturating operations and casts are total.
\<close>

section \<open>Checked operations\<close>

definition u32_ok :: "int \<Rightarrow> bool" where
  "u32_ok x \<longleftrightarrow> 0 \<le> x \<and> x < 2 ^ 32"

definition chk32 :: "int \<Rightarrow> int option" where
  "chk32 x = (if i32_ok x then Some x else None)"

definition chku32 :: "int \<Rightarrow> int option" where
  "chku32 x = (if u32_ok x then Some x else None)"

text \<open>\<open>Ord::clamp\<close> asserts that its bounds are ordered.\<close>

definition chk_clamp :: "int \<Rightarrow> int \<Rightarrow> int \<Rightarrow> int option" where
  "chk_clamp x lo hi = (if lo \<le> hi then Some (clamp x lo hi) else None)"

text \<open>\<open>x << k\<close> drops the high bits; \<open>x >> k\<close> on a signed value is the floor.\<close>

definition shl32 :: "int \<Rightarrow> nat \<Rightarrow> int" where
  "shl32 x k = wrap32 (x * 2 ^ k)"

definition asr :: "int \<Rightarrow> nat \<Rightarrow> int" where
  "asr x k = x div 2 ^ k"

named_theorems chk_simps \<open>checked operations that are in range\<close>

lemma chk32_Some [simp, chk_simps]: "i32_ok x \<Longrightarrow> chk32 x = Some x"
  by (simp add: chk32_def)

lemma chku32_Some [simp, chk_simps]: "u32_ok x \<Longrightarrow> chku32 x = Some x"
  by (simp add: chku32_def)

lemma chk_clamp_Some [simp, chk_simps]: "lo \<le> hi \<Longrightarrow> chk_clamp x lo hi = Some (clamp x lo hi)"
  by (simp add: chk_clamp_def)

lemma chk32_eq_Some [simp]: "chk32 x = Some y \<longleftrightarrow> i32_ok x \<and> y = x"
  by (auto simp: chk32_def)

lemma u32_okI: "0 \<le> x \<Longrightarrow> x < 4294967296 \<Longrightarrow> u32_ok x"
  by (simp add: u32_ok_def)

lemma asr_ge: "a * 2 ^ k \<le> x \<Longrightarrow> a \<le> asr x k"
  using zdiv_mono1 [of "a * 2 ^ k" x "2 ^ k"] by (simp add: asr_def)

lemma asr_le: "x \<le> b * 2 ^ k \<Longrightarrow> asr x k \<le> b"
  using zdiv_mono1 [of x "b * 2 ^ k" "2 ^ k"] by (simp add: asr_def)

lemma asr_mult_le: "asr x k * 2 ^ k \<le> x"
  by (simp add: asr_def flip: minus_mod_eq_div_mult)

lemma asr_less: "x < b * 2 ^ k \<Longrightarrow> asr x k < b"
proof (rule ccontr)
  assume x: "x < b * 2 ^ k" and "\<not> asr x k < b"
  then have "b * 2 ^ k \<le> asr x k * 2 ^ k" by (intro mult_right_mono) simp_all
  with asr_mult_le [of x k] x show False by linarith
qed

lemma asr_mono: "x \<le> y \<Longrightarrow> asr x k \<le> asr y k"
  unfolding asr_def by (rule zdiv_mono1) simp_all

lemma asr_0 [simp]: "asr 0 k = 0" "asr x 0 = x"
  by (simp_all add: asr_def)

section \<open>Widening products\<close>

definition q_mul :: "int \<Rightarrow> int \<Rightarrow> nat \<Rightarrow> int" where
  "q_mul a b k = wrap32 (asr (a * b) k)"

definition q_mul_u :: "int \<Rightarrow> int \<Rightarrow> nat \<Rightarrow> int" where
  "q_mul_u a b k = (a * b div 2 ^ k) mod 2 ^ 32"

definition wide_ge :: "int \<Rightarrow> int \<Rightarrow> int \<Rightarrow> int \<Rightarrow> bool" where
  "wide_ge a b c d \<longleftrightarrow> a * b \<ge> c * d"

lemma q_mul_ok [simp]: "i32_ok (q_mul a b k)"
  by (simp add: q_mul_def)

lemma q_mul_exact: "- (2147483648 * 2 ^ k) \<le> a * b \<Longrightarrow> a * b < 2147483648 * 2 ^ k \<Longrightarrow> q_mul a b k = asr (a * b) k"
  unfolding q_mul_def by (intro wrap32_id i32_okI) (auto intro: asr_ge asr_less)

lemma q_mul_u_exact: "0 \<le> a * b \<Longrightarrow> a * b < 4294967296 * 2 ^ k \<Longrightarrow> q_mul_u a b k = a * b div 2 ^ k"
proof -
  assume p: "0 \<le> a * b" "a * b < 4294967296 * 2 ^ k"
  then have "a * b div 2 ^ k < 4294967296" using asr_less [of "a * b" 4294967296 k] by (simp add: asr_def)
  moreover have "0 \<le> a * b div 2 ^ k" using p(1) by (simp add: pos_imp_zdiv_nonneg_iff)
  ultimately show ?thesis by (simp add: q_mul_u_def)
qed

section \<open>Reciprocal division\<close>

definition leading_zeros32 :: "int \<Rightarrow> nat" where
  "leading_zeros32 d = length (takeWhile (\<lambda>i. \<not> bit d i) (rev [0..<32]))"

definition SEED_C1_Q30 :: int where "SEED_C1_Q30 = 3031741621"
definition SEED_C2_Q30 :: int where "SEED_C2_Q30 = 2021161080"

definition newton :: "int \<Rightarrow> int \<Rightarrow> int option" where
  "newton dn r = do { t \<leftarrow> chku32 (2147483648 - q_mul_u r dn 32); Some (q_mul_u r t 30) }"

definition recip_div :: "int \<Rightarrow> int \<Rightarrow> int option" where
  "recip_div num d =
     (if d \<le> 1 then Some num
      else let n = leading_zeros32 d;
               dn = d * 2 ^ n mod 2 ^ 32
           in do { r \<leftarrow> chku32 (SEED_C1_Q30 - q_mul_u SEED_C2_Q30 dn 32);
                   r \<leftarrow> newton dn r;
                   r \<leftarrow> newton dn r;
                   let p = num * r
                   in Some ((p div 2 ^ 32 mod 2 ^ 32) div 2 ^ (30 - n)) })"

lemma top_bit: "0 \<le> (d::int) \<Longrightarrow> d < 2 ^ Suc m \<Longrightarrow> bit d m \<longleftrightarrow> 2 ^ m \<le> d"
proof -
  assume d: "0 \<le> d" "d < 2 ^ Suc m"
  have "d div 2 ^ m < 2" using asr_less [of d 2 m] d(2) by (simp add: asr_def)
  moreover have "0 \<le> d div 2 ^ m" using d(1) by (simp add: pos_imp_zdiv_nonneg_iff)
  moreover have "2 ^ m \<le> d \<longleftrightarrow> 1 \<le> d div 2 ^ m"
  proof
    show "2 ^ m \<le> d \<Longrightarrow> 1 \<le> d div 2 ^ m" using asr_ge [of 1 m d] by (simp add: asr_def)
    assume "1 \<le> d div 2 ^ m"
    then have "1 * 2 ^ m \<le> d div 2 ^ m * 2 ^ m" by (intro mult_right_mono) simp_all
    also have "\<dots> \<le> d" using asr_mult_le [of d m] by (simp add: asr_def)
    finally show "2 ^ m \<le> d" by simp
  qed
  ultimately show ?thesis unfolding bit_iff_odd by (auto simp: odd_iff_mod_2_eq_one)
qed

lemma lead_run:
  fixes d :: int
  assumes "0 \<le> d" "d < 2 ^ m" "n = length (takeWhile (\<lambda>i. \<not> bit d i) (rev [0..<m]))"
  shows "n \<le> m \<and> d < 2 ^ (m - n) \<and> (0 < d \<longrightarrow> n < m \<and> 2 ^ (m - Suc n) \<le> d)"
  using assms
proof (induction m arbitrary: n)
  case (Suc m)
  show ?case
  proof (cases "bit d m")
    case True
    then show ?thesis using Suc.prems top_bit [OF Suc.prems(1,2)] by simp
  next
    case False
    then have "d < 2 ^ m" using top_bit [OF Suc.prems(1,2)] by simp
    from Suc.IH [OF Suc.prems(1) this refl] False Suc.prems(3) show ?thesis by (simp add: Suc_diff_Suc)
  qed
qed simp

lemma leading_zeros32_bounds:
  assumes "2 \<le> d" "d < 2 ^ 32"
  shows "leading_zeros32 d \<le> 30" "2 ^ 31 \<le> d * 2 ^ leading_zeros32 d" "d * 2 ^ leading_zeros32 d < 2 ^ 32"
proof -
  define n where "n = leading_zeros32 d"
  have r: "n < 32" "d < 2 ^ (32 - n)" "2 ^ (32 - Suc n) \<le> d"
    using lead_run [of d 32 n] assms by (simp_all add: n_def leading_zeros32_def)
  have "n \<noteq> 31" using r(2) assms(1) by auto
  then show "leading_zeros32 d \<le> 30" using r(1) by (simp add: n_def)
  have "d * 2 ^ n < 2 ^ (32 - n) * 2 ^ n" using r(2) by (intro mult_strict_right_mono) simp_all
  also have "(2::int) ^ (32 - n) * 2 ^ n = 2 ^ 32" using r(1) by (simp flip: power_add)
  finally show "d * 2 ^ leading_zeros32 d < 2 ^ 32" by (simp add: n_def)
  have "(2::int) ^ 31 = 2 ^ (32 - Suc n) * 2 ^ n" using r(1) by (simp flip: power_add)
  also have "\<dots> \<le> d * 2 ^ n" using r(3) by (intro mult_right_mono) simp_all
  finally show "2 ^ 31 \<le> d * 2 ^ leading_zeros32 d" by (simp add: n_def)
qed

text \<open>The relative error of a reciprocal estimate; one Newton step squares it, up to the truncations.\<close>

definition rerr :: "int \<Rightarrow> int \<Rightarrow> real" where
  "rerr dn r = 1 - real_of_int r * real_of_int dn / 2 ^ 62"

lemma div_real_bounds:
  assumes "0 < b"
  shows "real_of_int a / real_of_int b - 1 < real_of_int (a div b)" "real_of_int (a div b) \<le> real_of_int a / real_of_int b"
  using floor_divide_of_int_eq [of a b, where ?'a = real] by linarith+

lemma newton_step:
  assumes dn: "2 ^ 31 \<le> dn" "dn < 2 ^ 32" and r0: "0 < r"
    and e: "- (1 / 16) \<le> rerr dn r" "rerr dn r \<le> 1 / 16"
  shows "\<exists>r'. newton dn r = Some r' \<and> 0 < r' \<and> - (1 / 2 ^ 29) \<le> rerr dn r' \<and> rerr dn r' \<le> (rerr dn r)\<^sup>2 + 1 / 2 ^ 30"
proof -
  define R D E where "R = real_of_int r" and "D = real_of_int dn" and "E = rerr dn r"
  have D: "2 ^ 31 \<le> D" "D < 2 ^ 32" using dn by (simp_all add: D_def)
  have RD: "R * D = (1 - E) * 2 ^ 62" by (simp add: E_def rerr_def R_def D_def)
  have E: "- (1 / 16) \<le> E" "E \<le> 1 / 16" using e by (simp_all add: E_def)
  have Rl: "2 ^ 29 \<le> R" and Ru: "R < 2 ^ 31 * 5 / 4"
  proof -
    show "2 ^ 29 \<le> R"
    proof (rule ccontr)
      assume "\<not> 2 ^ 29 \<le> R"
      then have "R * D < 2 ^ 29 * 2 ^ 32" using r0 D by (intro mult_strict_mono) (simp_all add: R_def)
      then show False using RD E by simp
    qed
    show "R < 2 ^ 31 * 5 / 4"
    proof (rule ccontr)
      assume "\<not> R < 2 ^ 31 * 5 / 4"
      then have "2 ^ 31 * 5 / 4 * 2 ^ 31 \<le> R * D" using D by (intro mult_mono) simp_all
      then show False using RD E by simp
    qed
  qed
  define q where "q = q_mul_u r dn 32"
  have "r * dn < 4294967296 * 2 ^ 32"
  proof -
    have "real_of_int (r * dn) < real_of_int (4294967296 * 2 ^ 32)" using RD E by (simp add: R_def D_def)
    then show ?thesis by (simp only: of_int_less_iff)
  qed
  then have q: "q = r * dn div 2 ^ 32" using r0 dn(1) by (simp add: q_def q_mul_u_exact)
  define \<delta> where "\<delta> = R * D / 2 ^ 32 - real_of_int q"
  have \<delta>: "0 \<le> \<delta>" "\<delta> < 1" using div_real_bounds [of "2 ^ 32" "r * dn"] by (simp_all add: \<delta>_def q R_def D_def)
  define t where "t = 2147483648 - q"
  have T: "real_of_int t = 2 ^ 30 * (1 + E) + \<delta>" using RD by (simp add: t_def \<delta>_def field_simps)
  have tr: "0 < real_of_int t" "real_of_int t < 2 ^ 31" using T E \<delta> by simp_all
  then have t: "0 < t" "t < 2147483648" by simp_all
  define r' where "r' = q_mul_u r t 30"
  have "R * real_of_int t \<le> 2 ^ 31 * 5 / 4 * (2 ^ 30 * 5 / 4)" using Ru Rl tr T E \<delta> by (intro mult_mono) simp_all
  then have "real_of_int (r * t) < real_of_int (4294967296 * 2 ^ 30)" by (simp add: R_def)
  then have "r * t < 4294967296 * 2 ^ 30" by (simp only: of_int_less_iff)
  then have r': "r' = r * t div 2 ^ 30" using r0 t(1) by (simp add: r'_def q_mul_u_exact)
  define \<epsilon> where "\<epsilon> = R * real_of_int t / 2 ^ 30 - real_of_int r'"
  have \<epsilon>: "0 \<le> \<epsilon>" "\<epsilon> < 1" using div_real_bounds [of "2 ^ 30" "r * t"] by (simp_all add: \<epsilon>_def r' R_def)
  have e': "rerr dn r' = E\<^sup>2 - (1 - E) * \<delta> / 2 ^ 30 + \<epsilon> * D / 2 ^ 62"
  proof -
    have "real_of_int r' * D = R * D * real_of_int t / 2 ^ 30 - \<epsilon> * D" by (simp add: \<epsilon>_def algebra_simps)
    then show ?thesis unfolding RD T by (simp add: rerr_def D_def [symmetric] field_simps power2_eq_square)
  qed
  have aux: "- (1 / 2 ^ 29) \<le> c - a / 2 ^ 30 + b / 2 ^ 62 \<and> c - a / 2 ^ 30 + b / 2 ^ 62 \<le> c + 1 / 2 ^ 30"
    if "0 \<le> a" "a \<le> 2" "0 \<le> b" "b \<le> 2 ^ 32" "0 \<le> c" for a b c :: real using that by (simp add: field_simps)
  have "(1 - E) * \<delta> \<le> 2 * 1" using E \<delta> by (intro mult_mono) simp_all
  moreover have "\<epsilon> * D \<le> 1 * 2 ^ 32" using \<epsilon> D by (intro mult_mono) simp_all
  moreover have "0 \<le> (1 - E) * \<delta>" "0 \<le> \<epsilon> * D" using E \<delta>(1) \<epsilon>(1) D(1) by simp_all
  ultimately have b: "- (1 / 2 ^ 29) \<le> rerr dn r'" "rerr dn r' \<le> E\<^sup>2 + 1 / 2 ^ 30"
    using aux [of "(1 - E) * \<delta>" "\<epsilon> * D" "E\<^sup>2"] unfolding e' by simp_all
  have "0 < r'"
  proof -
    have "2 ^ 29 * real_of_int t \<ge> 2 ^ 29 * 2 ^ 29" using T E \<delta> by simp
    then have "1 * 2 ^ 30 \<le> R * real_of_int t" using Rl tr mult_mono [of "2 ^ 29" R "2 ^ 29" "real_of_int t"] by simp
    then have "1 * 2 ^ 30 \<le> r * t" by (simp add: R_def flip: of_int_mult)
    from asr_ge [OF this] show ?thesis unfolding r' asr_def by simp
  qed
  moreover have "newton dn r = Some r'" using t by (simp add: newton_def q_def [symmetric] t_def [symmetric] r'_def u32_ok_def)
  ultimately show ?thesis using b by (simp add: E_def)
qed

lemma seed_error:
  assumes dn: "2 ^ 31 \<le> dn" "dn < 2 ^ 32" and r: "r = SEED_C1_Q30 - q_mul_u SEED_C2_Q30 dn 32"
  shows "u32_ok r" "0 < r" "- (10 / 169) \<le> rerr dn r" "rerr dn r \<le> 10 / 169"
proof -
  define X where "X = real_of_int dn / 2 ^ 32"
  have X: "1 / 2 \<le> X" "X < 1" using dn by (simp_all add: X_def)
  have "q_mul_u SEED_C2_Q30 dn 32 = SEED_C2_Q30 * dn div 2 ^ 32"
    using dn by (intro q_mul_u_exact) (simp_all add: SEED_C2_Q30_def)
  then have q: "r = SEED_C1_Q30 - SEED_C2_Q30 * dn div 2 ^ 32" by (simp add: r)
  define \<delta> where "\<delta> = 2021161080 * X - real_of_int (SEED_C2_Q30 * dn div 2 ^ 32)"
  have \<delta>: "0 \<le> \<delta>" "\<delta> < 1"
    using div_real_bounds [of "2 ^ 32" "SEED_C2_Q30 * dn"] by (simp_all add: \<delta>_def X_def SEED_C2_Q30_def)
  have R: "real_of_int r = 3031741621 - 2021161080 * X + \<delta>" by (simp add: q \<delta>_def SEED_C1_Q30_def)
  then have "0 < real_of_int r" "real_of_int r < 4294967296" using X \<delta> by simp_all
  then show "u32_ok r" "0 < r" by (simp_all add: u32_ok_def)
  have e: "rerr dn r = 1 - (3031741621 * X - 2021161080 * X\<^sup>2 + \<delta> * X) / 2 ^ 30"
    unfolding rerr_def R by (simp add: X_def field_simps power2_eq_square)
  have s: "0 \<le> (X - 3 / 4)\<^sup>2" by simp
  have c: "(X - 1 / 2) * (X - 1) \<le> 0" using X by (simp add: mult_nonneg_nonpos)
  have m: "0 \<le> \<delta> * X" "\<delta> * X \<le> 1" using X \<delta> mult_mono [of \<delta> 1 X 1] by simp_all
  define X2 where "X2 = X\<^sup>2"
  have s': "X2 \<ge> 3 / 2 * X - 9 / 16" using s by (simp add: X2_def power2_eq_square algebra_simps)
  have c': "X2 \<le> 3 / 2 * X - 1 / 2" using c by (simp add: X2_def power2_eq_square field_simps)
  show "- (10 / 169) \<le> rerr dn r" "rerr dn r \<le> 10 / 169"
    unfolding e X2_def [symmetric] using s' c' m X by (simp_all add: field_simps)
qed

lemma recip_estimate:
  assumes "2 ^ 31 \<le> dn" "dn < 2 ^ 32"
  shows "\<exists>r. do { r \<leftarrow> chku32 (SEED_C1_Q30 - q_mul_u SEED_C2_Q30 dn 32); r \<leftarrow> newton dn r; newton dn r } = Some r
    \<and> 0 < r \<and> - (1 / 2 ^ 29) \<le> rerr dn r \<and> rerr dn r \<le> 1 / 70000"
proof -
  define r0 where "r0 = SEED_C1_Q30 - q_mul_u SEED_C2_Q30 dn 32"
  note s = seed_error [OF assms r0_def]
  obtain r1 where r1: "newton dn r0 = Some r1" "0 < r1" "- (1 / 2 ^ 29) \<le> rerr dn r1" "rerr dn r1 \<le> (rerr dn r0)\<^sup>2 + 1 / 2 ^ 30"
    using newton_step [OF assms s(2)] s(3,4) by auto
  have "(rerr dn r0)\<^sup>2 \<le> (10 / 169)\<^sup>2" using s(3,4) by (intro power2_le_iff_abs_le [THEN iffD2]) auto
  then have b1: "rerr dn r1 \<le> 1 / 285" using r1(4) by (simp add: power2_eq_square)
  obtain r2 where r2: "newton dn r1 = Some r2" "0 < r2" "- (1 / 2 ^ 29) \<le> rerr dn r2" "rerr dn r2 \<le> (rerr dn r1)\<^sup>2 + 1 / 2 ^ 30"
    using newton_step [OF assms r1(2)] r1(3) b1 by auto
  have "(rerr dn r1)\<^sup>2 \<le> (1 / 285)\<^sup>2" using r1(3) b1 by (intro power2_le_iff_abs_le [THEN iffD2]) auto
  then have "rerr dn r2 \<le> 1 / 70000" using r2(4) by (simp add: power2_eq_square)
  then show ?thesis using s(1) r1(1) r2 by (auto simp: r0_def [symmetric])
qed

text \<open>The quotient is the true one scaled by the estimate.\<close>

lemma recip_div_eq:
  assumes "0 \<le> num" "num < 2 ^ 32" "2 \<le> d" "d < 2 ^ 32"
  shows "\<exists>q e. recip_div num d = Some q \<and> q = \<lfloor>real_of_int num / real_of_int d * (1 - e)\<rfloor> \<and> - (1 / 2 ^ 29) \<le> e \<and> e \<le> 1 / 70000"
proof -
  define n dn where "n = leading_zeros32 d" and "dn = d * 2 ^ n"
  note z = leading_zeros32_bounds [OF assms(3,4), folded n_def, folded dn_def]
  obtain r where r: "do { r \<leftarrow> chku32 (SEED_C1_Q30 - q_mul_u SEED_C2_Q30 dn 32); r \<leftarrow> newton dn r; newton dn r } = Some r"
    "0 < r" "- (1 / 2 ^ 29) \<le> rerr dn r" "rerr dn r \<le> 1 / 70000" using recip_estimate [OF z(2,3)] by blast
  have rb: "r < 2 ^ 32"
  proof (rule ccontr)
    assume "\<not> r < 2 ^ 32"
    then have "2 ^ 32 * 2 ^ 31 \<le> r * dn" using z(2) by (intro mult_mono) simp_all
    then have "real_of_int (2 ^ 32 * 2 ^ 31) \<le> real_of_int (r * dn)" by (simp only: of_int_le_iff)
    then show False using r(3) by (simp add: rerr_def field_simps)
  qed
  have "num * r < 2 ^ 32 * 2 ^ 32" using assms(1,2) rb r(2) by (intro mult_strict_mono) simp_all
  then have p: "num * r div 2 ^ 32 mod 2 ^ 32 = num * r div 2 ^ 32"
    using asr_less [of "num * r" "2 ^ 32" 32] assms(1) r(2) by (simp add: asr_def pos_imp_zdiv_nonneg_iff)
  define q where "q = num * r div 2 ^ 32 div 2 ^ (30 - n)"
  have "(2::int) ^ 32 * 2 ^ (30 - n) = 2 ^ (62 - n)" using z(1) by (simp only: flip: power_add) simp
  then have q: "q = num * r div 2 ^ (62 - n)" using zdiv_zmult2_eq [of "2 ^ (30 - n)" "num * r" "2 ^ 32"] by (simp add: q_def)
  have "recip_div num d = Some q"
    using assms(3) r(1) z(3) z(2) p by (auto simp: recip_div_def n_def [symmetric] dn_def [symmetric] q_def bind_eq_Some_conv Let_def)
  moreover have "real_of_int num / real_of_int d * (1 - rerr dn r) = real_of_int (num * r) / real_of_int (2 ^ (62 - n))"
  proof -
    have "2 ^ n / (2::real) ^ 62 = 1 / 2 ^ (62 - n)" using z(1) by (simp add: power_diff)
    then show ?thesis using assms(3) by (simp add: rerr_def dn_def field_simps)
  qed
  then have "q = \<lfloor>real_of_int num / real_of_int d * (1 - rerr dn r)\<rfloor>" unfolding q by (simp only: floor_divide_of_int_eq)
  ultimately show ?thesis using r(3,4) by blast
qed

lemma recip_div_close:
  assumes "0 \<le> num" "num < 2 ^ 32" "1 \<le> d" "d < 2 ^ 32"
  shows "\<exists>q. recip_div num d = Some q \<and> 0 \<le> q \<and> \<bar>q - num div d\<bar> \<le> num div d div 65536 + 2"
proof (cases "d = 1")
  case True
  then show ?thesis using assms by (simp add: recip_div_def)
next
  case False
  then obtain q e where q: "recip_div num d = Some q" "q = \<lfloor>real_of_int num / real_of_int d * (1 - e)\<rfloor>" "- (1 / 2 ^ 29) \<le> e" "e \<le> 1 / 70000"
    using recip_div_eq [of num d] assms by auto
  define x y k where "x = real_of_int num / real_of_int d" and "y = num div d" and "k = num div d div 65536"
  have x0: "0 \<le> x" using assms by (simp add: x_def)
  have up: "x * (1 - e) \<le> x * (1 + 1 / 2 ^ 29)" and lo: "x * (1 - 1 / 70000) \<le> x * (1 - e)"
    using x0 q(3,4) by (intro mult_left_mono; simp)+
  have y: "real_of_int y \<le> x" "x < real_of_int y + 1" "0 \<le> y"
    using assms div_real_bounds [of d num] by (simp_all add: y_def x_def pos_imp_zdiv_nonneg_iff)
  have k: "y < 65536 * (k + 1)" "0 \<le> k" "k * 65536 \<le> y"
    using asr_mult_le [of y 16] y(3) pos_mod_bound [of 65536 y] div_mult_mod_eq [of y 65536] by (simp_all add: k_def y_def [symmetric] asr_def pos_imp_zdiv_nonneg_iff)
  have "real_of_int y < real_of_int (65536 * (k + 1))" "0 \<le> real_of_int k" using k(1,2) by (simp_all only: of_int_less_iff of_int_0_le_iff)
  then have kr: "real_of_int y < 65536 * (real_of_int k + 1)" "0 \<le> real_of_int k" by simp_all
  have Q: "real_of_int q \<le> x * (1 - e)" "x * (1 - e) < real_of_int q + 1" unfolding q(2) x_def by linarith+
  have "real_of_int q < real_of_int (y + k + 3)" using Q(1) up y kr by (simp add: field_simps)
  then have "q \<le> y + k + 2" by linarith
  moreover have "real_of_int y < real_of_int (q + k + 3)" using Q(2) lo y kr by (simp add: field_simps)
  then have "y \<le> q + k + 2" by linarith
  moreover have "0 \<le> q"
  proof -
    have "0 \<le> x * (1 - e)" using x0 q(4) by simp
    then show ?thesis unfolding q(2) x_def by simp
  qed
  ultimately show ?thesis using q(1) by (auto simp: y_def k_def)
qed

lemma recip_div_upper:
  assumes "0 \<le> num" "num < 2 ^ 30" "1 \<le> d" "d < 2 ^ 32"
  shows "\<exists>q. recip_div num d = Some q \<and> 0 \<le> q \<and> q * d \<le> num + 1"
proof (cases "d = 1")
  case True
  then show ?thesis using assms by (simp add: recip_div_def)
next
  case False
  obtain q where q: "recip_div num d = Some q" "0 \<le> q" using recip_div_close [of num d] assms by auto
  obtain e where e: "q = \<lfloor>real_of_int num / real_of_int d * (1 - e)\<rfloor>" "- (1 / 2 ^ 29) \<le> e"
    using recip_div_eq [of num d] assms False q(1) by auto
  have "real_of_int q \<le> real_of_int num / real_of_int d * (1 - e)" unfolding e(1) by linarith
  then have "real_of_int q * real_of_int d \<le> real_of_int num * (1 - e)" using assms(3) by (simp add: field_simps)
  also have "\<dots> \<le> real_of_int num * (1 + 1 / 2 ^ 29)" using assms(1) e(2) by (intro mult_left_mono) simp_all
  also have "\<dots> < real_of_int (num + 2)" using assms(2) by (simp add: field_simps)
  finally have "real_of_int (q * d) < real_of_int (num + 2)" by simp
  then have "q * d < num + 2" by (simp only: of_int_less_iff)
  then show ?thesis using q by auto
qed

text \<open>Property C30: the divide-free quotient is close to the true one for every operand.  For all 32-bit numerators and all
  non-zero 32-bit divisors the two Newton steps from the linear seed never leave the 32-bit range, and
  the result is within one part in 65536 plus two of \<open>num / d\<close>, the accuracy the source pins on sample points.\<close>

theorem recip_div_accurate:
  assumes "u32_ok num" "u32_ok d" "d \<noteq> 0"
  shows "\<exists>q. recip_div num d = Some q \<and> \<bar>q - num div d\<bar> \<le> num div d div 65536 + 2"
  using recip_div_close [of num d] assms by (auto simp: u32_ok_def)

theorem recip_div_accurate_witness:
  "\<exists>q. recip_div 4294836225 3 = Some q \<and> \<bar>q - 1431612075\<bar> \<le> 21846"
  using recip_div_accurate [of 4294836225 3] by (simp add: u32_ok_def)

end
