(* ===== verification/Estim.thy ===== *)
theory Estim
  imports Fixed
begin

text \<open>
  The estimators of the control kernel (\<open>core/src/estimator\<close>): drive-window selection, the reference low-pass, supply voltage
  and its reciprocal, the back-EMF observer, the winding thermometer and the fusion observer.  A register or a
  sensor sample is a word; every signed intermediate is an integer, checked where the source uses a plain
  operation whose operand types do not already exclude overflow.
\<close>

section \<open>Sensor frames and drive windows\<close>

record SensorFrame =
  sf_tick :: u32
  sf_pos :: u16
  sf_current :: u16
  sf_current_trough :: u16
  sf_vmotor_a :: u16
  sf_vmotor_a_trough :: u16
  sf_vmotor_b :: u16
  sf_vmotor_b_trough :: u16
  sf_vcal :: u16

datatype DecayMode = DecayMode_Fast | DecayMode_Slow

record WindowSel =
  ws_i_valid :: bool
  ws_v_valid :: bool
  ws_use_trough :: bool

definition window_select :: "DecayMode \<Rightarrow> int \<Rightarrow> u16 \<Rightarrow> u16 \<Rightarrow> WindowSel" where
  "window_select decay ticks i_floor v_floor =
     \<lparr>ws_i_valid = (ticks \<noteq> 0 \<and> ticks \<ge> uint i_floor), ws_v_valid = (ticks \<noteq> 0 \<and> ticks \<ge> uint v_floor),
      ws_use_trough = (decay = DecayMode_Fast)\<rparr>"

definition i_from_frame :: "SensorFrame \<Rightarrow> WindowSel \<Rightarrow> bool \<Rightarrow> u16 \<Rightarrow> int option" where
  "i_from_frame frame sel duty_sign_positive bias =
     (if \<not> ws_i_valid sel then None
      else let sample = (if ws_use_trough sel then sf_current_trough frame else sf_current frame);
               mag = uint sample - uint bias
           in Some (if duty_sign_positive then mag else - mag))"

definition vdrive_from_frame :: "SensorFrame \<Rightarrow> WindowSel \<Rightarrow> bool \<Rightarrow> (u16 \<times> int) option" where
  "vdrive_from_frame frame sel forward =
     (if \<not> ws_v_valid sel then None
      else let (va, vb) = (if ws_use_trough sel then (sf_vmotor_a_trough frame, sf_vmotor_b_trough frame)
                           else (sf_vmotor_a frame, sf_vmotor_b frame));
               vdrive = (if forward then va else vb)
           in Some (vdrive, uint va - uint vb))"

definition drive_ticks :: "int \<Rightarrow> u16 \<Rightarrow> int" where
  "drive_ticks duty pwm_arr = (let mag = min \<bar>duty\<bar> 32767 in asr (mag * uint pwm_arr + 16384) 15)"

section \<open>Reference low-pass\<close>

record VcalLpf =
  vl_state_q6 :: int
  vl_initialized :: bool

definition VcalLpf_new :: VcalLpf where
  "VcalLpf_new = \<lparr>vl_state_q6 = 0, vl_initialized = False\<rparr>"

definition VcalLpf_update :: "VcalLpf \<Rightarrow> u16 \<Rightarrow> (VcalLpf \<times> u16) option" where
  "VcalLpf_update f raw =
     (let x = uint raw * 2 ^ 6
      in do { f \<leftarrow> (if \<not> vl_initialized f then Some (f\<lparr>vl_state_q6 := x, vl_initialized := True\<rparr>)
                    else do { d \<leftarrow> chk32 (x - vl_state_q6 f);
                              s \<leftarrow> chk32 (vl_state_q6 f + asr d 7);
                              Some (f\<lparr>vl_state_q6 := s\<rparr>) });
              Some (f, word_of_int (asr (vl_state_q6 f) 6)) })"

section \<open>Supply voltage\<close>

record VbusEst =
  vb_state_qg :: int
  vb_initialized :: bool
  vb_recip_q15 :: int
  vb_fresh :: bool

definition VbusEst_new :: VbusEst where
  "VbusEst_new = \<lparr>vb_state_qg = 0, vb_initialized = False, vb_recip_q15 = 0, vb_fresh = False\<rparr>"

definition VbusEst_vbus_counts :: "VbusEst \<Rightarrow> u16" where
  "VbusEst_vbus_counts v = word_of_int (asr (vb_state_qg v) 3)"

definition VbusEst_take_fresh :: "VbusEst \<Rightarrow> VbusEst \<times> bool" where
  "VbusEst_take_fresh v = (v\<lparr>vb_fresh := False\<rparr>, vb_fresh v)"

definition VbusEst_update_recip :: "VbusEst \<Rightarrow> u16 \<Rightarrow> VbusEst option" where
  "VbusEst_update_recip v flr =
     (let d = max (uint (VbusEst_vbus_counts v)) (max (uint flr) 1)
      in do { r \<leftarrow> recip_div (32767 * 2 ^ 15) d; Some (v\<lparr>vb_recip_q15 := r\<rparr>) })"

definition VbusEst_seed :: "VbusEst \<Rightarrow> u16 \<Rightarrow> u16 \<Rightarrow> VbusEst option" where
  "VbusEst_seed v vbus_counts flr =
     VbusEst_update_recip (v\<lparr>vb_state_qg := uint vbus_counts * 2 ^ 3, vb_initialized := True\<rparr>) flr"

definition VbusEst_step :: "VbusEst \<Rightarrow> u16 option \<Rightarrow> u16 \<Rightarrow> VbusEst option" where
  "VbusEst_step v vdrive undervolt_floor_counts =
     do { v \<leftarrow> (case vdrive of
                  Some s \<Rightarrow>
                    let x = uint s * 2 ^ 3
                    in do { v \<leftarrow> (if vb_initialized v
                                  then do { d \<leftarrow> chk32 (x - vb_state_qg v);
                                            y \<leftarrow> chk32 (vb_state_qg v + asr d 3);
                                            Some (v\<lparr>vb_state_qg := y\<rparr>) }
                                  else Some (v\<lparr>vb_state_qg := x, vb_initialized := True\<rparr>));
                            Some (v\<lparr>vb_fresh := True\<rparr>) }
                | None \<Rightarrow> Some v);
          VbusEst_update_recip v undervolt_floor_counts }"

section \<open>Back-EMF observer\<close>

definition RECIP_ARR_SHIFT :: nat where "RECIP_ARR_SHIFT = 24"
definition RECIP_KE_SHIFT :: nat where "RECIP_KE_SHIFT = 10"

record BemfObs =
  be_state_qg :: int
  be_initialized :: bool

definition BemfObs_new :: BemfObs where
  "BemfObs_new = \<lparr>be_state_qg = 0, be_initialized = False\<rparr>"

definition BemfObs_omega_cps :: "BemfObs \<Rightarrow> int" where
  "BemfObs_omega_cps b = asr (be_state_qg b) 2"

definition BemfObs_omega_cps_i16 :: "BemfObs \<Rightarrow> int" where
  "BemfObs_omega_cps_i16 b = clamp (BemfObs_omega_cps b) (- 32768) 32767"

definition BemfObs_step :: "BemfObs \<Rightarrow> int option \<Rightarrow> int option \<Rightarrow> u16 \<Rightarrow> u16 \<Rightarrow> (BemfObs \<times> int) option" where
  "BemfObs_step b v_mean i_meas r_q12 recip_ke_q =
     do { b \<leftarrow> (case (v_mean, i_meas) of
                  (Some v_mean, Some i) \<Rightarrow>
                    let r_drop = q_mul (uint r_q12) i 12
                    in do { dv \<leftarrow> chk32 (v_mean - r_drop);
                            let omega = q_mul dv (uint recip_ke_q) RECIP_KE_SHIFT;
                                x = shl32 omega 2
                            in if be_initialized b
                               then do { d \<leftarrow> chk32 (x - be_state_qg b);
                                         s \<leftarrow> chk32 (be_state_qg b + asr d 2);
                                         Some (b\<lparr>be_state_qg := s\<rparr>) }
                               else Some (b\<lparr>be_state_qg := x, be_initialized := True\<rparr>) }
                | _ \<Rightarrow> Some b);
          Some (b, BemfObs_omega_cps_i16 b) }"

section \<open>Winding thermometer\<close>

record ThermGates =
  tg_i_min_counts :: u16
  tg_omega_max_cps :: u16

record ThermAnchor =
  ta_r0_q12 :: u16
  ta_t0_cc :: int
  ta_k_r2t_q88 :: u16
  ta_mu_q016 :: u16

record WindingTherm =
  wt_r_qg :: int
  wt_t_cc :: int
  wt_seeded :: bool

definition R_MAX_QG :: int where "R_MAX_QG = 16 * 2 ^ 20"
definition THERM_E_MAX :: int where "THERM_E_MAX = 2 ^ 20"

definition WindingTherm_new :: WindingTherm where
  "WindingTherm_new = \<lparr>wt_r_qg = 0, wt_t_cc = 0, wt_seeded = False\<rparr>"

definition WindingTherm_seed :: "WindingTherm \<Rightarrow> u16 \<Rightarrow> WindingTherm" where
  "WindingTherm_seed w r0_q12 = w\<lparr>wt_r_qg := uint r0_q12 * 2 ^ 8, wt_seeded := True\<rparr>"

definition WindingTherm_step :: "WindingTherm \<Rightarrow> int \<Rightarrow> int option \<Rightarrow> int \<Rightarrow> ThermGates \<Rightarrow> ThermAnchor \<Rightarrow> (WindingTherm \<times> int) option" where
  "WindingTherm_step w v_mean i_meas omega_hat_abs_cps gates anchor =
     (if \<not> wt_seeded w then Some (w\<lparr>wt_t_cc := ta_t0_cc anchor\<rparr>, ta_t0_cc anchor)
      else do {
        w \<leftarrow> (case i_meas of
                Some i \<Rightarrow>
                  if \<bar>i\<bar> > uint (tg_i_min_counts gates) \<and> omega_hat_abs_cps < uint (tg_omega_max_cps gates)
                  then let r_drop = q_mul (asr (wt_r_qg w) 8) i 12;
                           e_v = clamp (sat32 (v_mean - r_drop)) (- THERM_E_MAX) THERM_E_MAX;
                           e_signed = (if i < 0 then - e_v else e_v);
                           step = q_mul (uint (ta_mu_q016 anchor) * 2 ^ 8) e_signed 16
                       in do { r \<leftarrow> chk32 (wt_r_qg w + step);
                               Some (w\<lparr>wt_r_qg := clamp r 0 R_MAX_QG\<rparr>) }
                  else Some w
              | None \<Rightarrow> Some w);
        let dt = q_mul (asr (wt_r_qg w) 8 - uint (ta_r0_q12 anchor)) (uint (ta_k_r2t_q88 anchor)) 8
        in do { t \<leftarrow> chk32 (ta_t0_cc anchor + dt);
                let t = clamp t (- 32768) 32767
                in Some (w\<lparr>wt_t_cc := t\<rparr>, t) } })"

definition WindingTherm_r_q12 :: "WindingTherm \<Rightarrow> u16" where
  "WindingTherm_r_q12 w = word_of_int (clamp (asr (wt_r_qg w) 8) 0 65535)"

section \<open>Fusion observer\<close>

definition FRIC_OMEGA_EPS_CSQ16 :: int where "FRIC_OMEGA_EPS_CSQ16 = 2 ^ 16"
definition THETA_LIM_CQ16 :: int where "THETA_LIM_CQ16 = 2 ^ 29"
definition FUSION_E_LIM_CQ16 :: int where "FUSION_E_LIM_CQ16 = 2 ^ 23"
definition OMEGA_LIM_CSQ16 :: int where "OMEGA_LIM_CSQ16 = 32767 * 2 ^ 16"
definition TAU_D_LIM_CCQ16 :: int where "TAU_D_LIM_CCQ16 = 4095 * 2 ^ 16"
definition ACCEL_LIM_CC :: int where "ACCEL_LIM_CC = 8192"

record FusionGains =
  fg_b_i_q313 :: u16
  fg_l1_q016 :: u16
  fg_l2_q88 :: u16
  fg_l3_q88 :: u16
  fg_l_bemf_q016 :: u16
  fg_fric_fc_counts :: u16

definition fric_c :: "int \<Rightarrow> u16 \<Rightarrow> int" where
  "fric_c omega fc =
     (if omega > FRIC_OMEGA_EPS_CSQ16 then uint fc else if omega < - FRIC_OMEGA_EPS_CSQ16 then - uint fc else 0)"

record FusionObs =
  fo_theta_q16 :: int
  fo_omega_q16 :: int
  fo_tau_d_q16 :: int

definition FusionObs_new :: FusionObs where
  "FusionObs_new = \<lparr>fo_theta_q16 = 0, fo_omega_q16 = 0, fo_tau_d_q16 = 0\<rparr>"

definition FusionObs_seed :: "u16 \<Rightarrow> FusionObs" where
  "FusionObs_seed pos = \<lparr>fo_theta_q16 = shl32 (uint pos) 16, fo_omega_q16 = 0, fo_tau_d_q16 = 0\<rparr>"

definition FusionObs_step :: "FusionObs \<Rightarrow> int \<Rightarrow> u16 \<Rightarrow> int option \<Rightarrow> u32 \<Rightarrow> FusionGains \<Rightarrow> FusionObs option" where
  "FusionObs_step f i_counts pos_meas omega_bemf dt gains =
     (let theta_lim = (\<lambda>x. clamp x (- THETA_LIM_CQ16) THETA_LIM_CQ16);
          omega_lim = (\<lambda>x. clamp x (- OMEGA_LIM_CSQ16) OMEGA_LIM_CSQ16);
          fric = fric_c (fo_omega_q16 f) (fg_fric_fc_counts gains);
          accel = clamp (sat32 (sat32 (i_counts - fric) - asr (fo_tau_d_q16 f) 16)) (- ACCEL_LIM_CC) ACCEL_LIM_CC;
          omega = omega_lim (sat32 (fo_omega_q16 f + sat32 (q_mul (uint (fg_b_i_q313 gains)) accel 0 * 2 ^ 3)));
          theta = theta_lim (sat32 (fo_theta_q16 f + q_mul omega (wrap32 (uint dt)) 32))
      in do { d \<leftarrow> chk32 (shl32 (uint pos_meas) 16 - theta);
              let e = clamp d (- FUSION_E_LIM_CQ16) FUSION_E_LIM_CQ16;
                  theta = theta_lim (sat32 (theta + q_mul (uint (fg_l1_q016 gains)) e 16));
                  omega = omega_lim (sat32 (omega + q_mul (uint (fg_l2_q88 gains)) e 8));
                  tau = clamp (sat32 (fo_tau_d_q16 f - q_mul (uint (fg_l3_q88 gains)) e 8)) (- TAU_D_LIM_CCQ16) TAU_D_LIM_CCQ16;
                  omega = (case omega_bemf of
                             Some w \<Rightarrow> if fg_l_bemf_q016 gains > 0
                                      then omega_lim (sat32 (omega + q_mul (uint (fg_l_bemf_q016 gains)) (sat32 (w - omega)) 16))
                                      else omega
                           | None \<Rightarrow> omega)
              in Some \<lparr>fo_theta_q16 = theta, fo_omega_q16 = omega, fo_tau_d_q16 = tau\<rparr> })"

definition FusionObs_tau_d_counts :: "FusionObs \<Rightarrow> int" where
  "FusionObs_tau_d_counts f = clamp (asr (fo_tau_d_q16 f) 16) (- 32768) 32767"

section \<open>Ranges\<close>

lemma u16_range: "0 \<le> uint (w :: u16)" "uint (w :: u16) \<le> 65535"
  using uint_range_size [of w] by (simp_all add: word_size)

lemma u16_diff: "uint (a :: u16) \<le> m \<Longrightarrow> uint (b :: u16) \<le> m \<Longrightarrow> \<bar>uint a - uint b\<bar> \<le> m"
  using u16_range [of a] u16_range [of b] by linarith

lemma uint_u16: "0 \<le> x \<Longrightarrow> x \<le> 65535 \<Longrightarrow> uint (word_of_int x :: u16) = x"
  unfolding unsigned_of_int by (simp add: take_bit_int_eq_self)

lemma asr_between_0: "0 \<le> x \<Longrightarrow> 0 \<le> asr x k \<and> asr x k \<le> x" "x \<le> 0 \<Longrightarrow> x \<le> asr x k \<and> asr x k \<le> 0"
proof -
  show "0 \<le> x \<Longrightarrow> 0 \<le> asr x k \<and> asr x k \<le> x"
    using zdiv_mono2 [of x 1 "2 ^ k"] by (simp add: asr_def pos_imp_zdiv_nonneg_iff)
  assume x: "x \<le> 0"
  have "x * 2 ^ k \<le> x" using x mult_left_mono_neg [of 1 "2 ^ k" x] by simp
  then show "x \<le> asr x k \<and> asr x k \<le> 0" using x asr_ge asr_le [of x 0 k] by simp
qed

text \<open>An exponential average stays between its state and the sample.\<close>

lemma ewma_between: "lo \<le> s \<Longrightarrow> s \<le> hi \<Longrightarrow> lo \<le> x \<Longrightarrow> x \<le> hi \<Longrightarrow> lo \<le> s + asr (x - s) k \<and> s + asr (x - s) k \<le> hi"
  using asr_between_0 [of "x - s" k] by linarith

lemma clamp_sym: "0 \<le> m \<Longrightarrow> \<bar>clamp x (- m) m\<bar> \<le> m"
  using clamp_bounds [of "- m" m x] by linarith

lemma q_mul_small:
  assumes "\<bar>a\<bar> \<le> A" "\<bar>b\<bar> \<le> B" "A * B \<le> c * 2 ^ k" "c < 2147483648"
  shows "\<bar>q_mul a b k\<bar> \<le> c"
proof -
  have "\<bar>a * b\<bar> \<le> A * B" using assms(1,2) by (simp add: abs_mult mult_mono)
  then have "\<bar>a * b\<bar> \<le> c * 2 ^ k" using assms(3) by linarith
  then have p: "- c * 2 ^ k \<le> a * b" "a * b \<le> c * 2 ^ k" by auto
  then have "- c \<le> asr (a * b) k" "asr (a * b) k \<le> c" by (intro asr_ge asr_le; simp)+
  then show ?thesis unfolding q_mul_def using assms(4) by (subst wrap32_id) (auto intro: i32_okI)
qed

definition vl_ok :: "VcalLpf \<Rightarrow> bool" where
  "vl_ok f \<longleftrightarrow> 0 \<le> vl_state_q6 f \<and> vl_state_q6 f \<le> 65535 * 2 ^ 6"

definition vb_ok :: "VbusEst \<Rightarrow> bool" where
  "vb_ok v \<longleftrightarrow> 0 \<le> vb_state_qg v \<and> vb_state_qg v \<le> 4095 * 2 ^ 3 \<and> u32_ok (vb_recip_q15 v)"

definition be_ok :: "BemfObs \<Rightarrow> bool" where
  "be_ok b \<longleftrightarrow> \<bar>be_state_qg b\<bar> \<le> 2 ^ 29"

definition wt_ok :: "WindingTherm \<Rightarrow> bool" where
  "wt_ok w \<longleftrightarrow> 0 \<le> wt_r_qg w \<and> wt_r_qg w \<le> R_MAX_QG \<and> - 32768 \<le> wt_t_cc w \<and> wt_t_cc w \<le> 32767"

definition fo_ok :: "FusionObs \<Rightarrow> bool" where
  "fo_ok f \<longleftrightarrow> \<bar>fo_theta_q16 f\<bar> \<le> THETA_LIM_CQ16 \<and> \<bar>fo_omega_q16 f\<bar> \<le> OMEGA_LIM_CSQ16 \<and> \<bar>fo_tau_d_q16 f\<bar> \<le> TAU_D_LIM_CCQ16"

lemma vcal_ok:
  assumes "vl_ok f"
  shows "\<exists>f' y. VcalLpf_update f raw = Some (f', y) \<and> vl_ok f'"
proof -
  define s x where "s = vl_state_q6 f" and "x = uint raw * 64"
  have s: "0 \<le> s" "s \<le> 4194240" using assms by (simp_all add: vl_ok_def s_def)
  have x: "0 \<le> x" "x \<le> 4194240" using u16_range [of raw] unfolding x_def by linarith+
  have e: "0 \<le> s + asr (x - s) 7 \<and> s + asr (x - s) 7 \<le> 4194240" by (rule ewma_between [OF s x])
  have c: "i32_ok (x - s)" "i32_ok (s + asr (x - s) 7)" using s x e by (auto intro!: i32_okI)
  show ?thesis
  proof (cases "vl_initialized f")
    case True
    then show ?thesis using c e by (simp add: VcalLpf_update_def vl_ok_def flip: s_def x_def)
  qed (use x in \<open>simp add: VcalLpf_update_def vl_ok_def flip: x_def\<close>)
qed

lemma vbus_counts: "vb_ok v \<Longrightarrow> uint (VbusEst_vbus_counts v) = asr (vb_state_qg v) 3 \<and> uint (VbusEst_vbus_counts v) \<le> 4095"
proof -
  assume o: "vb_ok v"
  have b: "0 \<le> asr (vb_state_qg v) 3" "asr (vb_state_qg v) 3 \<le> 4095" using o by (auto simp: vb_ok_def intro!: asr_ge asr_le)
  then have "uint (word_of_int (asr (vb_state_qg v) 3) :: u16) = asr (vb_state_qg v) 3"
    by (intro uint_u16) simp_all
  with b show ?thesis by (simp add: VbusEst_vbus_counts_def)
qed

text \<open>The reciprocal matches the floored supply it was computed from.\<close>

definition recip_fits :: "VbusEst \<Rightarrow> u16 \<Rightarrow> bool" where
  "recip_fits v flr \<longleftrightarrow> vb_recip_q15 v * max (uint (VbusEst_vbus_counts v)) (max (uint flr) 1) \<le> 32767 * 2 ^ 15 + 1"

lemma update_recip_ok:
  assumes "0 \<le> vb_state_qg v" "vb_state_qg v \<le> 4095 * 2 ^ 3"
  shows "\<exists>r. VbusEst_update_recip v flr = Some (v\<lparr>vb_recip_q15 := r\<rparr>) \<and> vb_ok (v\<lparr>vb_recip_q15 := r\<rparr>)
    \<and> recip_fits (v\<lparr>vb_recip_q15 := r\<rparr>) flr"
proof -
  define d where "d = max (uint (VbusEst_vbus_counts v)) (max (uint flr) 1)"
  have d: "1 \<le> d" "d < 2 ^ 32" using u16_range [of flr] u16_range [of "VbusEst_vbus_counts v"] by (auto simp: d_def)
  obtain q where q: "recip_div (32767 * 2 ^ 15) d = Some q" "0 \<le> q" "q * d \<le> 32767 * 2 ^ 15 + 1"
    using recip_div_upper [of "32767 * 2 ^ 15" d] d by auto
  have "q * 1 \<le> q * d" using q(2) d(1) by (intro mult_left_mono) simp_all
  then have "u32_ok q" using q(2,3) by (simp add: u32_ok_def)
  moreover have "VbusEst_vbus_counts (v\<lparr>vb_recip_q15 := q\<rparr>) = VbusEst_vbus_counts v" by (simp add: VbusEst_vbus_counts_def)
  ultimately show ?thesis using q assms
    by (intro exI [of _ q]) (simp add: VbusEst_update_recip_def recip_fits_def vb_ok_def flip: d_def)
qed

lemma vbus_ok:
  assumes "vb_ok v" "\<And>s. vdrive = Some s \<Longrightarrow> uint s \<le> 4095"
  shows "\<exists>v'. VbusEst_step v vdrive flr = Some v' \<and> vb_ok v' \<and> recip_fits v' flr"
proof (cases vdrive)
  case None
  then show ?thesis using update_recip_ok [of v flr] assms(1) by (auto simp: VbusEst_step_def vb_ok_def)
next
  case (Some s)
  define z x where "z = vb_state_qg v" and "x = uint s * 8"
  have z: "0 \<le> z" "z \<le> 32760" using assms(1) by (simp_all add: vb_ok_def z_def)
  have x: "0 \<le> x" "x \<le> 32760" using u16_range [of s] assms(2) [OF Some] unfolding x_def by linarith+
  have e: "0 \<le> z + asr (x - z) 3 \<and> z + asr (x - z) 3 \<le> 32760" by (rule ewma_between [OF z x])
  have c: "i32_ok (x - z)" "i32_ok (z + asr (x - z) 3)" using z x e by (auto intro!: i32_okI)
  define w where "w = (if vb_initialized v then v\<lparr>vb_state_qg := z + asr (x - z) 3, vb_fresh := True\<rparr>
    else v\<lparr>vb_state_qg := x, vb_initialized := True, vb_fresh := True\<rparr>)"
  have "VbusEst_step v vdrive flr = VbusEst_update_recip w flr"
    using c by (simp add: VbusEst_step_def Some w_def flip: z_def x_def)
  then show ?thesis using update_recip_ok [of w flr] x e by (auto simp: w_def)
qed

lemma bemf_ok:
  assumes "be_ok b" "\<And>x. v = Some x \<Longrightarrow> \<bar>x\<bar> \<le> 4095" "\<And>x. i = Some x \<Longrightarrow> \<bar>x\<bar> \<le> 65535"
  shows "\<exists>b' y. BemfObs_step b v i r ke = Some (b', y) \<and> be_ok b'"
proof (cases "v = None \<or> i = None")
  case True
  then show ?thesis using assms(1) by (cases v; cases i) (auto simp: BemfObs_step_def)
next
  case False
  then obtain vm im where vi: "v = Some vm" "i = Some im" by auto
  define dr where "dr = q_mul (uint r) im 12"
  have dr: "\<bar>dr\<bar> \<le> 2 ^ 20" unfolding dr_def
    by (rule q_mul_small [where A = 65535 and B = 65535]) (use u16_range [of r] assms(3) [OF vi(2)] in auto)
  have dv: "i32_ok (vm - dr)" "\<bar>vm - dr\<bar> \<le> 2 ^ 20 + 4095" using dr assms(2) [OF vi(1)] by (auto intro!: i32_okI)
  define om where "om = q_mul (vm - dr) (uint ke) RECIP_KE_SHIFT"
  have om: "\<bar>om\<bar> \<le> 2 ^ 27" unfolding om_def RECIP_KE_SHIFT_def
    by (rule q_mul_small [where A = "2 ^ 20 + 4095" and B = 65535]) (use u16_range [of ke] dv(2) in auto)
  define x s where "x = om * 4" and "s = be_state_qg b"
  have x: "- (2 ^ 29) \<le> x" "x \<le> 2 ^ 29" using om by (auto simp: x_def)
  have s: "- (2 ^ 29) \<le> s" "s \<le> 2 ^ 29" using assms(1) by (auto simp: be_ok_def s_def)
  have sh: "shl32 om 2 = x" using x unfolding shl32_def x_def by (subst wrap32_id) (auto intro: i32_okI)
  have e: "- (2 ^ 29) \<le> s + asr (x - s) 2 \<and> s + asr (x - s) 2 \<le> 2 ^ 29" by (rule ewma_between [OF s x])
  have c: "i32_ok (x - s)" "i32_ok (s + asr (x - s) 2)" using s x e by (auto intro!: i32_okI)
  show ?thesis using dv(1) c e x sh
    by (auto simp: BemfObs_step_def vi Let_def be_ok_def simp flip: dr_def om_def s_def)
qed

lemma therm_seed_ok: "wt_ok w \<Longrightarrow> wt_ok (WindingTherm_seed w r0)"
  using u16_range [of r0] by (simp add: wt_ok_def WindingTherm_seed_def R_MAX_QG_def)

lemma therm_ok:
  assumes "wt_ok w" "\<bar>ta_t0_cc a\<bar> \<le> 32768" "- 32768 \<le> ta_t0_cc a" "ta_t0_cc a \<le> 32767"
  shows "\<exists>w' y. WindingTherm_step w v i om g a = Some (w', y) \<and> wt_ok w' \<and> y = wt_t_cc w'"
proof (cases "wt_seeded w")
  case True
  have read: "\<exists>w'' y. (let dt = q_mul (asr (wt_r_qg w') 8 - uint (ta_r0_q12 a)) (uint (ta_k_r2t_q88 a)) 8
      in do { t \<leftarrow> chk32 (ta_t0_cc a + dt); let t = clamp t (- 32768) 32767 in Some (w'\<lparr>wt_t_cc := t\<rparr>, t) }) = Some (w'', y)
      \<and> wt_ok w'' \<and> y = wt_t_cc w''" if w': "wt_ok w'" for w'
  proof -
    define rr where "rr = asr (wt_r_qg w') 8"
    have "0 \<le> rr" "rr \<le> 65536" using w' by (auto simp: rr_def wt_ok_def R_MAX_QG_def intro!: asr_ge asr_le)
    then have "\<bar>rr - uint (ta_r0_q12 a)\<bar> \<le> 65536" using u16_range [of "ta_r0_q12 a"] by linarith
    then have "\<bar>q_mul (rr - uint (ta_r0_q12 a)) (uint (ta_k_r2t_q88 a)) 8\<bar> \<le> 2 ^ 24"
      using u16_range [of "ta_k_r2t_q88 a"] by (intro q_mul_small [where A = 65536 and B = 65535]) auto
    then have c: "i32_ok (ta_t0_cc a + q_mul (rr - uint (ta_r0_q12 a)) (uint (ta_k_r2t_q88 a)) 8)"
      using assms(2) by (auto intro!: i32_okI)
    show ?thesis using w' c clamp_bounds [of "- 32768" 32767 "ta_t0_cc a + q_mul (rr - uint (ta_r0_q12 a)) (uint (ta_k_r2t_q88 a)) 8"]
      by (simp add: Let_def wt_ok_def flip: rr_def)
  qed
  have upd: "\<exists>w'. (case i of
                Some i \<Rightarrow>
                  if \<bar>i\<bar> > uint (tg_i_min_counts g) \<and> om < uint (tg_omega_max_cps g)
                  then let r_drop = q_mul (asr (wt_r_qg w) 8) i 12;
                           e_v = clamp (sat32 (v - r_drop)) (- THERM_E_MAX) THERM_E_MAX;
                           e_signed = (if i < 0 then - e_v else e_v);
                           step = q_mul (uint (ta_mu_q016 a) * 2 ^ 8) e_signed 16
                       in do { r \<leftarrow> chk32 (wt_r_qg w + step); Some (w\<lparr>wt_r_qg := clamp r 0 R_MAX_QG\<rparr>) }
                  else Some w
              | None \<Rightarrow> Some w) = Some w' \<and> wt_ok w'"
  proof (cases i)
    case (Some j)
    define e where "e = clamp (sat32 (v - q_mul (asr (wt_r_qg w) 8) j 12)) (- THERM_E_MAX) THERM_E_MAX"
    define sg where "sg = (if j < 0 then - e else e)"
    have e: "\<bar>sg\<bar> \<le> 2 ^ 20" using clamp_sym [of THERM_E_MAX] by (simp add: sg_def e_def THERM_E_MAX_def)
    define st where "st = q_mul (uint (ta_mu_q016 a) * 2 ^ 8) sg 16"
    have "\<bar>st\<bar> \<le> 2 ^ 28" unfolding st_def
      by (rule q_mul_small [where A = "65535 * 256" and B = "2 ^ 20"]) (use u16_range [of "ta_mu_q016 a"] e in auto)
    then have "i32_ok (wt_r_qg w + st)" using assms(1) by (auto simp: wt_ok_def R_MAX_QG_def intro!: i32_okI)
    then show ?thesis using assms(1) clamp_bounds [of 0 R_MAX_QG "wt_r_qg w + st"]
      unfolding Some option.case Let_def e_def [symmetric] sg_def [symmetric] st_def [symmetric] by (simp add: wt_ok_def R_MAX_QG_def)
  qed (use assms(1) in simp)
  then obtain w' where w': "wt_ok w'" and e: "WindingTherm_step w v i om g a =
      (let dt = q_mul (asr (wt_r_qg w') 8 - uint (ta_r0_q12 a)) (uint (ta_k_r2t_q88 a)) 8
      in do { t \<leftarrow> chk32 (ta_t0_cc a + dt); let t = clamp t (- 32768) 32767 in Some (w'\<lparr>wt_t_cc := t\<rparr>, t) })"
    using True by (auto simp: WindingTherm_step_def simp del: chk32_eq_Some)
  show ?thesis unfolding e by (rule read [OF w'])
qed (use assms in \<open>simp add: WindingTherm_step_def wt_ok_def\<close>)

lemma pos_q16: "uint (pos :: u16) \<le> 4095 \<Longrightarrow> shl32 (uint pos) 16 = uint pos * 65536"
proof -
  assume p: "uint pos \<le> 4095"
  then have "i32_ok (uint pos * 65536)" using u16_range(1) [of pos] by (intro i32_okI) linarith+
  then show ?thesis unfolding shl32_def by simp
qed

lemma fusion_seed_ok: "uint pos \<le> 4095 \<Longrightarrow> fo_ok (FusionObs_seed pos)"
proof -
  assume p: "uint pos \<le> 4095"
  from pos_q16 [OF this] show ?thesis using p u16_range(1) [of pos]
    by (auto simp: FusionObs_seed_def fo_ok_def THETA_LIM_CQ16_def OMEGA_LIM_CSQ16_def TAU_D_LIM_CCQ16_def)
qed

lemma fusion_ok:
  assumes "uint pos \<le> 4095"
  shows "\<exists>f'. FusionObs_step f i pos w dt g = Some f' \<and> fo_ok f'"
proof -
  note s = pos_q16 [OF assms]
  have l: "\<bar>clamp x (- THETA_LIM_CQ16) THETA_LIM_CQ16\<bar> \<le> THETA_LIM_CQ16" "\<bar>clamp x (- OMEGA_LIM_CSQ16) OMEGA_LIM_CSQ16\<bar> \<le> OMEGA_LIM_CSQ16"
    "\<bar>clamp x (- TAU_D_LIM_CCQ16) TAU_D_LIM_CCQ16\<bar> \<le> TAU_D_LIM_CCQ16" for x
    by (auto intro!: clamp_sym simp: THETA_LIM_CQ16_def OMEGA_LIM_CSQ16_def TAU_D_LIM_CCQ16_def)
  have c: "i32_ok (shl32 (uint pos) 16 - clamp x (- THETA_LIM_CQ16) THETA_LIM_CQ16)" for x
  proof -
    define y where "y = clamp x (- THETA_LIM_CQ16) THETA_LIM_CQ16"
    have "\<bar>y\<bar> \<le> 536870912" using l(1) [of x] by (simp add: y_def THETA_LIM_CQ16_def)
    then show ?thesis using assms u16_range(1) [of pos] unfolding s y_def [symmetric] by (intro i32_okI) linarith+
  qed
  have om: "\<bar>case w of None \<Rightarrow> clamp y (- OMEGA_LIM_CSQ16) OMEGA_LIM_CSQ16
      | Some v \<Rightarrow> if q then clamp (z v) (- OMEGA_LIM_CSQ16) OMEGA_LIM_CSQ16 else clamp y (- OMEGA_LIM_CSQ16) OMEGA_LIM_CSQ16\<bar> \<le> OMEGA_LIM_CSQ16" for y z q
    by (simp add: l split: option.split)
  show ?thesis unfolding FusionObs_step_def Let_def chk32_Some [OF c] Option.bind.simps
    by (intro exI conjI, rule refl) (simp only: fo_ok_def FusionObs.select_convs l om simp_thms)
qed

lemma tau_d_range: "fo_ok f \<Longrightarrow> \<bar>FusionObs_tau_d_counts f\<bar> \<le> 4096"
proof -
  assume "fo_ok f"
  then have "- 4096 \<le> asr (fo_tau_d_q16 f) 16" "asr (fo_tau_d_q16 f) 16 \<le> 4096"
    by (auto simp: fo_ok_def TAU_D_LIM_CCQ16_def intro!: asr_ge asr_le)
  then show ?thesis by (auto simp: FusionObs_tau_d_counts_def)
qed

lemma drive_ticks_bound: "0 \<le> drive_ticks duty arr \<and> drive_ticks duty arr \<le> uint arr"
proof -
  define m a where "m = min \<bar>duty\<bar> 32767" and "a = uint arr"
  have m: "0 \<le> m" "m \<le> 32767" and a: "0 \<le> a" "a \<le> 65535" using u16_range [of arr] by (auto simp: m_def a_def)
  have "m * a \<le> 32767 * a" using m a by (intro mult_right_mono)
  moreover have "0 \<le> m * a" using m a by simp
  ultimately have "0 \<le> asr (m * a + 16384) 15" "asr (m * a + 16384) 15 < a + 1" 
    using a by (simp add: asr_ge, intro asr_less) simp
  then show ?thesis by (simp add: drive_ticks_def Let_def m_def a_def)
qed

lemma i_from_frame_bound: "i_from_frame fr sel s bias = Some x \<Longrightarrow> \<bar>x\<bar> \<le> 65535"
  by (auto simp: i_from_frame_def Let_def u16_diff u16_range split: if_splits)

text \<open>Samples of the 12-bit converter.\<close>

definition frame_ok :: "SensorFrame \<Rightarrow> bool" where
  "frame_ok fr \<longleftrightarrow> uint (sf_pos fr) \<le> 4095 \<and> uint (sf_vmotor_a fr) \<le> 4095 \<and> uint (sf_vmotor_a_trough fr) \<le> 4095
     \<and> uint (sf_vmotor_b fr) \<le> 4095 \<and> uint (sf_vmotor_b_trough fr) \<le> 4095"

lemma vdrive_bound: "frame_ok fr \<Longrightarrow> vdrive_from_frame fr sel fwd = Some (v, d) \<Longrightarrow> uint v \<le> 4095 \<and> \<bar>d\<bar> \<le> 4095"
  by (auto simp: vdrive_from_frame_def frame_ok_def Let_def u16_diff split: if_splits)

end
