(* ===== verification/Loops.thy ===== *)
theory Loops
  imports Estim
begin

text \<open>
  The control loops of the kernel (\<open>core/src/kernel\<close>): the voltage-domain current loop, the velocity loop, the position loop,
  the current-limit fold, the fault latch with its detectors, and the identification aggregate.
\<close>

section \<open>Current loop\<close>

definition E_LIM_CC :: int where "E_LIM_CC = 8192"
definition AW_LIM_VC :: int where "AW_LIM_VC = 8192"

record CurrentGains =
  cg_kp_q88 :: u16
  cg_ki_q412 :: u16
  cg_kaw_q412 :: u16
  cg_ke_q412 :: u16
  cg_duty_max_q15 :: u16

record CurrentLoop =
  cl_integ_vq16 :: int
  cl_last_duty_q15 :: int

definition CurrentLoop_new :: CurrentLoop where
  "CurrentLoop_new = \<lparr>cl_integ_vq16 = 0, cl_last_duty_q15 = 0\<rparr>"

definition CurrentLoop_reset :: "CurrentLoop \<Rightarrow> CurrentLoop" where
  "CurrentLoop_reset c = c\<lparr>cl_integ_vq16 := 0, cl_last_duty_q15 := 0\<rparr>"

definition CurrentLoop_step :: "CurrentLoop \<Rightarrow> int \<Rightarrow> int option \<Rightarrow> int \<Rightarrow> u16 \<Rightarrow> int \<Rightarrow> CurrentGains \<Rightarrow> (CurrentLoop \<times> int) option" where
  "CurrentLoop_step c i_ref i_meas omega_hat vbus recip_vbus gains =
     (let e = (case i_meas of Some i \<Rightarrow> clamp (sat32 (i_ref - i)) (- E_LIM_CC) E_LIM_CC | None \<Rightarrow> 0);
          u_pi = sat32 (q_mul (uint (cg_kp_q88 gains)) e 8 + asr (cl_integ_vq16 c) 16);
          u_ff = q_mul omega_hat (uint (cg_ke_q412 gains)) 28;
          u = sat32 (u_pi + u_ff);
          v_max = q_mul (uint (cg_duty_max_q15 gains)) (uint vbus) 15
      in do { u_cl \<leftarrow> chk_clamp u (- v_max) v_max;
              c \<leftarrow> (if i_meas \<noteq> None
                    then let aw = clamp (sat32 (u_cl - u)) (- AW_LIM_VC) AW_LIM_VC;
                             ki_term = sat32 (q_mul (uint (cg_ki_q412 gains)) e 0 * 2 ^ 4);
                             aw_term = sat32 (q_mul (uint (cg_kaw_q412 gains)) aw 0 * 2 ^ 4);
                             lim = sat32 (v_max * 2 ^ 16)
                         in do { n \<leftarrow> chk_clamp (sat32 (sat32 (cl_integ_vq16 c + ki_term) + aw_term)) (- lim) lim;
                                 Some (c\<lparr>cl_integ_vq16 := n\<rparr>) }
                    else Some c);
              let recip = min recip_vbus 2147483647;
                  duty = clamp (q_mul u_cl recip 15) (- 32767) 32767
              in Some (c\<lparr>cl_last_duty_q15 := duty\<rparr>, duty) })"

section \<open>Limits\<close>

datatype StallResponse = StallResponse_Fault | StallResponse_Yield

record LimitCfg =
  lc_current_limit_counts :: u16
  lc_stall_response :: StallResponse
  lc_drive_polarity :: bool
  lc_stall_omega_max_cps :: u16
  lc_stall_time_ticks :: u32
  lc_stall_yield_counts :: u16
  lc_stall_release_counts :: u16
  lc_stall_tau_trip_counts :: u16
  lc_derate_start_cc :: int
  lc_cutoff_cc :: int
  lc_pos_min_soft_counts :: int
  lc_pos_max_soft_counts :: int

record IBand =
  ib_lo :: int
  ib_hi :: int

definition IBand_clamp :: "IBand \<Rightarrow> int \<Rightarrow> int option" where
  "IBand_clamp b i = chk_clamp i (ib_lo b) (ib_hi b)"

record LimitState =
  lm_stall_ticks :: u32
  lm_stalled :: bool
  lm_fault_pending :: bool
  lm_derate_cache :: u16
  lm_i_lim :: u16

definition LimitState_new :: LimitState where
  "LimitState_new = \<lparr>lm_stall_ticks = 0, lm_stalled = False, lm_fault_pending = False, lm_derate_cache = 65535, lm_i_lim = 0\<rparr>"

definition LimitState_update_derate :: "LimitState \<Rightarrow> int \<Rightarrow> LimitCfg \<Rightarrow> LimitState option" where
  "LimitState_update_derate s t_winding_cc cfg =
     (let span = lc_cutoff_cc cfg - lc_derate_start_cc cfg
      in do { d \<leftarrow> (if t_winding_cc \<ge> lc_cutoff_cc cfg then Some 0
                    else if t_winding_cc < lc_derate_start_cc cfg \<or> span \<le> 0 then Some (lc_current_limit_counts cfg)
                    else let head = lc_cutoff_cc cfg - t_winding_cc
                         in do { num \<leftarrow> chku32 (uint (lc_current_limit_counts cfg) * head);
                                 q \<leftarrow> recip_div num span;
                                 Some (word_of_int (min q (uint (lc_current_limit_counts cfg)))) });
              Some (s\<lparr>lm_derate_cache := d\<rparr>) })"

definition saturating_inc :: "'a::len word \<Rightarrow> 'a word" where
  "saturating_inc x = (if x = - 1 then x else x + 1)"

text \<open>The stall detector and the directional endstop of \<open>fold\<close>.\<close>

definition stall_detect :: "LimitState \<Rightarrow> bool \<Rightarrow> int \<Rightarrow> int \<Rightarrow> LimitCfg \<Rightarrow> LimitState" where
  "stall_detect s i_ref_pinned omega_hat_abs_cps tau_d_abs_counts cfg =
     (let s = (if lm_stalled s \<and> tau_d_abs_counts < uint (lc_stall_release_counts cfg)
               then s\<lparr>lm_stalled := False, lm_stall_ticks := 0\<rparr> else s);
          trip = (tau_d_abs_counts > uint (lc_stall_tau_trip_counts cfg));
          (s, trip) = (if i_ref_pinned \<and> omega_hat_abs_cps < uint (lc_stall_omega_max_cps cfg)
                       then let t = saturating_inc (lm_stall_ticks s)
                            in (s\<lparr>lm_stall_ticks := t\<rparr>, trip \<or> t \<ge> lc_stall_time_ticks cfg)
                       else (s\<lparr>lm_stall_ticks := 0\<rparr>, trip))
      in if trip
         then (case lc_stall_response cfg of
                 StallResponse_Yield \<Rightarrow> s\<lparr>lm_stalled := True\<rparr>
               | StallResponse_Fault \<Rightarrow> s\<lparr>lm_fault_pending := True\<rparr>)
         else s)"

definition endstop_band :: "u16 \<Rightarrow> int \<Rightarrow> LimitCfg \<Rightarrow> IBand" where
  "endstop_band i_lim theta_hat_counts cfg =
     (let band = \<lparr>ib_lo = - uint i_lim, ib_hi = uint i_lim\<rparr>;
          at_max = (theta_hat_counts \<ge> lc_pos_max_soft_counts cfg);
          at_min = (theta_hat_counts \<le> lc_pos_min_soft_counts cfg);
          band = (if at_max then (if lc_drive_polarity cfg then band\<lparr>ib_hi := 0\<rparr> else band\<lparr>ib_lo := 0\<rparr>) else band)
      in if at_min then (if lc_drive_polarity cfg then band\<lparr>ib_lo := 0\<rparr> else band\<lparr>ib_hi := 0\<rparr>) else band)"

definition LimitState_fold :: "LimitState \<Rightarrow> bool \<Rightarrow> int \<Rightarrow> int \<Rightarrow> int \<Rightarrow> LimitCfg \<Rightarrow> LimitState \<times> IBand" where
  "LimitState_fold s i_ref_pinned omega_hat_abs_cps tau_d_abs_counts theta_hat_counts cfg =
     (let s = stall_detect s i_ref_pinned omega_hat_abs_cps tau_d_abs_counts cfg;
          lim = min (lc_current_limit_counts cfg) (lm_derate_cache s);
          lim = (if lm_stalled s then min lim (lc_stall_yield_counts cfg) else lim)
      in (s\<lparr>lm_i_lim := lim\<rparr>, endstop_band lim theta_hat_counts cfg))"

definition LimitState_ack :: "LimitState \<Rightarrow> LimitState" where
  "LimitState_ack s = s\<lparr>lm_fault_pending := False, lm_stalled := False, lm_stall_ticks := 0\<rparr>"

section \<open>Velocity loop\<close>

definition E_LIM_CSQ16 :: int where "E_LIM_CSQ16 = 16384 * 2 ^ 16"
definition AW_LIM_CC :: int where "AW_LIM_CC = 8192"

record VelocityGains =
  vg_kp_q88 :: u16
  vg_ki_q412 :: u16
  vg_kaw_q412 :: u16
  vg_j_ff_q88 :: u16
  vg_fric_fc_counts :: u16
  vg_fric_fv_q016 :: u16

definition fric_ff :: "int \<Rightarrow> VelocityGains \<Rightarrow> int" where
  "fric_ff omega gains =
     (let coulomb = (if omega > FRIC_OMEGA_EPS_CSQ16 then uint (vg_fric_fc_counts gains)
                     else if omega < - FRIC_OMEGA_EPS_CSQ16 then - uint (vg_fric_fc_counts gains) else 0)
      in sat32 (coulomb + q_mul (uint (vg_fric_fv_q016 gains)) omega 32))"

record VelocityLoop =
  ve_integ_ccq16 :: int

definition VelocityLoop_new :: VelocityLoop where
  "VelocityLoop_new = \<lparr>ve_integ_ccq16 = 0\<rparr>"

definition VelocityLoop_reset :: "VelocityLoop \<Rightarrow> VelocityLoop" where
  "VelocityLoop_reset v = v\<lparr>ve_integ_ccq16 := 0\<rparr>"

definition VelocityLoop_step :: "VelocityLoop \<Rightarrow> int \<Rightarrow> int \<Rightarrow> int \<Rightarrow> int \<Rightarrow> IBand \<Rightarrow> VelocityGains \<Rightarrow> (VelocityLoop \<times> int) option" where
  "VelocityLoop_step v omega_ref omega_hat alpha_star omega_star band gains =
     (let e = clamp (sat32 (omega_ref - omega_hat)) (- E_LIM_CSQ16) E_LIM_CSQ16;
          i_p = q_mul (uint (vg_kp_q88 gains)) e 24;
          i_ff = sat32 (q_mul (uint (vg_j_ff_q88 gains)) alpha_star 24 + fric_ff omega_star gains);
          i_raw = sat32 (sat32 (i_p + asr (ve_integ_ccq16 v) 16) + i_ff)
      in do { i_ref \<leftarrow> IBand_clamp band i_raw;
              hi \<leftarrow> chk32 \<bar>ib_hi band\<bar>;
              lo \<leftarrow> chk32 \<bar>ib_lo band\<bar>;
              let aw = clamp (sat32 (i_ref - i_raw)) (- AW_LIM_CC) AW_LIM_CC;
                  ki_term = sat32 (q_mul (uint (vg_ki_q412 gains)) e 16 * 2 ^ 4);
                  aw_term = sat32 (q_mul (uint (vg_kaw_q412 gains)) aw 0 * 2 ^ 4);
                  lim = sat32 (max hi lo * 2 ^ 16)
              in do { n \<leftarrow> chk_clamp (sat32 (sat32 (ve_integ_ccq16 v + ki_term) + aw_term)) (- lim) lim;
                      Some (v\<lparr>ve_integ_ccq16 := n\<rparr>, i_ref) } })"

section \<open>Position loop\<close>

definition VEL_CAP_CPS :: u16 where "VEL_CAP_CPS = 32767"
definition POS_E_LIM_CQ16 :: int where "POS_E_LIM_CQ16 = 2 ^ 23"

record PositionCfg =
  pc_kp_q88 :: u16
  pc_pos_deadband_counts :: u16
  pc_vel_limit_cps :: u16

record PosOut =
  po_omega_ref_q16 :: int
  po_hold :: bool

definition position_step :: "int \<Rightarrow> int \<Rightarrow> int \<Rightarrow> PositionCfg \<Rightarrow> PosOut" where
  "position_step theta_star omega_star theta_hat cfg =
     (let e_raw = sat32 (theta_star - theta_hat);
          e = clamp e_raw (- POS_E_LIM_CQ16) POS_E_LIM_CQ16;
          v_lim = uint (min (pc_vel_limit_cps cfg) VEL_CAP_CPS) * 2 ^ 16;
          omega_ref = clamp (sat32 (q_mul (uint (pc_kp_q88 cfg)) e 8 + omega_star)) (- v_lim) v_lim;
          hold = (pc_pos_deadband_counts cfg \<noteq> 0 \<and> \<bar>e_raw\<bar> \<le> uint (pc_pos_deadband_counts cfg) * 2 ^ 16 \<and> omega_star = 0)
      in \<lparr>po_omega_ref_q16 = omega_ref, po_hold = hold\<rparr>)"

section \<open>Faults\<close>

definition BIT_OVER_CURRENT :: u8 where "BIT_OVER_CURRENT = 1"
definition BIT_OVER_TEMP :: u8 where "BIT_OVER_TEMP = 2"
definition BIT_STALL :: u8 where "BIT_STALL = 4"
definition BIT_POSITION_ERROR :: u8 where "BIT_POSITION_ERROR = 8"
definition BIT_SENSOR :: u8 where "BIT_SENSOR = 16"
definition BIT_UNDER_VOLT :: u8 where "BIT_UNDER_VOLT = 32"
definition CODE_NONE :: u8 where "CODE_NONE = 0"
definition CODE_OVER_CURRENT :: u8 where "CODE_OVER_CURRENT = 1"
definition CODE_OVER_TEMP :: u8 where "CODE_OVER_TEMP = 2"
definition CODE_STALL :: u8 where "CODE_STALL = 3"
definition CODE_POSITION_ERROR :: u8 where "CODE_POSITION_ERROR = 4"
definition CODE_SENSOR :: u8 where "CODE_SENSOR = 5"
definition CODE_UNDER_VOLT :: u8 where "CODE_UNDER_VOLT = 6"

lemmas fault_bits = BIT_OVER_CURRENT_def BIT_OVER_TEMP_def BIT_STALL_def BIT_POSITION_ERROR_def BIT_SENSOR_def BIT_UNDER_VOLT_def

record FaultLatch =
  fl_mask :: u8
  fl_last_code :: u8

definition FaultLatch_new :: FaultLatch where
  "FaultLatch_new = \<lparr>fl_mask = 0, fl_last_code = CODE_NONE\<rparr>"

definition FaultLatch_raise :: "FaultLatch \<Rightarrow> u8 \<Rightarrow> u8 \<Rightarrow> FaultLatch" where
  "FaultLatch_raise f b code = (if fl_mask f AND b = 0 then f\<lparr>fl_mask := fl_mask f OR b, fl_last_code := code\<rparr> else f)"

definition FaultLatch_clear :: "FaultLatch \<Rightarrow> FaultLatch" where
  "FaultLatch_clear f = f\<lparr>fl_mask := 0, fl_last_code := CODE_NONE\<rparr>"

record Detectors =
  dt_oc_ticks :: u8
  dt_pos_err_ticks :: u32
  dt_sensor_bad :: u8
  dt_sensor_last_pos :: u16
  dt_sensor_seen :: bool

definition Detectors_new :: Detectors where
  "Detectors_new = \<lparr>dt_oc_ticks = 0, dt_pos_err_ticks = 0, dt_sensor_bad = 0, dt_sensor_last_pos = 0, dt_sensor_seen = False\<rparr>"

definition Detectors_reset :: "Detectors \<Rightarrow> Detectors" where
  "Detectors_reset d = d\<lparr>dt_oc_ticks := 0, dt_pos_err_ticks := 0, dt_sensor_bad := 0, dt_sensor_seen := False\<rparr>"

definition Detectors_oc_sample :: "Detectors \<Rightarrow> bool option \<Rightarrow> u8 \<Rightarrow> Detectors \<times> bool" where
  "Detectors_oc_sample d over trip_ticks =
     (case over of
        Some True \<Rightarrow> let t = saturating_inc (dt_oc_ticks d) in (d\<lparr>dt_oc_ticks := t\<rparr>, t \<ge> trip_ticks)
      | Some False \<Rightarrow> (d\<lparr>dt_oc_ticks := 0\<rparr>, False)
      | None \<Rightarrow> (d, False))"

definition Detectors_sensor_sample :: "Detectors \<Rightarrow> u16 \<Rightarrow> u16 \<Rightarrow> u8 \<Rightarrow> Detectors \<times> bool" where
  "Detectors_sensor_sample d pos delta_max bad_count =
     (let delta = \<bar>uint pos - uint (dt_sensor_last_pos d)\<bar>;
          jump = (dt_sensor_seen d \<and> delta > uint delta_max);
          d = d\<lparr>dt_sensor_last_pos := pos, dt_sensor_seen := True\<rparr>
      in if jump then let b = saturating_inc (dt_sensor_bad d) in (d\<lparr>dt_sensor_bad := b\<rparr>, b \<ge> bad_count)
         else (d\<lparr>dt_sensor_bad := 0\<rparr>, False))"

definition Detectors_pos_err_sample :: "Detectors \<Rightarrow> bool \<Rightarrow> u32 \<Rightarrow> Detectors \<times> bool" where
  "Detectors_pos_err_sample d over trip_ticks =
     (if over then let t = saturating_inc (dt_pos_err_ticks d) in (d\<lparr>dt_pos_err_ticks := t\<rparr>, t \<ge> trip_ticks)
      else (d\<lparr>dt_pos_err_ticks := 0\<rparr>, False))"

section \<open>Identification aggregate\<close>

definition IDENT_SHIFT :: nat where "IDENT_SHIFT = 4"
definition IDENT_WINDOW :: u8 where "IDENT_WINDOW = 16"

record IdentOut =
  io_i_mean_counts :: int
  io_i_min_counts :: int
  io_i_max_counts :: int
  io_vdiff_mean :: int
  io_duty_mean_q15 :: int
  io_agg_seq :: u16

record IdentAgg =
  ia_ctr :: u8
  ia_i_sum :: int
  ia_i_min :: int
  ia_i_max :: int
  ia_vdiff_sum :: int
  ia_duty_sum :: int
  ia_seq :: u16

definition i16_ok :: "int \<Rightarrow> bool" where
  "i16_ok x \<longleftrightarrow> - 32768 \<le> x \<and> x \<le> 32767"

definition mean_i16 :: "int \<Rightarrow> int option" where
  "mean_i16 s = (let m = asr s IDENT_SHIFT in if i16_ok m then Some (clamp m (- 32768) 32767) else None)"

definition IdentAgg_new :: IdentAgg where
  "IdentAgg_new = \<lparr>ia_ctr = 0, ia_i_sum = 0, ia_i_min = 32767, ia_i_max = - 32768, ia_vdiff_sum = 0, ia_duty_sum = 0, ia_seq = 0\<rparr>"

definition IdentAgg_sample :: "IdentAgg \<Rightarrow> int \<Rightarrow> int \<Rightarrow> int \<Rightarrow> (IdentAgg \<times> IdentOut option) option" where
  "IdentAgg_sample a i vdiff duty =
     do { s \<leftarrow> chk32 (ia_i_sum a + i);
          vs \<leftarrow> chk32 (ia_vdiff_sum a + vdiff);
          ds \<leftarrow> chk32 (ia_duty_sum a + duty);
          n \<leftarrow> (if ia_ctr a = 255 then None else Some (ia_ctr a + 1));
          let a = a\<lparr>ia_i_sum := s, ia_i_min := min (ia_i_min a) i, ia_i_max := max (ia_i_max a) i, ia_vdiff_sum := vs, ia_duty_sum := ds, ia_ctr := n\<rparr>
          in if n < IDENT_WINDOW then Some (a, None)
             else let a = a\<lparr>ia_seq := ia_seq a + 1\<rparr>
                  in do { im \<leftarrow> mean_i16 (ia_i_sum a);
                          vm \<leftarrow> mean_i16 (ia_vdiff_sum a);
                          dm \<leftarrow> mean_i16 (ia_duty_sum a);
                          Some (a\<lparr>ia_ctr := 0, ia_i_sum := 0, ia_i_min := 32767, ia_i_max := - 32768, ia_vdiff_sum := 0, ia_duty_sum := 0\<rparr>,
                                Some \<lparr>io_i_mean_counts = im, io_i_min_counts = ia_i_min a, io_i_max_counts = ia_i_max a,
                                      io_vdiff_mean = vm, io_duty_mean_q15 = dm, io_agg_seq = ia_seq a\<rparr>) } }"

section \<open>Correctness of the loops\<close>

lemma v_max_eq: "q_mul (uint (dm :: u16)) (uint (vbus :: u16)) 15 = asr (uint dm * uint vbus) 15"
  "0 \<le> asr (uint (dm :: u16) * uint (vbus :: u16)) 15"
proof -
  have "uint dm * uint vbus \<le> 65535 * 65535" using u16_range [of dm] u16_range [of vbus] by (intro mult_mono) auto
  moreover have "- (2147483648 * 2 ^ 15) \<le> (0::int)" "0 \<le> uint dm * uint vbus" by simp_all
  ultimately show "q_mul (uint dm) (uint vbus) 15 = asr (uint dm * uint vbus) 15"
    using order.trans by (intro q_mul_exact) (blast, simp)
  show "0 \<le> asr (uint dm * uint vbus) 15" by (intro asr_ge) simp
qed

text \<open>The duty the current loop returns: the clamped voltage scaled by the reciprocal.\<close>

lemma current_step_eq:
  obtains c' u where "CurrentLoop_step c i_ref i_meas om vbus recip g = Some (c', clamp (q_mul u (min recip 2147483647) 15) (- 32767) 32767)"
    "\<bar>u\<bar> \<le> asr (uint (cg_duty_max_q15 g) * uint vbus) 15"
proof -
  define vm where "vm = asr (uint (cg_duty_max_q15 g) * uint vbus) 15"
  have vm: "0 \<le> vm" by (simp add: vm_def v_max_eq)
  have lim: "0 \<le> sat32 (vm * 2 ^ 16)" using vm sat32_mono [of 0 "vm * 2 ^ 16"] by (simp add: i32_okI)
  define e where "e = (case i_meas of Some i \<Rightarrow> clamp (sat32 (i_ref - i)) (- E_LIM_CC) E_LIM_CC | None \<Rightarrow> 0)"
  define x where "x = sat32 (sat32 (q_mul (uint (cg_kp_q88 g)) e 8 + asr (cl_integ_vq16 c) 16) + q_mul om (uint (cg_ke_q412 g)) 28)"
  have u: "\<bar>clamp x (- vm) vm\<bar> \<le> vm" by (rule clamp_sym [OF vm])
  have "\<exists>c'. CurrentLoop_step c i_ref i_meas om vbus recip g
      = Some (c', clamp (q_mul (clamp x (- vm) vm) (min recip 2147483647) 15) (- 32767) 32767)"
    unfolding CurrentLoop_step_def e_def [symmetric] v_max_eq vm_def [symmetric] Let_def x_def [symmetric]
    using vm lim by (cases "i_meas = None") simp_all
  then show ?thesis using that u unfolding vm_def by blast
qed

lemma current_ok: "\<exists>c' y. CurrentLoop_step c i_ref i_meas om vbus recip g = Some (c', y) \<and> \<bar>y\<bar> \<le> 32767"
  by (rule current_step_eq [of c i_ref i_meas om vbus recip g]) (auto intro: clamp_sym)

lemma current_cap:
  assumes "CurrentLoop_step c i_ref i_meas om vbus recip g = Some (c', y)" "0 \<le> recip" "recip * uint vbus \<le> 32767 * 2 ^ 15 + 1"
  shows "\<bar>y\<bar> \<le> uint (cg_duty_max_q15 g)"
proof -
  define dm R where "dm = uint (cg_duty_max_q15 g)" and "R = min recip 2147483647"
  obtain u where y: "y = clamp (q_mul u R 15) (- 32767) 32767" and u: "\<bar>u\<bar> \<le> asr (dm * uint vbus) 15"
    using current_step_eq [of c i_ref i_meas om vbus recip g] assms(1) unfolding dm_def R_def by (metis option.inject prod.inject)
  have R: "0 \<le> R" "R \<le> recip" using assms(2) by (auto simp: R_def)
  have dm: "0 \<le> dm" "dm \<le> 65535" using u16_range [of "cg_duty_max_q15 g"] by (simp_all add: dm_def)
  have "\<bar>u\<bar> * 2 ^ 15 \<le> dm * uint vbus" using u asr_mult_le [of "dm * uint vbus" 15] by simp
  then have "\<bar>u\<bar> * 2 ^ 15 * R \<le> dm * uint vbus * R" using R by (intro mult_right_mono)
  also have "\<dots> \<le> dm * uint vbus * recip" using dm(1) R(2) by (intro mult_left_mono) simp_all
  also have "\<dots> = dm * (recip * uint vbus)" by (simp add: mult_ac)
  also have "\<dots> \<le> dm * 2 ^ 30" using dm assms(3) by (intro mult_left_mono) simp_all
  finally have "\<bar>u\<bar> * R \<le> dm * 2 ^ 15" by (simp add: mult.commute)
  then have "\<bar>u * R\<bar> \<le> dm * 2 ^ 15" using R(1) by (simp add: abs_mult)
  then have p: "- (dm * 2 ^ 15) \<le> u * R" "u * R \<le> dm * 2 ^ 15" by linarith+
  then have "- dm \<le> asr (u * R) 15" "asr (u * R) 15 \<le> dm" by (intro asr_ge asr_le; simp)+
  moreover have "q_mul u R 15 = asr (u * R) 15" using p dm by (intro q_mul_exact) simp_all
  ultimately show ?thesis unfolding y dm_def [symmetric] by (auto simp: clamp_def)
qed

text \<open>The band every current command is clamped into.\<close>

definition band_ok :: "IBand \<Rightarrow> int \<Rightarrow> bool" where
  "band_ok b m \<longleftrightarrow> - m \<le> ib_lo b \<and> ib_lo b \<le> 0 \<and> 0 \<le> ib_hi b \<and> ib_hi b \<le> m"

lemma fold_band:
  assumes "LimitState_fold s pinned om tau th cfg = (s', b)"
  shows "band_ok b (uint (lm_i_lim s'))" "lm_i_lim s' \<le> lc_current_limit_counts cfg" "lm_i_lim s' \<le> lm_derate_cache s"
    "lc_pos_max_soft_counts cfg \<le> th \<Longrightarrow> (if lc_drive_polarity cfg then ib_hi b = 0 else ib_lo b = 0)"
    "th \<le> lc_pos_min_soft_counts cfg \<Longrightarrow> (if lc_drive_polarity cfg then ib_lo b = 0 else ib_hi b = 0)"
    "lm_derate_cache s' = lm_derate_cache s"
proof -
  have c: "lm_derate_cache (stall_detect s pinned om tau cfg) = lm_derate_cache s"
    by (simp add: stall_detect_def Let_def split: StallResponse.split)
  have b: "b = endstop_band (lm_i_lim s') th cfg" using assms by (auto simp: LimitState_fold_def Let_def)
  show "band_ok b (uint (lm_i_lim s'))" "lc_pos_max_soft_counts cfg \<le> th \<Longrightarrow> (if lc_drive_polarity cfg then ib_hi b = 0 else ib_lo b = 0)"
    "th \<le> lc_pos_min_soft_counts cfg \<Longrightarrow> (if lc_drive_polarity cfg then ib_lo b = 0 else ib_hi b = 0)"
    by (auto simp: b endstop_band_def band_ok_def Let_def)
  show "lm_i_lim s' \<le> lc_current_limit_counts cfg" "lm_i_lim s' \<le> lm_derate_cache s" "lm_derate_cache s' = lm_derate_cache s"
    using assms c by (auto simp: LimitState_fold_def Let_def min.coboundedI1 min.coboundedI2)
qed

lemma band_clamp: "band_ok b m \<Longrightarrow> \<exists>y. IBand_clamp b x = Some y \<and> ib_lo b \<le> y \<and> y \<le> ib_hi b \<and> \<bar>y\<bar> \<le> m"
  using clamp_bounds [of "ib_lo b" "ib_hi b" x] by (auto simp: IBand_clamp_def band_ok_def)

lemma velocity_ok:
  assumes "band_ok b m" "m \<le> 65535"
  shows "\<exists>v' y. VelocityLoop_step v r h al os b g = Some (v', y) \<and> ib_lo b \<le> y \<and> y \<le> ib_hi b"
proof -
  obtain y where y: "IBand_clamp b (sat32 (sat32 (q_mul (uint (vg_kp_q88 g)) (clamp (sat32 (r - h)) (- E_LIM_CSQ16) E_LIM_CSQ16) 24
      + asr (ve_integ_ccq16 v) 16) + sat32 (q_mul (uint (vg_j_ff_q88 g)) al 24 + fric_ff os g))) = Some y" "ib_lo b \<le> y" "y \<le> ib_hi b"
    using band_clamp [OF assms(1)] by metis
  have a: "i32_ok \<bar>ib_hi b\<bar>" "i32_ok \<bar>ib_lo b\<bar>" using assms by (auto simp: band_ok_def intro!: i32_okI)
  have "0 \<le> sat32 (max \<bar>ib_hi b\<bar> \<bar>ib_lo b\<bar> * 2 ^ 16)" using sat32_mono [of 0 "max \<bar>ib_hi b\<bar> \<bar>ib_lo b\<bar> * 2 ^ 16"] by (simp add: i32_okI)
  then show ?thesis unfolding VelocityLoop_step_def Let_def y(1) using a y(2,3) by simp
qed

lemma derate_ok:
  assumes "i16_ok (lc_cutoff_cc cfg)" "i16_ok (lc_derate_start_cc cfg)" "i16_ok t"
  shows "\<exists>d. LimitState_update_derate s t cfg = Some (s\<lparr>lm_derate_cache := d\<rparr>)
    \<and> (lc_cutoff_cc cfg \<le> t \<longrightarrow> d = 0) \<and> d \<le> lc_current_limit_counts cfg"
proof -
  define span head cl where "span = lc_cutoff_cc cfg - lc_derate_start_cc cfg" and "head = lc_cutoff_cc cfg - t" and "cl = lc_current_limit_counts cfg"
  show ?thesis
  proof (cases "lc_cutoff_cc cfg \<le> t \<or> t < lc_derate_start_cc cfg \<or> span \<le> 0")
    case False
    then have s: "1 \<le> span" "span \<le> 65535" "0 < head" "head \<le> 65535" using assms by (auto simp: span_def head_def i16_ok_def)
    have p: "0 \<le> uint cl * head" using s by simp
    have "uint cl * head \<le> 65535 * 65535" using s u16_range [of cl] by (intro mult_mono) auto
    then have n: "u32_ok (uint cl * head)" using p by (simp add: u32_ok_def)
    obtain q where q: "recip_div (uint cl * head) span = Some q" "0 \<le> q"
      using recip_div_close [of "uint cl * head" span] n s by (auto simp: u32_ok_def)
    have m: "uint (word_of_int (min q (uint cl)) :: u16) = min q (uint cl)" using q(2) u16_range [of cl] by (intro uint_u16) auto
    then have "(word_of_int (min q (uint cl)) :: u16) \<le> cl" by (simp add: word_le_def)
    then show ?thesis using False n q
      by (intro exI [of _ "word_of_int (min q (uint cl))"]) (simp add: LimitState_update_derate_def Let_def flip: span_def head_def cl_def)
  qed (auto simp: LimitState_update_derate_def Let_def span_def)
qed

section \<open>The identification window\<close>

text \<open>The aggregate after a list of samples of the current window.\<close>

definition ident_holds :: "IdentAgg \<Rightarrow> (int \<times> int \<times> int) list \<Rightarrow> bool" where
  "ident_holds a xs \<longleftrightarrow> length xs < 16 \<and> ia_ctr a = of_nat (length xs) \<and> (\<forall>(i, v, d) \<in> set xs. i16_ok i \<and> i16_ok v \<and> i16_ok d)
     \<and> ia_i_sum a = sum_list (map fst xs) \<and> ia_vdiff_sum a = sum_list (map (\<lambda>x. fst (snd x)) xs) \<and> ia_duty_sum a = sum_list (map (\<lambda>x. snd (snd x)) xs)
     \<and> ia_i_min a = Min (insert 32767 (fst ` set xs)) \<and> ia_i_max a = Max (insert (- 32768) (fst ` set xs))"

lemma ident_new: "ident_holds IdentAgg_new []"
  by (simp add: ident_holds_def IdentAgg_new_def)

lemma sum_i16: "(\<forall>x \<in> set xs. i16_ok (f x)) \<Longrightarrow> length xs \<le> n \<Longrightarrow>
    - (32768 * int n) \<le> sum_list (map f xs) \<and> sum_list (map f xs) \<le> 32767 * int n"
proof (induction xs arbitrary: n)
  case (Cons x xs)
  obtain k where k: "n = Suc k" "length xs \<le> k" using Cons.prems(2) by (cases n) auto
  have "i16_ok (f x)" "\<forall>x \<in> set xs. i16_ok (f x)" using Cons.prems(1) by auto
  then show ?case using Cons.IH [OF _ k(2)] by (simp add: i16_ok_def k(1) algebra_simps)
qed simp

definition ident_out :: "(int \<times> int \<times> int) list \<Rightarrow> u16 \<Rightarrow> IdentOut" where
  "ident_out xs seq = \<lparr>io_i_mean_counts = sum_list (map fst xs) div 16, io_i_min_counts = Min (fst ` set xs), io_i_max_counts = Max (fst ` set xs),
     io_vdiff_mean = sum_list (map (\<lambda>x. fst (snd x)) xs) div 16, io_duty_mean_q15 = sum_list (map (\<lambda>x. snd (snd x)) xs) div 16, io_agg_seq = seq\<rparr>"

lemma ident_step:
  assumes "ident_holds a xs" "i16_ok i" "i16_ok v" "i16_ok d"
  shows "if length xs < 15 then \<exists>a'. IdentAgg_sample a i v d = Some (a', None) \<and> ident_holds a' (xs @ [(i, v, d)]) \<and> ia_seq a' = ia_seq a
    else \<exists>a'. IdentAgg_sample a i v d = Some (a', Some (ident_out (xs @ [(i, v, d)]) (ia_seq a + 1))) \<and> ident_holds a' [] \<and> ia_seq a' = ia_seq a + 1"
proof -
  define ys where "ys = xs @ [(i, v, d)]"
  have ys: "length ys = Suc (length xs)" "length ys \<le> 16" "\<forall>x \<in> set ys. i16_ok (fst x)" "\<forall>x \<in> set ys. i16_ok (fst (snd x))" "\<forall>x \<in> set ys. i16_ok (snd (snd x))"
    using assms by (auto simp: ys_def ident_holds_def)
  define s vs ds where "s = sum_list (map fst ys)" and "vs = sum_list (map (\<lambda>x. fst (snd x)) ys)" and "ds = sum_list (map (\<lambda>x. snd (snd x)) ys)"
  have b: "- 524288 \<le> s \<and> s \<le> 524272" "- 524288 \<le> vs \<and> vs \<le> 524272" "- 524288 \<le> ds \<and> ds \<le> 524272"
    using sum_i16 [OF ys(3,2)] sum_i16 [OF ys(4,2)] sum_i16 [OF ys(5,2)] by (simp_all add: s_def vs_def ds_def)
  have e: "ia_i_sum a + i = s" "ia_vdiff_sum a + v = vs" "ia_duty_sum a + d = ds" using assms(1) by (simp_all add: ident_holds_def s_def vs_def ds_def ys_def)
  have c: "i32_ok s" "i32_ok vs" "i32_ok ds" using b by (auto intro!: i32_okI)
  have m: "mean_i16 x = Some (x div 16)" if "- 524288 \<le> x \<and> x \<le> 524272" for x
    using that asr_ge [of "- 32768" 4 x] asr_le [of x 32767 4] by (simp add: mean_i16_def IDENT_SHIFT_def i16_ok_def Let_def) (simp add: asr_def)
  have ctr: "ia_ctr a = of_nat (length xs)" "length xs < 16" using assms(1) by (simp_all add: ident_holds_def)
  have u: "unat (of_nat k :: u8) = k" if "k \<le> 16" for k using that by (simp add: unat_of_nat)
  define k :: u8 where "k = of_nat (length ys)"
  have n1: "ia_ctr a + 1 = k" by (simp add: ctr(1) k_def ys(1))
  have n: "ia_ctr a \<noteq> 255" "k < IDENT_WINDOW \<longleftrightarrow> length xs < 15"
    using ctr(2) u [of "length xs"] u [of "Suc (length xs)"] unfolding k_def ys(1) unfolding ctr(1) by (auto simp: IDENT_WINDOW_def word_less_nat_alt)
  have mm: "min (ia_i_min a) i = Min (insert 32767 (fst ` set ys))" "max (ia_i_max a) i = Max (insert (- 32768) (fst ` set ys))"
    using assms(1) by (simp_all add: ident_holds_def ys_def min.commute max.commute insert_commute)
  have fin: "finite (fst ` set ys)" "fst ` set ys \<noteq> {}" by (auto simp: ys_def)
  have ends: "Min (insert 32767 (fst ` set ys)) = Min (fst ` set ys)" "Max (insert (- 32768) (fst ` set ys)) = Max (fst ` set ys)"
  proof -
    have "Min (fst ` set ys) \<in> fst ` set ys" "Max (fst ` set ys) \<in> fst ` set ys" using fin by (auto intro: Min_in Max_in)
    then have "Min (fst ` set ys) \<le> 32767" "- 32768 \<le> Max (fst ` set ys)" using ys(3) by (auto simp: i16_ok_def image_iff)
    then show "Min (insert 32767 (fst ` set ys)) = Min (fst ` set ys)" "Max (insert (- 32768) (fst ` set ys)) = Max (fst ` set ys)"
      using fin by simp_all
  qed
  show ?thesis
  proof (cases "length xs < 15")
    case True
    have "IdentAgg_sample a i v d = Some (a\<lparr>ia_i_sum := s, ia_i_min := min (ia_i_min a) i, ia_i_max := max (ia_i_max a) i,
        ia_vdiff_sum := vs, ia_duty_sum := ds, ia_ctr := k\<rparr>, None)"
      using c n True unfolding IdentAgg_sample_def e n1 by simp
    moreover have "\<forall>(i, v, d) \<in> set ys. i16_ok i \<and> i16_ok v \<and> i16_ok d" using ys(3-5) by auto
    ultimately show ?thesis using True mm ys(1) unfolding ys_def [symmetric]
      by (simp add: ident_holds_def k_def s_def vs_def ds_def)
  next
    case False
    then show ?thesis using c n mm b ends m unfolding ys_def [symmetric] IdentAgg_sample_def e n1
      by (simp add: ident_holds_def ident_out_def Let_def flip: s_def vs_def ds_def)
  qed
qed

fun ident_run :: "IdentAgg \<Rightarrow> (int \<times> int \<times> int) list \<Rightarrow> (IdentAgg \<times> IdentOut list) option" where
  "ident_run a [] = Some (a, [])"
| "ident_run a ((i, v, d) # xs) =
     do { (a, out) \<leftarrow> IdentAgg_sample a i v d;
          (a, outs) \<leftarrow> ident_run a xs;
          Some (a, (case out of None \<Rightarrow> outs | Some x \<Rightarrow> x # outs)) }"

text \<open>The complete windows of sixteen.\<close>

function windows :: "'a list \<Rightarrow> 'a list list" where
  "windows xs = (if length xs < 16 then [] else take 16 xs # windows (drop 16 xs))"
  by pat_completeness auto

termination
  by (relation "measure length") auto

declare windows.simps [simp del]

lemma windows_short [simp]: "length xs < 16 \<Longrightarrow> windows xs = []"
  by (simp add: windows.simps)

lemma windows_full: "length ps = 15 \<Longrightarrow> windows (ps @ x # xs) = (ps @ [x]) # windows xs"
  by (subst windows.simps) simp

lemma ident_run_windows:
  assumes "ident_holds a ps" "\<forall>(i, v, d) \<in> set xs. i16_ok i \<and> i16_ok v \<and> i16_ok d" "ia_seq a + 1 = of_nat n"
  shows "\<exists>a'. ident_run a xs = Some (a', map (\<lambda>(k, w). ident_out w (of_nat k)) (enumerate n (windows (ps @ xs))))"
  using assms
proof (induction xs arbitrary: a ps n)
  case Nil
  then show ?case by (simp add: ident_holds_def)
next
  case (Cons x xs)
  obtain i v d where x: "x = (i, v, d)" by (cases x)
  have s: "i16_ok i" "i16_ok v" "i16_ok d" and r: "\<forall>(i, v, d) \<in> set xs. i16_ok i \<and> i16_ok v \<and> i16_ok d" using Cons.prems(2) by (auto simp: x)
  show ?case
  proof (cases "length ps < 15")
    case True
    then obtain a' where a: "IdentAgg_sample a i v d = Some (a', None)" "ident_holds a' (ps @ [(i, v, d)])" "ia_seq a' = ia_seq a"
      using ident_step [OF Cons.prems(1) s] by auto
    then show ?thesis using Cons.IH [OF a(2) r, of n] Cons.prems(3) x by auto
  next
    case False
    then have l: "length ps = 15" using Cons.prems(1) by (simp add: ident_holds_def)
    then obtain a' where a: "IdentAgg_sample a i v d = Some (a', Some (ident_out (ps @ [(i, v, d)]) (ia_seq a + 1)))" "ident_holds a' []" "ia_seq a' = ia_seq a + 1"
      using ident_step [OF Cons.prems(1) s] by auto
    then show ?thesis using Cons.IH [OF a(2) r, of "Suc n"] Cons.prems(3) x windows_full [OF l, of x xs] by (auto simp: add.commute)
  qed
qed

text \<open>Property C31: the identification aggregate publishes exactly the statistics of every sixteen-tick window.  Over any run
  of 16-bit samples nothing overflows, one record is published per complete window and none in between, and the record
  of window \<open>k\<close> carries the floored means, the minimum and the maximum of that window's samples and the sequence
  number \<open>k\<close> modulo \<open>2 ^ 16\<close>.\<close>

theorem ident_windows_exact:
  assumes "\<forall>(i, v, d) \<in> set xs. i16_ok i \<and> i16_ok v \<and> i16_ok d"
  shows "\<exists>a. ident_run IdentAgg_new xs = Some (a, map (\<lambda>(k, w). ident_out w (of_nat k)) (enumerate 1 (windows xs)))"
  using ident_run_windows [OF ident_new assms, of 1] by (simp add: IdentAgg_new_def)

theorem ident_windows_exact_witness:
  "\<exists>a. ident_run IdentAgg_new (replicate 20 (- 5, 50, 8000)) = Some (a, [ident_out (replicate 16 (- 5, 50, 8000)) 1])"
proof -
  have e: "windows (replicate 20 (- 5 :: int, 50 :: int, 8000 :: int)) = [replicate 16 (- 5, 50, 8000)]" by (subst windows.simps) simp
  show ?thesis using ident_windows_exact [of "replicate 20 (- 5, 50, 8000)"] unfolding e by (simp add: i16_ok_def)
qed

end
