(* ===== verification/Traj.thy ===== *)
theory Traj
  imports Loops
begin

text \<open>
  The trapezoid trajectory generator (\<open>core/src/kernel/trajectory.rs\<close>): goal steps shaped into speed- and
  acceleration-limited profiles.  Shown here: no step overflows or leaves the ranges, a profile never crosses its goal,
  its speed changes by at most one acceleration step per tick until it lands, and it lands.
\<close>

definition GOAL_LIM_COUNTS :: int where "GOAL_LIM_COUNTS = 8192"
definition SNAP_D_CQ16 :: int where "SNAP_D_CQ16 = 2 ^ 16"
definition WALL_RAMP_SHIFT :: nat where "WALL_RAMP_SHIFT = 4"

record TrajCfg =
  tc_vel_limit_cps :: u16
  tc_accel_limit_q88 :: u16
  tc_pos_min_soft_counts :: int
  tc_pos_max_soft_counts :: int
  tc_dt_med_q32 :: u32

record TrajGen =
  tj_theta_ref_q16 :: int
  tj_omega_ref_q16 :: int
  tj_alpha_last_q16 :: int

definition TrajGen_new :: TrajGen where
  "TrajGen_new = \<lparr>tj_theta_ref_q16 = 0, tj_omega_ref_q16 = 0, tj_alpha_last_q16 = 0\<rparr>"

definition TrajGen_reseed :: "int \<Rightarrow> TrajGen" where
  "TrajGen_reseed theta_hat =
     \<lparr>tj_theta_ref_q16 = clamp theta_hat (- THETA_LIM_CQ16) THETA_LIM_CQ16, tj_omega_ref_q16 = 0, tj_alpha_last_q16 = 0\<rparr>"

text \<open>The acceleration step and the speed limit a tick works with, the clamped goal, and the travel of one tick.\<close>

definition traj_a :: "TrajCfg \<Rightarrow> int" where
  "traj_a cfg = uint (tc_accel_limit_q88 cfg) * 2 ^ 8"

definition traj_v_lim :: "TrajCfg \<Rightarrow> int" where
  "traj_v_lim cfg = uint (min (tc_vel_limit_cps cfg) VEL_CAP_CPS) * 2 ^ 16"

definition traj_goal :: "TrajCfg \<Rightarrow> int \<Rightarrow> int" where
  "traj_goal cfg goal_counts =
     (let lo = min (tc_pos_min_soft_counts cfg) (tc_pos_max_soft_counts cfg);
          hi = max (tc_pos_max_soft_counts cfg) (tc_pos_min_soft_counts cfg)
      in shl32 (clamp (clamp goal_counts lo hi) (- GOAL_LIM_COUNTS) GOAL_LIM_COUNTS) 16)"

definition tick_travel :: "TrajCfg \<Rightarrow> int \<Rightarrow> int" where
  "tick_travel cfg v = q_mul v (wrap32 (uint (tc_dt_med_q32 cfg))) 32"

text \<open>\<open>x as u32\<close>.\<close>

definition as_u32 :: "int \<Rightarrow> int" where
  "as_u32 x = x mod 2 ^ 32"

text \<open>The speed along the goal direction for the next tick.\<close>

definition profile_speed :: "TrajCfg \<Rightarrow> int \<Rightarrow> int \<Rightarrow> int option" where
  "profile_speed cfg v d_abs =
     (let a = traj_a cfg; v_lim = traj_v_lim cfg
      in if v < 0 then do { s \<leftarrow> chk32 (v + a); Some (min s v_lim) }
         else do { m \<leftarrow> chk32 (v_lim - v);
                   dv \<leftarrow> chk_clamp m (- a) a;
                   v_up \<leftarrow> chk32 (v + dv);
                   let vt = as_u32 (tick_travel cfg v_up)
                   in do { s \<leftarrow> chku32 (as_u32 v_up + as_u32 a);
                           a2 \<leftarrow> chku32 (2 * as_u32 a);
                           if wide_ge s vt a2 d_abs then do { w \<leftarrow> chk32 (v - a); Some (max w 0) } else Some v_up } })"

definition neg32 :: "bool \<Rightarrow> int \<Rightarrow> int option" where
  "neg32 neg x = (if neg then chk32 (- x) else Some x)"

definition TrajGen_step_position :: "TrajGen \<Rightarrow> int \<Rightarrow> TrajCfg \<Rightarrow> TrajGen option" where
  "TrajGen_step_position t goal_counts cfg =
     (let a = traj_a cfg; goal = traj_goal cfg goal_counts
      in do { d \<leftarrow> chk32 (goal - tj_theta_ref_q16 t);
              let d_abs = \<bar>d\<bar>; dir_pos = (d \<ge> 0); prev = tj_omega_ref_q16 t
              in do { v \<leftarrow> neg32 (\<not> dir_pos) prev;
                      v_next \<leftarrow> profile_speed cfg v d_abs;
                      omega \<leftarrow> neg32 (\<not> dir_pos) v_next;
                      mag \<leftarrow> neg32 (omega < 0) omega;
                      let step_mag = tick_travel cfg mag;
                          toward = (if omega > 0 then d \<ge> 0 else if omega < 0 then d \<le> 0 else True);
                          land = (toward \<and> as_u32 step_mag \<ge> d_abs \<or> \<bar>omega\<bar> \<le> as_u32 a \<and> d_abs < SNAP_D_CQ16)
                      in if land
                         then Some \<lparr>tj_theta_ref_q16 = goal, tj_omega_ref_q16 = 0, tj_alpha_last_q16 = sat32 (- prev)\<rparr>
                         else do { travel \<leftarrow> neg32 (omega < 0) step_mag;
                                   th \<leftarrow> chk32 (tj_theta_ref_q16 t + travel);
                                   Some \<lparr>tj_theta_ref_q16 = clamp th (- THETA_LIM_CQ16) THETA_LIM_CQ16,
                                         tj_omega_ref_q16 = omega, tj_alpha_last_q16 = sat32 (omega - prev)\<rparr> } } })"

definition TrajGen_step_velocity :: "TrajGen \<Rightarrow> int \<Rightarrow> int \<Rightarrow> TrajCfg \<Rightarrow> TrajGen option" where
  "TrajGen_step_velocity t goal_velocity_cps theta_hat cfg =
     (let a = traj_a cfg;
          v_cap = uint (min (tc_vel_limit_cps cfg) VEL_CAP_CPS);
          th = asr theta_hat 16;
          lo = min (tc_pos_min_soft_counts cfg) (tc_pos_max_soft_counts cfg);
          hi = max (tc_pos_max_soft_counts cfg) (tc_pos_min_soft_counts cfg);
          cap = asr (uint VEL_CAP_CPS) WALL_RAMP_SHIFT;
          allow_up = shl32 (clamp (sat32 (hi - th)) 0 cap) WALL_RAMP_SHIFT;
          allow_dn = shl32 (clamp (sat32 (th - lo)) 0 cap) WALL_RAMP_SHIFT
      in do { g \<leftarrow> chk_clamp goal_velocity_cps (- v_cap) v_cap;
              n \<leftarrow> chk32 (- allow_dn);
              g \<leftarrow> chk_clamp g n allow_up;
              let goal = shl32 g 16; prev = tj_omega_ref_q16 t
              in do { dv \<leftarrow> chk_clamp (sat32 (goal - prev)) (- a) a;
                      omega \<leftarrow> chk32 (prev + dv);
                      mag \<leftarrow> neg32 (omega < 0) omega;
                      let step_mag = tick_travel cfg mag
                      in do { travel \<leftarrow> neg32 (omega < 0) step_mag;
                              th \<leftarrow> chk32 (tj_theta_ref_q16 t + travel);
                              al \<leftarrow> chk32 (omega - prev);
                              Some \<lparr>tj_theta_ref_q16 = clamp th (- THETA_LIM_CQ16) THETA_LIM_CQ16,
                                    tj_omega_ref_q16 = omega, tj_alpha_last_q16 = al\<rparr> } } })"

section \<open>Ranges\<close>

definition traj_ok :: "TrajGen \<Rightarrow> bool" where
  "traj_ok t \<longleftrightarrow> \<bar>tj_theta_ref_q16 t\<bar> \<le> THETA_LIM_CQ16 \<and> \<bar>tj_omega_ref_q16 t\<bar> \<le> OMEGA_LIM_CSQ16 \<and> i32_ok (tj_alpha_last_q16 t)"

definition dt_ok :: "TrajCfg \<Rightarrow> bool" where
  "dt_ok cfg \<longleftrightarrow> uint (tc_dt_med_q32 cfg) < 2 ^ 31"

lemma traj_a_bounds: "0 \<le> traj_a cfg" "traj_a cfg \<le> 16776960" "as_u32 (traj_a cfg) = traj_a cfg"
  using u16_range [of "tc_accel_limit_q88 cfg"] by (simp_all add: traj_a_def as_u32_def)

lemma traj_v_lim_bounds: "0 \<le> traj_v_lim cfg" "traj_v_lim cfg \<le> 2147418112"
proof -
  have "min (tc_vel_limit_cps cfg) VEL_CAP_CPS \<le> 32767" by (simp add: VEL_CAP_CPS_def)
  then have "uint (min (tc_vel_limit_cps cfg) VEL_CAP_CPS) \<le> 32767" by (simp add: word_le_def)
  then show "0 \<le> traj_v_lim cfg" "traj_v_lim cfg \<le> 2147418112" by (simp_all add: traj_v_lim_def)
qed

lemma traj_goal_bounds: "\<bar>traj_goal cfg g\<bar> \<le> 536870912"
proof -
  have "\<bar>shl32 (clamp x (- GOAL_LIM_COUNTS) GOAL_LIM_COUNTS) 16\<bar> \<le> 536870912" for x
  proof -
    define y where "y = clamp x (- GOAL_LIM_COUNTS) GOAL_LIM_COUNTS"
    have "\<bar>y\<bar> \<le> GOAL_LIM_COUNTS" unfolding y_def by (rule clamp_sym) (simp add: GOAL_LIM_COUNTS_def)
    then have y: "- 8192 \<le> y" "y \<le> 8192" by (simp_all add: GOAL_LIM_COUNTS_def)
    then have "wrap32 (y * 65536) = y * 65536" by (intro wrap32_id i32_okI) simp_all
    then have "shl32 y 16 = y * 65536" by (simp add: shl32_def)
    then show ?thesis using y by (simp flip: y_def)
  qed
  then show ?thesis by (simp add: traj_goal_def Let_def)
qed

lemma tick_travel_eq:
  assumes "dt_ok cfg" "0 \<le> v" "v \<le> 2147483647"
  shows "tick_travel cfg v = v * uint (tc_dt_med_q32 cfg) div 2 ^ 32" "0 \<le> tick_travel cfg v" "tick_travel cfg v < 1073741824"
    "as_u32 (tick_travel cfg v) = tick_travel cfg v"
proof -
  define dt where "dt = uint (tc_dt_med_q32 cfg)"
  have dt: "0 \<le> dt" "dt \<le> 2147483647" using assms(1) by (simp_all add: dt_def dt_ok_def)
  have w: "wrap32 dt = dt" using dt by (intro wrap32_id i32_okI) simp_all
  have "v * dt \<le> 2147483647 * 2147483647" using assms dt by (intro mult_mono) simp_all
  moreover have "0 \<le> v * dt" using assms dt by simp
  ultimately have p: "0 \<le> v * dt" "v * dt \<le> 2147483647 * 2147483647" by simp_all
  have "q_mul v dt 32 = asr (v * dt) 32" using p by (intro q_mul_exact) simp_all
  then have e: "tick_travel cfg v = asr (v * dt) 32" by (simp add: tick_travel_def flip: dt_def) (simp add: w)
  then show "tick_travel cfg v = v * uint (tc_dt_med_q32 cfg) div 2 ^ 32" by (simp add: asr_def dt_def)
  show b: "0 \<le> tick_travel cfg v" "tick_travel cfg v < 1073741824" unfolding e using p by (auto intro!: asr_ge asr_less)
  then show "as_u32 (tick_travel cfg v) = tick_travel cfg v" by (simp add: as_u32_def)
qed

lemma profile_speed_cases:
  assumes "dt_ok cfg" "\<bar>v\<bar> \<le> 2147418112"
  shows "if v < 0 then profile_speed cfg v D = Some (min (v + traj_a cfg) (traj_v_lim cfg))
    else let u = v + clamp (traj_v_lim cfg - v) (- traj_a cfg) (traj_a cfg)
         in 0 \<le> u \<and> u \<le> 2147418112 \<and> profile_speed cfg v D =
           Some (if (u + traj_a cfg) * tick_travel cfg u \<ge> 2 * traj_a cfg * D then max (v - traj_a cfg) 0 else u)"
proof -
  define a vl where "a = traj_a cfg" and "vl = traj_v_lim cfg"
  have a: "0 \<le> a" "a \<le> 16776960" "as_u32 a = a" using traj_a_bounds by (simp_all add: a_def)
  have vl: "0 \<le> vl" "vl \<le> 2147418112" using traj_v_lim_bounds by (simp_all add: vl_def)
  show ?thesis
  proof (cases "v < 0")
    case True
    then have "i32_ok (v + a)" using assms(2) a by (auto intro!: i32_okI)
    then show ?thesis using True by (simp add: profile_speed_def Let_def flip: a_def vl_def)
  next
    case False
    define u where "u = v + clamp (vl - v) (- a) a"
    have u: "0 \<le> u" "u \<le> 2147418112" using False assms(2) a vl by (auto simp: u_def clamp_def)
    have c: "i32_ok (vl - v)" "i32_ok u" "i32_ok (v - a)" using False assms(2) a vl u by (auto intro!: i32_okI)
    have "as_u32 u = u" using u by (simp add: as_u32_def)
    moreover have "u32_ok (u + a)" "u32_ok (2 * a)" using u a by (auto intro!: u32_okI)
    ultimately show ?thesis using False u c a(1) tick_travel_eq(4) [OF assms(1) u(1)]
      unfolding profile_speed_def a_def [symmetric] vl_def [symmetric] Let_def a(3) by (simp add: wide_ge_def flip: u_def)
  qed
qed

text \<open>The tick in goal coordinates: the distance to the goal and the speed toward it (negative: moving away).\<close>

definition goal_dist :: "TrajGen \<Rightarrow> int \<Rightarrow> int" where
  "goal_dist t G = \<bar>G - tj_theta_ref_q16 t\<bar>"

definition goal_speed :: "TrajGen \<Rightarrow> int \<Rightarrow> int" where
  "goal_speed t G = (if G \<ge> tj_theta_ref_q16 t then tj_omega_ref_q16 t else - tj_omega_ref_q16 t)"

definition speed_next :: "TrajCfg \<Rightarrow> int \<Rightarrow> int \<Rightarrow> int" where
  "speed_next cfg v D =
     (if v < 0 then min (v + traj_a cfg) (traj_v_lim cfg)
      else let u = v + clamp (traj_v_lim cfg - v) (- traj_a cfg) (traj_a cfg)
           in if (u + traj_a cfg) * tick_travel cfg u \<ge> 2 * traj_a cfg * D then max (v - traj_a cfg) 0 else u)"

definition lands :: "TrajCfg \<Rightarrow> int \<Rightarrow> int \<Rightarrow> bool" where
  "lands cfg w D \<longleftrightarrow> (w \<ge> 0 \<or> D = 0) \<and> tick_travel cfg \<bar>w\<bar> \<ge> D \<or> \<bar>w\<bar> \<le> traj_a cfg \<and> D < SNAP_D_CQ16"

lemma profile_speed_next:
  assumes "dt_ok cfg" "\<bar>v\<bar> \<le> 2147418112"
  shows "profile_speed cfg v D = Some (speed_next cfg v D)" "\<bar>speed_next cfg v D\<bar> \<le> 2147418112"
    "\<bar>speed_next cfg v D - v\<bar> \<le> traj_a cfg"
proof -
  show "profile_speed cfg v D = Some (speed_next cfg v D)"
    using profile_speed_cases [OF assms, of D] by (simp add: speed_next_def Let_def split: if_splits)
  show "\<bar>speed_next cfg v D\<bar> \<le> 2147418112"
    using assms(2) traj_a_bounds [of cfg] traj_v_lim_bounds [of cfg] by (auto simp: speed_next_def Let_def clamp_def)
  show "\<bar>speed_next cfg v D - v\<bar> \<le> traj_a cfg"
    using assms(2) traj_a_bounds [of cfg] traj_v_lim_bounds [of cfg] by (auto simp: speed_next_def Let_def clamp_def)
qed

lemma neg32_simps [simp]: "neg32 False x = Some x" "- 2147483647 \<le> x \<Longrightarrow> x \<le> 2147483647 \<Longrightarrow> neg32 True x = Some (- x)"
  by (auto simp: neg32_def intro!: i32_okI)

lemma neg32_abs: "- 2147483647 \<le> x \<Longrightarrow> x \<le> 2147483647 \<Longrightarrow> neg32 (x < 0) x = Some \<bar>x\<bar>"
  by (cases "x < 0") simp_all

lemma neg32_signed: "0 \<le> m \<Longrightarrow> m \<le> 2147483647 \<Longrightarrow> neg32 (x < 0) m = Some (if x < 0 then - m else m)"
  by (cases "x < 0") simp_all

lemma step_position_norm:
  fixes t :: TrajGen and goal :: int and cfg :: TrajCfg
  assumes ok: "dt_ok cfg" "traj_ok t"
  defines "G \<equiv> traj_goal cfg goal" and "D \<equiv> goal_dist t (traj_goal cfg goal)" and "v \<equiv> goal_speed t (traj_goal cfg goal)"
  defines "w \<equiv> speed_next cfg v D"
  defines "om \<equiv> (if G \<ge> tj_theta_ref_q16 t then w else - w)"
  shows "TrajGen_step_position t goal cfg = Some
    (if lands cfg w D then \<lparr>tj_theta_ref_q16 = G, tj_omega_ref_q16 = 0, tj_alpha_last_q16 = sat32 (- tj_omega_ref_q16 t)\<rparr>
     else \<lparr>tj_theta_ref_q16 = clamp (tj_theta_ref_q16 t + (if om < 0 then - tick_travel cfg \<bar>w\<bar> else tick_travel cfg \<bar>w\<bar>)) (- THETA_LIM_CQ16) THETA_LIM_CQ16,
           tj_omega_ref_q16 = om, tj_alpha_last_q16 = sat32 (om - tj_omega_ref_q16 t)\<rparr>)"
proof -
  define th where "th = tj_theta_ref_q16 t"
  define prev where "prev = tj_omega_ref_q16 t"
  have th: "\<bar>th\<bar> \<le> 536870912" and prev: "\<bar>prev\<bar> \<le> 2147418112"
    using ok(2) by (simp_all add: traj_ok_def th_def prev_def THETA_LIM_CQ16_def OMEGA_LIM_CSQ16_def)
  have G: "\<bar>G\<bar> \<le> 536870912" unfolding G_def by (rule traj_goal_bounds)
  have d: "chk32 (G - th) = Some (G - th)" using th G by (simp add: i32_okI)
  have v: "neg32 (\<not> G - th \<ge> 0) prev = Some v" and vb: "\<bar>v\<bar> \<le> 2147418112"
    using prev by (auto simp: v_def goal_speed_def simp flip: G_def th_def prev_def)
  have w: "profile_speed cfg v \<bar>G - th\<bar> = Some w" "\<bar>w\<bar> \<le> 2147418112"
    using profile_speed_next [OF ok(1) vb, of D] by (simp_all add: w_def D_def goal_dist_def th_def G_def)
  have om: "neg32 (\<not> G - th \<ge> 0) w = Some om" "\<bar>om\<bar> = \<bar>w\<bar>" using w(2) by (auto simp: om_def th_def)
  have mag: "neg32 (om < 0) om = Some \<bar>w\<bar>" using om(2) w(2) by (subst neg32_abs) auto
  define tr where "tr = tick_travel cfg \<bar>w\<bar>"
  have tr: "0 \<le> tr" "tr < 1073741824" "as_u32 tr = tr"
    using tick_travel_eq [OF ok(1), of "\<bar>w\<bar>"] w(2) by (simp_all add: tr_def)
  have trv: "neg32 (om < 0) tr = Some (if om < 0 then - tr else tr)" using tr by (intro neg32_signed) simp_all
  have sum: "chk32 (th + (if om < 0 then - tr else tr)) = Some (th + (if om < 0 then - tr else tr))"
    using tr th by (simp add: i32_okI)
  have D: "D = \<bar>G - th\<bar>" by (simp add: D_def goal_dist_def G_def th_def)
  have "(if om > 0 then G - th \<ge> 0 else if om < 0 then G - th \<le> 0 else True) \<longleftrightarrow> w \<ge> 0 \<or> D = 0"
    by (auto simp: om_def D th_def)
  then have land: "((if om > 0 then G - th \<ge> 0 else if om < 0 then G - th \<le> 0 else True) \<and> as_u32 tr \<ge> \<bar>G - th\<bar> \<or>
      \<bar>om\<bar> \<le> as_u32 (traj_a cfg) \<and> \<bar>G - th\<bar> < SNAP_D_CQ16) \<longleftrightarrow> lands cfg w D"
    unfolding lands_def om(2) traj_a_bounds(3) tr(3) tr_def [symmetric] D [symmetric] by simp
  show ?thesis
    unfolding TrajGen_step_position_def Let_def G_def [symmetric] th_def [symmetric] prev_def [symmetric]
    by (simp only: d v w(1) om(1) mag bind.simps flip: tr_def) (use sum in \<open>simp only: land trv bind.simps split: if_split\<close>, simp)
qed

lemma clamp_between: "lo \<le> x \<Longrightarrow> x \<le> hi \<Longrightarrow> lo \<le> y \<Longrightarrow> y \<le> hi \<Longrightarrow> min x y \<le> z \<Longrightarrow> z \<le> max x y \<Longrightarrow> clamp z lo hi = z"
  by (simp add: clamp_def min_def max_def split: if_splits)

lemma sat32_step: "\<bar>x\<bar> \<le> 2147418112 \<Longrightarrow> \<bar>y - x\<bar> \<le> a \<Longrightarrow> a \<le> 16776960 \<Longrightarrow> sat32 (y - x) = y - x"
  by (intro sat32_id i32_okI) auto

lemma step_position_tick:
  fixes t :: TrajGen and goal :: int and cfg :: TrajCfg
  assumes ok: "dt_ok cfg" "traj_ok t"
  defines "G \<equiv> traj_goal cfg goal"
  defines "w \<equiv> speed_next cfg (goal_speed t G) (goal_dist t G)"
  obtains t' where "TrajGen_step_position t goal cfg = Some t'" "traj_ok t'"
    "lands cfg w (goal_dist t G) \<longleftrightarrow> tj_theta_ref_q16 t' = G \<and> tj_omega_ref_q16 t' = 0"
    "\<not> lands cfg w (goal_dist t G) \<Longrightarrow> tj_alpha_last_q16 t' = tj_omega_ref_q16 t' - tj_omega_ref_q16 t \<and> \<bar>tj_alpha_last_q16 t'\<bar> \<le> traj_a cfg"
    "\<not> lands cfg w (goal_dist t G) \<Longrightarrow> w \<ge> 0 \<Longrightarrow> goal_dist t' G = goal_dist t G - tick_travel cfg w \<and> goal_dist t' G > 0 \<and> goal_speed t' G = w"
    "\<not> lands cfg w (goal_dist t G) \<Longrightarrow> w < 0 \<Longrightarrow> goal_speed t' G = w"
    "w \<ge> 0 \<Longrightarrow> min (tj_theta_ref_q16 t) G \<le> tj_theta_ref_q16 t' \<and> tj_theta_ref_q16 t' \<le> max (tj_theta_ref_q16 t) G"
proof -
  define th where "th = tj_theta_ref_q16 t"
  define v D where "v = goal_speed t G" and "D = goal_dist t G"
  define om where "om = (if G \<ge> th then w else - w)"
  define tr where "tr = tick_travel cfg \<bar>w\<bar>"
  define L where "L = lands cfg w D"
  define t' where "t' = (if L then \<lparr>tj_theta_ref_q16 = G, tj_omega_ref_q16 = 0, tj_alpha_last_q16 = sat32 (- tj_omega_ref_q16 t)\<rparr>
     else \<lparr>tj_theta_ref_q16 = clamp (th + (if om < 0 then - tr else tr)) (- 536870912) 536870912,
           tj_omega_ref_q16 = om, tj_alpha_last_q16 = sat32 (om - tj_omega_ref_q16 t)\<rparr>)"
  have st: "TrajGen_step_position t goal cfg = Some t'"
    using step_position_norm [OF ok, of goal]
    by (simp add: t'_def L_def w_def D_def G_def om_def th_def tr_def THETA_LIM_CQ16_def)
  have th: "- 536870912 \<le> th" "th \<le> 536870912" and prev: "\<bar>tj_omega_ref_q16 t\<bar> \<le> 2147418112"
    using ok(2) by (auto simp: traj_ok_def th_def THETA_LIM_CQ16_def OMEGA_LIM_CSQ16_def)
  have G: "- 536870912 \<le> G" "G \<le> 536870912" using traj_goal_bounds [of cfg goal] by (auto simp: G_def)
  have vb: "\<bar>v\<bar> \<le> 2147418112" using prev by (simp add: v_def goal_speed_def)
  have w: "\<bar>w\<bar> \<le> 2147418112" "\<bar>w - v\<bar> \<le> traj_a cfg"
    using profile_speed_next [OF ok(1) vb, of D] by (simp_all add: w_def v_def D_def)
  have tr: "0 \<le> tr" using tick_travel_eq [OF ok(1), of "\<bar>w\<bar>"] w(1) by (simp add: tr_def)
  have omb: "\<bar>om\<bar> \<le> 2147418112" "\<bar>om - tj_omega_ref_q16 t\<bar> \<le> traj_a cfg"
    using w by (auto simp: om_def v_def goal_speed_def th_def split: if_splits)
  have Dd: "D = \<bar>G - th\<bar>" by (simp add: D_def goal_dist_def th_def)
  have fwd: "tr < D" if "\<not> L" "w \<ge> 0" using that by (simp add: L_def lands_def tr_def)
  have D0: "D > 0" if "\<not> L" using that tr by (auto simp: L_def lands_def Dd simp flip: tr_def)
  have mv: "tj_theta_ref_q16 t' = (if G \<ge> th then th + tr else th - tr)" if "\<not> L" "w \<ge> 0"
  proof -
    have "w = 0 \<Longrightarrow> tr = 0" using tick_travel_eq(1) [OF ok(1), of 0] by (simp add: tr_def)
    then have e: "th + (if om < 0 then - tr else tr) = (if G \<ge> th then th + tr else th - tr)"
      using that(2) by (auto simp: om_def)
    have "clamp (if G \<ge> th then th + tr else th - tr) (- 536870912) 536870912 = (if G \<ge> th then th + tr else th - tr)"
      using fwd [OF that] tr by (intro clamp_between [OF th G]) (auto simp: Dd)
    then show ?thesis using that(1) by (simp add: t'_def e)
  qed
  have al: "tj_alpha_last_q16 t' = om - tj_omega_ref_q16 t" if "\<not> L"
    using that sat32_step [OF prev omb(2)] traj_a_bounds(2) [of cfg] by (simp add: t'_def)
  show ?thesis
  proof (rule that [OF st])
    show "traj_ok t'"
      using omb G clamp_bounds [of "- 536870912" 536870912 "th + (if om < 0 then - tr else tr)"]
      by (auto simp: traj_ok_def t'_def THETA_LIM_CQ16_def OMEGA_LIM_CSQ16_def)
    have "tj_theta_ref_q16 t' \<noteq> G \<or> tj_omega_ref_q16 t' \<noteq> 0" if "\<not> L"
      using mv [OF that] fwd [OF that] that tr by (auto simp: t'_def om_def Dd split: if_splits)
    then show "lands cfg w (goal_dist t G) \<longleftrightarrow> tj_theta_ref_q16 t' = G \<and> tj_omega_ref_q16 t' = 0"
      by (auto simp: t'_def simp flip: L_def D_def)
    show "tj_alpha_last_q16 t' = tj_omega_ref_q16 t' - tj_omega_ref_q16 t \<and> \<bar>tj_alpha_last_q16 t'\<bar> \<le> traj_a cfg"
      if "\<not> lands cfg w (goal_dist t G)"
    proof -
      have "\<not> L" using that by (simp add: L_def D_def)
      then show ?thesis using al omb(2) by (simp add: t'_def)
    qed
    show "goal_dist t' G = goal_dist t G - tick_travel cfg w \<and> goal_dist t' G > 0 \<and> goal_speed t' G = w"
      if "\<not> lands cfg w (goal_dist t G)" "w \<ge> 0"
    proof -
      have n: "\<not> L" using that by (simp add: L_def D_def)
      have "tj_omega_ref_q16 t' = om" using n by (simp add: t'_def)
      then show ?thesis using mv [OF n that(2)] fwd [OF n that(2)] tr that(2) Dd
        by (auto simp: goal_dist_def goal_speed_def om_def tr_def th_def)
    qed
    show "goal_speed t' G = w" if "\<not> lands cfg w (goal_dist t G)" "w < 0"
    proof -
      have n: "\<not> L" using that by (simp add: L_def D_def)
      have "(G \<ge> tj_theta_ref_q16 t') = (G \<ge> th)"
        using n that(2) D0 [OF n] tr th G by (auto simp: t'_def om_def clamp_def Dd)
      then show ?thesis using n by (simp add: t'_def goal_speed_def om_def)
    qed
    show "min (tj_theta_ref_q16 t) G \<le> tj_theta_ref_q16 t' \<and> tj_theta_ref_q16 t' \<le> max (tj_theta_ref_q16 t) G" if "w \<ge> 0"
      using mv [OF _ that] fwd [OF _ that] tr by (cases L) (auto simp: t'_def Dd simp flip: th_def)
  qed
qed

section \<open>A profile lands\<close>

primrec traj_run :: "nat \<Rightarrow> TrajGen \<Rightarrow> int \<Rightarrow> TrajCfg \<Rightarrow> TrajGen option" where
  "traj_run 0 t goal cfg = Some t"
| "traj_run (Suc n) t goal cfg = do { t \<leftarrow> TrajGen_step_position t goal cfg; traj_run n t goal cfg }"

text \<open>
  The configurations a profile needs to end: at the rate of the medium loop one acceleration step travels less than a
  whole count (the assumption of the terminal snap), and the first tick of a profile moves at all.
\<close>

definition profile_cfg :: "TrajCfg \<Rightarrow> bool" where
  "profile_cfg cfg \<longleftrightarrow> uint (tc_dt_med_q32 cfg) \<le> 2 ^ 24 \<and> 1 \<le> tick_travel cfg (min (traj_a cfg) (traj_v_lim cfg))"

lemma profile_cfg_dt: "profile_cfg cfg \<Longrightarrow> dt_ok cfg"
  by (simp add: profile_cfg_def dt_ok_def)

lemma tick_travel_mono: "dt_ok cfg \<Longrightarrow> 0 \<le> v \<Longrightarrow> v \<le> w \<Longrightarrow> w \<le> 2147483647 \<Longrightarrow> tick_travel cfg v \<le> tick_travel cfg w"
  by (simp add: tick_travel_eq(1) zdiv_mono1 mult_right_mono)

lemma tick_travel_a: "profile_cfg cfg \<Longrightarrow> tick_travel cfg (traj_a cfg) < 65536"
proof -
  assume c: "profile_cfg cfg"
  have "traj_a cfg * uint (tc_dt_med_q32 cfg) \<le> 16776960 * 16777216"
    using c traj_a_bounds [of cfg] by (intro mult_mono) (simp_all add: profile_cfg_def)
  then have "traj_a cfg * uint (tc_dt_med_q32 cfg) div 2 ^ 32 \<le> 16776960 * 16777216 div 2 ^ 32" by (intro zdiv_mono1) simp_all
  then show ?thesis using traj_a_bounds [of cfg] by (simp add: tick_travel_eq(1) [OF profile_cfg_dt [OF c]])
qed

lemma profile_progress:
  assumes c: "profile_cfg cfg" and v: "0 \<le> v" "v \<le> 2147418112" and n: "\<not> lands cfg (speed_next cfg v D) D"
  shows "0 \<le> speed_next cfg v D" "0 < tick_travel cfg (speed_next cfg v D) \<or> speed_next cfg v D < v"
proof -
  define a vl where "a = traj_a cfg" and "vl = traj_v_lim cfg"
  define m where "m = min a vl"
  define u where "u = v + clamp (vl - v) (- a) a"
  have dt: "dt_ok cfg" by (rule profile_cfg_dt [OF c])
  have m1: "1 \<le> tick_travel cfg m" using c by (simp add: profile_cfg_def m_def a_def vl_def)
  have ab: "0 \<le> a" "a \<le> 16776960" and vl: "0 \<le> vl" "vl \<le> 2147418112"
    using traj_a_bounds traj_v_lim_bounds by (simp_all add: a_def vl_def)
  have "a \<noteq> 0" using m1 tick_travel_eq(1) [OF dt, of 0] vl by (auto simp: m_def)
  then have a: "0 < a" using ab by simp
  have u: "m \<le> u" "u \<le> 2147418112" "0 \<le> u" using v ab vl by (auto simp: u_def m_def clamp_def)
  have tm: "tick_travel cfg m \<le> tick_travel cfg u" using u vl ab by (intro tick_travel_mono [OF dt]) (auto simp: m_def)
  define brake where "brake \<longleftrightarrow> (u + a) * tick_travel cfg u \<ge> 2 * a * D"
  have s: "speed_next cfg v D = (if brake then max (v - a) 0 else u)"
    using v by (simp add: speed_next_def brake_def u_def a_def vl_def Let_def)
  show "0 \<le> speed_next cfg v D" using s u by simp
  have "v \<noteq> 0" if br: "brake"
  proof
    assume v0: "v = 0"
    have um: "u = m" using v0 vl ab by (auto simp: u_def m_def clamp_def)
    have ta: "tick_travel cfg m \<le> tick_travel cfg a" using ab vl by (intro tick_travel_mono [OF dt]) (auto simp: m_def)
    have "(m + a) * tick_travel cfg m \<le> 2 * a * tick_travel cfg a"
      using ab m1 ta by (intro mult_mono) (auto simp: m_def)
    then have "2 * a * D \<le> 2 * a * tick_travel cfg a" using br by (simp add: brake_def um)
    then have "D \<le> tick_travel cfg a" using a by simp
    then have "D < SNAP_D_CQ16" using tick_travel_a [OF c] by (simp add: SNAP_D_CQ16_def a_def)
    moreover have "speed_next cfg v D = 0" using s br v0 ab by simp
    ultimately show False using n ab(1) by (simp add: lands_def flip: a_def)
  qed
  then show "0 < tick_travel cfg (speed_next cfg v D) \<or> speed_next cfg v D < v"
    using s m1 tm a v by (cases brake) auto
qed

lemma goal_speed_range: "traj_ok t \<Longrightarrow> \<bar>goal_speed t G\<bar> \<le> 2147418112"
  by (simp add: goal_speed_def traj_ok_def OMEGA_LIM_CSQ16_def)

definition rests :: "TrajGen \<Rightarrow> int \<Rightarrow> bool" where
  "rests t G \<longleftrightarrow> tj_theta_ref_q16 t = G \<and> tj_omega_ref_q16 t = 0"

lemma profile_lands_toward:
  assumes c: "profile_cfg cfg"
  shows "traj_ok t \<Longrightarrow> 0 \<le> goal_speed t (traj_goal cfg goal) \<Longrightarrow>
    (\<exists>n t'. traj_run n t goal cfg = Some t' \<and> traj_ok t' \<and> rests t' (traj_goal cfg goal))"
proof (induction "(nat (goal_dist t (traj_goal cfg goal)), nat (goal_speed t (traj_goal cfg goal)))" arbitrary: t
    rule: wf_induct_rule [OF wf_lex_prod [OF wf_less_than wf_less_than]])
  case (1 t)
  define G D v where "G = traj_goal cfg goal" and "D = goal_dist t G" and "v = goal_speed t G"
  define w where "w = speed_next cfg v D"
  note gd = G_def [symmetric]
  have dt: "dt_ok cfg" by (rule profile_cfg_dt [OF c])
  have v: "0 \<le> v" "v \<le> 2147418112" using 1(3) goal_speed_range [OF 1(2)] by (simp_all add: v_def G_def abs_le_iff)
  obtain t' where t': "TrajGen_step_position t goal cfg = Some t'" "traj_ok t'"
    "lands cfg w D \<longleftrightarrow> rests t' G"
    "\<not> lands cfg w D \<Longrightarrow> w \<ge> 0 \<Longrightarrow> goal_dist t' G = D - tick_travel cfg w \<and> goal_dist t' G > 0 \<and> goal_speed t' G = w"
    using step_position_tick [OF dt 1(2), of goal thesis] unfolding gd D_def [symmetric] v_def [symmetric] w_def [symmetric] rests_def
    by blast
  show ?case
  proof (cases "lands cfg w D")
    case True
    then have "traj_run 1 t goal cfg = Some t'" "rests t' G" using t' by simp_all
    then show ?thesis using t'(2) unfolding gd by blast
  next
    case False
    have w: "0 \<le> w" "0 < tick_travel cfg w \<or> w < v"
      using profile_progress [OF c v] False by (simp_all add: w_def)
    have tr: "0 \<le> tick_travel cfg w" using w v tick_travel_eq(2) [OF dt, of w] profile_speed_next(2) [OF dt, of v D]
      by (simp add: w_def)
    have e: "goal_dist t' G = D - tick_travel cfg w" "goal_dist t' G > 0" "goal_speed t' G = w" using t'(4) False w by simp_all
    have "((nat (goal_dist t' G), nat (goal_speed t' G)), nat D, nat v) \<in> less_than <*lex*> less_than"
      using e w tr by auto
    then obtain n t'' where "traj_run n t' goal cfg = Some t''" "traj_ok t''" "rests t'' G"
      using 1(1) [of t'] t'(2) e(3) w(1) unfolding gd D_def v_def by auto
    then have "traj_run (Suc n) t goal cfg = Some t''" using t'(1) by simp
    then show ?thesis using \<open>traj_ok t''\<close> \<open>rests t'' G\<close> unfolding gd by blast
  qed
qed

lemma profile_lands_away:
  assumes c: "profile_cfg cfg"
  shows "traj_ok t \<Longrightarrow> \<exists>n t'. traj_run n t goal cfg = Some t' \<and> traj_ok t' \<and> rests t' (traj_goal cfg goal)"
proof (induction "nat (- goal_speed t (traj_goal cfg goal))" arbitrary: t rule: less_induct)
  case (less t)
  define G D v where "G = traj_goal cfg goal" and "D = goal_dist t G" and "v = goal_speed t G"
  define w where "w = speed_next cfg v D"
  note gd = G_def [symmetric]
  have dt: "dt_ok cfg" by (rule profile_cfg_dt [OF c])
  show ?case
  proof (cases "0 \<le> v")
    case True
    then show ?thesis using profile_lands_toward [OF c less(2)] by (simp add: v_def G_def)
  next
    case False
    obtain t' where t': "TrajGen_step_position t goal cfg = Some t'" "traj_ok t'" "lands cfg w D \<longleftrightarrow> rests t' G"
      "\<not> lands cfg w D \<Longrightarrow> w \<ge> 0 \<Longrightarrow> goal_speed t' G = w" "\<not> lands cfg w D \<Longrightarrow> w < 0 \<Longrightarrow> goal_speed t' G = w"
      using step_position_tick [OF dt less(2), of goal thesis] unfolding gd D_def [symmetric] v_def [symmetric] w_def [symmetric] rests_def
      by blast
    have "1 \<le> tick_travel cfg (min (traj_a cfg) (traj_v_lim cfg))" using c by (simp add: profile_cfg_def)
    then have "traj_a cfg \<noteq> 0" using tick_travel_eq(1) [OF dt, of 0] traj_v_lim_bounds(1) [of cfg] by auto
    then have w: "v < w" using False traj_a_bounds(1) [of cfg] traj_v_lim_bounds(1) [of cfg] by (simp add: w_def speed_next_def)
    have "\<exists>n t''. traj_run n t' goal cfg = Some t'' \<and> traj_ok t'' \<and> rests t'' G"
    proof (cases "lands cfg w D")
      case True
      then show ?thesis using t'(2,3) by (intro exI [of _ 0]) auto
    next
      case n: False
      then have "goal_speed t' G = w" using t'(4,5) by (cases "w \<ge> 0") simp_all
      then show ?thesis using less(1) [of t'] w False t'(2) by (simp add: v_def G_def)
    qed
    then obtain n t'' where "traj_run n t' goal cfg = Some t''" "traj_ok t''" "rests t'' G" by blast
    then have "traj_run (Suc n) t goal cfg = Some t''" using t'(1) by simp
    then show ?thesis using \<open>traj_ok t''\<close> \<open>rests t'' G\<close> unfolding gd by blast
  qed
qed

lemma rests_stays:
  assumes "dt_ok cfg" "traj_ok t" "rests t (traj_goal cfg goal)"
  shows "\<exists>t'. traj_run n t goal cfg = Some t' \<and> rests t' (traj_goal cfg goal)"
  using assms(2,3)
proof (induction n arbitrary: t)
  case (Suc n)
  define G where "G = traj_goal cfg goal"
  have D: "goal_dist t G = 0" "goal_speed t G = 0" using Suc.prems(2) by (simp_all add: rests_def goal_dist_def goal_speed_def G_def)
  have z: "speed_next cfg 0 0 = 0" "lands cfg (speed_next cfg 0 0) 0"
    using traj_a_bounds(1) [of cfg] tick_travel_eq(2) [OF assms(1)] traj_v_lim_bounds [of cfg]
    by (auto simp: speed_next_def Let_def clamp_def lands_def)
  obtain t' where "TrajGen_step_position t goal cfg = Some t'" "traj_ok t'" "rests t' G"
    using step_position_tick [OF assms(1) Suc.prems(1), of goal thesis] z(2) unfolding G_def [symmetric] D rests_def by blast
  then show ?case using Suc.IH [of t'] by (simp add: G_def)
qed simp

lemma traj_run_add: "traj_run (m + n) t goal cfg = do { t \<leftarrow> traj_run m t goal cfg; traj_run n t goal cfg }"
  by (induction m arbitrary: t) (auto split: bind_splits)

text \<open>Property C19: a position profile ends.  From every state in range (moving away from the goal at full speed included) a
  bounded number of ticks brings the reference onto the clamped goal with zero speed, and it stays there; no tick
  overflows on the way.
\<close>

theorem profile_lands:
  assumes "profile_cfg cfg" "traj_ok t"
  shows "\<exists>n. \<forall>k. \<exists>t'. traj_run (n + k) t goal cfg = Some t' \<and> tj_theta_ref_q16 t' = traj_goal cfg goal \<and> tj_omega_ref_q16 t' = 0"
proof -
  obtain n t' where n: "traj_run n t goal cfg = Some t'" "traj_ok t'" "rests t' (traj_goal cfg goal)"
    using profile_lands_away [OF assms] by blast
  have "\<exists>t''. traj_run (n + k) t goal cfg = Some t'' \<and> rests t'' (traj_goal cfg goal)" for k
    using rests_stays [OF profile_cfg_dt [OF assms(1)] n(2,3), of k] by (simp add: traj_run_add n(1))
  then show ?thesis by (auto simp: rests_def)
qed

theorem profile_lands_witness:
  "\<exists>n. \<forall>k. \<exists>t'. traj_run (n + k) \<lparr>tj_theta_ref_q16 = 0, tj_omega_ref_q16 = - 6553600, tj_alpha_last_q16 = 0\<rparr> 300
     \<lparr>tc_vel_limit_cps = 1500, tc_accel_limit_q88 = 3840, tc_pos_min_soft_counts = 100, tc_pos_max_soft_counts = 4000,
      tc_dt_med_q32 = 2147483\<rparr> = Some t' \<and> tj_theta_ref_q16 t' = 19660800 \<and> tj_omega_ref_q16 t' = 0"
proof -
  let ?c = "\<lparr>tc_vel_limit_cps = 1500, tc_accel_limit_q88 = 3840, tc_pos_min_soft_counts = 100, tc_pos_max_soft_counts = 4000,
      tc_dt_med_q32 = 2147483\<rparr>"
  let ?t = "\<lparr>tj_theta_ref_q16 = 0, tj_omega_ref_q16 = - 6553600, tj_alpha_last_q16 = 0\<rparr>"
  have "profile_cfg ?c" by code_simp
  moreover have "traj_ok ?t" by code_simp
  moreover have "traj_goal ?c 300 = 19660800" by code_simp
  ultimately show ?thesis using profile_lands [of ?c ?t 300] by simp
qed



section \<open>Velocity mode\<close>

lemma shl32_small: "- 2147483648 \<le> x * 2 ^ k \<Longrightarrow> x * 2 ^ k < 2147483648 \<Longrightarrow> shl32 x k = x * 2 ^ k"
  by (simp add: shl32_def i32_okI)

lemma slew_range:
  fixes prev goal a :: int
  assumes "\<bar>prev\<bar> \<le> 2147418112" "\<bar>goal\<bar> \<le> 2147418112" "0 \<le> a"
  shows "\<bar>prev + clamp (sat32 (goal - prev)) (- a) a\<bar> \<le> 2147418112" "\<bar>clamp (sat32 (goal - prev)) (- a) a\<bar> \<le> a"
  using assms by (auto simp: sat32_def clamp_def)

lemma step_velocity_ok:
  assumes ok: "dt_ok cfg" "traj_ok t"
  shows "\<exists>t'. TrajGen_step_velocity t goal theta_hat cfg = Some t' \<and> traj_ok t' \<and>
    \<bar>tj_omega_ref_q16 t' - tj_omega_ref_q16 t\<bar> \<le> traj_a cfg"
proof -
  define a th prev where "a = traj_a cfg" and "th = tj_theta_ref_q16 t" and "prev = tj_omega_ref_q16 t"
  define v_cap where "v_cap = uint (min (tc_vel_limit_cps cfg) VEL_CAP_CPS)"
  define cap where "cap = asr (uint VEL_CAP_CPS) WALL_RAMP_SHIFT"
  have capv: "cap = 2047" by (simp add: cap_def asr_def VEL_CAP_CPS_def WALL_RAMP_SHIFT_def)
  define up dn where "up = shl32 (clamp (sat32 (max (tc_pos_max_soft_counts cfg) (tc_pos_min_soft_counts cfg) - asr theta_hat 16)) 0 cap) WALL_RAMP_SHIFT"
    and "dn = shl32 (clamp (sat32 (asr theta_hat 16 - min (tc_pos_min_soft_counts cfg) (tc_pos_max_soft_counts cfg))) 0 cap) WALL_RAMP_SHIFT"
  have al: "0 \<le> shl32 (clamp x 0 cap) WALL_RAMP_SHIFT \<and> shl32 (clamp x 0 cap) WALL_RAMP_SHIFT \<le> 32752" for x
  proof -
    have b: "0 \<le> clamp x 0 cap \<and> clamp x 0 cap \<le> 2047" using clamp_bounds [of 0 cap x] by (simp add: capv)
    then have "shl32 (clamp x 0 cap) WALL_RAMP_SHIFT = clamp x 0 cap * 16" by (subst shl32_small) (auto simp: WALL_RAMP_SHIFT_def)
    then show ?thesis using b by simp
  qed
  have up: "0 \<le> up" "up \<le> 32752" and dn: "0 \<le> dn" "dn \<le> 32752" using al by (simp_all add: up_def dn_def)
  have vc: "0 \<le> v_cap" by (simp add: v_cap_def)
  define g where "g = clamp (clamp goal (- v_cap) v_cap) (- dn) up"
  have g: "- 32752 \<le> g" "g \<le> 32752" using clamp_bounds [of "- dn" up "clamp goal (- v_cap) v_cap"] up dn by (simp_all add: g_def)
  have gs: "shl32 g 16 = g * 65536" "\<bar>g * 65536\<bar> \<le> 2147418112" using g by (auto simp: shl32_small)
  have a: "0 \<le> a" "a \<le> 16776960" using traj_a_bounds by (simp_all add: a_def)
  have th: "\<bar>th\<bar> \<le> 536870912" and prev: "\<bar>prev\<bar> \<le> 2147418112"
    using ok(2) by (simp_all add: traj_ok_def th_def prev_def THETA_LIM_CQ16_def OMEGA_LIM_CSQ16_def)
  define om where "om = prev + clamp (sat32 (g * 65536 - prev)) (- a) a"
  have om: "\<bar>om\<bar> \<le> 2147418112" "\<bar>om - prev\<bar> \<le> a" using slew_range [OF prev gs(2) a(1)] by (simp_all add: om_def)
  define tr where "tr = tick_travel cfg \<bar>om\<bar>"
  have tr: "0 \<le> tr" "tr < 1073741824" using tick_travel_eq [OF ok(1), of "\<bar>om\<bar>"] om by (simp_all add: tr_def)
  have c: "chk32 (- dn) = Some (- dn)" "chk32 om = Some om" "chk32 (om - prev) = Some (om - prev)"
    "neg32 (om < 0) om = Some \<bar>om\<bar>" "neg32 (om < 0) tr = Some (if om < 0 then - tr else tr)"
    "chk32 (th + (if om < 0 then - tr else tr)) = Some (th + (if om < 0 then - tr else tr))"
    using dn om a tr th by (auto simp: neg32_signed neg32_abs intro!: i32_okI)
  have cc: "chk_clamp goal (- v_cap) v_cap = Some (clamp goal (- v_cap) v_cap)"
    "chk_clamp (clamp goal (- v_cap) v_cap) (- dn) up = Some g"
    "chk_clamp (sat32 (g * 65536 - prev)) (- a) a = Some (clamp (sat32 (g * 65536 - prev)) (- a) a)"
    using vc up dn a by (simp_all add: g_def)
  have "TrajGen_step_velocity t goal theta_hat cfg = Some \<lparr>tj_theta_ref_q16 = clamp (th + (if om < 0 then - tr else tr)) (- THETA_LIM_CQ16) THETA_LIM_CQ16,
      tj_omega_ref_q16 = om, tj_alpha_last_q16 = om - prev\<rparr>"
    unfolding TrajGen_step_velocity_def Let_def a_def [symmetric] v_cap_def [symmetric] cap_def [symmetric]
      up_def [symmetric] dn_def [symmetric] th_def [symmetric] prev_def [symmetric]
    by (simp only: cc c gs bind.simps flip: om_def) (simp only: c bind.simps flip: tr_def)
  moreover have "\<bar>clamp x (- THETA_LIM_CQ16) THETA_LIM_CQ16\<bar> \<le> THETA_LIM_CQ16" for x
    by (rule clamp_sym) (simp add: THETA_LIM_CQ16_def)
  moreover have "i32_ok (om - prev)" using om a by (auto intro!: i32_okI)
  ultimately show ?thesis using om by (simp add: traj_ok_def OMEGA_LIM_CSQ16_def prev_def a_def)
qed

end
