(* ===== verification/Regions.thy ===== *)
theory Regions
  imports Persist Traj
begin

text \<open>
  The register table's blocks (\<open>core/src/regions/\<close>): one record per \<open>repr(C)\<close> block the control kernel reads, its image in
  the byte table, and the boot-time seeds.  An enum or bool byte outside its discriminants is undefined behaviour in the
  code; here it makes the read \<open>None\<close>, and the register map's rules are what rules it out.  Shown here: the seeded table
  satisfies the map's rules, and with them every block reads.
\<close>

section \<open>Fields\<close>

definition rd_u8 :: "bytes \<Rightarrow> nat \<Rightarrow> u8" where
  "rd_u8 t a = t ! a"

definition rd_u16 :: "bytes \<Rightarrow> nat \<Rightarrow> u16" where
  "rd_u16 t a = from_le16 (t ! a) (t ! (a + 1))"

definition rd_i16 :: "bytes \<Rightarrow> nat \<Rightarrow> int" where
  "rd_i16 t a = sint (rd_u16 t a)"

definition rd_i32 :: "bytes \<Rightarrow> nat \<Rightarrow> int" where
  "rd_i32 t a = sint (from_le32 (t ! a) (t ! (a + 1)) (t ! (a + 2)) (t ! (a + 3)))"

definition rd_bool :: "bytes \<Rightarrow> nat \<Rightarrow> bool option" where
  "rd_bool t a = (if t ! a = 0 then Some False else if t ! a = 1 then Some True else None)"

definition le_i16 :: "int \<Rightarrow> bytes" where
  "le_i16 x = to_le16 (word_of_int x)"

definition le_i32 :: "int \<Rightarrow> bytes" where
  "le_i32 x = to_le32 (word_of_int x)"

fun store_writes :: "bytes \<Rightarrow> (nat \<times> bytes) list \<Rightarrow> bytes option" where
  "store_writes t [] = Some t"
| "store_writes t ((a, bs) # ws) = do { t \<leftarrow> raw_write t a bs; store_writes t ws }"

section \<open>CONTROL\<close>

datatype Mode = Mode_OpenLoop | Mode_Current | Mode_Velocity | Mode_Position

definition Mode_as_u8 :: "Mode \<Rightarrow> u8" where
  "Mode_as_u8 m = (case m of Mode_OpenLoop \<Rightarrow> 0 | Mode_Current \<Rightarrow> 1 | Mode_Velocity \<Rightarrow> 2 | Mode_Position \<Rightarrow> 3)"

definition Mode_of_u8 :: "u8 \<Rightarrow> Mode option" where
  "Mode_of_u8 b = (if b = 0 then Some Mode_OpenLoop else if b = 1 then Some Mode_Current
     else if b = 2 then Some Mode_Velocity else if b = 3 then Some Mode_Position else None)"

record ControlLifecycle =
  cl_torque_enable :: bool
  cl_tel_enable :: bool
  cl_tel_mask :: u16
  cl_mode :: Mode
  cl_goal_duty :: int
  cl_goal_position :: int
  cl_goal_velocity :: int
  cl_goal_current :: int

definition ControlLifecycle_read :: "bytes \<Rightarrow> ControlLifecycle option" where
  "ControlLifecycle_read t =
     do { te \<leftarrow> rd_bool t 0x180; tel \<leftarrow> rd_bool t 0x181; m \<leftarrow> Mode_of_u8 (rd_u8 t 0x184);
          Some \<lparr>cl_torque_enable = te, cl_tel_enable = tel, cl_tel_mask = rd_u16 t 0x182, cl_mode = m,
                cl_goal_duty = rd_i16 t 0x186, cl_goal_position = rd_i32 t 0x188, cl_goal_velocity = rd_i32 t 0x18C,
                cl_goal_current = rd_i16 t 0x190\<rparr> }"

section \<open>CONFIG\<close>

datatype DecaySelect = DecaySelect_Slow | DecaySelect_Fast

definition StallResponse_of_u8 :: "u8 \<Rightarrow> StallResponse option" where
  "StallResponse_of_u8 b = (if b = 0 then Some StallResponse_Fault else if b = 1 then Some StallResponse_Yield else None)"

definition DecaySelect_of_u8 :: "u8 \<Rightarrow> DecaySelect option" where
  "DecaySelect_of_u8 b = (if b = 0 then Some DecaySelect_Slow else if b = 1 then Some DecaySelect_Fast else None)"

record ConfigPosLimits =
  pl_pos_min_phys_counts :: int
  pl_pos_max_phys_counts :: int
  pl_pos_min_soft_counts :: int
  pl_pos_max_soft_counts :: int

definition ConfigPosLimits_read :: "bytes \<Rightarrow> ConfigPosLimits" where
  "ConfigPosLimits_read t = \<lparr>pl_pos_min_phys_counts = rd_i32 t 0x20, pl_pos_max_phys_counts = rd_i32 t 0x24,
     pl_pos_min_soft_counts = rd_i32 t 0x28, pl_pos_max_soft_counts = rd_i32 t 0x2C\<rparr>"

record ConfigLoopCurrent =
  lcu_i_kp_q88 :: u16
  lcu_i_ki_q412 :: u16
  lcu_i_kaw_q412 :: u16
  lcu_duty_max_q15 :: u16

definition ConfigLoopCurrent_read :: "bytes \<Rightarrow> ConfigLoopCurrent" where
  "ConfigLoopCurrent_read t = \<lparr>lcu_i_kp_q88 = rd_u16 t 0x30, lcu_i_ki_q412 = rd_u16 t 0x32, lcu_i_kaw_q412 = rd_u16 t 0x34,
     lcu_duty_max_q15 = rd_u16 t 0x36\<rparr>"

record ConfigLoopVelocity =
  lve_v_kp_q88 :: u16
  lve_v_ki_q412 :: u16
  lve_v_kaw_q412 :: u16
  lve_j_ff_q88 :: u16

definition ConfigLoopVelocity_read :: "bytes \<Rightarrow> ConfigLoopVelocity" where
  "ConfigLoopVelocity_read t = \<lparr>lve_v_kp_q88 = rd_u16 t 0x38, lve_v_ki_q412 = rd_u16 t 0x3A, lve_v_kaw_q412 = rd_u16 t 0x3C,
     lve_j_ff_q88 = rd_u16 t 0x3E\<rparr>"

record ConfigLoopPosition =
  lpo_p_kp_q88 :: u16
  lpo_pos_deadband_counts :: u16
  lpo_velocity_limit_cps :: u16
  lpo_accel_limit_q88 :: u16

definition ConfigLoopPosition_read :: "bytes \<Rightarrow> ConfigLoopPosition" where
  "ConfigLoopPosition_read t = \<lparr>lpo_p_kp_q88 = rd_u16 t 0x40, lpo_pos_deadband_counts = rd_u16 t 0x42,
     lpo_velocity_limit_cps = rd_u16 t 0x44, lpo_accel_limit_q88 = rd_u16 t 0x46\<rparr>"

record ConfigLimits =
  cli_current_limit_counts :: u16
  cli_stall_response :: StallResponse
  cli_drive_polarity :: bool
  cli_stall_omega_max_cps :: u16
  cli_stall_time_ms :: u16
  cli_stall_yield_counts :: u16
  cli_stall_release_counts :: u16
  cli_stall_tau_trip_counts :: u16
  cli_oc_trip_counts :: u16
  cli_oc_trip_ticks :: u8
  cli_openloop_decay :: DecaySelect

definition ConfigLimits_read :: "bytes \<Rightarrow> ConfigLimits option" where
  "ConfigLimits_read t =
     do { sr \<leftarrow> StallResponse_of_u8 (rd_u8 t 0x4A); dp \<leftarrow> rd_bool t 0x4B; od \<leftarrow> DecaySelect_of_u8 (rd_u8 t 0x59);
          Some \<lparr>cli_current_limit_counts = rd_u16 t 0x48, cli_stall_response = sr, cli_drive_polarity = dp,
                cli_stall_omega_max_cps = rd_u16 t 0x4C, cli_stall_time_ms = rd_u16 t 0x4E, cli_stall_yield_counts = rd_u16 t 0x50,
                cli_stall_release_counts = rd_u16 t 0x52, cli_stall_tau_trip_counts = rd_u16 t 0x54, cli_oc_trip_counts = rd_u16 t 0x56,
                cli_oc_trip_ticks = rd_u8 t 0x58, cli_openloop_decay = od\<rparr> }"

record ConfigThermal =
  cth_derate_start_cc :: int
  cth_cutoff_cc :: int
  cth_recover_cc :: int
  cth_v_undervolt_counts :: u16
  cth_rtherm_i_min_counts :: u16
  cth_rtherm_omega_max_cps :: u16

definition ConfigThermal_read :: "bytes \<Rightarrow> ConfigThermal" where
  "ConfigThermal_read t = \<lparr>cth_derate_start_cc = rd_i16 t 0x5A, cth_cutoff_cc = rd_i16 t 0x5C, cth_recover_cc = rd_i16 t 0x5E,
     cth_v_undervolt_counts = rd_u16 t 0x60, cth_rtherm_i_min_counts = rd_u16 t 0x62, cth_rtherm_omega_max_cps = rd_u16 t 0x64\<rparr>"

record ConfigFusion =
  cfu_l1_q016 :: u16
  cfu_l2_q88 :: u16
  cfu_l3_q88 :: u16
  cfu_l_bemf_q016 :: u16

definition ConfigFusion_read :: "bytes \<Rightarrow> ConfigFusion" where
  "ConfigFusion_read t = \<lparr>cfu_l1_q016 = rd_u16 t 0x66, cfu_l2_q88 = rd_u16 t 0x68, cfu_l3_q88 = rd_u16 t 0x6A,
     cfu_l_bemf_q016 = rd_u16 t 0x6C\<rparr>"

record ConfigFaultCfg =
  cfa_pos_error_counts :: u16
  cfa_pos_error_time_ms :: u16
  cfa_sensor_delta_max :: u16
  cfa_sensor_bad_count :: u8

definition ConfigFaultCfg_read :: "bytes \<Rightarrow> ConfigFaultCfg" where
  "ConfigFaultCfg_read t = \<lparr>cfa_pos_error_counts = rd_u16 t 0x6E, cfa_pos_error_time_ms = rd_u16 t 0x70,
     cfa_sensor_delta_max = rd_u16 t 0x72, cfa_sensor_bad_count = rd_u8 t 0x74\<rparr>"

section \<open>CALIB\<close>

record CalibSense =
  cse_shunt_r_mohm :: u16
  cse_gain_milli :: u16
  cse_vmotor_div_top :: u16
  cse_vmotor_div_bot :: u16
  cse_vdd_mv :: u16
  cse_tick_hz :: u16
  cse_i_window_min_ticks :: u16
  cse_v_window_min_ticks :: u16

definition CalibSense_read :: "bytes \<Rightarrow> CalibSense" where
  "CalibSense_read t = \<lparr>cse_shunt_r_mohm = rd_u16 t 0xF2, cse_gain_milli = rd_u16 t 0xF4, cse_vmotor_div_top = rd_u16 t 0xF6,
     cse_vmotor_div_bot = rd_u16 t 0xF8, cse_vdd_mv = rd_u16 t 0xFA, cse_tick_hz = rd_u16 t 0xFC,
     cse_i_window_min_ticks = rd_u16 t 0xFE, cse_v_window_min_ticks = rd_u16 t 0x100\<rparr>"

record CalibWinding =
  cwi_r0_q12 :: u16
  cwi_t0_cc :: int
  cwi_k_r2t_q88 :: u16
  cwi_mu_q016 :: u16

definition CalibWinding_read :: "bytes \<Rightarrow> CalibWinding" where
  "CalibWinding_read t = \<lparr>cwi_r0_q12 = rd_u16 t 0x102, cwi_t0_cc = rd_i16 t 0x104, cwi_k_r2t_q88 = rd_u16 t 0x106,
     cwi_mu_q016 = rd_u16 t 0x108\<rparr>"

record CalibMotor =
  cmo_ke_uvs_per_rad :: u16
  cmo_r_q12 :: u16
  cmo_recip_ke_q :: u16
  cmo_b_i_q313 :: u16
  cmo_fric_fc_counts :: u16
  cmo_fric_fv_q016 :: u16
  cmo_fric_breakaway_counts :: u16
  cmo_ke_vpc_q :: u16

definition CalibMotor_read :: "bytes \<Rightarrow> CalibMotor" where
  "CalibMotor_read t = \<lparr>cmo_ke_uvs_per_rad = rd_u16 t 0x10A, cmo_r_q12 = rd_u16 t 0x10C, cmo_recip_ke_q = rd_u16 t 0x10E,
     cmo_b_i_q313 = rd_u16 t 0x110, cmo_fric_fc_counts = rd_u16 t 0x112, cmo_fric_fv_q016 = rd_u16 t 0x114,
     cmo_fric_breakaway_counts = rd_u16 t 0x116, cmo_ke_vpc_q = rd_u16 t 0x118\<rparr>"

section \<open>Boot seeds\<close>

definition FIRMWARE_VERSION_ID :: u8 where "FIRMWARE_VERSION_ID = 1"

record ConfigDefaults =
  cd_pos_min_phys_counts :: int
  cd_pos_max_phys_counts :: int
  cd_id :: u8
  cd_baud_idx :: u8
  cd_response_deadline_us :: u16

definition seed_config_defaults :: "bytes \<Rightarrow> ConfigDefaults \<Rightarrow> bytes option" where
  "seed_config_defaults t d = store_writes t
     [(0x20, le_i32 (cd_pos_min_phys_counts d)), (0x24, le_i32 (cd_pos_max_phys_counts d)),
      (0x28, le_i32 (cd_pos_min_phys_counts d)), (0x2C, le_i32 (cd_pos_max_phys_counts d)),
      (0x10, [cd_id d]), (0x11, [cd_baud_idx d]), (0x12, to_le16 (cd_response_deadline_us d)),
      (0x36, to_le16 32767), (0x44, to_le16 1500), (0x46, to_le16 3840), (0x42, to_le16 12),
      (0x48, to_le16 1200), (0x4B, [1]), (0x4C, to_le16 500), (0x4E, to_le16 500), (0x50, to_le16 300),
      (0x52, to_le16 150), (0x54, to_le16 1200), (0x56, to_le16 2400), (0x58, [8]),
      (0x5A, le_i16 8000), (0x5C, le_i16 10000), (0x5E, le_i16 9000), (0x60, to_le16 2200), (0x62, to_le16 300),
      (0x64, to_le16 400), (0x6E, to_le16 400), (0x70, to_le16 500), (0x72, to_le16 256), (0x74, [4])]"

definition seed_identity :: "bytes \<Rightarrow> u16 \<Rightarrow> u8 \<Rightarrow> bytes option" where
  "seed_identity t model hw_rev = store_writes t [(0x00, to_le16 model), (0x03, [hw_rev]), (0x02, [FIRMWARE_VERSION_ID])]"

definition seed_calib_sense :: "bytes \<Rightarrow> CalibSense \<Rightarrow> bytes option" where
  "seed_calib_sense t s = store_writes t
     [(0xF2, to_le16 (cse_shunt_r_mohm s)), (0xF4, to_le16 (cse_gain_milli s)), (0xF6, to_le16 (cse_vmotor_div_top s)),
      (0xF8, to_le16 (cse_vmotor_div_bot s)), (0xFA, to_le16 (cse_vdd_mv s)), (0xFC, to_le16 (cse_tick_hz s)),
      (0xFE, to_le16 (cse_i_window_min_ticks s)), (0x100, to_le16 (cse_v_window_min_ticks s))]"

definition seed_current_bias :: "bytes \<Rightarrow> u16 \<Rightarrow> bytes option" where
  "seed_current_bias t counts = store_writes t [(0x252, to_le16 counts)]"

end
