(* ===== verification/Kernel.thy ===== *)
theory Kernel
  imports Regions
begin

text \<open>
  The assembled control kernel (\<open>core/src/kernel/mod.rs\<close>): one \<open>on_tick\<close> per PWM period carrying the fast, medium and slow
  rates.  The register blocks a tick reads are one argument: the transport may rewrite the table between two of the
  kernel's volatile reads, so nothing is assumed about how the blocks of one tick relate.  A tick returns the kernel, the
  telemetry stores it made in order, the sample it streamed, and the motor command; \<open>None\<close> is an overflow or a panic.
  The theorems about it are in \<open>KernelSafe\<close>.
\<close>

definition DECIM_MED :: u8 where "DECIM_MED = 10"
definition DECIM_SLOW :: u8 where "DECIM_SLOW = 32"

record KernelTiming =
  kt_pwm_arr :: u16
  kt_recip_arr_q24 :: u32
  kt_tick_hz :: u16
  kt_dt_med_q32 :: u32
  kt_med_ticks_per_ms_q16 :: u32

datatype MotorCmd = MotorCmd_Disabled | MotorCmd_Coast | MotorCmd_Brake | MotorCmd_Drive int DecayMode

record TelSample =
  ts_pos :: u16
  ts_current :: int
  ts_current_trough :: u16
  ts_duty_q15 :: int
  ts_vdiff :: int
  ts_vbus :: u16
  ts_window_valid :: bool

text \<open>The blocks read by volatile copies.\<close>

record Regs =
  rg_life :: ControlLifecycle
  rg_loop_cur :: ConfigLoopCurrent
  rg_lim_cfg :: ConfigLimits
  rg_therm_cfg :: ConfigThermal
  rg_sense :: CalibSense
  rg_motor_cal :: CalibMotor
  rg_bias :: u16
  rg_loop_vel :: ConfigLoopVelocity
  rg_loop_pos :: ConfigLoopPosition
  rg_fus_cfg :: ConfigFusion
  rg_fault_cfg :: ConfigFaultCfg
  rg_pos_lim :: ConfigPosLimits
  rg_winding :: CalibWinding

definition Regs_read :: "bytes \<Rightarrow> Regs option" where
  "Regs_read t =
     do { life \<leftarrow> ControlLifecycle_read t; lim_cfg \<leftarrow> ConfigLimits_read t;
          Some \<lparr>rg_life = life, rg_loop_cur = ConfigLoopCurrent_read t, rg_lim_cfg = lim_cfg, rg_therm_cfg = ConfigThermal_read t,
                rg_sense = CalibSense_read t, rg_motor_cal = CalibMotor_read t, rg_bias = rd_u16 t 0x252,
                rg_loop_vel = ConfigLoopVelocity_read t, rg_loop_pos = ConfigLoopPosition_read t, rg_fus_cfg = ConfigFusion_read t,
                rg_fault_cfg = ConfigFaultCfg_read t, rg_pos_lim = ConfigPosLimits_read t, rg_winding = CalibWinding_read t\<rparr> }"

record Kernel =
  k_timing :: KernelTiming
  k_decim_med :: u8
  k_decim_slow :: u8
  k_vcal_lpf :: VcalLpf
  k_traj :: TrajGen
  k_fusion :: FusionObs
  k_cur :: CurrentLoop
  k_vel :: VelocityLoop
  k_limits :: LimitState
  k_i_band :: IBand
  k_vbus :: VbusEst
  k_thermal :: WindingTherm
  k_bemf :: BemfObs
  k_faults :: FaultLatch
  k_det :: Detectors
  k_booted :: bool
  k_te_prev :: bool
  k_run_prev :: bool
  k_mode_prev :: Mode
  k_i_ref_cc :: int
  k_omega_ref_q16 :: int
  k_hold :: bool
  k_duty_q15 :: int
  k_decay :: DecayMode
  k_i_meas_last :: int
  k_ident :: IdentAgg
  k_vdiff_last :: int
  k_stall_time_ticks :: u32
  k_pos_error_time_ticks :: u32
  k_therm_r0 :: u16

definition Kernel_with_tel :: "KernelTiming \<Rightarrow> Kernel" where
  "Kernel_with_tel timing =
     \<lparr>k_timing = timing, k_decim_med = DECIM_MED - 1, k_decim_slow = DECIM_SLOW - 1, k_vcal_lpf = VcalLpf_new,
      k_traj = TrajGen_new, k_fusion = FusionObs_new, k_cur = CurrentLoop_new, k_vel = VelocityLoop_new,
      k_limits = LimitState_new, k_i_band = \<lparr>ib_lo = 0, ib_hi = 0\<rparr>, k_vbus = VbusEst_new, k_thermal = WindingTherm_new,
      k_bemf = BemfObs_new, k_faults = FaultLatch_new, k_det = Detectors_new, k_booted = False, k_te_prev = False,
      k_run_prev = False, k_mode_prev = Mode_OpenLoop, k_i_ref_cc = 0, k_omega_ref_q16 = 0, k_hold = False,
      k_duty_q15 = 0, k_decay = DecayMode_Slow, k_i_meas_last = 0, k_ident = IdentAgg_new, k_vdiff_last = 0,
      k_stall_time_ticks = - 1, k_pos_error_time_ticks = - 1, k_therm_r0 = 0\<rparr>"

section \<open>The fast path\<close>

definition kernel_raise :: "bool \<Rightarrow> u8 \<Rightarrow> u8 \<Rightarrow> Kernel \<Rightarrow> Kernel" where
  "kernel_raise c b code k = (if c then k\<lparr>k_faults := FaultLatch_raise (k_faults k) b code\<rparr> else k)"

text \<open>What this tick's frame measured, through the window the previous command drove.\<close>

record TickView =
  tv_ticks :: int
  tv_fwd :: bool
  tv_sel :: WindowSel
  tv_i_meas :: "int option"

definition tick_view :: "Kernel \<Rightarrow> SensorFrame \<Rightarrow> Regs \<Rightarrow> TickView" where
  "tick_view k frame rg =
     (let ticks = drive_ticks (k_duty_q15 k) (kt_pwm_arr (k_timing k));
          fwd = (k_duty_q15 k \<ge> 0);
          sel = window_select (k_decay k) ticks (cse_i_window_min_ticks (rg_sense rg)) (cse_v_window_min_ticks (rg_sense rg))
      in \<lparr>tv_ticks = ticks, tv_fwd = fwd, tv_sel = sel, tv_i_meas = i_from_frame frame sel fwd (rg_bias rg)\<rparr>)"

definition i16_sat :: "int \<Rightarrow> int" where
  "i16_sat x = clamp x (- 32768) 32767"

definition kernel_sense :: "Kernel \<Rightarrow> SensorFrame \<Rightarrow> Regs \<Rightarrow> (Kernel \<times> TickView \<times> (nat \<times> bytes) list) option" where
  "kernel_sense k frame rg =
     (let life = rg_life rg;
          k = (if k_booted k then k else k\<lparr>k_booted := True, k_fusion := FusionObs_seed (sf_pos frame)\<rparr>)
      in do { (lpf, vcal_lpf) \<leftarrow> VcalLpf_update (k_vcal_lpf k) (sf_vcal frame);
              let k = k\<lparr>k_vcal_lpf := lpf\<rparr>;
                  ws = [(0x240, to_le16 (sf_pos frame)), (0x242, to_le16 (sf_current frame)), (0x244, to_le16 (sf_vcal frame)),
                        (0x246, to_le16 vcal_lpf), (0x248, to_le16 (sf_vmotor_a frame)), (0x24A, to_le16 (sf_vmotor_b frame)),
                        (0x250, to_le16 (sf_current_trough frame))];
                  k = (if cl_torque_enable life \<and> \<not> k_te_prev k
                       then k\<lparr>k_faults := FaultLatch_clear (k_faults k), k_det := Detectors_reset (k_det k),
                              k_limits := LimitState_ack (k_limits k)\<rparr>
                       else k);
                  k = k\<lparr>k_te_prev := cl_torque_enable life\<rparr>;
                  v = tick_view k frame rg;
                  k = (case tv_i_meas v of None \<Rightarrow> k | Some i \<Rightarrow> k\<lparr>k_i_meas_last := i16_sat i\<rparr>);
                  oc_over = map_option (\<lambda>i. \<bar>i\<bar> > uint (cli_oc_trip_counts (rg_lim_cfg rg))) (tv_i_meas v);
                  (det, trip) = Detectors_oc_sample (k_det k) oc_over (cli_oc_trip_ticks (rg_lim_cfg rg));
                  k = kernel_raise trip BIT_OVER_CURRENT CODE_OVER_CURRENT (k\<lparr>k_det := det\<rparr>);
                  k = (case vdrive_from_frame frame (tv_sel v) (tv_fwd v) of None \<Rightarrow> k
                       | Some (_, vdiff) \<Rightarrow> k\<lparr>k_vdiff_last := i16_sat vdiff\<rparr>)
              in Some (k, v, ws) })"

definition kernel_tel :: "Kernel \<Rightarrow> SensorFrame \<Rightarrow> Regs \<Rightarrow> TickView \<Rightarrow> (u16 \<times> TelSample) option" where
  "kernel_tel k frame rg v =
     (if cl_tel_enable (rg_life rg) \<and> cl_tel_mask (rg_life rg) \<noteq> 0
      then Some (cl_tel_mask (rg_life rg),
        \<lparr>ts_pos = sf_pos frame, ts_current = k_i_meas_last k, ts_current_trough = sf_current_trough frame,
         ts_duty_q15 = k_duty_q15 k, ts_vdiff = k_vdiff_last k, ts_vbus = VbusEst_vbus_counts (k_vbus k),
         ts_window_valid = (tv_i_meas v \<noteq> None)\<rparr>)
      else None)"

definition kernel_ident :: "Kernel \<Rightarrow> (Kernel \<times> (nat \<times> bytes) list) option" where
  "kernel_ident k =
     do { (a, out) \<leftarrow> IdentAgg_sample (k_ident k) (k_i_meas_last k) (k_vdiff_last k) (k_duty_q15 k);
          Some (k\<lparr>k_ident := a\<rparr>,
            (case out of None \<Rightarrow> []
             | Some agg \<Rightarrow> [(0x254, le_i16 (io_i_mean_counts agg)), (0x256, le_i16 (io_i_min_counts agg)),
                 (0x258, le_i16 (io_i_max_counts agg)), (0x25A, le_i16 (io_vdiff_mean agg)),
                 (0x25C, le_i16 (io_duty_mean_q15 agg)), (0x25E, to_le16 (io_agg_seq agg))])) }"

definition kernel_edges :: "Kernel \<Rightarrow> SensorFrame \<Rightarrow> ControlLifecycle \<Rightarrow> bool \<Rightarrow> Kernel" where
  "kernel_edges k frame life run =
     (let k = (if run \<noteq> k_run_prev k
               then let k = (if run then let f = FusionObs_seed (sf_pos frame)
                                         in k\<lparr>k_fusion := f, k_traj := TrajGen_reseed (fo_theta_q16 f)\<rparr> else k)
                    in k\<lparr>k_cur := CurrentLoop_reset (k_cur k), k_vel := VelocityLoop_reset (k_vel k), k_i_ref_cc := 0,
                         k_omega_ref_q16 := 0, k_hold := False, k_run_prev := run\<rparr>
               else k);
          k = (if run \<and> cl_mode life \<noteq> k_mode_prev k
               then k\<lparr>k_traj := TrajGen_reseed (fo_theta_q16 (k_fusion k)), k_hold := False\<rparr> else k)
      in k\<lparr>k_mode_prev := cl_mode life\<rparr>)"

section \<open>The medium chain\<close>

definition kernel_fusion :: "Kernel \<Rightarrow> SensorFrame \<Rightarrow> Regs \<Rightarrow> TickView \<Rightarrow> Kernel option" where
  "kernel_fusion k frame rg v =
     (let i_use = (case tv_i_meas v of Some i \<Rightarrow> i | None \<Rightarrow> k_i_ref_cc k);
          fg = \<lparr>fg_b_i_q313 = cmo_b_i_q313 (rg_motor_cal rg), fg_l1_q016 = cfu_l1_q016 (rg_fus_cfg rg), fg_l2_q88 = cfu_l2_q88 (rg_fus_cfg rg),
                fg_l3_q88 = cfu_l3_q88 (rg_fus_cfg rg), fg_l_bemf_q016 = cfu_l_bemf_q016 (rg_fus_cfg rg),
                fg_fric_fc_counts = cmo_fric_fc_counts (rg_motor_cal rg)\<rparr>;
          omega_bemf_q16 = shl32 (clamp (BemfObs_omega_cps (k_bemf k)) (- 32767) 32767) 16
      in do { f \<leftarrow> FusionObs_step (k_fusion k) i_use (sf_pos frame) (Some omega_bemf_q16) (kt_dt_med_q32 (k_timing k)) fg;
              Some (k\<lparr>k_fusion := f\<rparr>) })"

definition kernel_traj_cfg :: "Kernel \<Rightarrow> Regs \<Rightarrow> TrajCfg" where
  "kernel_traj_cfg k rg =
     \<lparr>tc_vel_limit_cps = lpo_velocity_limit_cps (rg_loop_pos rg), tc_accel_limit_q88 = lpo_accel_limit_q88 (rg_loop_pos rg),
      tc_pos_min_soft_counts = pl_pos_min_soft_counts (rg_pos_lim rg), tc_pos_max_soft_counts = pl_pos_max_soft_counts (rg_pos_lim rg),
      tc_dt_med_q32 = kt_dt_med_q32 (k_timing k)\<rparr>"

definition kernel_profile :: "Kernel \<Rightarrow> Regs \<Rightarrow> bool \<Rightarrow> Kernel option" where
  "kernel_profile k rg run =
     (let life = rg_life rg; tc = kernel_traj_cfg k rg; theta_hat = fo_theta_q16 (k_fusion k)
      in if \<not> run then Some k
         else case cl_mode life of
           Mode_Position \<Rightarrow>
             do { t \<leftarrow> TrajGen_step_position (k_traj k) (cl_goal_position life) tc;
                  let pc = \<lparr>pc_kp_q88 = lpo_p_kp_q88 (rg_loop_pos rg), pc_pos_deadband_counts = lpo_pos_deadband_counts (rg_loop_pos rg),
                            pc_vel_limit_cps = lpo_velocity_limit_cps (rg_loop_pos rg)\<rparr>;
                      out = position_step (tj_theta_ref_q16 t) (tj_omega_ref_q16 t) theta_hat pc
                  in Some (k\<lparr>k_traj := t, k_omega_ref_q16 := po_omega_ref_q16 out, k_hold := po_hold out\<rparr>) }
         | Mode_Velocity \<Rightarrow>
             do { t \<leftarrow> TrajGen_step_velocity (k_traj k) (cl_goal_velocity life) theta_hat tc;
                  Some (k\<lparr>k_traj := t, k_omega_ref_q16 := tj_omega_ref_q16 t, k_hold := False\<rparr>) }
         | _ \<Rightarrow> Some (k\<lparr>k_hold := False\<rparr>))"

definition kernel_limit_cfg :: "Kernel \<Rightarrow> Regs \<Rightarrow> LimitCfg" where
  "kernel_limit_cfg k rg =
     (let lim = rg_lim_cfg rg; th = rg_therm_cfg rg
      in \<lparr>lc_current_limit_counts = cli_current_limit_counts lim, lc_stall_response = cli_stall_response lim,
          lc_drive_polarity = cli_drive_polarity lim, lc_stall_omega_max_cps = cli_stall_omega_max_cps lim,
          lc_stall_time_ticks = k_stall_time_ticks k, lc_stall_yield_counts = cli_stall_yield_counts lim,
          lc_stall_release_counts = cli_stall_release_counts lim, lc_stall_tau_trip_counts = cli_stall_tau_trip_counts lim,
          lc_derate_start_cc = cth_derate_start_cc th, lc_cutoff_cc = cth_cutoff_cc th,
          lc_pos_min_soft_counts = pl_pos_min_soft_counts (rg_pos_lim rg), lc_pos_max_soft_counts = pl_pos_max_soft_counts (rg_pos_lim rg)\<rparr>)"

definition omega_abs_cps :: "Kernel \<Rightarrow> int" where
  "omega_abs_cps k = asr \<bar>fo_omega_q16 (k_fusion k)\<bar> 16"

definition kernel_limits :: "Kernel \<Rightarrow> Regs \<Rightarrow> bool \<Rightarrow> Kernel" where
  "kernel_limits k rg run =
     (let prev_lim = lm_i_lim (k_limits k);
          pinned = (prev_lim \<noteq> 0 \<and> \<bar>k_i_ref_cc k\<bar> \<ge> uint prev_lim);
          (s, band) = LimitState_fold (k_limits k) pinned (omega_abs_cps k) \<bar>FusionObs_tau_d_counts (k_fusion k)\<bar>
                        (asr (fo_theta_q16 (k_fusion k)) 16) (kernel_limit_cfg k rg);
          k = k\<lparr>k_limits := s, k_i_band := band\<rparr>
      in kernel_raise (run \<and> lm_fault_pending s) BIT_STALL CODE_STALL k)"

definition kernel_velocity :: "Kernel \<Rightarrow> Regs \<Rightarrow> bool \<Rightarrow> Kernel option" where
  "kernel_velocity k rg run =
     (let mode = cl_mode (rg_life rg)
      in if \<not> run then Some k
         else if mode = Mode_Position \<and> k_hold k then Some (k\<lparr>k_i_ref_cc := 0, k_vel := VelocityLoop_reset (k_vel k)\<rparr>)
         else case mode of
           Mode_Current \<Rightarrow> Some k
         | Mode_OpenLoop \<Rightarrow> Some (k\<lparr>k_i_ref_cc := 0\<rparr>)
         | _ \<Rightarrow>
             let vg = \<lparr>vg_kp_q88 = lve_v_kp_q88 (rg_loop_vel rg), vg_ki_q412 = lve_v_ki_q412 (rg_loop_vel rg),
                       vg_kaw_q412 = lve_v_kaw_q412 (rg_loop_vel rg), vg_j_ff_q88 = lve_j_ff_q88 (rg_loop_vel rg),
                       vg_fric_fc_counts = cmo_fric_fc_counts (rg_motor_cal rg), vg_fric_fv_q016 = cmo_fric_fv_q016 (rg_motor_cal rg)\<rparr>
             in do { (s, i_ref) \<leftarrow> VelocityLoop_step (k_vel k) (k_omega_ref_q16 k) (fo_omega_q16 (k_fusion k))
                       (tj_alpha_last_q16 (k_traj k)) (tj_omega_ref_q16 (k_traj k)) (k_i_band k) vg;
                     Some (k\<lparr>k_vel := s, k_i_ref_cc := i_ref\<rparr>) })"

definition kernel_bemf :: "Kernel \<Rightarrow> SensorFrame \<Rightarrow> Regs \<Rightarrow> TickView \<Rightarrow> (Kernel \<times> int option \<times> int) option" where
  "kernel_bemf k frame rg v =
     (let vdrive = vdrive_from_frame frame (tv_sel v) (tv_fwd v)
      in do { vb \<leftarrow> VbusEst_step (k_vbus k) (map_option fst vdrive) (cth_v_undervolt_counts (rg_therm_cfg rg));
              v_mean \<leftarrow> (case vdrive of None \<Rightarrow> Some None
                         | Some (_, vdiff) \<Rightarrow> do { p \<leftarrow> chk32 (wrap32 (tv_ticks v) * vdiff);
                             Some (Some (q_mul p (wrap32 (uint (kt_recip_arr_q24 (k_timing k)))) RECIP_ARR_SHIFT)) });
              (be, omega_bemf) \<leftarrow> BemfObs_step (k_bemf k) v_mean (tv_i_meas v) (cmo_r_q12 (rg_motor_cal rg)) (cmo_recip_ke_q (rg_motor_cal rg));
              Some (k\<lparr>k_vbus := vb, k_bemf := be\<rparr>, v_mean, omega_bemf) })"

definition kernel_detect :: "Kernel \<Rightarrow> SensorFrame \<Rightarrow> Regs \<Rightarrow> bool \<Rightarrow> Kernel" where
  "kernel_detect k frame rg run =
     (let fc = rg_fault_cfg rg;
          (det, bad) = Detectors_sensor_sample (k_det k) (sf_pos frame) (cfa_sensor_delta_max fc) (cfa_sensor_bad_count fc);
          k = kernel_raise bad BIT_SENSOR CODE_SENSOR (k\<lparr>k_det := det\<rparr>);
          over = (run \<and> cl_mode (rg_life rg) = Mode_Position
                  \<and> \<bar>sat32 (tj_theta_ref_q16 (k_traj k) - fo_theta_q16 (k_fusion k))\<bar> > uint (cfa_pos_error_counts fc) * 2 ^ 16);
          (det, trip) = Detectors_pos_err_sample (k_det k) over (k_pos_error_time_ticks k)
      in kernel_raise trip BIT_POSITION_ERROR CODE_POSITION_ERROR (k\<lparr>k_det := det\<rparr>))"

definition kernel_slow :: "Kernel \<Rightarrow> Regs \<Rightarrow> TickView \<Rightarrow> int option \<Rightarrow> LimitCfg \<Rightarrow> Kernel option" where
  "kernel_slow k rg v v_mean lcfg =
     (let th = rg_therm_cfg rg; wind = rg_winding rg; per_ms = uint (kt_med_ticks_per_ms_q16 (k_timing k));
          k = k\<lparr>k_decim_slow := 0,
                k_stall_time_ticks := word_of_int (q_mul_u (uint (cli_stall_time_ms (rg_lim_cfg rg))) per_ms 16),
                k_pos_error_time_ticks := word_of_int (q_mul_u (uint (cfa_pos_error_time_ms (rg_fault_cfg rg))) per_ms 16)\<rparr>;
          k = (if cwi_r0_q12 wind \<noteq> k_therm_r0 k
               then k\<lparr>k_thermal := WindingTherm_seed (k_thermal k) (cwi_r0_q12 wind), k_therm_r0 := cwi_r0_q12 wind\<rparr> else k);
          gates = \<lparr>tg_i_min_counts = cth_rtherm_i_min_counts th, tg_omega_max_cps = cth_rtherm_omega_max_cps th\<rparr>;
          anchor = \<lparr>ta_r0_q12 = cwi_r0_q12 wind, ta_t0_cc = cwi_t0_cc wind, ta_k_r2t_q88 = cwi_k_r2t_q88 wind, ta_mu_q016 = cwi_mu_q016 wind\<rparr>;
          (vm, therm_i) = (case (v_mean, tv_i_meas v) of (Some vv, Some i) \<Rightarrow> (vv, Some i) | _ \<Rightarrow> (0, None))
      in do { (w, t_cc) \<leftarrow> WindingTherm_step (k_thermal k) vm therm_i (omega_abs_cps k) gates anchor;
              lim \<leftarrow> LimitState_update_derate (k_limits k) t_cc lcfg;
              let k = kernel_raise (t_cc \<ge> cth_cutoff_cc th) BIT_OVER_TEMP CODE_OVER_TEMP (k\<lparr>k_thermal := w, k_limits := lim\<rparr>);
                  vb = VbusEst_vbus_counts (k_vbus k);
                  (vbus, fresh) = VbusEst_take_fresh (k_vbus k)
              in Some (kernel_raise (fresh \<and> vb < cth_v_undervolt_counts th) BIT_UNDER_VOLT CODE_UNDER_VOLT (k\<lparr>k_vbus := vbus\<rparr>)) })"

definition kernel_publish :: "Kernel \<Rightarrow> Regs \<Rightarrow> int \<Rightarrow> (nat \<times> bytes) list" where
  "kernel_publish k rg omega_bemf =
     [(0x224, le_i32 (fo_theta_q16 (k_fusion k))), (0x228, le_i32 (fo_omega_q16 (k_fusion k))),
      (0x22C, le_i16 (FusionObs_tau_d_counts (k_fusion k))), (0x22E, to_le16 (lm_i_lim (k_limits k))),
      (0x230, le_i16 (wt_t_cc (k_thermal k))), (0x232, to_le16 (VbusEst_vbus_counts (k_vbus k))),
      (0x234, le_i16 (k_duty_q15 k)), (0x236, le_i16 omega_bemf), (0x238, to_le16 (WindingTherm_r_q12 (k_thermal k))),
      (0x23A, le_i16 (k_i_meas_last k)), (0x220, [Mode_as_u8 (cl_mode (rg_life rg))]), (0x221, [fl_last_code (k_faults k)]),
      (0x200, [fl_mask (k_faults k)])]"

definition u8_inc :: "u8 \<Rightarrow> u8 option" where
  "u8_inc x = (if x = 255 then None else Some (x + 1))"

definition kernel_medium :: "Kernel \<Rightarrow> SensorFrame \<Rightarrow> Regs \<Rightarrow> TickView \<Rightarrow> bool \<Rightarrow> (Kernel \<times> (nat \<times> bytes) list) option" where
  "kernel_medium k frame rg v run =
     do { k \<leftarrow> kernel_fusion k frame rg v;
          k \<leftarrow> kernel_profile k rg run;
          let lcfg = kernel_limit_cfg k rg; k = kernel_limits k rg run
          in do { k \<leftarrow> kernel_velocity k rg run;
                  (k, v_mean, omega_bemf) \<leftarrow> kernel_bemf k frame rg v;
                  let k = kernel_detect k frame rg run
                  in do { n \<leftarrow> u8_inc (k_decim_slow k);
                          let k = k\<lparr>k_decim_slow := n\<rparr>
                          in do { k \<leftarrow> (if n \<ge> DECIM_SLOW then kernel_slow k rg v v_mean lcfg else Some k);
                                  Some (k, kernel_publish k rg omega_bemf) } } } }"

section \<open>The command\<close>

definition kernel_drive :: "Kernel \<Rightarrow> Regs \<Rightarrow> TickView \<Rightarrow> bool \<Rightarrow> (Kernel \<times> MotorCmd) option" where
  "kernel_drive k rg v run =
     (let life = rg_life rg; lc = rg_loop_cur rg
      in if \<not> run then Some (k\<lparr>k_duty_q15 := 0\<rparr>, MotorCmd_Disabled)
         else if cl_mode life = Mode_OpenLoop
         then let mx = uint (min (lcu_duty_max_q15 lc) 32767);
                  decay = (case cli_openloop_decay (rg_lim_cfg rg) of DecaySelect_Slow \<Rightarrow> DecayMode_Slow | DecaySelect_Fast \<Rightarrow> DecayMode_Fast)
              in do { duty \<leftarrow> chk_clamp (cl_goal_duty life) (- mx) mx;
                      Some (k\<lparr>k_duty_q15 := duty, k_decay := decay\<rparr>, MotorCmd_Drive duty decay) }
         else
           do { k \<leftarrow> (if cl_mode life = Mode_Current
                      then do { i \<leftarrow> IBand_clamp (k_i_band k) (cl_goal_current life); Some (k\<lparr>k_i_ref_cc := i\<rparr>) } else Some k);
                if k_hold k then Some (k\<lparr>k_duty_q15 := 0\<rparr>, MotorCmd_Coast)
                else if k_i_ref_cc k = 0 \<and> tv_i_meas v = None \<and> (ib_hi (k_i_band k) = 0 \<or> ib_lo (k_i_band k) = 0)
                then Some (k\<lparr>k_cur := CurrentLoop_reset (k_cur k), k_duty_q15 := 0, k_decay := DecayMode_Slow\<rparr>, MotorCmd_Drive 0 DecayMode_Slow)
                else
                  let gains = \<lparr>cg_kp_q88 = lcu_i_kp_q88 lc, cg_ki_q412 = lcu_i_ki_q412 lc, cg_kaw_q412 = lcu_i_kaw_q412 lc,
                               cg_ke_q412 = cmo_ke_vpc_q (rg_motor_cal rg), cg_duty_max_q15 = lcu_duty_max_q15 lc\<rparr>;
                      vbus_eff = max (VbusEst_vbus_counts (k_vbus k)) (cth_v_undervolt_counts (rg_therm_cfg rg));
                      i_loop = Some (case tv_i_meas v of Some i \<Rightarrow> i | None \<Rightarrow> 0)
                  in do { (c, duty) \<leftarrow> CurrentLoop_step (k_cur k) (k_i_ref_cc k) i_loop (fo_omega_q16 (k_fusion k)) vbus_eff
                            (vb_recip_q15 (k_vbus k)) gains;
                          Some (k\<lparr>k_cur := c, k_duty_q15 := duty, k_decay := DecayMode_Slow\<rparr>, MotorCmd_Drive duty DecayMode_Slow) } })"

record TickOut =
  to_writes :: "(nat \<times> bytes) list"
  to_tel :: "(u16 \<times> TelSample) option"
  to_cmd :: MotorCmd

definition Kernel_on_tick :: "Kernel \<Rightarrow> SensorFrame \<Rightarrow> Regs \<Rightarrow> (Kernel \<times> TickOut) option" where
  "Kernel_on_tick k frame rg =
     do { (k, v, ws1) \<leftarrow> kernel_sense k frame rg;
          let tel = kernel_tel k frame rg v
          in do { (k, ws2) \<leftarrow> kernel_ident k;
                  let life = rg_life rg;
                      run = (cl_torque_enable life \<and> fl_mask (k_faults k) = 0);
                      k = kernel_edges k frame life run
                  in do { n \<leftarrow> u8_inc (k_decim_med k);
                          (k, ws3) \<leftarrow> (if n \<ge> DECIM_MED then kernel_medium (k\<lparr>k_decim_med := 0\<rparr>) frame rg v run
                                        else Some (k\<lparr>k_decim_med := n\<rparr>, []));
                          (k, cmd) \<leftarrow> kernel_drive k rg v (run \<and> fl_mask (k_faults k) = 0);
                          Some (k, \<lparr>to_writes = ws1 @ ws2 @ ws3, to_tel = tel, to_cmd = cmd\<rparr>) } } }"

text \<open>A tick against the byte table.\<close>

definition Kernel_isr :: "Kernel \<Rightarrow> SensorFrame \<Rightarrow> bytes \<Rightarrow> (Kernel \<times> bytes \<times> (u16 \<times> TelSample) option \<times> MotorCmd) option" where
  "Kernel_isr k frame t =
     do { rg \<leftarrow> Regs_read t;
          (k, out) \<leftarrow> Kernel_on_tick k frame rg;
          t \<leftarrow> store_writes t (to_writes out);
          Some (k, t, to_tel out, to_cmd out) }"

end
