(* ===== verification/KernelStep.thy ===== *)
theory KernelStep
  imports Kernel
begin

text \<open>
  One tick of the kernel, stage by stage: the invariant every reachable kernel satisfies, and for each stage of \<open>Kernel\<close> that it
  is total and what it keeps.  \<open>tick_ok\<close> collects them for a whole tick.
\<close>

section \<open>The invariant\<close>

text \<open>
  The chip's timing constants: the reciprocal really is \<open>2^24 / pwm_arr\<close> rounded down, and the medium rate is above 2 Hz.
\<close>

definition timing_ok :: "KernelTiming \<Rightarrow> bool" where
  "timing_ok tm \<longleftrightarrow> uint (kt_recip_arr_q24 tm) * uint (kt_pwm_arr tm) \<le> 2 ^ 24 \<and> uint (kt_recip_arr_q24 tm) < 2 ^ 31
     \<and> uint (kt_dt_med_q32 tm) < 2 ^ 31"

text \<open>The signed registers are held as integers; a byte table only ever yields these values.\<close>

definition regs_ok :: "Regs \<Rightarrow> bool" where
  "regs_ok rg \<longleftrightarrow> i16_ok (cth_cutoff_cc (rg_therm_cfg rg)) \<and> i16_ok (cth_derate_start_cc (rg_therm_cfg rg)) \<and> i16_ok (cwi_t0_cc (rg_winding rg))"

definition est_ok :: "Kernel \<Rightarrow> bool" where
  "est_ok k \<longleftrightarrow> vl_ok (k_vcal_lpf k) \<and> traj_ok (k_traj k) \<and> fo_ok (k_fusion k) \<and> vb_ok (k_vbus k) \<and> wt_ok (k_thermal k) \<and> be_ok (k_bemf k)"

definition kernel_ok :: "Kernel \<Rightarrow> bool" where
  "kernel_ok k \<longleftrightarrow> timing_ok (k_timing k) \<and> k_decim_med k < DECIM_MED \<and> k_decim_slow k < DECIM_SLOW \<and> est_ok k
     \<and> band_ok (k_i_band k) (uint (lm_i_lim (k_limits k))) \<and> \<bar>k_duty_q15 k\<bar> \<le> 32767
     \<and> i16_ok (k_i_meas_last k) \<and> i16_ok (k_vdiff_last k) \<and> (\<exists>xs. ident_holds (k_ident k) xs)"

definition torque_on :: "Regs \<Rightarrow> bool" where
  "torque_on rg \<longleftrightarrow> cl_torque_enable (rg_life rg)"

named_theorems kernel_defs
lemmas [kernel_defs] = kernel_ok_def est_ok_def kernel_raise_def

definition faulted :: "Kernel \<Rightarrow> bool" where
  "faulted k \<longleftrightarrow> fl_mask (k_faults k) \<noteq> 0"

lemma or_zero_u8: "a OR b = 0 \<longleftrightarrow> a = 0 \<and> b = (0 :: u8)"
  by (auto simp: bit_eq_iff bit_simps)

lemma raise_faulted: "fl_mask f \<noteq> 0 \<Longrightarrow> fl_mask (FaultLatch_raise f b c) \<noteq> 0"
  by (auto simp: FaultLatch_raise_def or_zero_u8)

lemma kernel_raise_faulted: "faulted k \<Longrightarrow> faulted (kernel_raise c b code k)"
  by (simp add: kernel_raise_def faulted_def raise_faulted)

lemma kernel_raise_fields [simp]:
  "k_timing (kernel_raise c b code k) = k_timing k" "k_decim_med (kernel_raise c b code k) = k_decim_med k"
  "k_decim_slow (kernel_raise c b code k) = k_decim_slow k" "k_vcal_lpf (kernel_raise c b code k) = k_vcal_lpf k"
  "k_traj (kernel_raise c b code k) = k_traj k" "k_fusion (kernel_raise c b code k) = k_fusion k"
  "k_cur (kernel_raise c b code k) = k_cur k" "k_vel (kernel_raise c b code k) = k_vel k"
  "k_limits (kernel_raise c b code k) = k_limits k" "k_i_band (kernel_raise c b code k) = k_i_band k"
  "k_vbus (kernel_raise c b code k) = k_vbus k" "k_thermal (kernel_raise c b code k) = k_thermal k"
  "k_bemf (kernel_raise c b code k) = k_bemf k" "k_det (kernel_raise c b code k) = k_det k"
  "k_te_prev (kernel_raise c b code k) = k_te_prev k" "k_run_prev (kernel_raise c b code k) = k_run_prev k"
  "k_i_ref_cc (kernel_raise c b code k) = k_i_ref_cc k" "k_hold (kernel_raise c b code k) = k_hold k"
  "k_duty_q15 (kernel_raise c b code k) = k_duty_q15 k" "k_decay (kernel_raise c b code k) = k_decay k"
  "k_i_meas_last (kernel_raise c b code k) = k_i_meas_last k" "k_ident (kernel_raise c b code k) = k_ident k"
  "k_vdiff_last (kernel_raise c b code k) = k_vdiff_last k" "k_booted (kernel_raise c b code k) = k_booted k"
  "k_stall_time_ticks (kernel_raise c b code k) = k_stall_time_ticks k" "k_therm_r0 (kernel_raise c b code k) = k_therm_r0 k"
  "k_pos_error_time_ticks (kernel_raise c b code k) = k_pos_error_time_ticks k" "k_mode_prev (kernel_raise c b code k) = k_mode_prev k"
  by (simp_all add: kernel_raise_def)

lemma i16_sat_ok [simp]: "i16_ok (i16_sat x)"
  using clamp_bounds [of "- 32768" 32767 x] by (simp add: i16_ok_def i16_sat_def)

lemma limit_ack_lim [simp]: "lm_i_lim (LimitState_ack s) = lm_i_lim s"
  by (simp add: LimitState_ack_def)

lemma kernel_new_ok: "timing_ok tm \<Longrightarrow> kernel_ok (Kernel_with_tel tm)"
  using ident_new
  by (auto simp: kernel_ok_def est_ok_def Kernel_with_tel_def DECIM_MED_def DECIM_SLOW_def VcalLpf_new_def vl_ok_def TrajGen_new_def
      traj_ok_def FusionObs_new_def fo_ok_def VbusEst_new_def vb_ok_def WindingTherm_new_def wt_ok_def BemfObs_new_def be_ok_def
      band_ok_def LimitState_new_def i16_ok_def THETA_LIM_CQ16_def OMEGA_LIM_CSQ16_def TAU_D_LIM_CCQ16_def i32_ok_def u32_ok_def R_MAX_QG_def)

section \<open>The fast path is total\<close>

definition view_ok :: "Kernel \<Rightarrow> TickView \<Rightarrow> bool" where
  "view_ok k v \<longleftrightarrow> 0 \<le> tv_ticks v \<and> tv_ticks v \<le> uint (kt_pwm_arr (k_timing k)) \<and> (\<forall>i. tv_i_meas v = Some i \<longrightarrow> \<bar>i\<bar> \<le> 65535)"

lemma tick_view_ok: "view_ok k (tick_view k frame rg)"
  using drive_ticks_bound by (auto simp: view_ok_def tick_view_def Let_def dest: i_from_frame_bound)

text \<open>The stores of a tick: inside the telemetry region, and none on a register of another writer.\<close>

definition kernel_owned :: "nat set" where
  "kernel_owned = {0x200} \<union> {0x220..<0x222} \<union> {0x224..<0x23C} \<union> {0x240..<0x24C} \<union> {0x250..<0x252} \<union> {0x254..<0x260}"

definition owned_writes :: "(nat \<times> bytes) list \<Rightarrow> bool" where
  "owned_writes ws \<longleftrightarrow> (\<forall>(a, bs) \<in> set ws. 0 < length bs \<and> {a..<a + length bs} \<subseteq> kernel_owned)"

lemma le_i_length [simp]: "length (le_i16 x) = 2" "length (le_i32 x) = 4"
  by (simp_all add: le_i16_def le_i32_def)

lemma owned_simps [simp]:
  "owned_writes []" "owned_writes (xs @ ys) \<longleftrightarrow> owned_writes xs \<and> owned_writes ys"
  "owned_writes ((a, bs) # ws) \<longleftrightarrow> 0 < length bs \<and> {a..<a + length bs} \<subseteq> kernel_owned \<and> owned_writes ws"
  by (auto simp: owned_writes_def)

lemma sense_ok:
  assumes "kernel_ok k" "frame_ok frame"
  obtains k' v ws where "kernel_sense k frame rg = Some (k', v, ws)" "kernel_ok k'" "view_ok k' v" "owned_writes ws"
    "k_te_prev k' = torque_on rg" "k_i_ref_cc k' = k_i_ref_cc k" "k_i_band k' = k_i_band k" "k_vbus k' = k_vbus k"
    "k_run_prev k' = k_run_prev k" "k_decim_med k' = k_decim_med k" "k_timing k' = k_timing k"
    "faulted k \<longrightarrow> \<not> (torque_on rg \<and> \<not> k_te_prev k) \<longrightarrow> faulted k'"
proof -
  define k1 where "k1 = (if k_booted k then k else k\<lparr>k_booted := True, k_fusion := FusionObs_seed (sf_pos frame)\<rparr>)"
  have k1: "kernel_ok k1" "k_te_prev k1 = k_te_prev k" "k_faults k1 = k_faults k" "k_vcal_lpf k1 = k_vcal_lpf k"
    using assms fusion_seed_ok [of "sf_pos frame"] by (auto simp: k1_def kernel_ok_def est_ok_def frame_ok_def)
  obtain lpf y where lpf: "VcalLpf_update (k_vcal_lpf k1) (sf_vcal frame) = Some (lpf, y)" "vl_ok lpf"
    using vcal_ok [of "k_vcal_lpf k1" "sf_vcal frame"] k1(1) by (auto simp: kernel_ok_def est_ok_def)
  define k2 where "k2 = k1\<lparr>k_vcal_lpf := lpf\<rparr>"
  define k3 where "k3 = (if cl_torque_enable (rg_life rg) \<and> \<not> k_te_prev k2
     then k2\<lparr>k_faults := FaultLatch_clear (k_faults k2), k_det := Detectors_reset (k_det k2), k_limits := LimitState_ack (k_limits k2)\<rparr> else k2)"
  define k4 where "k4 = k3\<lparr>k_te_prev := cl_torque_enable (rg_life rg)\<rparr>"
  define v where "v = tick_view k4 frame rg"
  define k5 where "k5 = (case tv_i_meas v of None \<Rightarrow> k4 | Some i \<Rightarrow> k4\<lparr>k_i_meas_last := i16_sat i\<rparr>)"
  obtain det trip where oc: "Detectors_oc_sample (k_det k5) (map_option (\<lambda>i. \<bar>i\<bar> > uint (cli_oc_trip_counts (rg_lim_cfg rg))) (tv_i_meas v))
      (cli_oc_trip_ticks (rg_lim_cfg rg)) = (det, trip)" by fastforce
  define k6 where "k6 = kernel_raise trip BIT_OVER_CURRENT CODE_OVER_CURRENT (k5\<lparr>k_det := det\<rparr>)"
  define k7 where "k7 = (case vdrive_from_frame frame (tv_sel v) (tv_fwd v) of None \<Rightarrow> k6 | Some (_, vdiff) \<Rightarrow> k6\<lparr>k_vdiff_last := i16_sat vdiff\<rparr>)"
  define ws where "ws = [(0x240, to_le16 (sf_pos frame)), (0x242, to_le16 (sf_current frame)), (0x244, to_le16 (sf_vcal frame)),
     (0x246, to_le16 y), (0x248, to_le16 (sf_vmotor_a frame)), (0x24A, to_le16 (sf_vmotor_b frame)), (0x250 :: nat, to_le16 (sf_current_trough frame))]"
  have eq: "kernel_sense k frame rg = Some (k7, v, ws)"
    unfolding kernel_sense_def Let_def k1_def [symmetric] lpf(1) bind.simps prod.case k2_def [symmetric] k3_def [symmetric] k4_def [symmetric]
      v_def [symmetric] k5_def [symmetric] oc k6_def [symmetric] k7_def [symmetric] ws_def [symmetric] ..
  have k4: "kernel_ok k4" using k1 lpf(2) by (auto simp: k4_def k3_def k2_def kernel_ok_def est_ok_def)
  have f7: "faulted k7 = faulted k6" by (auto simp: k7_def faulted_def split: option.splits)
  have f4: "faulted k4" if "faulted k" "\<not> (cl_torque_enable (rg_life rg) \<and> \<not> k_te_prev k)"
    using that k1(2,3) by (auto simp: k4_def k3_def k2_def faulted_def)
  have f: "faulted k4 \<Longrightarrow> faulted k7" unfolding f7 k6_def
    by (rule kernel_raise_faulted) (auto simp: k5_def faulted_def split: option.splits)
  have ok7: "kernel_ok k7" using k4 by (auto simp: k7_def k6_def k5_def kernel_ok_def est_ok_def split: option.splits)
  have same: "k_te_prev k7 = k_te_prev k4" "k_i_ref_cc k7 = k_i_ref_cc k4" "k_i_band k7 = k_i_band k4" "k_vbus k7 = k_vbus k4" "k_run_prev k7 = k_run_prev k4"
     "k_decim_med k7 = k_decim_med k4" "k_timing k7 = k_timing k4" "k_fusion k7 = k_fusion k4"
    by (auto simp: k7_def k6_def k5_def split: option.splits)
  have same4: "k_te_prev k4 = cl_torque_enable (rg_life rg)" "k_i_ref_cc k4 = k_i_ref_cc k" "k_i_band k4 = k_i_band k" "k_vbus k4 = k_vbus k" "k_run_prev k4 = k_run_prev k"
     "k_decim_med k4 = k_decim_med k" "k_timing k4 = k_timing k" "k_fusion k4 = (if k_booted k then k_fusion k else FusionObs_seed (sf_pos frame))"
    by (simp_all add: k4_def k3_def k2_def k1_def)
  show thesis
  proof (rule that [OF eq ok7])
    show "view_ok k7 v" using tick_view_ok [of k4 frame rg] by (simp add: v_def view_ok_def same)
    show "owned_writes ws" by (auto simp: ws_def kernel_owned_def)
  qed (use same same4 f f4 in \<open>simp_all add: torque_on_def\<close>)
qed

lemma ident_ok:
  assumes "kernel_ok k"
  obtains a ws where "kernel_ident k = Some (k\<lparr>k_ident := a\<rparr>, ws)" "kernel_ok (k\<lparr>k_ident := a\<rparr>)" "owned_writes ws"
proof -
  obtain xs where xs: "ident_holds (k_ident k) xs" using assms by (auto simp: kernel_ok_def)
  have i: "i16_ok (k_i_meas_last k)" "i16_ok (k_vdiff_last k)" "i16_ok (k_duty_q15 k)" using assms by (auto simp: kernel_ok_def i16_ok_def)
  obtain a out ys where s: "IdentAgg_sample (k_ident k) (k_i_meas_last k) (k_vdiff_last k) (k_duty_q15 k) = Some (a, out)" "ident_holds a ys"
    using ident_step [OF xs i] by (auto split: if_splits)
  have "kernel_ok (k\<lparr>k_ident := a\<rparr>)" using assms s(2) by (auto simp: kernel_ok_def est_ok_def)
  then show thesis using s(1) by (intro that) (auto simp: kernel_ident_def kernel_owned_def split: option.splits)
qed

lemma reseed_ok: "traj_ok (TrajGen_reseed th)"
  using clamp_sym [of THETA_LIM_CQ16 th] by (simp add: traj_ok_def TrajGen_reseed_def i32_ok_def OMEGA_LIM_CSQ16_def THETA_LIM_CQ16_def)

lemma edges_ok: "kernel_ok k \<Longrightarrow> frame_ok frame \<Longrightarrow> kernel_ok (kernel_edges k frame life run)"
  using fusion_seed_ok [of "sf_pos frame"]
  by (auto simp: kernel_edges_def Let_def kernel_ok_def est_ok_def reseed_ok frame_ok_def)

lemma edges_fields:
  "k_faults (kernel_edges k frame life run) = k_faults k" "k_timing (kernel_edges k frame life run) = k_timing k"
  "k_te_prev (kernel_edges k frame life run) = k_te_prev k" "k_i_band (kernel_edges k frame life run) = k_i_band k"
  "k_vbus (kernel_edges k frame life run) = k_vbus k" "k_decim_med (kernel_edges k frame life run) = k_decim_med k"
  "k_run_prev (kernel_edges k frame life run) = run"
  "k_i_ref_cc (kernel_edges k frame life run) = (if run \<noteq> k_run_prev k then 0 else k_i_ref_cc k)"
  "k_limits (kernel_edges k frame life run) = k_limits k"
  by (simp_all add: kernel_edges_def Let_def)

section \<open>The medium chain is total\<close>

lemma fusion_stage:
  assumes "kernel_ok k" "frame_ok frame"
  obtains f where "kernel_fusion k frame rg v = Some (k\<lparr>k_fusion := f\<rparr>)" "kernel_ok (k\<lparr>k_fusion := f\<rparr>)"
proof -
  obtain f where f: "kernel_fusion k frame rg v = Some (k\<lparr>k_fusion := f\<rparr>)" "fo_ok f"
    using fusion_ok [of "sf_pos frame"] assms(2) unfolding kernel_fusion_def Let_def frame_ok_def by (metis bind.bind_lunit)
  then show thesis using assms(1) by (intro that) (auto simp: kernel_ok_def est_ok_def)
qed

lemma profile_stage:
  assumes "kernel_ok k"
  obtains t w h where "kernel_profile k rg run = Some (k\<lparr>k_traj := t, k_omega_ref_q16 := w, k_hold := h\<rparr>)"
    "kernel_ok (k\<lparr>k_traj := t, k_omega_ref_q16 := w, k_hold := h\<rparr>)"
proof -
  have c: "dt_ok (kernel_traj_cfg k rg)" using assms by (simp add: dt_ok_def kernel_traj_cfg_def kernel_ok_def timing_ok_def)
  have t: "traj_ok (k_traj k)" using assms by (simp add: kernel_ok_def est_ok_def)
  obtain tp where tp: "TrajGen_step_position (k_traj k) (cl_goal_position (rg_life rg)) (kernel_traj_cfg k rg) = Some tp" "traj_ok tp"
    using step_position_tick [OF c t] by metis
  obtain tv where tv: "TrajGen_step_velocity (k_traj k) (cl_goal_velocity (rg_life rg)) (fo_theta_q16 (k_fusion k)) (kernel_traj_cfg k rg) = Some tv" "traj_ok tv"
    using step_velocity_ok [OF c t] by metis
  have up: "kernel_ok (k\<lparr>k_traj := t', k_omega_ref_q16 := w, k_hold := h\<rparr>)" if "traj_ok t'" for t' w h
    using assms that by (simp add: kernel_ok_def est_ok_def)
  have "\<exists>t' w h. kernel_profile k rg run = Some (k\<lparr>k_traj := t', k_omega_ref_q16 := w, k_hold := h\<rparr>) \<and> traj_ok t'"
  proof (cases "run \<and> cl_mode (rg_life rg) \<in> {Mode_Position, Mode_Velocity}")
    case True
    then show ?thesis
    proof (cases "cl_mode (rg_life rg) = Mode_Position")
      case True
      then show ?thesis using \<open>run \<and> _\<close> tp unfolding kernel_profile_def Let_def by (simp, blast)
    next
      case False
      then have "run" "cl_mode (rg_life rg) = Mode_Velocity" using \<open>run \<and> _\<close> by auto
      then show ?thesis using tv unfolding kernel_profile_def Let_def by (simp, blast)
    qed
  next
    case False
    then have "kernel_profile k rg run = Some (k\<lparr>k_traj := k_traj k, k_omega_ref_q16 := k_omega_ref_q16 k, k_hold := run \<longrightarrow> False\<rparr>) \<or>
      kernel_profile k rg run = Some (k\<lparr>k_traj := k_traj k, k_omega_ref_q16 := k_omega_ref_q16 k, k_hold := k_hold k\<rparr>)"
      by (cases "cl_mode (rg_life rg)") (auto simp: kernel_profile_def Let_def)
    then show ?thesis using t by blast
  qed
  then show thesis using that up by blast
qed

lemma limits_stage:
  assumes "kernel_ok k"
  obtains s b c where "kernel_limits k rg run = kernel_raise c BIT_STALL CODE_STALL (k\<lparr>k_limits := s, k_i_band := b\<rparr>)"
    "kernel_ok (k\<lparr>k_limits := s, k_i_band := b\<rparr>)"
    "LimitState_fold (k_limits k) (lm_i_lim (k_limits k) \<noteq> 0 \<and> \<bar>k_i_ref_cc k\<bar> \<ge> uint (lm_i_lim (k_limits k))) (omega_abs_cps k)
       \<bar>FusionObs_tau_d_counts (k_fusion k)\<bar> (asr (fo_theta_q16 (k_fusion k)) 16) (kernel_limit_cfg k rg) = (s, b)"
proof -
  obtain s b where f: "LimitState_fold (k_limits k) (lm_i_lim (k_limits k) \<noteq> 0 \<and> \<bar>k_i_ref_cc k\<bar> \<ge> uint (lm_i_lim (k_limits k))) (omega_abs_cps k)
       \<bar>FusionObs_tau_d_counts (k_fusion k)\<bar> (asr (fo_theta_q16 (k_fusion k)) 16) (kernel_limit_cfg k rg) = (s, b)" by fastforce
  have o: "kernel_ok (k\<lparr>k_limits := s, k_i_band := b\<rparr>)" using assms fold_band(1) [OF f] by (simp add: kernel_ok_def est_ok_def)
  have "kernel_limits k rg run = kernel_raise (run \<and> lm_fault_pending s) BIT_STALL CODE_STALL (k\<lparr>k_limits := s, k_i_band := b\<rparr>)"
    by (simp only: kernel_limits_def Let_def f prod.case)
  then show thesis using o f by (rule that)
qed

lemma raise_ok [simp]: "kernel_ok (kernel_raise c b code k) = kernel_ok k"
  by (simp add: kernel_raise_def kernel_ok_def est_ok_def)

definition in_band :: "Kernel \<Rightarrow> bool" where
  "in_band k \<longleftrightarrow> ib_lo (k_i_band k) \<le> k_i_ref_cc k \<and> k_i_ref_cc k \<le> ib_hi (k_i_band k)"

lemma band_zero: "kernel_ok k \<Longrightarrow> k_i_ref_cc k = 0 \<Longrightarrow> in_band k"
  by (simp add: kernel_ok_def band_ok_def in_band_def)

lemma velocity_stage:
  assumes "kernel_ok k" "\<not> run \<Longrightarrow> k_i_ref_cc k = 0"
  obtains s i where "kernel_velocity k rg run = Some (k\<lparr>k_vel := s, k_i_ref_cc := i\<rparr>)" "kernel_ok (k\<lparr>k_vel := s, k_i_ref_cc := i\<rparr>)"
    "run \<and> cl_mode (rg_life rg) = Mode_Current \<or> in_band (k\<lparr>k_vel := s, k_i_ref_cc := i\<rparr>)"
proof -
  note that0 = that
  have ok: "kernel_ok (k\<lparr>k_vel := s, k_i_ref_cc := i\<rparr>)" for s i using assms by (simp add: kernel_ok_def est_ok_def)
  have z: "in_band (k\<lparr>k_vel := s, k_i_ref_cc := 0\<rparr>)" for s by (intro band_zero ok) simp
  have b: "band_ok (k_i_band k) (uint (lm_i_lim (k_limits k)))" "uint (lm_i_lim (k_limits k)) \<le> 65535"
    using assms u16_range by (simp_all add: kernel_ok_def)
  have ex: ?thesis if "kernel_velocity k rg run = Some (k\<lparr>k_vel := s, k_i_ref_cc := i\<rparr>)"
    "run \<and> cl_mode (rg_life rg) = Mode_Current \<or> in_band (k\<lparr>k_vel := s, k_i_ref_cc := i\<rparr>)" for s i
    using that(1) ok that(2) by (rule that0)
  define mode where "mode = cl_mode (rg_life rg)"
  consider "\<not> run" | "run" "mode = Mode_Current" | "run" "mode = Mode_OpenLoop" | "run" "mode = Mode_Position" "k_hold k"
    | "run" "mode \<in> {Mode_Position, Mode_Velocity}" "\<not> (mode = Mode_Position \<and> k_hold k)" by (cases mode) auto
  then show thesis
  proof cases
    case 1
    then have "k\<lparr>k_vel := k_vel k, k_i_ref_cc := 0\<rparr> = k" using assms(2) by simp
    then show ?thesis using 1 z [of "k_vel k"] by (intro ex [where s = "k_vel k" and i = 0]) (simp_all add: kernel_velocity_def)
  next
    case 2
    then show ?thesis by (intro ex [where s = "k_vel k" and i = "k_i_ref_cc k"]) (simp_all add: kernel_velocity_def flip: mode_def)
  next
    case 3
    then show ?thesis using z [of "k_vel k"] by (intro ex [where s = "k_vel k" and i = 0]) (simp_all add: kernel_velocity_def flip: mode_def)
  next
    case 4
    then show ?thesis using z by (intro ex [where s = "VelocityLoop_reset (k_vel k)" and i = 0]) (simp_all add: kernel_velocity_def flip: mode_def)
  next
    case 5
    define g where "g = \<lparr>vg_kp_q88 = lve_v_kp_q88 (rg_loop_vel rg), vg_ki_q412 = lve_v_ki_q412 (rg_loop_vel rg),
         vg_kaw_q412 = lve_v_kaw_q412 (rg_loop_vel rg), vg_j_ff_q88 = lve_j_ff_q88 (rg_loop_vel rg),
         vg_fric_fc_counts = cmo_fric_fc_counts (rg_motor_cal rg), vg_fric_fv_q016 = cmo_fric_fv_q016 (rg_motor_cal rg)\<rparr>"
    obtain s y where s: "VelocityLoop_step (k_vel k) (k_omega_ref_q16 k) (fo_omega_q16 (k_fusion k)) (tj_alpha_last_q16 (k_traj k))
        (tj_omega_ref_q16 (k_traj k)) (k_i_band k) g = Some (s, y)" "ib_lo (k_i_band k) \<le> y" "y \<le> ib_hi (k_i_band k)"
      using velocity_ok [OF b] by blast
    have "kernel_velocity k rg run = Some (k\<lparr>k_vel := s, k_i_ref_cc := y\<rparr>)"
      unfolding kernel_velocity_def Let_def g_def [symmetric] mode_def [symmetric] using 5 s(1) by (cases mode) simp_all
    then show ?thesis using s by (intro ex [where s = s and i = y]) (simp_all add: in_band_def)
  qed
qed

lemma v_mean_bound:
  assumes "0 \<le> ticks" "ticks \<le> uint (kt_pwm_arr tm)" "\<bar>d\<bar> \<le> 4095" "timing_ok tm"
  shows "chk32 (wrap32 ticks * d) = Some (ticks * d)" "\<bar>q_mul (ticks * d) (wrap32 (uint (kt_recip_arr_q24 tm))) RECIP_ARR_SHIFT\<bar> \<le> 4095"
proof -
  define r a where "r = uint (kt_recip_arr_q24 tm)" and "a = uint (kt_pwm_arr tm)"
  have r: "0 \<le> r" "r < 2147483648" "r * a \<le> 16777216" using assms(4) by (simp_all add: r_def a_def timing_ok_def)
  have tk: "ticks \<le> a" "a \<le> 65535" using assms(2) u16_range(2) [of "kt_pwm_arr tm"] by (simp_all add: a_def)
  have w: "wrap32 ticks = ticks" "wrap32 r = r" using assms(1) tk r by (auto intro!: wrap32_id i32_okI)
  have "\<bar>ticks * d\<bar> \<le> 65535 * 4095" using assms(1,3) tk by (simp only: abs_mult) (intro mult_mono, auto)
  then show "chk32 (wrap32 ticks * d) = Some (ticks * d)" by (simp add: w i32_okI)
  have "\<bar>ticks * d * r\<bar> = (ticks * r) * \<bar>d\<bar>" using assms(1) r by (simp add: abs_mult)
  moreover have "ticks * r \<le> 16777216" using mult_right_mono [OF tk(1) r(1)] r(3) by (simp add: mult.commute)
  then have "(ticks * r) * \<bar>d\<bar> \<le> 16777216 * 4095" using assms(1,3) r by (intro mult_mono) simp_all
  ultimately have p: "\<bar>ticks * d * r\<bar> \<le> 4095 * 2 ^ 24" by simp
  then have b: "- 4095 \<le> asr (ticks * d * r) 24" "asr (ticks * d * r) 24 \<le> 4095" by (auto intro!: asr_ge asr_le)
  have "q_mul (ticks * d) r 24 = asr (ticks * d * r) 24" using p b by (intro q_mul_exact) auto
  then show "\<bar>q_mul (ticks * d) (wrap32 (uint (kt_recip_arr_q24 tm))) RECIP_ARR_SHIFT\<bar> \<le> 4095"
    using b by (simp add: RECIP_ARR_SHIFT_def w flip: r_def)
qed

lemma bemf_stage:
  assumes "kernel_ok k" "frame_ok frame" "view_ok k v"
  obtains vb be vm om where "kernel_bemf k frame rg v = Some (k\<lparr>k_vbus := vb, k_bemf := be\<rparr>, vm, om)"
    "kernel_ok (k\<lparr>k_vbus := vb, k_bemf := be\<rparr>)" "recip_fits vb (cth_v_undervolt_counts (rg_therm_cfg rg))"
proof -
  define vd where "vd = vdrive_from_frame frame (tv_sel v) (tv_fwd v)"
  have vd: "uint s \<le> 4095" "\<bar>d\<bar> \<le> 4095" if "vd = Some (s, d)" for s d
    using vdrive_bound [OF assms(2)] that by (auto simp: vd_def)
  have o: "vb_ok (k_vbus k)" "be_ok (k_bemf k)" "timing_ok (k_timing k)" using assms(1) by (simp_all add: kernel_ok_def est_ok_def)
  obtain vb where vb: "VbusEst_step (k_vbus k) (map_option fst vd) (cth_v_undervolt_counts (rg_therm_cfg rg)) = Some vb" "vb_ok vb"
    "recip_fits vb (cth_v_undervolt_counts (rg_therm_cfg rg))"
  proof -
    have "uint s \<le> 4095" if "map_option fst vd = Some s" for s using that vd(1) by (cases vd) auto
    then show ?thesis using vbus_ok [OF o(1), of "map_option fst vd"] that by blast
  qed
  have "\<exists>vm. (case vd of None \<Rightarrow> Some None
       | Some (_, vdiff) \<Rightarrow> do { p \<leftarrow> chk32 (wrap32 (tv_ticks v) * vdiff);
           Some (Some (q_mul p (wrap32 (uint (kt_recip_arr_q24 (k_timing k)))) RECIP_ARR_SHIFT)) }) = Some vm \<and> (\<forall>x. vm = Some x \<longrightarrow> \<bar>x\<bar> \<le> 4095)"
  proof (cases vd)
    case (Some sd)
    then obtain s d where sd: "vd = Some (s, d)" by (cases sd) auto
    have m: "chk32 (wrap32 (tv_ticks v) * d) = Some (tv_ticks v * d)"
      "\<bar>q_mul (tv_ticks v * d) (wrap32 (uint (kt_recip_arr_q24 (k_timing k)))) RECIP_ARR_SHIFT\<bar> \<le> 4095"
      using v_mean_bound [OF _ _ vd(2) [OF sd] o(3)] assms(3) unfolding view_ok_def by blast+
    show ?thesis unfolding sd using m by (simp del: chk32_eq_Some)
  qed simp
  then obtain vm where vm: "(case vd of None \<Rightarrow> Some None
       | Some (_, vdiff) \<Rightarrow> do { p \<leftarrow> chk32 (wrap32 (tv_ticks v) * vdiff);
           Some (Some (q_mul p (wrap32 (uint (kt_recip_arr_q24 (k_timing k)))) RECIP_ARR_SHIFT)) }) = Some vm" "\<And>x. vm = Some x \<Longrightarrow> \<bar>x\<bar> \<le> 4095"
    by blast
  have im: "\<bar>x\<bar> \<le> 65535" if "tv_i_meas v = Some x" for x using assms(3) that by (simp add: view_ok_def)
  obtain be om where be: "BemfObs_step (k_bemf k) vm (tv_i_meas v) (cmo_r_q12 (rg_motor_cal rg)) (cmo_recip_ke_q (rg_motor_cal rg)) = Some (be, om)" "be_ok be"
    using bemf_ok [OF o(2) vm(2) im] by blast
  have "kernel_ok (k\<lparr>k_vbus := vb, k_bemf := be\<rparr>)" using assms(1) vb be by (simp add: kernel_ok_def est_ok_def)
  moreover have "kernel_bemf k frame rg v = Some (k\<lparr>k_vbus := vb, k_bemf := be\<rparr>, vm, om)"
    unfolding kernel_bemf_def Let_def vd_def [symmetric] vb(1) vm(1) bind.simps be(1) by simp
  ultimately show thesis using vb(3) by (intro that)
qed

lemma detect_stage:
  assumes "kernel_ok k"
  obtains d where "kernel_ok (kernel_detect k frame rg run)" "faulted k \<Longrightarrow> faulted (kernel_detect k frame rg run)"
    "\<exists>f. kernel_detect k frame rg run = k\<lparr>k_det := d, k_faults := f\<rparr>"
proof -
  obtain d1 b1 where d1: "Detectors_sensor_sample (k_det k) (sf_pos frame) (cfa_sensor_delta_max (rg_fault_cfg rg)) (cfa_sensor_bad_count (rg_fault_cfg rg)) = (d1, b1)"
    by fastforce
  define k1 where "k1 = kernel_raise b1 BIT_SENSOR CODE_SENSOR (k\<lparr>k_det := d1\<rparr>)"
  obtain d2 b2 where d2: "Detectors_pos_err_sample (k_det k1) (run \<and> cl_mode (rg_life rg) = Mode_Position
      \<and> \<bar>sat32 (tj_theta_ref_q16 (k_traj k1) - fo_theta_q16 (k_fusion k1))\<bar> > uint (cfa_pos_error_counts (rg_fault_cfg rg)) * 2 ^ 16)
      (k_pos_error_time_ticks k1) = (d2, b2)" by fastforce
  have e: "kernel_detect k frame rg run = kernel_raise b2 BIT_POSITION_ERROR CODE_POSITION_ERROR (k1\<lparr>k_det := d2\<rparr>)"
    unfolding kernel_detect_def Let_def d1 prod.case k1_def [symmetric] d2 ..
  show thesis
  proof (rule that)
    show "kernel_ok (kernel_detect k frame rg run)" using assms by (auto simp: e k1_def kernel_ok_def est_ok_def)
    show "faulted (kernel_detect k frame rg run)" if "faulted k"
      unfolding e using kernel_raise_faulted [of "k\<lparr>k_det := d1\<rparr>" b1 BIT_SENSOR CODE_SENSOR] that
      by (intro kernel_raise_faulted) (auto simp: k1_def faulted_def)
    show "\<exists>f. kernel_detect k frame rg run = k\<lparr>k_det := d2, k_faults := f\<rparr>"
      unfolding e k1_def by (rule exI [of _ "k_faults (kernel_raise b2 BIT_POSITION_ERROR CODE_POSITION_ERROR (k1\<lparr>k_det := d2\<rparr>))"])
        (cases k, simp add: kernel_raise_def k1_def)
  qed
qed

lemma slow_stage:
  assumes "kernel_ok (k\<lparr>k_decim_slow := 0\<rparr>)" "regs_ok rg" "i16_ok (lc_cutoff_cc lcfg)" "i16_ok (lc_derate_start_cc lcfg)"
  obtains k' where "kernel_slow k rg v vm lcfg = Some k'" "kernel_ok k'" "faulted k \<Longrightarrow> faulted k'"
    "k_i_ref_cc k' = k_i_ref_cc k" "k_i_band k' = k_i_band k" "k_te_prev k' = k_te_prev k" "k_run_prev k' = k_run_prev k" "k_decim_med k' = k_decim_med k"
    "k_timing k' = k_timing k" "\<And>u. recip_fits (k_vbus k) u \<Longrightarrow> recip_fits (k_vbus k') u" "lm_i_lim (k_limits k') = lm_i_lim (k_limits k)"
    "k_fusion k' = k_fusion k" "k_hold k' = k_hold k"
proof -
  define per where "per = uint (kt_med_ticks_per_ms_q16 (k_timing k))"
  define k1 where "k1 = k\<lparr>k_decim_slow := 0,
                k_stall_time_ticks := word_of_int (q_mul_u (uint (cli_stall_time_ms (rg_lim_cfg rg))) per 16),
                k_pos_error_time_ticks := word_of_int (q_mul_u (uint (cfa_pos_error_time_ms (rg_fault_cfg rg))) per 16)\<rparr>"
  define k2 where "k2 = (if cwi_r0_q12 (rg_winding rg) \<noteq> k_therm_r0 k1
     then k1\<lparr>k_thermal := WindingTherm_seed (k_thermal k1) (cwi_r0_q12 (rg_winding rg)), k_therm_r0 := cwi_r0_q12 (rg_winding rg)\<rparr> else k1)"
  have k2: "kernel_ok k2" "k_limits k2 = k_limits k" "k_vbus k2 = k_vbus k" "k_faults k2 = k_faults k"
    using assms(1) therm_seed_ok [of "k_thermal k"] by (auto simp: k2_def k1_def kernel_ok_def est_ok_def)
  define gates where "gates = \<lparr>tg_i_min_counts = cth_rtherm_i_min_counts (rg_therm_cfg rg), tg_omega_max_cps = cth_rtherm_omega_max_cps (rg_therm_cfg rg)\<rparr>"
  define anchor where "anchor = \<lparr>ta_r0_q12 = cwi_r0_q12 (rg_winding rg), ta_t0_cc = cwi_t0_cc (rg_winding rg), ta_k_r2t_q88 = cwi_k_r2t_q88 (rg_winding rg), ta_mu_q016 = cwi_mu_q016 (rg_winding rg)\<rparr>"
  obtain vv ti where vt: "(case vm of None \<Rightarrow> (0, None) | Some vv \<Rightarrow> (case tv_i_meas v of None \<Rightarrow> (0, None) | Some i \<Rightarrow> (vv, Some i))) = (vv, ti)"
    by (cases vm; cases "tv_i_meas v") auto
  have a: "\<bar>ta_t0_cc anchor\<bar> \<le> 32768" "- 32768 \<le> ta_t0_cc anchor" "ta_t0_cc anchor \<le> 32767"
    using assms(2) by (auto simp: anchor_def regs_ok_def i16_ok_def)
  obtain w tc where w: "WindingTherm_step (k_thermal k2) vv ti (omega_abs_cps k2) gates anchor = Some (w, tc)" "wt_ok w" "tc = wt_t_cc w"
    using therm_ok [OF _ a, of "k_thermal k2"] k2(1) unfolding kernel_ok_def est_ok_def by blast
  have tc: "i16_ok tc" using w by (simp add: wt_ok_def i16_ok_def)
  obtain d where d: "LimitState_update_derate (k_limits k2) tc lcfg = Some (k_limits k2\<lparr>lm_derate_cache := d\<rparr>)"
    using derate_ok [OF assms(3,4) tc] by blast
  define k3 where "k3 = kernel_raise (tc \<ge> cth_cutoff_cc (rg_therm_cfg rg)) BIT_OVER_TEMP CODE_OVER_TEMP (k2\<lparr>k_thermal := w, k_limits := k_limits k2\<lparr>lm_derate_cache := d\<rparr>\<rparr>)"
  define k4 where "k4 = kernel_raise (snd (VbusEst_take_fresh (k_vbus k3)) \<and> VbusEst_vbus_counts (k_vbus k3) < cth_v_undervolt_counts (rg_therm_cfg rg))
     BIT_UNDER_VOLT CODE_UNDER_VOLT (k3\<lparr>k_vbus := fst (VbusEst_take_fresh (k_vbus k3))\<rparr>)"
  have eq: "kernel_slow k rg v vm lcfg = Some k4"
    unfolding kernel_slow_def Let_def per_def [symmetric] k1_def [symmetric] k2_def [symmetric] gates_def [symmetric] anchor_def [symmetric] vt prod.case
      w(1) bind.simps d k3_def [symmetric] by (simp add: k4_def split_beta)
  have vb: "VbusEst_vbus_counts (v\<lparr>vb_fresh := x\<rparr>) = VbusEst_vbus_counts v" for v x by (simp add: VbusEst_vbus_counts_def)
  show thesis
  proof (rule that [OF eq])
    show "kernel_ok k4" using k2 w by (auto simp: k4_def k3_def kernel_ok_def est_ok_def VbusEst_take_fresh_def vb_ok_def)
    show "faulted k4" if "faulted k"
    proof -
      have "faulted k3" unfolding k3_def using that k2(4) by (intro kernel_raise_faulted) (simp add: faulted_def)
      then show ?thesis unfolding k4_def by (intro kernel_raise_faulted) (simp add: faulted_def)
    qed
    show "recip_fits (k_vbus k4) u" if "recip_fits (k_vbus k) u" for u
      using that k2(3) by (simp add: k4_def k3_def VbusEst_take_fresh_def recip_fits_def vb)
  qed (simp_all add: k4_def k3_def k2_def k1_def)
qed

section \<open>A tick is total\<close>

lemma u8_inc_lt: "x < 255 \<Longrightarrow> u8_inc x = Some (x + 1)"
  by (auto simp: u8_inc_def)

lemma cfg_regs: "regs_ok rg \<Longrightarrow> i16_ok (lc_cutoff_cc (kernel_limit_cfg k rg)) \<and> i16_ok (lc_derate_start_cc (kernel_limit_cfg k rg))"
  by (simp add: kernel_limit_cfg_def Let_def regs_ok_def)

lemma publish_owned: "owned_writes (kernel_publish k rg om)"
  by (auto simp: kernel_publish_def kernel_owned_def)

lemma medium_ok:
  assumes "kernel_ok k" "frame_ok frame" "regs_ok rg" "view_ok k v" "\<not> run \<Longrightarrow> k_i_ref_cc k = 0"
  obtains k' ws where "kernel_medium k frame rg v run = Some (k', ws)" "kernel_ok k'" "owned_writes ws"
    "faulted k \<longrightarrow> faulted k'" "recip_fits (k_vbus k') (cth_v_undervolt_counts (rg_therm_cfg rg))"
    "run \<and> cl_mode (rg_life rg) = Mode_Current \<or> in_band k'"
    "k_te_prev k' = k_te_prev k" "k_run_prev k' = k_run_prev k" "k_decim_med k' = k_decim_med k" "k_timing k' = k_timing k"
    "lm_i_lim (k_limits k') \<le> cli_current_limit_counts (rg_lim_cfg rg)" "\<not> run \<longrightarrow> k_i_ref_cc k' = 0"
    "pl_pos_max_soft_counts (rg_pos_lim rg) \<le> asr (fo_theta_q16 (k_fusion k')) 16 \<longrightarrow> (if cli_drive_polarity (rg_lim_cfg rg) then ib_hi (k_i_band k') = 0 else ib_lo (k_i_band k') = 0)"
    "asr (fo_theta_q16 (k_fusion k')) 16 \<le> pl_pos_min_soft_counts (rg_pos_lim rg) \<longrightarrow> (if cli_drive_polarity (rg_lim_cfg rg) then ib_lo (k_i_band k') = 0 else ib_hi (k_i_band k') = 0)"
proof -
  obtain f where f: "kernel_fusion k frame rg v = Some (k\<lparr>k_fusion := f\<rparr>)" "kernel_ok (k\<lparr>k_fusion := f\<rparr>)"
    using fusion_stage [OF assms(1,2)] .
  define k1 where "k1 = k\<lparr>k_fusion := f\<rparr>"
  obtain t w h where p: "kernel_profile k1 rg run = Some (k1\<lparr>k_traj := t, k_omega_ref_q16 := w, k_hold := h\<rparr>)"
    "kernel_ok (k1\<lparr>k_traj := t, k_omega_ref_q16 := w, k_hold := h\<rparr>)" using profile_stage [OF f(2) [folded k1_def]] .
  define k2 where "k2 = k1\<lparr>k_traj := t, k_omega_ref_q16 := w, k_hold := h\<rparr>"
  obtain s b c where l: "kernel_limits k2 rg run = kernel_raise c BIT_STALL CODE_STALL (k2\<lparr>k_limits := s, k_i_band := b\<rparr>)"
    "kernel_ok (k2\<lparr>k_limits := s, k_i_band := b\<rparr>)" and fold: "LimitState_fold (k_limits k2) (lm_i_lim (k_limits k2) \<noteq> 0 \<and> \<bar>k_i_ref_cc k2\<bar> \<ge> uint (lm_i_lim (k_limits k2))) (omega_abs_cps k2)
       \<bar>FusionObs_tau_d_counts (k_fusion k2)\<bar> (asr (fo_theta_q16 (k_fusion k2)) 16) (kernel_limit_cfg k2 rg) = (s, b)"
    using limits_stage [OF p(2) [folded k2_def]] .
  define k3 where "k3 = kernel_limits k2 rg run"
  note k3e = l(1) [folded k3_def]
  have k3: "kernel_ok k3" "\<not> run \<Longrightarrow> k_i_ref_cc k3 = 0" using l(2) assms(5) by (auto simp: k3e k2_def k1_def)
  have f3: "faulted k3" if "faulted k" unfolding k3e using that by (intro kernel_raise_faulted) (simp add: k2_def k1_def faulted_def)
  obtain sv i where ve: "kernel_velocity k3 rg run = Some (k3\<lparr>k_vel := sv, k_i_ref_cc := i\<rparr>)" "kernel_ok (k3\<lparr>k_vel := sv, k_i_ref_cc := i\<rparr>)"
    "run \<and> cl_mode (rg_life rg) = Mode_Current \<or> in_band (k3\<lparr>k_vel := sv, k_i_ref_cc := i\<rparr>)" using velocity_stage [OF k3] .
  define k4 where "k4 = k3\<lparr>k_vel := sv, k_i_ref_cc := i\<rparr>"
  have i0: "i = 0" if "\<not> run"
    using ve(1) k3(2) that arg_cong [of _ _ "k_i_ref_cc"] by (auto simp: kernel_velocity_def Let_def dest: arg_cong [of _ _ k_i_ref_cc])
  have v4: "view_ok k4 v" using assms(4) by (simp add: view_ok_def k4_def k3e k2_def k1_def)
  obtain vb be vm om where bm: "kernel_bemf k4 frame rg v = Some (k4\<lparr>k_vbus := vb, k_bemf := be\<rparr>, vm, om)"
    "kernel_ok (k4\<lparr>k_vbus := vb, k_bemf := be\<rparr>)" "recip_fits vb (cth_v_undervolt_counts (rg_therm_cfg rg))"
    using bemf_stage [OF ve(2) [folded k4_def] assms(2) v4] .
  define k5 where "k5 = k4\<lparr>k_vbus := vb, k_bemf := be\<rparr>"
  obtain d fl where dt: "kernel_ok (kernel_detect k5 frame rg run)" "faulted k5 \<Longrightarrow> faulted (kernel_detect k5 frame rg run)"
    "kernel_detect k5 frame rg run = k5\<lparr>k_det := d, k_faults := fl\<rparr>" using detect_stage [OF bm(2) [folded k5_def]] by metis
  define k6 where "k6 = kernel_detect k5 frame rg run"
  note k6e = dt(3) [folded k6_def]
  have dec: "k_decim_slow k6 < DECIM_SLOW" using dt(1) by (simp add: k6_def kernel_ok_def)
  then have "k_decim_slow k6 < 255" by (simp add: DECIM_SLOW_def word_less_def)
  then have inc: "u8_inc (k_decim_slow k6) = Some (k_decim_slow k6 + 1)" by (rule u8_inc_lt)
  define k7 where "k7 = k6\<lparr>k_decim_slow := k_decim_slow k6 + 1\<rparr>"
  have f7: "faulted k7" if "faulted k"
    using dt(2) f3 that by (simp add: k7_def k6_def) (simp add: faulted_def k5_def k4_def)
  have c: "i16_ok (lc_cutoff_cc (kernel_limit_cfg k2 rg))" "i16_ok (lc_derate_start_cc (kernel_limit_cfg k2 rg))" using cfg_regs [OF assms(3)] by simp_all
  have z7: "kernel_ok (k7\<lparr>k_decim_slow := 0\<rparr>)" using dt(1) by (simp add: k7_def k6_def kernel_ok_def est_ok_def DECIM_SLOW_def)
  have same: "k_i_ref_cc k7 = i" "k_i_band k7 = b" "k_te_prev k7 = k_te_prev k" "k_run_prev k7 = k_run_prev k" "k_decim_med k7 = k_decim_med k"
    "k_timing k7 = k_timing k" "k_vbus k7 = vb" "lm_i_lim (k_limits k7) = lm_i_lim s" "k_fusion k7 = f"
    by (simp_all add: k7_def k6e k5_def k4_def k3e k2_def k1_def)
  obtain k8 where k8: "(if k_decim_slow k6 + 1 \<ge> DECIM_SLOW then kernel_slow k7 rg v vm (kernel_limit_cfg k2 rg) else Some k7) = Some k8" "kernel_ok k8"
    "faulted k7 \<Longrightarrow> faulted k8" "k_i_ref_cc k8 = i" "k_i_band k8 = b" "k_te_prev k8 = k_te_prev k" "k_run_prev k8 = k_run_prev k" "k_decim_med k8 = k_decim_med k"
    "k_timing k8 = k_timing k" "recip_fits (k_vbus k8) (cth_v_undervolt_counts (rg_therm_cfg rg))" "lm_i_lim (k_limits k8) = lm_i_lim s" "k_fusion k8 = f"
  proof (cases "k_decim_slow k6 + 1 \<ge> DECIM_SLOW")
    case True
    show thesis by (rule slow_stage [OF z7 assms(3) c, of v vm]) (rule that, insert True same bm(3), auto)
  next
    case False
    then have "kernel_ok k7" using dt(1) by (simp add: k7_def k6_def kernel_ok_def est_ok_def)
    then show thesis using False same bm(3) by (intro that [of k7]) simp_all
  qed
  have "kernel_medium k frame rg v run = Some (k8, kernel_publish k8 rg om)"
    unfolding kernel_medium_def f(1) bind.simps k1_def [symmetric] p(1) k2_def [symmetric] Let_def k3_def [symmetric] ve(1) k4_def [symmetric] bm(1) prod.case
      k5_def [symmetric] k6_def [symmetric] inc k7_def [symmetric] k8(1) ..
  then show thesis
  proof (rule that)
    show "run \<and> cl_mode (rg_life rg) = Mode_Current \<or> in_band k8"
      using ve(3) k8(4,5) by (auto simp: in_band_def k3e)
    show "lm_i_lim (k_limits k8) \<le> cli_current_limit_counts (rg_lim_cfg rg)"
      using fold_band(2) [OF fold] k8(11) by (simp add: kernel_limit_cfg_def Let_def)
    show "pl_pos_max_soft_counts (rg_pos_lim rg) \<le> asr (fo_theta_q16 (k_fusion k8)) 16 \<longrightarrow> (if cli_drive_polarity (rg_lim_cfg rg) then ib_hi (k_i_band k8) = 0 else ib_lo (k_i_band k8) = 0)"
      using fold_band(4) [OF fold] k8(5,12) by (simp add: kernel_limit_cfg_def Let_def k2_def k1_def)
    show "asr (fo_theta_q16 (k_fusion k8)) 16 \<le> pl_pos_min_soft_counts (rg_pos_lim rg) \<longrightarrow> (if cli_drive_polarity (rg_lim_cfg rg) then ib_lo (k_i_band k8) = 0 else ib_hi (k_i_band k8) = 0)"
      using fold_band(5) [OF fold] k8(5,12) by (simp add: kernel_limit_cfg_def Let_def k2_def k1_def)
    show "\<not> run \<longrightarrow> k_i_ref_cc k8 = 0" using i0 k8(4) by simp
  qed (use k8 f7 publish_owned in simp_all)
qed

text \<open>What a command needs of the kernel, and what it leaves.\<close>

definition cmd_duty :: "MotorCmd \<Rightarrow> int" where
  "cmd_duty c = (case c of MotorCmd_Drive d _ \<Rightarrow> d | _ \<Rightarrow> 0)"

lemma open_duty_max: "uint (min d (32767 :: u16)) = min (uint d) 32767"
  by (simp add: min_def word_le_def)

lemma recip_fits_eff:
  assumes "recip_fits v flr" "vb_ok v"
  shows "0 \<le> vb_recip_q15 v" "vb_recip_q15 v * uint (max (VbusEst_vbus_counts v) flr) \<le> 32767 * 2 ^ 15 + 1"
proof -
  define r x where "r = vb_recip_q15 v" and "x = uint (VbusEst_vbus_counts v)"
  show "0 \<le> vb_recip_q15 v" using assms(2) by (simp add: vb_ok_def u32_ok_def)
  then have r: "0 \<le> r" by (simp add: r_def)
  have e: "uint (max (VbusEst_vbus_counts v) flr) = max x (uint flr)" by (auto simp: max_def word_le_def x_def)
  have "r * max x (uint flr) \<le> r * max x (max (uint flr) 1)" using r by (intro mult_left_mono) auto
  moreover have "r * max x (max (uint flr) 1) \<le> 32767 * 2 ^ 15 + 1" using assms(1) by (simp add: recip_fits_def r_def x_def)
  ultimately have "r * max x (uint flr) \<le> 32767 * 2 ^ 15 + 1" by (rule order_trans)
  then show "vb_recip_q15 v * uint (max (VbusEst_vbus_counts v) flr) \<le> 32767 * 2 ^ 15 + 1" by (simp add: e r_def)
qed

lemma drive_stage:
  assumes "kernel_ok k"
  obtains k' cmd where "kernel_drive k rg v run = Some (k', cmd)" "kernel_ok k'" "cmd = MotorCmd_Disabled \<longleftrightarrow> \<not> run" "cmd_duty cmd = k_duty_q15 k'"
    "recip_fits (k_vbus k) (cth_v_undervolt_counts (rg_therm_cfg rg)) \<or> cl_mode (rg_life rg) = Mode_OpenLoop \<longrightarrow> \<bar>k_duty_q15 k'\<bar> \<le> uint (lcu_duty_max_q15 (rg_loop_cur rg))"
    "run \<and> cl_mode (rg_life rg) = Mode_Current \<or> in_band k \<longrightarrow> in_band k'"
    "k_te_prev k' = k_te_prev k" "k_run_prev k' = k_run_prev k" "k_decim_med k' = k_decim_med k" "k_faults k' = k_faults k" "k_vbus k' = k_vbus k"
    "k_i_band k' = k_i_band k" "k_limits k' = k_limits k" "k_fusion k' = k_fusion k" "\<not> run \<longrightarrow> k_i_ref_cc k' = k_i_ref_cc k"
proof -
  define dm where "dm = lcu_duty_max_q15 (rg_loop_cur rg)"
  define mode where "mode = cl_mode (rg_life rg)"
  consider "\<not> run" | "run" "mode = Mode_OpenLoop" | "run" "mode \<noteq> Mode_OpenLoop" by blast
  then show thesis
  proof cases
    case 1
    show thesis
      by (rule that [of "k\<lparr>k_duty_q15 := 0\<rparr>" MotorCmd_Disabled])
        (use 1 assms in \<open>simp_all add: kernel_drive_def kernel_ok_def est_ok_def cmd_duty_def in_band_def\<close>)
  next
    case 2
    define mx where "mx = uint (min dm 32767)"
    have mx: "0 \<le> mx" "mx \<le> 32767" "mx \<le> uint dm" using u16_range(1) [of dm] by (simp_all add: mx_def open_duty_max)
    define duty where "duty = clamp (cl_goal_duty (rg_life rg)) (- mx) mx"
    have duty: "\<bar>duty\<bar> \<le> mx" unfolding duty_def by (rule clamp_sym [OF mx(1)])
    have cc: "chk_clamp (cl_goal_duty (rg_life rg)) (- mx) mx = Some duty" using mx(1) by (simp add: duty_def)
    define decay where "decay = (case cli_openloop_decay (rg_lim_cfg rg) of DecaySelect_Slow \<Rightarrow> DecayMode_Slow | DecaySelect_Fast \<Rightarrow> DecayMode_Fast)"
    have eq: "kernel_drive k rg v run = Some (k\<lparr>k_duty_q15 := duty, k_decay := decay\<rparr>, MotorCmd_Drive duty decay)"
      using 2 cc by (simp add: kernel_drive_def Let_def decay_def flip: mode_def dm_def mx_def)
    show thesis
      by (rule that [OF eq]) (use 2 assms duty mx in \<open>auto simp: kernel_ok_def est_ok_def cmd_duty_def in_band_def mode_def simp flip: dm_def\<close>)
  next
    case 3
    obtain i where i: "(if mode = Mode_Current then do { i \<leftarrow> IBand_clamp (k_i_band k) (cl_goal_current (rg_life rg)); Some (k\<lparr>k_i_ref_cc := i\<rparr>) } else Some k)
        = Some (k\<lparr>k_i_ref_cc := i\<rparr>)" "mode = Mode_Current \<or> in_band k \<Longrightarrow> ib_lo (k_i_band k) \<le> i \<and> i \<le> ib_hi (k_i_band k)"
    proof (cases "mode = Mode_Current")
      case True
      obtain y where "IBand_clamp (k_i_band k) (cl_goal_current (rg_life rg)) = Some y" "ib_lo (k_i_band k) \<le> y \<and> y \<le> ib_hi (k_i_band k)"
        using band_clamp [of "k_i_band k"] assms unfolding kernel_ok_def by blast
      then show thesis using True by (intro that [of y]) simp_all
    next
      case False
      then show thesis by (intro that [of "k_i_ref_cc k"]) (simp_all add: in_band_def)
    qed
    define k1 where "k1 = k\<lparr>k_i_ref_cc := i\<rparr>"
    define park where "park \<longleftrightarrow> k_i_ref_cc k1 = 0 \<and> tv_i_meas v = None \<and> (ib_hi (k_i_band k1) = 0 \<or> ib_lo (k_i_band k1) = 0)"
    define g where "g = \<lparr>cg_kp_q88 = lcu_i_kp_q88 (rg_loop_cur rg), cg_ki_q412 = lcu_i_ki_q412 (rg_loop_cur rg), cg_kaw_q412 = lcu_i_kaw_q412 (rg_loop_cur rg),
       cg_ke_q412 = cmo_ke_vpc_q (rg_motor_cal rg), cg_duty_max_q15 = lcu_duty_max_q15 (rg_loop_cur rg)\<rparr>"
    define ve where "ve = max (VbusEst_vbus_counts (k_vbus k1)) (cth_v_undervolt_counts (rg_therm_cfg rg))"
    obtain c duty where cs: "CurrentLoop_step (k_cur k1) (k_i_ref_cc k1) (Some (case tv_i_meas v of Some i \<Rightarrow> i | None \<Rightarrow> 0)) (fo_omega_q16 (k_fusion k1)) ve
        (vb_recip_q15 (k_vbus k1)) g = Some (c, duty)" "\<bar>duty\<bar> \<le> 32767" using current_ok by blast
    have cap: "\<bar>duty\<bar> \<le> uint dm" if "recip_fits (k_vbus k) (cth_v_undervolt_counts (rg_therm_cfg rg))"
      using current_cap [OF cs(1)] recip_fits_eff [OF that] assms by (simp add: kernel_ok_def est_ok_def g_def dm_def ve_def k1_def)
    define k2 where "k2 = (if k_hold k1 then k1\<lparr>k_duty_q15 := 0\<rparr> else if park then k1\<lparr>k_cur := CurrentLoop_reset (k_cur k1), k_duty_q15 := 0, k_decay := DecayMode_Slow\<rparr>
       else k1\<lparr>k_cur := c, k_duty_q15 := duty, k_decay := DecayMode_Slow\<rparr>)"
    define cmd where "cmd = (if k_hold k1 then MotorCmd_Coast else if park then MotorCmd_Drive 0 DecayMode_Slow else MotorCmd_Drive duty DecayMode_Slow)"
    have eq: "kernel_drive k rg v run = Some (k2, cmd)"
      unfolding kernel_drive_def Let_def mode_def [symmetric] i(1) bind.simps k1_def [symmetric] park_def [symmetric] g_def [symmetric] ve_def [symmetric] cs(1) prod.case
      using 3 by (simp add: k2_def cmd_def)
    have k1: "kernel_ok k1" using assms by (simp add: k1_def kernel_ok_def est_ok_def)
    show thesis
    proof (rule that [OF eq])
      show "kernel_ok k2" using k1 cs(2) by (auto simp: k2_def kernel_ok_def est_ok_def)
      show "recip_fits (k_vbus k) (cth_v_undervolt_counts (rg_therm_cfg rg)) \<or> cl_mode (rg_life rg) = Mode_OpenLoop \<longrightarrow>
          \<bar>k_duty_q15 k2\<bar> \<le> uint (lcu_duty_max_q15 (rg_loop_cur rg))"
        using 3(2) cap by (auto simp: k2_def mode_def dm_def)
      show "run \<and> cl_mode (rg_life rg) = Mode_Current \<or> in_band k \<longrightarrow> in_band k2"
        using i(2) by (auto simp: k2_def k1_def in_band_def mode_def)
    qed (use 3 in \<open>auto simp: k2_def cmd_def k1_def cmd_duty_def\<close>)
  qed
qed

text \<open>The current command between ticks: a running, healthy kernel holds it inside the band, a stopped one holds zero.\<close>

definition cur_inv :: "Kernel \<Rightarrow> bool" where
  "cur_inv k \<longleftrightarrow> (k_run_prev k \<and> \<not> faulted k \<longrightarrow> in_band k) \<and> (k_run_prev k \<longrightarrow> k_te_prev k) \<and> (\<not> k_run_prev k \<longrightarrow> k_i_ref_cc k = 0)"

definition kernel_inv :: "Kernel \<Rightarrow> bool" where
  "kernel_inv k \<longleftrightarrow> kernel_ok k \<and> cur_inv k"

text \<open>The reciprocal and the supply estimate form the pair the duty conversion needs, for an undervoltage floor \<open>u\<close>; before
  the next medium tick recomputes them anything may hold.\<close>

definition cap_inv :: "u16 \<Rightarrow> Kernel \<Rightarrow> bool" where
  "cap_inv u k \<longleftrightarrow> k_decim_med k = 9 \<or> recip_fits (k_vbus k) u"

definition endstop_zero :: "Kernel \<Rightarrow> Regs \<Rightarrow> bool" where
  "endstop_zero k rg \<longleftrightarrow>
     (let th = asr (fo_theta_q16 (k_fusion k)) 16; pol = cli_drive_polarity (rg_lim_cfg rg); i = k_i_ref_cc k
      in (pl_pos_max_soft_counts (rg_pos_lim rg) \<le> th \<longrightarrow> (if pol then i \<le> 0 else 0 \<le> i))
       \<and> (th \<le> pl_pos_min_soft_counts (rg_pos_lim rg) \<longrightarrow> (if pol then 0 \<le> i else i \<le> 0)))"

lemma decim_med_cases:
  assumes "n < DECIM_MED"
  shows "u8_inc n = Some (n + 1)" "n + 1 \<ge> DECIM_MED \<longleftrightarrow> n = 9"
proof -
  have n: "n < 10" using assms by (simp add: DECIM_MED_def)
  then have u: "unat n < 10" by (simp add: word_less_nat_alt)
  then have "n < 255" by (simp add: word_less_nat_alt)
  then show "u8_inc n = Some (n + 1)" by (rule u8_inc_lt)
  have "unat (n + 1) = unat n + 1" using u by (simp add: unat_word_ariths)
  then show "n + 1 \<ge> DECIM_MED \<longleftrightarrow> n = 9" using u by (auto simp: DECIM_MED_def word_le_nat_alt unat_arith_simps)
qed

lemma tick_ok:
  assumes inv: "kernel_inv k" and fr: "frame_ok frame" and rg: "regs_ok rg"
  defines "u \<equiv> cth_v_undervolt_counts (rg_therm_cfg rg)"
  obtains k' out where "Kernel_on_tick k frame rg = Some (k', out)" "kernel_inv k'" "owned_writes (to_writes out)"
    "to_cmd out = MotorCmd_Disabled \<longleftrightarrow> \<not> torque_on rg \<or> faulted k'" "cmd_duty (to_cmd out) = k_duty_q15 k'" "k_te_prev k' = torque_on rg"
    "faulted k \<Longrightarrow> \<not> (torque_on rg \<and> \<not> k_te_prev k) \<Longrightarrow> faulted k'"
    "cap_inv u k \<Longrightarrow> cap_inv u k'" "cap_inv u k \<or> cl_mode (rg_life rg) = Mode_OpenLoop \<Longrightarrow> \<bar>k_duty_q15 k'\<bar> \<le> uint (lcu_duty_max_q15 (rg_loop_cur rg))"
    "to_cmd out \<noteq> MotorCmd_Disabled \<Longrightarrow> in_band k'"
    "k_decim_med k = 9 \<Longrightarrow> to_cmd out \<noteq> MotorCmd_Disabled \<Longrightarrow> lm_i_lim (k_limits k') \<le> cli_current_limit_counts (rg_lim_cfg rg) \<and> endstop_zero k' rg"
proof -
  have ok: "kernel_ok k" using inv by (simp add: kernel_inv_def)
  obtain k1 v ws1 where s: "kernel_sense k frame rg = Some (k1, v, ws1)" "kernel_ok k1" "view_ok k1 v" "owned_writes ws1"
    "k_te_prev k1 = torque_on rg" "k_i_ref_cc k1 = k_i_ref_cc k" "k_i_band k1 = k_i_band k" "k_vbus k1 = k_vbus k"
    "k_run_prev k1 = k_run_prev k" "k_decim_med k1 = k_decim_med k" "k_timing k1 = k_timing k"
    "faulted k \<longrightarrow> \<not> (torque_on rg \<and> \<not> k_te_prev k) \<longrightarrow> faulted k1"
    using sense_ok [OF ok fr, of rg] .
  obtain a ws2 where idn: "kernel_ident k1 = Some (k1\<lparr>k_ident := a\<rparr>, ws2)" "kernel_ok (k1\<lparr>k_ident := a\<rparr>)" "owned_writes ws2"
    using ident_ok [OF s(2)] .
  define k2 where "k2 = k1\<lparr>k_ident := a\<rparr>"
  define run where "run \<longleftrightarrow> torque_on rg \<and> fl_mask (k_faults k2) = 0"
  define k3 where "k3 = kernel_edges k2 frame (rg_life rg) run"
  have k3: "kernel_ok k3" unfolding k3_def by (rule edges_ok [OF idn(2) [folded k2_def] fr])
  have e3: "k_te_prev k3 = torque_on rg" "k_i_band k3 = k_i_band k" "k_vbus k3 = k_vbus k" "k_run_prev k3 = run" "k_decim_med k3 = k_decim_med k"
    "k_faults k3 = k_faults k1" "k_timing k3 = k_timing k1" "k_i_ref_cc k3 = (if run \<noteq> k_run_prev k then 0 else k_i_ref_cc k)"
    using s by (simp_all add: k3_def edges_fields k2_def)
  have run: "run \<longleftrightarrow> torque_on rg \<and> \<not> faulted k3" by (simp add: run_def faulted_def e3 k2_def)
  have z3: "k_i_ref_cc k3 = 0" if "\<not> run" using that inv e3(8) by (auto simp: kernel_inv_def cur_inv_def)
  have b3: "in_band k3"
  proof (cases "run \<and> k_run_prev k")
    case True
    then have "\<not> faulted k" using run s(12) inv by (auto simp: kernel_inv_def cur_inv_def faulted_def e3)
    then show ?thesis using True inv e3 by (simp add: kernel_inv_def cur_inv_def in_band_def)
  next
    case False
    then have "k_i_ref_cc k3 = 0" using e3(8) z3 by auto
    then show ?thesis by (rule band_zero [OF k3])
  qed
  have dm: "k_decim_med k3 < DECIM_MED" using k3 by (simp add: kernel_ok_def)
  note inc = decim_med_cases [OF dm]
  have v3: "view_ok k3 v" using s(3) by (simp add: view_ok_def e3)
  obtain k4 ws3 where m: "(if k_decim_med k3 + 1 \<ge> DECIM_MED then kernel_medium (k3\<lparr>k_decim_med := 0\<rparr>) frame rg v run else Some (k3\<lparr>k_decim_med := k_decim_med k3 + 1\<rparr>, []))
      = Some (k4, ws3)" "kernel_ok k4" "owned_writes ws3" "faulted k3 \<Longrightarrow> faulted k4" "cap_inv u k \<Longrightarrow> recip_fits (k_vbus k4) u"
    "run \<and> cl_mode (rg_life rg) = Mode_Current \<or> in_band k4" "k_te_prev k4 = torque_on rg" "k_run_prev k4 = run" "\<not> run \<Longrightarrow> k_i_ref_cc k4 = 0"
    "k_decim_med k = 9 \<Longrightarrow> lm_i_lim (k_limits k4) \<le> cli_current_limit_counts (rg_lim_cfg rg) \<and>
       (pl_pos_max_soft_counts (rg_pos_lim rg) \<le> asr (fo_theta_q16 (k_fusion k4)) 16 \<longrightarrow> (if cli_drive_polarity (rg_lim_cfg rg) then ib_hi (k_i_band k4) = 0 else ib_lo (k_i_band k4) = 0)) \<and>
       (asr (fo_theta_q16 (k_fusion k4)) 16 \<le> pl_pos_min_soft_counts (rg_pos_lim rg) \<longrightarrow> (if cli_drive_polarity (rg_lim_cfg rg) then ib_lo (k_i_band k4) = 0 else ib_hi (k_i_band k4) = 0))"
  proof (cases "k_decim_med k3 = 9")
    case True
    have o0: "kernel_ok (k3\<lparr>k_decim_med := 0\<rparr>)" "view_ok (k3\<lparr>k_decim_med := 0\<rparr>) v" "\<not> run \<Longrightarrow> k_i_ref_cc (k3\<lparr>k_decim_med := 0\<rparr>) = 0"
      using k3 v3 z3 by (simp_all add: kernel_ok_def est_ok_def view_ok_def DECIM_MED_def)
    obtain k4 ws3 where h: "kernel_medium (k3\<lparr>k_decim_med := 0\<rparr>) frame rg v run = Some (k4, ws3)" "kernel_ok k4" "owned_writes ws3"
      "faulted (k3\<lparr>k_decim_med := 0\<rparr>) \<longrightarrow> faulted k4" "recip_fits (k_vbus k4) (cth_v_undervolt_counts (rg_therm_cfg rg))"
      "run \<and> cl_mode (rg_life rg) = Mode_Current \<or> in_band k4"
      "k_te_prev k4 = k_te_prev (k3\<lparr>k_decim_med := 0\<rparr>)" "k_run_prev k4 = k_run_prev (k3\<lparr>k_decim_med := 0\<rparr>)"
      "k_decim_med k4 = k_decim_med (k3\<lparr>k_decim_med := 0\<rparr>)" "k_timing k4 = k_timing (k3\<lparr>k_decim_med := 0\<rparr>)"
      "lm_i_lim (k_limits k4) \<le> cli_current_limit_counts (rg_lim_cfg rg)" "\<not> run \<longrightarrow> k_i_ref_cc k4 = 0"
      "pl_pos_max_soft_counts (rg_pos_lim rg) \<le> asr (fo_theta_q16 (k_fusion k4)) 16 \<longrightarrow> (if cli_drive_polarity (rg_lim_cfg rg) then ib_hi (k_i_band k4) = 0 else ib_lo (k_i_band k4) = 0)"
      "asr (fo_theta_q16 (k_fusion k4)) 16 \<le> pl_pos_min_soft_counts (rg_pos_lim rg) \<longrightarrow> (if cli_drive_polarity (rg_lim_cfg rg) then ib_lo (k_i_band k4) = 0 else ib_hi (k_i_band k4) = 0)"
      using medium_ok [OF o0(1) fr rg o0(2,3)] .
    show thesis
      by (rule that [of k4 ws3, OF _ h(2,3) _ _ h(6)]) (use inc(2) True e3 h(1,4,5,7,8,11-14) in \<open>simp_all add: u_def faulted_def\<close>)
  next
    case False
    have "k_decim_med k3 + 1 < DECIM_MED" using inc(2) False by (simp add: not_le)
    then have "kernel_ok (k3\<lparr>k_decim_med := k_decim_med k3 + 1\<rparr>)" using k3 by (simp add: kernel_ok_def est_ok_def)
    then show thesis using False inc(2) e3 b3 z3 by (intro that [of "k3\<lparr>k_decim_med := k_decim_med k3 + 1\<rparr>" "[]"]) (auto simp: faulted_def cap_inv_def in_band_def)
  qed
  obtain k5 cmd where d: "kernel_drive k4 rg v (run \<and> fl_mask (k_faults k4) = 0) = Some (k5, cmd)" "kernel_ok k5" "cmd = MotorCmd_Disabled \<longleftrightarrow> \<not> (run \<and> fl_mask (k_faults k4) = 0)"
    "cmd_duty cmd = k_duty_q15 k5"
    "recip_fits (k_vbus k4) (cth_v_undervolt_counts (rg_therm_cfg rg)) \<or> cl_mode (rg_life rg) = Mode_OpenLoop \<longrightarrow> \<bar>k_duty_q15 k5\<bar> \<le> uint (lcu_duty_max_q15 (rg_loop_cur rg))"
    "(run \<and> fl_mask (k_faults k4) = 0) \<and> cl_mode (rg_life rg) = Mode_Current \<or> in_band k4 \<longrightarrow> in_band k5"
    "k_te_prev k5 = k_te_prev k4" "k_run_prev k5 = k_run_prev k4" "k_decim_med k5 = k_decim_med k4" "k_faults k5 = k_faults k4" "k_vbus k5 = k_vbus k4"
    "k_i_band k5 = k_i_band k4" "k_limits k5 = k_limits k4" "k_fusion k5 = k_fusion k4" "\<not> (run \<and> fl_mask (k_faults k4) = 0) \<longrightarrow> k_i_ref_cc k5 = k_i_ref_cc k4"
    using drive_stage [OF m(2), of rg v "run \<and> fl_mask (k_faults k4) = 0"] .
  define out where "out = \<lparr>to_writes = ws1 @ ws2 @ ws3, to_tel = kernel_tel k1 frame rg v, to_cmd = cmd\<rparr>"
  have eq: "Kernel_on_tick k frame rg = Some (k5, out)"
    unfolding Kernel_on_tick_def s(1) bind.simps prod.case Let_def idn(1) k2_def [symmetric] torque_on_def [symmetric] run_def [symmetric] k3_def [symmetric]
      inc(1) m(1) d(1) out_def ..
  have gate: "run \<and> fl_mask (k_faults k4) = 0 \<longleftrightarrow> torque_on rg \<and> \<not> faulted k5"
    using run m(4) d(10) by (auto simp: faulted_def)
  have band: "in_band k5" if "run \<and> fl_mask (k_faults k4) = 0" using d(6) m(6) that by blast
  show thesis
  proof (rule that [OF eq])
    show "kernel_inv k5"
      using d(2,7,8,15) m(7,8,9) band gate run by (auto simp: kernel_inv_def cur_inv_def)
    show "owned_writes (to_writes out)" using s(4) idn(3) m(3) by (simp add: out_def)
    show "to_cmd out = MotorCmd_Disabled \<longleftrightarrow> \<not> torque_on rg \<or> faulted k5" using d(3) gate by (auto simp: out_def)
    show "cmd_duty (to_cmd out) = k_duty_q15 k5" using d(4) by (simp add: out_def)
    show "k_te_prev k5 = torque_on rg" using d(7) m(7) by simp
    show "faulted k5" if "faulted k" "\<not> (torque_on rg \<and> \<not> k_te_prev k)"
      using s(12) that m(4) d(10) by (auto simp: faulted_def e3)
    show "cap_inv u k5" if "cap_inv u k" using m(5) that d(11) by (simp add: cap_inv_def)
    show "\<bar>k_duty_q15 k5\<bar> \<le> uint (lcu_duty_max_q15 (rg_loop_cur rg))" if "cap_inv u k \<or> cl_mode (rg_life rg) = Mode_OpenLoop"
      using d(5) m(5) that by (auto simp: u_def)
    show "in_band k5" if "to_cmd out \<noteq> MotorCmd_Disabled" using band d(3) that by (simp add: out_def)
    show "lm_i_lim (k_limits k5) \<le> cli_current_limit_counts (rg_lim_cfg rg) \<and> endstop_zero k5 rg"
      if "k_decim_med k = 9" "to_cmd out \<noteq> MotorCmd_Disabled"
    proof -
      have "in_band k5" using band d(3) that(2) by (simp add: out_def)
      then show ?thesis using m(10) [OF that(1)] d(12,13,14) by (auto simp: endstop_zero_def Let_def in_band_def)
    qed
  qed
qed

end
