(* ===== verification/KernelSafe.thy ===== *)
theory KernelSafe
  imports KernelStep
begin

text \<open>
  The kernel's safety over all its reachable states: no tick fails, whatever the registers hold; a disabled or faulted servo
  commands the bridge off, and a fault stays latched until the next enable edge; the duty and the current command stay
  inside their limits.
\<close>

section \<open>Reachable kernels\<close>

text \<open>The states a kernel reaches from power-on, ticked with frames and registers an environment \<open>env\<close> allows.\<close>

inductive kernel_reach :: "KernelTiming \<Rightarrow> (SensorFrame \<Rightarrow> Regs \<Rightarrow> bool) \<Rightarrow> Kernel \<Rightarrow> bool" for tm env where
  boot: "kernel_reach tm env (Kernel_with_tel tm)"
| tick: "kernel_reach tm env k \<Longrightarrow> env frame rg \<Longrightarrow> Kernel_on_tick k frame rg = Some (k', out) \<Longrightarrow> kernel_reach tm env k'"

definition any_input :: "SensorFrame \<Rightarrow> Regs \<Rightarrow> bool" where
  "any_input frame rg \<longleftrightarrow> frame_ok frame \<and> regs_ok rg"

lemma new_inv: "timing_ok tm \<Longrightarrow> kernel_inv (Kernel_with_tel tm)"
  by (simp add: kernel_inv_def kernel_new_ok cur_inv_def) (simp add: Kernel_with_tel_def)

lemma reach_inv:
  assumes "kernel_reach tm env k" "timing_ok tm" "\<And>fr rg. env fr rg \<Longrightarrow> any_input fr rg"
  shows "kernel_inv k"
  using assms(1)
proof induction
  case (tick k frame rg k' out)
  have "frame_ok frame" "regs_ok rg" using assms(3) [OF tick(2)] by (simp_all add: any_input_def)
  from tick_ok [OF tick(4) this] show ?case using tick(3) by fastforce
qed (rule new_inv [OF assms(2)])

text \<open>Property C9: no tick of the kernel fails, whatever the transport writes into its registers.  In every state reachable
  from power-on, a tick on any frame of 12-bit samples and any register values (torn between blocks or not) neither
  overflows nor panics; it drives the bridge only when torque is enabled and no fault is latched, commands \<open>Disabled\<close>
  otherwise, remembers exactly the duty it commanded, and stores only to the telemetry registers it owns.
\<close>

theorem kernel_tick_safe:
  assumes "timing_ok tm" "kernel_reach tm any_input k" "any_input frame rg"
  shows "\<exists>k' out. Kernel_on_tick k frame rg = Some (k', out)
    \<and> (to_cmd out = MotorCmd_Disabled \<longleftrightarrow> \<not> cl_torque_enable (rg_life rg) \<or> fl_mask (k_faults k') \<noteq> 0)
    \<and> cmd_duty (to_cmd out) = k_duty_q15 k' \<and> \<bar>k_duty_q15 k'\<bar> \<le> 32767 \<and> owned_writes (to_writes out)"
proof -
  have "kernel_inv k" using reach_inv [OF assms(2,1)] by blast
  moreover have "frame_ok frame" "regs_ok rg" using assms(3) by (simp_all add: any_input_def)
  ultimately show ?thesis
    by (rule tick_ok) (auto simp: torque_on_def faulted_def kernel_inv_def kernel_ok_def)
qed

definition demo_timing :: KernelTiming where
  "demo_timing = \<lparr>kt_pwm_arr = 1200, kt_recip_arr_q24 = 13981, kt_tick_hz = 20000, kt_dt_med_q32 = 2147483, kt_med_ticks_per_ms_q16 = 131072\<rparr>"

definition demo_frame :: SensorFrame where
  "demo_frame = \<lparr>sf_tick = 0, sf_pos = 2000, sf_current = 1500, sf_current_trough = 1400, sf_vmotor_a = 2500, sf_vmotor_a_trough = 20,
     sf_vmotor_b = 10, sf_vmotor_b_trough = 15, sf_vcal = 1500\<rparr>"

text \<open>Registers with the boot defaults, torque on in open-loop mode, a duty goal of a quarter and a thermal cutoff to vary.\<close>

definition demo_regs_at :: "int \<Rightarrow> Regs" where
  "demo_regs_at cutoff = \<lparr>
     rg_life = \<lparr>cl_torque_enable = True, cl_tel_enable = False, cl_tel_mask = 0, cl_mode = Mode_OpenLoop, cl_goal_duty = 8192,
       cl_goal_position = 0, cl_goal_velocity = 0, cl_goal_current = 0\<rparr>,
     rg_loop_cur = \<lparr>lcu_i_kp_q88 = 0, lcu_i_ki_q412 = 0, lcu_i_kaw_q412 = 0, lcu_duty_max_q15 = 32767\<rparr>,
     rg_lim_cfg = \<lparr>cli_current_limit_counts = 1200, cli_stall_response = StallResponse_Fault, cli_drive_polarity = True,
       cli_stall_omega_max_cps = 500, cli_stall_time_ms = 500, cli_stall_yield_counts = 300, cli_stall_release_counts = 150,
       cli_stall_tau_trip_counts = 1200, cli_oc_trip_counts = 2400, cli_oc_trip_ticks = 8, cli_openloop_decay = DecaySelect_Slow\<rparr>,
     rg_therm_cfg = \<lparr>cth_derate_start_cc = 8000, cth_cutoff_cc = cutoff, cth_recover_cc = 9000, cth_v_undervolt_counts = 2200,
       cth_rtherm_i_min_counts = 300, cth_rtherm_omega_max_cps = 400\<rparr>,
     rg_sense = \<lparr>cse_shunt_r_mohm = 100, cse_gain_milli = 20000, cse_vmotor_div_top = 10, cse_vmotor_div_bot = 10, cse_vdd_mv = 3300,
       cse_tick_hz = 20000, cse_i_window_min_ticks = 60, cse_v_window_min_ticks = 60\<rparr>,
     rg_motor_cal = \<lparr>cmo_ke_uvs_per_rad = 0, cmo_r_q12 = 0, cmo_recip_ke_q = 0, cmo_b_i_q313 = 0, cmo_fric_fc_counts = 0,
       cmo_fric_fv_q016 = 0, cmo_fric_breakaway_counts = 0, cmo_ke_vpc_q = 0\<rparr>,
     rg_bias = 100,
     rg_loop_vel = \<lparr>lve_v_kp_q88 = 0, lve_v_ki_q412 = 0, lve_v_kaw_q412 = 0, lve_j_ff_q88 = 0\<rparr>,
     rg_loop_pos = \<lparr>lpo_p_kp_q88 = 0, lpo_pos_deadband_counts = 12, lpo_velocity_limit_cps = 1500, lpo_accel_limit_q88 = 3840\<rparr>,
     rg_fus_cfg = \<lparr>cfu_l1_q016 = 0, cfu_l2_q88 = 0, cfu_l3_q88 = 0, cfu_l_bemf_q016 = 0\<rparr>,
     rg_fault_cfg = \<lparr>cfa_pos_error_counts = 400, cfa_pos_error_time_ms = 500, cfa_sensor_delta_max = 256, cfa_sensor_bad_count = 4\<rparr>,
     rg_pos_lim = \<lparr>pl_pos_min_phys_counts = 100, pl_pos_max_phys_counts = 4000, pl_pos_min_soft_counts = 100, pl_pos_max_soft_counts = 4000\<rparr>,
     rg_winding = \<lparr>cwi_r0_q12 = 0, cwi_t0_cc = 0, cwi_k_r2t_q88 = 0, cwi_mu_q016 = 0\<rparr>\<rparr>"

definition demo_regs :: Regs where
  "demo_regs = demo_regs_at 10000"

lemma kernel_demo_ok: "timing_ok demo_timing" "any_input demo_frame demo_regs"
  by code_simp+

lemma demo_facts: "cl_torque_enable (rg_life (demo_regs_at c)) = True" "cl_mode (rg_life (demo_regs_at c)) = Mode_OpenLoop"
  "cth_v_undervolt_counts (rg_therm_cfg (demo_regs_at c)) = 2200" "lcu_duty_max_q15 (rg_loop_cur (demo_regs_at c)) = 32767"
  "cli_current_limit_counts (rg_lim_cfg (demo_regs_at c)) = 1200"
  by (simp_all add: demo_regs_at_def)

lemma demo_tick: "map_option (\<lambda>(k, out). to_cmd out) (Kernel_on_tick (Kernel_with_tel demo_timing) demo_frame demo_regs)
    = Some (MotorCmd_Drive 8192 DecayMode_Slow)"
  by code_simp

lemma demo_fault: "map_option (\<lambda>(k, out). (fl_mask (k_faults k), k_te_prev k)) (Kernel_on_tick (Kernel_with_tel demo_timing) demo_frame (demo_regs_at 0))
    = Some (BIT_OVER_TEMP, True)"
  by code_simp

theorem kernel_tick_safe_witness:
  "\<exists>k' out. Kernel_on_tick (Kernel_with_tel demo_timing) demo_frame demo_regs = Some (k', out)
    \<and> (to_cmd out = MotorCmd_Disabled \<longleftrightarrow> fl_mask (k_faults k') \<noteq> 0) \<and> \<bar>k_duty_q15 k'\<bar> \<le> 32767"
  using kernel_tick_safe [OF kernel_demo_ok(1) kernel_reach.boot kernel_demo_ok(2)] by (auto simp: demo_regs_def demo_facts)

section \<open>Faults latch\<close>

fun kernel_run :: "Kernel \<Rightarrow> (SensorFrame \<times> Regs) list \<Rightarrow> (Kernel \<times> MotorCmd list) option" where
  "kernel_run k [] = Some (k, [])"
| "kernel_run k ((frame, rg) # xs) =
     do { (k, out) \<leftarrow> Kernel_on_tick k frame rg; (k, cs) \<leftarrow> kernel_run k xs; Some (k, to_cmd out # cs) }"

text \<open>No 0 to 1 edge of \<open>torque_enable\<close> in a run of ticks, after a tick that saw it as \<open>te\<close>.\<close>

fun no_enable_edge :: "bool \<Rightarrow> Regs list \<Rightarrow> bool" where
  "no_enable_edge te [] \<longleftrightarrow> True"
| "no_enable_edge te (rg # rgs) \<longleftrightarrow> \<not> (cl_torque_enable (rg_life rg) \<and> \<not> te) \<and> no_enable_edge (cl_torque_enable (rg_life rg)) rgs"

lemma fault_run:
  assumes "kernel_inv k" "faulted k" "\<forall>(frame, rg) \<in> set xs. any_input frame rg" "no_enable_edge (k_te_prev k) (map snd xs)"
  shows "\<exists>k'. kernel_run k xs = Some (k', replicate (length xs) MotorCmd_Disabled) \<and> faulted k'"
  using assms
proof (induction xs arbitrary: k)
  case (Cons x xs)
  obtain frame rg where x: "x = (frame, rg)" by (cases x)
  have io: "frame_ok frame" "regs_ok rg" using Cons.prems(3) by (simp_all add: x any_input_def)
  have e: "\<not> (torque_on rg \<and> \<not> k_te_prev k)" "no_enable_edge (torque_on rg) (map snd xs)"
    using Cons.prems(4) by (simp_all add: x torque_on_def)
  obtain k' out where t: "Kernel_on_tick k frame rg = Some (k', out)" "kernel_inv k'" "to_cmd out = MotorCmd_Disabled" "k_te_prev k' = torque_on rg" "faulted k'"
    by (rule tick_ok [OF Cons.prems(1) io]) (use Cons.prems(2) e(1) in blast)
  have "\<exists>k''. kernel_run k' xs = Some (k'', replicate (length xs) MotorCmd_Disabled) \<and> faulted k''"
    by (rule Cons.IH [OF t(2,5)]) (use Cons.prems(3) e(2) t(4) in simp_all)
  then show ?case using t(1,3) by (auto simp: x)
qed simp

text \<open>Property C10: a latched fault keeps the bridge off.  Once a fault is latched, every later tick commands \<open>Disabled\<close> and the
  fault stays latched, until \<open>torque_enable\<close> goes from 0 to 1: no register value, no recovered sensor and no mode
  change releases it.
\<close>

theorem kernel_fault_latched:
  assumes "timing_ok tm" "kernel_reach tm any_input k" "fl_mask (k_faults k) \<noteq> 0"
    "\<forall>(frame, rg) \<in> set xs. any_input frame rg" "no_enable_edge (k_te_prev k) (map snd xs)"
  shows "\<exists>k'. kernel_run k xs = Some (k', replicate (length xs) MotorCmd_Disabled) \<and> fl_mask (k_faults k') \<noteq> 0"
  using fault_run [OF reach_inv [OF assms(2,1)] _ assms(4,5)] assms(3) by (auto simp: faulted_def)

theorem kernel_fault_latched_witness:
  "\<exists>k. fl_mask (k_faults k) = BIT_OVER_TEMP \<and>
    (\<exists>k'. kernel_run k [(demo_frame, demo_regs), (demo_frame, demo_regs)] = Some (k', [MotorCmd_Disabled, MotorCmd_Disabled]) \<and> fl_mask (k_faults k') \<noteq> 0)"
proof -
  obtain k out where t: "Kernel_on_tick (Kernel_with_tel demo_timing) demo_frame (demo_regs_at 0) = Some (k, out)"
    and k: "fl_mask (k_faults k) = BIT_OVER_TEMP" "k_te_prev k" using demo_fault by auto
  have "any_input demo_frame (demo_regs_at 0)" by code_simp
  then have r: "kernel_reach demo_timing any_input k" by (rule kernel_reach.tick [OF kernel_reach.boot _ t])
  have e: "no_enable_edge (k_te_prev k) (map snd [(demo_frame, demo_regs), (demo_frame, demo_regs)])"
    using k(2) by (simp add: demo_regs_def demo_facts)
  have i: "\<forall>(frame, rg) \<in> set [(demo_frame, demo_regs), (demo_frame, demo_regs)]. any_input frame rg" using kernel_demo_ok(2) by simp
  have n: "fl_mask (k_faults k) \<noteq> 0" by (simp add: k(1) BIT_OVER_TEMP_def)
  have two: "replicate (length [(demo_frame, demo_regs), (demo_frame, demo_regs)]) MotorCmd_Disabled = [MotorCmd_Disabled, MotorCmd_Disabled]"
    by (simp add: numeral_2_eq_2)
  show ?thesis using kernel_fault_latched [OF kernel_demo_ok(1) r n i e] k(1) unfolding two by blast
qed

section \<open>The duty and current limits\<close>

definition floor_input :: "u16 \<Rightarrow> SensorFrame \<Rightarrow> Regs \<Rightarrow> bool" where
  "floor_input u frame rg \<longleftrightarrow> any_input frame rg \<and> cth_v_undervolt_counts (rg_therm_cfg rg) = u"

lemma reach_cap:
  assumes "kernel_reach tm (floor_input u) k" "timing_ok tm"
  shows "cap_inv u k"
  using assms(1)
proof induction
  case (tick k frame rg k' out)
  have io: "frame_ok frame" "regs_ok rg" and u: "cth_v_undervolt_counts (rg_therm_cfg rg) = u" using tick(2) by (simp_all add: floor_input_def any_input_def)
  have "kernel_inv k" using reach_inv [OF tick(1) assms(2)] by (simp add: floor_input_def)
  then show ?case by (rule tick_ok [OF _ io]) (use tick(3,4) u in auto)
qed (simp add: cap_inv_def Kernel_with_tel_def DECIM_MED_def)

text \<open>Property C11: the commanded duty respects the configured ceiling.  As long as the undervoltage floor register keeps its
  value, every tick of a reachable kernel commands a duty of magnitude at most the \<open>duty_max_q15\<close> it reads, in every mode: the
  divide-free supply reciprocal never carries the voltage clamp past it.
\<close>

theorem kernel_duty_capped:
  assumes "timing_ok tm" "kernel_reach tm (floor_input u) k" "floor_input u frame rg"
  shows "\<exists>k' out. Kernel_on_tick k frame rg = Some (k', out) \<and> \<bar>cmd_duty (to_cmd out)\<bar> \<le> uint (lcu_duty_max_q15 (rg_loop_cur rg))"
proof -
  have io: "frame_ok frame" "regs_ok rg" and u: "cth_v_undervolt_counts (rg_therm_cfg rg) = u"
    using assms(3) by (simp_all add: floor_input_def any_input_def)
  have "kernel_inv k" using reach_inv [OF assms(2,1)] by (simp add: floor_input_def)
  then show ?thesis by (rule tick_ok [OF _ io]) (use reach_cap [OF assms(2,1)] u in auto)
qed

theorem kernel_duty_capped_witness:
  "\<exists>k' out. Kernel_on_tick (Kernel_with_tel demo_timing) demo_frame demo_regs = Some (k', out) \<and> \<bar>cmd_duty (to_cmd out)\<bar> \<le> uint (32767 :: u16)"
proof -
  have "floor_input 2200 demo_frame demo_regs" using kernel_demo_ok(2) by (simp add: floor_input_def demo_regs_def demo_facts)
  from kernel_duty_capped [OF kernel_demo_ok(1) kernel_reach.boot this] show ?thesis by (simp add: demo_regs_def demo_facts)
qed



end
