(* ===== verification/Derive.thy ===== *)
theory Derive
  imports Table
begin

text \<open>
  The derive macros of the register table (\<open>control-table-derive/src\<close>): what \<open>Enum\<close>, \<open>Block\<close>, \<open>Section\<close> and \<open>Table\<close> expand a declaration
  to, as functions from the declaration.  A declaration lists its fields with their types and \<open>ct_field\<close> attributes; the
  expansion is the rule arrays, the writable bitmap, the field descriptors and the section metadata of a
  \<open>RegisterMap\<close>, or the compile error.  The \<open>repr(C)\<close> layout the macros read with \<open>offset_of!\<close> and \<open>size_of\<close> is computed here from sizes and
  alignments.  Parsing the attribute tokens and the code emitted for hooks is not modelled here (the hooks the servo uses are
  in \<open>Dispatch\<close>).

  Shown here: every table the macros accept is a map the register file can trust (\<open>map_ok\<close>): each section's rule stripe
  holds exactly its own rules, in address order and inside the section.
\<close>

section \<open>Declarations\<close>

record EnumVariant =
  ev_name :: string
  ev_value :: u8

datatype FieldTy = Ty_u8 | Ty_u16 | Ty_u32 | Ty_i8 | Ty_i16 | Ty_i32 | Ty_bool | Ty_enum "EnumVariant list" | Ty_array FieldTy nat

fun size_of :: "FieldTy \<Rightarrow> nat" where
  "size_of Ty_u8 = 1" | "size_of Ty_u16 = 2" | "size_of Ty_u32 = 4" | "size_of Ty_i8 = 1" | "size_of Ty_i16 = 2" | "size_of Ty_i32 = 4"
| "size_of Ty_bool = 1" | "size_of (Ty_enum vs) = 1" | "size_of (Ty_array ty n) = size_of ty * n"

fun align_of :: "FieldTy \<Rightarrow> nat" where
  "align_of (Ty_array ty n) = align_of ty"
| "align_of ty = size_of ty"

datatype CmpOp = CmpOp_Lt | CmpOp_Le | CmpOp_Gt | CmpOp_Ge | CmpOp_Eq | CmpOp_Ne

definition CmpOp_const_tokens :: "CmpOp \<Rightarrow> u8" where
  "CmpOp_const_tokens op = (case op of CmpOp_Lt \<Rightarrow> OP_LT | CmpOp_Le \<Rightarrow> OP_LE | CmpOp_Gt \<Rightarrow> OP_GT | CmpOp_Ge \<Rightarrow> OP_GE
     | CmpOp_Eq \<Rightarrow> OP_EQ | CmpOp_Ne \<Rightarrow> OP_NE)"

datatype RuleExpr = RuleExpr_Imm int | RuleExpr_Ref u16

record FieldAttrs =
  fa_skip :: bool
  fa_ro :: bool
  fa_compares :: "(CmpOp \<times> RuleExpr) list"
  fa_abs :: bool

record FieldDecl =
  fd_name :: string
  fd_ty :: FieldTy
  fd_attrs :: FieldAttrs

datatype DeriveError = CompareNeverRuns | CompareNeedsInteger | TwoBoundsOneSide | BlockPadding | SectionSizeMismatch | SectionPadding
  | TableSizeMismatch | TablePadding | SectionBaseNotOffset | SectionPastEnd | SectionsOverlap | ConstOverflow

type_synonym 'a derived = "DeriveError + 'a"

definition dbind :: "'a derived \<Rightarrow> ('a \<Rightarrow> 'b derived) \<Rightarrow> 'b derived" where
  "dbind m k = (case m of Inl e \<Rightarrow> Inl e | Inr x \<Rightarrow> k x)"

fun dmap :: "('a \<Rightarrow> 'b derived) \<Rightarrow> 'a list \<Rightarrow> 'b list derived" where
  "dmap f [] = Inr []"
| "dmap f (x # xs) = dbind (f x) (\<lambda>y. dbind (dmap f xs) (\<lambda>ys. Inr (y # ys)))"

definition derive_assert :: "bool \<Rightarrow> DeriveError \<Rightarrow> unit derived" where
  "derive_assert b e = (if b then Inr () else Inl e)"

section \<open>The layout of a \<open>repr(C)\<close> struct\<close>

definition round_up :: "nat \<Rightarrow> nat \<Rightarrow> nat" where
  "round_up n a = (n + a - 1) div a * a"

fun repr_c_offsets :: "nat \<Rightarrow> (nat \<times> nat) list \<Rightarrow> nat list" where
  "repr_c_offsets p [] = []"
| "repr_c_offsets p ((s, a) # fs) = (let q = round_up p a in q # repr_c_offsets (q + s) fs)"

fun repr_c_end :: "nat \<Rightarrow> (nat \<times> nat) list \<Rightarrow> nat" where
  "repr_c_end p [] = p"
| "repr_c_end p ((s, a) # fs) = repr_c_end (round_up p a + s) fs"

definition repr_c_align :: "(nat \<times> nat) list \<Rightarrow> nat" where
  "repr_c_align fs = foldr (\<lambda>(s, a) m. if m < a then a else m) fs 1"

definition repr_c_size :: "(nat \<times> nat) list \<Rightarrow> nat" where
  "repr_c_size fs = round_up (repr_c_end 0 fs) (repr_c_align fs)"

section \<open>\<open>Enum\<close> and \<open>Block\<close>\<close>

definition Enum_ALLOWED :: "EnumVariant list \<Rightarrow> bytes" where
  "Enum_ALLOWED vs = map ev_value vs"

definition BOOL_ALLOWED :: bytes where "BOOL_ALLOWED = [0, 1]"

definition auto_enum_allowed :: "FieldTy \<Rightarrow> bytes option" where
  "auto_enum_allowed ty = (case ty of Ty_bool \<Rightarrow> Some BOOL_ALLOWED | Ty_enum vs \<Rightarrow> Some (Enum_ALLOWED vs) | _ \<Rightarrow> None)"

definition cmp_width_signed :: "FieldTy \<Rightarrow> (u8 \<times> bool) derived" where
  "cmp_width_signed ty = (case ty of Ty_u8 \<Rightarrow> Inr (1, False) | Ty_i8 \<Rightarrow> Inr (1, True) | Ty_u16 \<Rightarrow> Inr (2, False)
     | Ty_i16 \<Rightarrow> Inr (2, True) | Ty_i32 \<Rightarrow> Inr (4, True) | _ \<Rightarrow> Inl CompareNeedsInteger)"

definition build_rule_val :: "RuleExpr \<Rightarrow> bool \<times> u32" where
  "build_rule_val e = (case e of RuleExpr_Ref a \<Rightarrow> (True, ucast a) | RuleExpr_Imm v \<Rightarrow> (False, word_of_int v))"

datatype FieldKind = FieldKind_UInt | FieldKind_Int | FieldKind_Bool | FieldKind_Enum "EnumVariant list" | FieldKind_Bytes

record FieldDesc =
  fx_name :: string
  fx_addr :: u16
  fx_width :: u16
  fx_writable :: bool
  fx_kind :: FieldKind
  fx_min :: "int option"
  fx_max :: "int option"

definition field_kind :: "FieldTy \<Rightarrow> FieldKind" where
  "field_kind ty = (case ty of Ty_array _ _ \<Rightarrow> FieldKind_Bytes | Ty_bool \<Rightarrow> FieldKind_Bool | Ty_u8 \<Rightarrow> FieldKind_UInt | Ty_u16 \<Rightarrow> FieldKind_UInt
     | Ty_u32 \<Rightarrow> FieldKind_UInt | Ty_i8 \<Rightarrow> FieldKind_Int | Ty_i16 \<Rightarrow> FieldKind_Int | Ty_i32 \<Rightarrow> FieldKind_Int | Ty_enum vs \<Rightarrow> FieldKind_Enum vs)"

fun bounds_loop :: "(CmpOp \<times> RuleExpr) list \<Rightarrow> int option \<Rightarrow> int option \<Rightarrow> (int option \<times> int option) derived" where
  "bounds_loop [] lo hi = Inr (lo, hi)"
| "bounds_loop ((op, e) # cs) lo hi =
     (case e of RuleExpr_Ref _ \<Rightarrow> bounds_loop cs lo hi
      | RuleExpr_Imm v \<Rightarrow>
          (case op of
             CmpOp_Ge \<Rightarrow> if lo \<noteq> None then Inl TwoBoundsOneSide else bounds_loop cs (Some v) hi
           | CmpOp_Gt \<Rightarrow> if lo \<noteq> None then Inl TwoBoundsOneSide else bounds_loop cs (Some (v + 1)) hi
           | CmpOp_Le \<Rightarrow> if hi \<noteq> None then Inl TwoBoundsOneSide else bounds_loop cs lo (Some v)
           | CmpOp_Lt \<Rightarrow> if hi \<noteq> None then Inl TwoBoundsOneSide else bounds_loop cs lo (Some (v - 1))
           | _ \<Rightarrow> bounds_loop cs lo hi))"

definition field_bounds :: "(CmpOp \<times> RuleExpr) list \<Rightarrow> bool \<Rightarrow> (int option \<times> int option) derived" where
  "field_bounds compares is_abs = (if is_abs then Inr (None, None) else bounds_loop compares None None)"

record BlockOut =
  bo_writable :: "(u16 \<times> u16) list"
  bo_cmp :: "CmpRule list"
  bo_allowed :: "AllowedRule list"
  bo_fields :: "FieldDesc list"

definition cmp_rules_for :: "u16 \<Rightarrow> FieldTy \<Rightarrow> FieldAttrs \<Rightarrow> CmpRule list derived" where
  "cmp_rules_for rel_addr ty at =
     (if fa_compares at = [] then Inr []
      else dbind (cmp_width_signed ty) (\<lambda>(width, sg).
        let is_abs = (fa_abs at \<and> sg)
        in Inr (map (\<lambda>(op, e).
             let (is_reg, val) = build_rule_val e; sp = rule_spec width sg is_abs (CmpOp_const_tokens op)
             in \<lparr>cr_addr = rel_addr, cr_spec = (if is_reg then sp OR SPEC_RHS_REG else sp), cr_val = val\<rparr>) (fa_compares at))))"

definition field_expand :: "nat \<times> FieldDecl \<Rightarrow> BlockOut derived" where
  "field_expand = (\<lambda>(off, f).
     (let at = fd_attrs f; ty = fd_ty f; rel_addr = of_nat off :: u16; width = of_nat (size_of ty) :: u16
      in if fa_compares at \<noteq> [] \<and> (fa_skip at \<or> fa_ro at) then Inl CompareNeverRuns
         else if fa_skip at then Inr \<lparr>bo_writable = [], bo_cmp = [], bo_allowed = [], bo_fields = []\<rparr>
         else dbind (if fa_ro at then Inr [] else cmp_rules_for rel_addr ty at) (\<lambda>cmp.
              dbind (field_bounds (fa_compares at) (fa_abs at)) (\<lambda>(mn, mx).
              Inr \<lparr>bo_writable = (if fa_ro at then [] else [(rel_addr, width)]),
                   bo_cmp = cmp,
                   bo_allowed = (if fa_ro at then [] else case auto_enum_allowed ty of None \<Rightarrow> [] | Some al \<Rightarrow> [\<lparr>ar_addr = rel_addr, ar_allowed = al\<rparr>]),
                   bo_fields = [\<lparr>fx_name = fd_name f, fx_addr = rel_addr, fx_width = width, fx_writable = \<not> fa_ro at, fx_kind = field_kind ty,
                                 fx_min = mn, fx_max = mx\<rparr>]\<rparr>))))"

definition BlockOut_concat :: "BlockOut list \<Rightarrow> BlockOut" where
  "BlockOut_concat os = \<lparr>bo_writable = concat (map bo_writable os), bo_cmp = concat (map bo_cmp os), bo_allowed = concat (map bo_allowed os),
     bo_fields = concat (map bo_fields os)\<rparr>"

definition layout_of :: "FieldDecl list \<Rightarrow> (nat \<times> nat) list" where
  "layout_of fs = map (\<lambda>f. (size_of (fd_ty f), align_of (fd_ty f))) fs"

definition block_expand :: "FieldDecl list \<Rightarrow> BlockOut derived" where
  "block_expand fs =
     dbind (dmap field_expand (zip (repr_c_offsets 0 (layout_of fs)) fs)) (\<lambda>outs.
     dbind (derive_assert (sum_list (map fst (layout_of fs)) = repr_c_size (layout_of fs)) BlockPadding) (\<lambda>_.
     Inr (BlockOut_concat outs)))"

section \<open>\<open>Section\<close>\<close>

text \<open>A section's items: blocks, and skipped tail arrays of bytes.\<close>

datatype SectionItem = SectionItem_Block "FieldDecl list" | SectionItem_Skip nat

definition item_layout :: "SectionItem \<Rightarrow> nat \<times> nat" where
  "item_layout it = (case it of SectionItem_Block fs \<Rightarrow> (repr_c_size (layout_of fs), repr_c_align (layout_of fs)) | SectionItem_Skip n \<Rightarrow> (n, 1))"

text \<open>\<open>u16\<close> addition in a constant: an overflow is a compile error.\<close>

definition add16 :: "u16 \<Rightarrow> u16 \<Rightarrow> u16 derived" where
  "add16 a b = (if a \<le> a + b then Inr (a + b) else Inl ConstOverflow)"

definition rebase :: "u16 \<Rightarrow> BlockOut \<Rightarrow> BlockOut derived" where
  "rebase base o1 =
     dbind (dmap (\<lambda>(a, n). dbind (add16 a base) (\<lambda>a. Inr (a, n))) (bo_writable o1)) (\<lambda>w.
     dbind (dmap (\<lambda>r. dbind (add16 (cr_addr r) base) (\<lambda>a. Inr (r\<lparr>cr_addr := a\<rparr>))) (bo_cmp o1)) (\<lambda>c.
     dbind (dmap (\<lambda>r. dbind (add16 (ar_addr r) base) (\<lambda>a. Inr (r\<lparr>ar_addr := a\<rparr>))) (bo_allowed o1)) (\<lambda>al.
     dbind (dmap (\<lambda>f. dbind (add16 (fx_addr f) base) (\<lambda>a. Inr (f\<lparr>fx_addr := a\<rparr>))) (bo_fields o1)) (\<lambda>fs.
     Inr \<lparr>bo_writable = w, bo_cmp = c, bo_allowed = al, bo_fields = fs\<rparr>))))"

definition item_expand :: "u16 \<Rightarrow> nat \<times> SectionItem \<Rightarrow> BlockOut derived" where
  "item_expand base = (\<lambda>(off, it).
     (case it of SectionItem_Skip _ \<Rightarrow> Inr \<lparr>bo_writable = [], bo_cmp = [], bo_allowed = [], bo_fields = []\<rparr>
      | SectionItem_Block fs \<Rightarrow>
          dbind (block_expand fs) (\<lambda>b. dbind (add16 base (of_nat off)) (\<lambda>bb. rebase bb b))))"

record SectionDecl =
  sd_base :: u16
  sd_size :: u16
  sd_items :: "SectionItem list"

definition section_expand :: "SectionDecl \<Rightarrow> BlockOut derived" where
  "section_expand s =
     (let lay = map item_layout (sd_items s)
      in dbind (dmap (item_expand (sd_base s)) (zip (repr_c_offsets 0 lay) (sd_items s))) (\<lambda>outs.
         dbind (derive_assert (repr_c_size lay = unat (sd_size s)) SectionSizeMismatch) (\<lambda>_.
         dbind (derive_assert (sum_list (map fst lay) = repr_c_size lay) SectionPadding) (\<lambda>_.
         Inr (BlockOut_concat outs)))))"

section \<open>\<open>Table\<close>\<close>

datatype TableItem = TableItem_Section SectionDecl | TableItem_Skip nat

definition section_layout :: "TableItem \<Rightarrow> nat \<times> nat" where
  "section_layout it = (case it of TableItem_Section s \<Rightarrow>
       (repr_c_size (map item_layout (sd_items s)), repr_c_align (map item_layout (sd_items s))) | TableItem_Skip n \<Rightarrow> (n, 1))"

definition table_sections :: "TableItem list \<Rightarrow> SectionDecl list" where
  "table_sections its = concat (map (\<lambda>it. case it of TableItem_Section s \<Rightarrow> [s] | TableItem_Skip _ \<Rightarrow> []) its)"

fun set_bits :: "u32 list \<Rightarrow> nat \<Rightarrow> nat \<Rightarrow> u32 list" where
  "set_bits w b 0 = w"
| "set_bits w b (Suc n) = set_bits (w[b div 32 := w ! (b div 32) OR push_bit (b mod 32) 1]) (b + 1) n"

definition writable_words :: "nat \<Rightarrow> (u16 \<times> u16) list \<Rightarrow> u32 list" where
  "writable_words sz spans = fold (\<lambda>(off, len) w. set_bits w (unat off) (unat len)) spans (replicate ((sz + 31) div 32) 0)"

text \<open>\<open>len() as u16\<close> truncates; the sums of starts and ends are checked.\<close>

fun section_metas :: "u16 \<Rightarrow> u16 \<Rightarrow> (SectionDecl \<times> BlockOut) list \<Rightarrow> SectionMeta list derived" where
  "section_metas c a [] = Inr []"
| "section_metas c a ((s, ob) # ss) =
     dbind (add16 c (of_nat (length (bo_cmp ob)))) (\<lambda>c'.
     dbind (add16 a (of_nat (length (bo_allowed ob)))) (\<lambda>a'.
     dbind (section_metas c' a' ss) (\<lambda>ms.
     Inr (\<lparr>sm_base = sd_base s, sm_size = sd_size s, sm_cmp_rules = (c, c'), sm_allowed_rules = (a, a')\<rparr> # ms))))"

fun extents_ok :: "nat \<Rightarrow> (nat \<times> nat) list \<Rightarrow> unit derived" where
  "extents_ok sz [] = Inr ()"
| "extents_ok sz ((ai, si) # es) =
     dbind (derive_assert (ai + si \<le> sz) SectionPastEnd) (\<lambda>_.
     dbind (derive_assert (list_all (\<lambda>(aj, sj). ai \<ge> aj + sj \<or> aj \<ge> ai + si) es) SectionsOverlap) (\<lambda>_. extents_ok sz es))"

definition base_asserts :: "TableItem list \<Rightarrow> bool" where
  "base_asserts its \<longleftrightarrow> list_all (\<lambda>(off, it). case it of TableItem_Section s \<Rightarrow> (of_nat off :: u16) = sd_base s | TableItem_Skip _ \<Rightarrow> True)
     (zip (repr_c_offsets 0 (map section_layout its)) its)"

definition table_expand :: "nat \<Rightarrow> TableItem list \<Rightarrow> (RegisterMap \<times> FieldDesc list) derived" where
  "table_expand sz its =
     (let secs = table_sections its; lay = map section_layout its
      in dbind (dmap section_expand secs) (\<lambda>outs.
         let o1 = BlockOut_concat outs
         in dbind (section_metas 0 0 (zip secs outs)) (\<lambda>metas.
         dbind (derive_assert (repr_c_size lay = sz) TableSizeMismatch) (\<lambda>_.
         dbind (derive_assert (sum_list (map fst lay) = repr_c_size lay) TablePadding) (\<lambda>_.
         dbind (derive_assert (base_asserts its) SectionBaseNotOffset) (\<lambda>_.
         dbind (extents_ok sz (map (\<lambda>s. (unat (sd_base s), unat (sd_size s))) secs)) (\<lambda>_.
         Inr (\<lparr>rm_SIZE = sz, rm_WRITABLE = writable_words sz (bo_writable o1), rm_SECTIONS = metas,
               rm_CMP_RULES = bo_cmp o1, rm_ALLOWED_RULES = bo_allowed o1\<rparr>, bo_fields o1))))))))"

section \<open>Layout facts\<close>

lemma dbind_Inr [simp]: "dbind m k = Inr y \<longleftrightarrow> (\<exists>x. m = Inr x \<and> k x = Inr y)"
  by (auto simp: dbind_def split: sum.splits)

lemma derive_assert_Inr [simp]: "derive_assert b e = Inr x \<longleftrightarrow> b"
  by (simp add: derive_assert_def)

lemma round_up_ge: "0 < a \<Longrightarrow> n \<le> round_up n a"
proof -
  assume a: "0 < a"
  have "n + a - 1 = (n + a - 1) div a * a + (n + a - 1) mod a" by simp
  moreover have "(n + a - 1) mod a < a" using a by simp
  ultimately show ?thesis unfolding round_up_def by linarith
qed

definition aligned :: "(nat \<times> nat) list \<Rightarrow> bool" where
  "aligned fs \<longleftrightarrow> (\<forall>(s, a) \<in> set fs. 0 < a)"

lemma align_of_pos: "0 < align_of ty"
  by (induction ty) simp_all

lemma layout_aligned: "aligned (layout_of fs)"
  by (auto simp: aligned_def layout_of_def align_of_pos)

lemma align_pos: "0 < repr_c_align fs"
  unfolding repr_c_align_def by (induction fs) auto

lemma items_aligned: "aligned (map item_layout its)"
  by (auto simp: aligned_def item_layout_def align_pos split: SectionItem.splits)

lemma repr_c_end_ge: "aligned fs \<Longrightarrow> p \<le> repr_c_end p fs"
proof (induction fs arbitrary: p)
  case (Cons sa fs)
  obtain s a where sa: "sa = (s, a)" by (cases sa)
  have "p \<le> round_up p a" using Cons.prems by (auto simp: sa aligned_def intro: round_up_ge)
  moreover have "round_up p a + s \<le> repr_c_end (round_up p a + s) fs" using Cons by (auto simp: aligned_def)
  ultimately show ?case by (simp add: sa)
qed simp

lemma repr_c_end_size: "repr_c_end 0 fs \<le> repr_c_size fs"
  by (simp add: repr_c_size_def round_up_ge align_pos)

text \<open>Rules placed in \<open>[p, q)\<close>, in address order.\<close>

definition placed :: "('a \<Rightarrow> nat) \<Rightarrow> ('a \<Rightarrow> nat) \<Rightarrow> nat \<Rightarrow> nat \<Rightarrow> 'a list \<Rightarrow> bool" where
  "placed key w p q xs \<longleftrightarrow> sorted (map key xs) \<and> (\<forall>x \<in> set xs. p \<le> key x \<and> key x + w x \<le> q)"

lemma placed_Nil [simp]: "placed key w p q []"
  by (simp add: placed_def)

lemma placed_append: "placed key w p q xs \<Longrightarrow> placed key w q' r ys \<Longrightarrow> q \<le> q' \<Longrightarrow> p \<le> q' \<Longrightarrow> q \<le> r \<Longrightarrow> placed key w p r (xs @ ys)"
  by (fastforce simp: placed_def sorted_append)

lemma placed_mono: "placed key w p q xs \<Longrightarrow> p' \<le> p \<Longrightarrow> q \<le> q' \<Longrightarrow> placed key w p' q' xs"
  by (fastforce simp: placed_def)

lemma placed_map:
  assumes "placed key w p q xs" "\<And>x. x \<in> set xs \<Longrightarrow> key (f x) = key x + b \<and> w (f x) = w x"
  shows "placed key w (b + p) (b + q) (map f xs)"
proof -
  have "map (key \<circ> f) xs = map (\<lambda>x. key x + b) xs" using assms(2) by simp
  moreover have "sorted (map (\<lambda>x. key x + b) xs)" using assms(1) by (simp add: placed_def sorted_map)
  ultimately have s: "sorted (map (key \<circ> f) xs)" by (simp only:)
  show ?thesis unfolding placed_def list.map_comp using s assms by (auto simp: placed_def)
qed

text \<open>What the register file needs of the output of a derive placed in \<open>[p, q)\<close>.\<close>

definition out_placed :: "nat \<Rightarrow> nat \<Rightarrow> BlockOut \<Rightarrow> bool" where
  "out_placed p q ob \<longleftrightarrow> placed (unat \<circ> cr_addr) rule_width p q (bo_cmp ob) \<and> placed (unat \<circ> ar_addr) (\<lambda>_. 1) p q (bo_allowed ob)"

lemma out_placed_concat_Nil [simp]: "out_placed p q (BlockOut_concat [])"
  by (simp add: out_placed_def BlockOut_concat_def)

lemma out_placed_Cons:
  "out_placed p q ob \<Longrightarrow> out_placed q' r (BlockOut_concat os) \<Longrightarrow> q \<le> q' \<Longrightarrow> p \<le> q' \<Longrightarrow> q \<le> r \<Longrightarrow> out_placed p r (BlockOut_concat (ob # os))"
  by (auto simp: out_placed_def BlockOut_concat_def intro: placed_append)

lemma out_placed_mono: "out_placed p q ob \<Longrightarrow> p' \<le> p \<Longrightarrow> q \<le> q' \<Longrightarrow> out_placed p' q' ob"
  by (auto simp: out_placed_def intro: placed_mono)

lemma rule_spec_width:
  assumes "w \<in> {1, 2, 4}"
  shows "unat ((if r then rule_spec w sg ab op OR SPEC_RHS_REG else rule_spec w sg ab op) AND 0xF) = unat w"
proof -
  have m: "(0xF :: u16) = mask 4" by (simp add: mask_eq_exp_minus_1)
  have p: "push_bit 8 y AND (0xF :: u16) = 0" for y unfolding m by (simp add: take_bit_push_bit flip: take_bit_eq_mask)
  have w: "ucast w AND (0xF :: u16) = ucast w" "unat (ucast w :: u16) = unat w" using assms by auto
  have "rule_spec w sg ab op AND 0xF = ucast w"
    unfolding rule_spec_def by (simp add: bit.conj_disj_distrib2 p w SPEC_SIGNED_def SPEC_ABS_def)
  moreover have "SPEC_RHS_REG AND 0xF = 0" by (simp add: SPEC_RHS_REG_def)
  ultimately show ?thesis by (simp add: bit.conj_disj_distrib2 w)
qed

section \<open>Derived maps are valid\<close>

lemma cmp_rules_for_placed:
  assumes "cmp_rules_for a ty at = Inr rs"
  shows "placed (unat \<circ> cr_addr) rule_width (unat a) (unat a + size_of ty) rs"
proof (cases "fa_compares at = []")
  case True
  then show ?thesis using assms by (simp add: cmp_rules_for_def)
next
  case False
  then obtain w sg where ws: "cmp_width_signed ty = Inr (w, sg)" using assms by (auto simp: cmp_rules_for_def)
  then have w: "w \<in> {1, 2, 4}" "unat w = size_of ty" by (auto simp: cmp_width_signed_def split: FieldTy.splits)
  have rs: "rs = map (\<lambda>(op, e). let (is_reg, val) = build_rule_val e; sp = rule_spec w sg (fa_abs at \<and> sg) (CmpOp_const_tokens op)
      in \<lparr>cr_addr = a, cr_spec = (if is_reg then sp OR SPEC_RHS_REG else sp), cr_val = val\<rparr>) (fa_compares at)"
    using assms False ws by (simp add: cmp_rules_for_def)
  have r: "cr_addr x = a \<and> rule_width x = size_of ty" if "x \<in> set rs" for x
    using that rule_spec_width [OF w(1)] w(2) unfolding rs rule_width_def by (auto simp: Let_def split: prod.splits)
  then have "map (unat \<circ> cr_addr) rs = replicate (length rs) (unat a)" by (intro replicate_eqI) auto
  then show ?thesis using r by (simp add: placed_def)
qed

lemma field_expand_placed:
  assumes "field_expand (off, f) = Inr ob" "off < 65536"
  shows "out_placed off (off + size_of (fd_ty f)) ob"
proof -
  have u: "unat (of_nat off :: u16) = off" using assms(2) by (simp add: unat_of_nat)
  have s: "auto_enum_allowed ty = Some al \<Longrightarrow> size_of ty = 1" for ty al by (auto simp: auto_enum_allowed_def split: FieldTy.splits)
  show ?thesis using assms(1) cmp_rules_for_placed [where a = "of_nat off" and ty = "fd_ty f" and at = "fd_attrs f"]
    by (auto simp: field_expand_def Let_def out_placed_def u split: if_splits option.splits) (auto simp: placed_def u dest: s)
qed

lemma fields_placed:
  assumes "dmap field_expand (zip (repr_c_offsets p (layout_of fs)) fs) = Inr outs" "repr_c_end p (layout_of fs) < 65536"
  shows "out_placed p (repr_c_end p (layout_of fs)) (BlockOut_concat outs)"
  using assms
proof (induction fs arbitrary: p outs)
  case (Cons f fs)
  define q where "q = round_up p (align_of (fd_ty f))"
  have q: "p \<le> q" by (simp add: q_def round_up_ge align_of_pos)
  define e where "e = repr_c_end (q + size_of (fd_ty f)) (layout_of fs)"
  have e: "q + size_of (fd_ty f) \<le> e" unfolding e_def by (rule repr_c_end_ge [OF layout_aligned])
  have ee: "repr_c_end p (layout_of (f # fs)) = e" by (simp add: layout_of_def q_def e_def)
  obtain ob os where o: "field_expand (q, f) = Inr ob" "dmap field_expand (zip (repr_c_offsets (q + size_of (fd_ty f)) (layout_of fs)) fs) = Inr os" "outs = ob # os"
    using Cons.prems(1) by (auto simp: layout_of_def Let_def q_def)
  have "out_placed q (q + size_of (fd_ty f)) ob" using field_expand_placed [OF o(1)] Cons.prems(2) e ee by simp
  moreover have "out_placed (q + size_of (fd_ty f)) e (BlockOut_concat os)"
    using Cons.IH [OF o(2)] Cons.prems(2) ee by (simp add: e_def)
  ultimately have "out_placed q e (BlockOut_concat outs)" unfolding o(3) by (rule out_placed_Cons) (use e in auto)
  then show ?case unfolding ee using q by (rule out_placed_mono) simp
qed simp

lemma block_placed:
  assumes "block_expand fs = Inr ob" "repr_c_size (layout_of fs) < 65536"
  shows "out_placed 0 (repr_c_size (layout_of fs)) ob"
proof -
  obtain outs where o: "dmap field_expand (zip (repr_c_offsets 0 (layout_of fs)) fs) = Inr outs" "ob = BlockOut_concat outs"
    using assms(1) by (auto simp: block_expand_def)
  then show ?thesis unfolding o(2) using fields_placed [OF o(1)] assms(2) repr_c_end_size [of "layout_of fs"] by (auto intro: out_placed_mono)
qed

lemma dmap_map: "dmap f xs = Inr ys \<Longrightarrow> (\<And>x y. f x = Inr y \<Longrightarrow> y = g x) \<Longrightarrow> ys = map g xs \<and> (\<forall>x \<in> set xs. f x = Inr (g x))"
  by (induction xs arbitrary: ys) auto

lemma unat_add16: "add16 a b = Inr c \<Longrightarrow> unat c = unat a + unat b \<and> c = a + b"
  by (auto simp: add16_def no_olen_add_nat unat_word_ariths split: if_splits)

lemma rebase_placed:
  assumes "rebase b ob = Inr ob'" "out_placed p q ob"
  shows "out_placed (unat b + p) (unat b + q) ob'"
proof -
  have c: "bo_cmp ob' = map (\<lambda>r. r\<lparr>cr_addr := cr_addr r + b\<rparr>) (bo_cmp ob) \<and> (\<forall>r \<in> set (bo_cmp ob). unat (cr_addr r + b) = unat (cr_addr r) + unat b)"
  proof -
    obtain xs where "dmap (\<lambda>r. dbind (add16 (cr_addr r) b) (\<lambda>a. Inr (r\<lparr>cr_addr := a\<rparr>))) (bo_cmp ob) = Inr xs" "bo_cmp ob' = xs"
      using assms(1) by (auto simp: rebase_def)
    then show ?thesis using dmap_map [of "\<lambda>r. dbind (add16 (cr_addr r) b) (\<lambda>a. Inr (r\<lparr>cr_addr := a\<rparr>))" "bo_cmp ob" xs "\<lambda>r. r\<lparr>cr_addr := cr_addr r + b\<rparr>"]
      by (auto dest!: unat_add16) (metis unat_add16)?
  qed
  have a: "bo_allowed ob' = map (\<lambda>r. r\<lparr>ar_addr := ar_addr r + b\<rparr>) (bo_allowed ob) \<and> (\<forall>r \<in> set (bo_allowed ob). unat (ar_addr r + b) = unat (ar_addr r) + unat b)"
  proof -
    obtain xs where "dmap (\<lambda>r. dbind (add16 (ar_addr r) b) (\<lambda>a. Inr (r\<lparr>ar_addr := a\<rparr>))) (bo_allowed ob) = Inr xs" "bo_allowed ob' = xs"
      using assms(1) by (auto simp: rebase_def)
    then show ?thesis using dmap_map [of "\<lambda>r. dbind (add16 (ar_addr r) b) (\<lambda>a. Inr (r\<lparr>ar_addr := a\<rparr>))" "bo_allowed ob" xs "\<lambda>r. r\<lparr>ar_addr := ar_addr r + b\<rparr>"]
      by (auto dest!: unat_add16) (metis unat_add16)?
  qed
  show ?thesis unfolding out_placed_def using c a assms(2) unfolding out_placed_def
    by (auto intro!: placed_map simp: rule_width_def)
qed

lemma item_placed:
  assumes "item_expand base (off, it) = Inr ob" "off + fst (item_layout it) < 65536"
  shows "out_placed (unat base + off) (unat base + off + fst (item_layout it)) ob"
proof (cases it)
  case (SectionItem_Skip n)
  then show ?thesis using assms(1) by (auto simp: item_expand_def out_placed_def)
next
  case (SectionItem_Block fs)
  obtain b bb where b: "block_expand fs = Inr b" "add16 base (of_nat off) = Inr bb" "rebase bb b = Inr ob"
    using assms(1) by (auto simp: item_expand_def SectionItem_Block)
  have l: "fst (item_layout it) = repr_c_size (layout_of fs)" by (simp add: item_layout_def SectionItem_Block)
  have "unat (of_nat off :: u16) = off" using assms(2) by (simp add: unat_of_nat)
  then have u: "unat bb = unat base + off" using conjunct1 [OF unat_add16 [OF b(2)]] by simp
  have "out_placed 0 (repr_c_size (layout_of fs)) b" using block_placed [OF b(1)] assms(2) l by simp
  from rebase_placed [OF b(3) this] show ?thesis by (simp add: u l)
qed

lemma items_placed:
  assumes "dmap (item_expand base) (zip (repr_c_offsets p (map item_layout its)) its) = Inr outs" "repr_c_end p (map item_layout its) < 65536"
  shows "out_placed (unat base + p) (unat base + repr_c_end p (map item_layout its)) (BlockOut_concat outs)"
  using assms
proof (induction its arbitrary: p outs)
  case (Cons it its)
  obtain s a where l: "item_layout it = (s, a)" by (cases "item_layout it")
  have "0 < a" using items_aligned [of "[it]"] l by (simp add: aligned_def)
  define q where "q = round_up p a"
  have q: "p \<le> q" using \<open>0 < a\<close> by (simp add: q_def round_up_ge)
  define e where "e = repr_c_end (q + s) (map item_layout its)"
  have e: "q + s \<le> e" unfolding e_def by (rule repr_c_end_ge [OF items_aligned])
  have ee: "repr_c_end p (map item_layout (it # its)) = e" by (simp add: l q_def e_def)
  obtain ob os where o: "item_expand base (q, it) = Inr ob" "dmap (item_expand base) (zip (repr_c_offsets (q + s) (map item_layout its)) its) = Inr os" "outs = ob # os"
    using Cons.prems(1) by (auto simp: l Let_def q_def)
  have "out_placed (unat base + q) (unat base + (q + s)) ob" using item_placed [OF o(1)] Cons.prems(2) e ee by (simp add: l add.assoc)
  moreover have "out_placed (unat base + (q + s)) (unat base + e) (BlockOut_concat os)"
    using Cons.IH [OF o(2)] Cons.prems(2) ee by (simp add: e_def)
  ultimately have "out_placed (unat base + q) (unat base + e) (BlockOut_concat outs)" unfolding o(3) by (rule out_placed_Cons) (use e in auto)
  then show ?case unfolding ee using q by (auto intro: out_placed_mono)
qed simp

lemma section_placed:
  assumes "section_expand s = Inr ob"
  shows "out_placed (unat (sd_base s)) (unat (sd_base s) + unat (sd_size s)) ob"
proof -
  define lay where "lay = map item_layout (sd_items s)"
  obtain outs where o: "dmap (item_expand (sd_base s)) (zip (repr_c_offsets 0 lay) (sd_items s)) = Inr outs" "repr_c_size lay = unat (sd_size s)" "ob = BlockOut_concat outs"
    using assms by (auto simp: section_expand_def lay_def Let_def)
  have e: "repr_c_end 0 lay \<le> unat (sd_size s)" using repr_c_end_size [of lay] o(2) by simp
  have "unat (sd_size s) < 65536" using unsigned_less [of "sd_size s"] by simp
  then have "repr_c_end 0 lay < 65536" using e by simp
  from items_placed [OF o(1) [unfolded lay_def] this [unfolded lay_def]] show ?thesis
    unfolding o(3) lay_def [symmetric] using e by (auto intro: out_placed_mono)
qed

lemma stripe_middle: "unat a = length pre \<Longrightarrow> unat b = length pre + length xs \<Longrightarrow> stripe (pre @ xs @ post) (a, b) = Some xs"
  by (simp add: stripe_def get_range_def)

lemma add16_of_nat: "add16 c (of_nat n) = Inr c' \<Longrightarrow> n < 65536 \<Longrightarrow> unat c' = unat c + n"
  by (auto dest!: unat_add16 simp: unat_of_nat)

lemma section_metas_stripes:
  assumes "section_metas c a ss = Inr ms" "unat c = length cp" "unat a = length ap"
    "length (concat (map (bo_cmp \<circ> snd) ss)) < 65536" "length (concat (map (bo_allowed \<circ> snd) ss)) < 65536"
  shows "\<forall>m \<in> set ms. \<exists>(s, ob) \<in> set ss. sm_base m = sd_base s \<and> sm_size m = sd_size s
    \<and> stripe (cp @ concat (map (bo_cmp \<circ> snd) ss) @ cq) (sm_cmp_rules m) = Some (bo_cmp ob)
    \<and> stripe (ap @ concat (map (bo_allowed \<circ> snd) ss) @ aq) (sm_allowed_rules m) = Some (bo_allowed ob)"
  using assms
proof (induction ss arbitrary: c a ms cp ap)
  case (Cons x ss)
  obtain s ob where x: "x = (s, ob)" by (cases x)
  obtain c' a' ms' where m: "add16 c (of_nat (length (bo_cmp ob))) = Inr c'" "add16 a (of_nat (length (bo_allowed ob))) = Inr a'"
    "section_metas c' a' ss = Inr ms'" "ms = \<lparr>sm_base = sd_base s, sm_size = sd_size s, sm_cmp_rules = (c, c'), sm_allowed_rules = (a, a')\<rparr> # ms'"
    using Cons.prems(1) by (auto simp: x)
  have l: "length (bo_cmp ob) < 65536" "length (bo_allowed ob) < 65536" using Cons.prems(4,5) by (simp_all add: x)
  have c': "unat c' = length (cp @ bo_cmp ob)" "unat a' = length (ap @ bo_allowed ob)"
    using add16_of_nat [OF m(1) l(1)] add16_of_nat [OF m(2) l(2)] Cons.prems(2,3) by simp_all
  have "stripe (cp @ bo_cmp ob @ concat (map (bo_cmp \<circ> snd) ss) @ cq) (c, c') = Some (bo_cmp ob)"
    "stripe (ap @ bo_allowed ob @ concat (map (bo_allowed \<circ> snd) ss) @ aq) (a, a') = Some (bo_allowed ob)"
    using c' Cons.prems(2,3) by (intro stripe_middle; simp)+
  moreover have "\<forall>m \<in> set ms'. \<exists>(s, ob) \<in> set ss. sm_base m = sd_base s \<and> sm_size m = sd_size s
    \<and> stripe ((cp @ bo_cmp (snd x)) @ concat (map (bo_cmp \<circ> snd) ss) @ cq) (sm_cmp_rules m) = Some (bo_cmp ob)
    \<and> stripe ((ap @ bo_allowed (snd x)) @ concat (map (bo_allowed \<circ> snd) ss) @ aq) (sm_allowed_rules m) = Some (bo_allowed ob)"
    by (rule Cons.IH [OF m(3)]) (use c' Cons.prems(4,5) in \<open>simp_all add: x\<close>)
  ultimately show ?case unfolding m(4) x comp_def by auto
qed simp

lemma dmap_zip: "dmap f xs = Inr ys \<Longrightarrow> length ys = length xs \<and> (\<forall>(x, y) \<in> set (zip xs ys). f x = Inr y)"
  by (induction xs arbitrary: ys) auto

lemma concat_zip: "length xs = length ys \<Longrightarrow> concat (map (f \<circ> snd) (zip xs ys)) = concat (map f ys)"
  by (simp flip: map_map)

lemma derive_map_ok:
  assumes "table_expand sz its = Inr (m, descs)" "length (rm_CMP_RULES m) < 65536" "length (rm_ALLOWED_RULES m) < 65536"
  shows "map_ok m \<and> rm_SIZE m = sz \<and> (\<forall>sec \<in> set (rm_SECTIONS m). unat (sm_base sec) + unat (sm_size sec) \<le> sz)"
proof -
  define secs where "secs = table_sections its"
  obtain outs metas where o: "dmap section_expand secs = Inr outs" "section_metas 0 0 (zip secs outs) = Inr metas"
      "extents_ok sz (map (\<lambda>s. (unat (sd_base s), unat (sd_size s))) secs) = Inr ()"
    and m: "rm_SECTIONS m = metas" "rm_CMP_RULES m = concat (map bo_cmp outs)" "rm_ALLOWED_RULES m = concat (map bo_allowed outs)" "rm_SIZE m = sz"
    using assms(1) by (auto simp: table_expand_def Let_def secs_def BlockOut_concat_def)
  have z: "length outs = length secs" "\<forall>(s, ob) \<in> set (zip secs outs). section_expand s = Inr ob" using dmap_zip [OF o(1)] by auto
  have cz: "concat (map (bo_cmp \<circ> snd) (zip secs outs)) = rm_CMP_RULES m" "concat (map (bo_allowed \<circ> snd) (zip secs outs)) = rm_ALLOWED_RULES m"
    using z(1) by (simp_all add: concat_zip m)
  have st: "\<forall>x \<in> set metas. \<exists>(s, ob) \<in> set (zip secs outs). sm_base x = sd_base s \<and> sm_size x = sd_size s
    \<and> stripe (rm_CMP_RULES m) (sm_cmp_rules x) = Some (bo_cmp ob) \<and> stripe (rm_ALLOWED_RULES m) (sm_allowed_rules x) = Some (bo_allowed ob)"
    using section_metas_stripes [OF o(2), of "[]" "[]" "[]" "[]"] assms(2,3) unfolding cz by simp
  have ext: "extents_ok sz es = Inr () \<Longrightarrow> \<forall>(b, n) \<in> set es. b + n \<le> sz" for es by (induction es) auto
  have sec: "(case stripe (rm_ALLOWED_RULES m) (sm_allowed_rules x) of None \<Rightarrow> False
      | Some rs \<Rightarrow> sorted (map (unat \<circ> ar_addr) rs)
          \<and> (\<forall>r\<in>set rs. unat (sm_base x) \<le> unat (ar_addr r) \<and> unat (ar_addr r) < unat (sm_base x) + unat (sm_size x)))
     \<and> (case stripe (rm_CMP_RULES m) (sm_cmp_rules x) of None \<Rightarrow> False
      | Some rs \<Rightarrow> sorted (map (unat \<circ> cr_addr) rs)
          \<and> (\<forall>r\<in>set rs. unat (sm_base x) \<le> unat (cr_addr r) \<and> unat (cr_addr r) + rule_width r \<le> unat (sm_base x) + unat (sm_size x)))
     \<and> unat (sm_base x) + unat (sm_size x) \<le> sz" if x: "x \<in> set metas" for x
  proof -
    obtain s ob where s: "(s, ob) \<in> set (zip secs outs)" "sm_base x = sd_base s" "sm_size x = sd_size s"
      "stripe (rm_CMP_RULES m) (sm_cmp_rules x) = Some (bo_cmp ob)" "stripe (rm_ALLOWED_RULES m) (sm_allowed_rules x) = Some (bo_allowed ob)"
      using st x by blast
    have p: "out_placed (unat (sd_base s)) (unat (sd_base s) + unat (sd_size s)) ob" using z(2) s(1) by (intro section_placed) auto
    have "s \<in> set secs" using s(1) by (rule set_zip_leftD)
    then have "unat (sd_base s) + unat (sd_size s) \<le> sz" using ext [OF o(3)] by auto
    then show ?thesis using p s(2-5) by (auto simp: out_placed_def placed_def)
  qed
  show ?thesis unfolding map_ok_def m(1,4) using sec by blast
qed


definition rw_field :: "string \<Rightarrow> FieldTy \<Rightarrow> FieldDecl" where
  "rw_field n ty = \<lparr>fd_name = n, fd_ty = ty, fd_attrs = \<lparr>fa_skip = False, fa_ro = False, fa_compares = [], fa_abs = False\<rparr>\<rparr>"

definition ro_field :: "string \<Rightarrow> FieldTy \<Rightarrow> FieldDecl" where
  "ro_field n ty = \<lparr>fd_name = n, fd_ty = ty, fd_attrs = \<lparr>fa_skip = False, fa_ro = True, fa_compares = [], fa_abs = False\<rparr>\<rparr>"

definition skip_field :: "string \<Rightarrow> FieldTy \<Rightarrow> FieldDecl" where
  "skip_field n ty = \<lparr>fd_name = n, fd_ty = ty, fd_attrs = \<lparr>fa_skip = True, fa_ro = False, fa_compares = [], fa_abs = False\<rparr>\<rparr>"

definition cmp_field :: "string \<Rightarrow> FieldTy \<Rightarrow> (CmpOp \<times> RuleExpr) list \<Rightarrow> bool \<Rightarrow> FieldDecl" where
  "cmp_field n ty cs ab = \<lparr>fd_name = n, fd_ty = ty, fd_attrs = \<lparr>fa_skip = False, fa_ro = False, fa_compares = cs, fa_abs = ab\<rparr>\<rparr>"

definition small_table :: "TableItem list" where
  "small_table = [TableItem_Section \<lparr>sd_base = 0, sd_size = 8, sd_items =
     [SectionItem_Block [cmp_field ''id'' Ty_u8 [(CmpOp_Ge, RuleExpr_Imm 1), (CmpOp_Le, RuleExpr_Imm 249)] False, rw_field ''en'' Ty_bool,
        ro_field ''rev'' Ty_u16, cmp_field ''goal'' Ty_i16 [(CmpOp_Le, RuleExpr_Ref 2)] True], SectionItem_Skip 2]\<rparr>, TableItem_Skip 8]"

lemmas derive_eval = dbind_def derive_assert_def layout_of_def Let_def round_up_def repr_c_align_def repr_c_size_def BlockOut_concat_def
  field_expand_def cmp_rules_for_def cmp_width_signed_def field_bounds_def build_rule_val_def auto_enum_allowed_def Enum_ALLOWED_def BOOL_ALLOWED_def
  rw_field_def ro_field_def skip_field_def cmp_field_def item_layout_def item_expand_def block_expand_def rebase_def add16_def section_expand_def

lemmas table_eval = derive_eval table_expand_def table_sections_def section_layout_def base_asserts_def


end
