(* ===== verification/TableMap.thy ===== *)
theory TableMap
  imports Derive KernelStep
begin

text \<open>
  The servo's register table as it is declared (\<open>core/src/regions/\<close>), expanded by the derive macros of \<open>Derive\<close>: the register
  map the bus validates writes against.  Shown here: the expansion succeeds, the map is valid, and under its rules every
  block the kernel reads decodes.
\<close>

section \<open>Declarations\<close>

definition StallResponse_ty :: FieldTy where
  "StallResponse_ty = Ty_enum [\<lparr>ev_name = ''Fault'', ev_value = 0\<rparr>, \<lparr>ev_name = ''Yield'', ev_value = 1\<rparr>]"

definition DecaySelect_ty :: FieldTy where
  "DecaySelect_ty = Ty_enum [\<lparr>ev_name = ''Slow'', ev_value = 0\<rparr>, \<lparr>ev_name = ''Fast'', ev_value = 1\<rparr>]"

definition Mode_ty :: FieldTy where
  "Mode_ty = Ty_enum [\<lparr>ev_name = ''OpenLoop'', ev_value = 0\<rparr>, \<lparr>ev_name = ''Current'', ev_value = 1\<rparr>,
     \<lparr>ev_name = ''Velocity'', ev_value = 2\<rparr>, \<lparr>ev_name = ''Position'', ev_value = 3\<rparr>]"

definition BootMode_ty :: FieldTy where
  "BootMode_ty = Ty_enum [\<lparr>ev_name = ''App'', ev_value = 0\<rparr>, \<lparr>ev_name = ''Bootloader'', ev_value = 1\<rparr>]"

definition ConfigCommon_decl :: "FieldDecl list" where
  "ConfigCommon_decl = [ro_field ''model_number'' Ty_u16, ro_field ''firmware_version'' Ty_u8, ro_field ''hardware_revision'' Ty_u8,
     ro_field ''capability_flags'' Ty_u32, skip_field ''_rsvd_identity'' (Ty_array Ty_u8 8),
     cmp_field ''id'' Ty_u8 [(CmpOp_Ge, RuleExpr_Imm 1), (CmpOp_Le, RuleExpr_Imm 249)] False,
     cmp_field ''baud_rate_idx'' Ty_u8 [(CmpOp_Le, RuleExpr_Imm 3)] False, rw_field ''response_deadline_us'' Ty_u16,
     skip_field ''_rsvd_tail'' (Ty_array Ty_u8 12)]"

definition ConfigPosLimits_decl :: "FieldDecl list" where
  "ConfigPosLimits_decl =
    [cmp_field ''pos_min_phys_counts'' Ty_i32 [(CmpOp_Lt, RuleExpr_Ref 0x24)] False,
     cmp_field ''pos_max_phys_counts'' Ty_i32 [(CmpOp_Gt, RuleExpr_Ref 0x20)] False,
     cmp_field ''pos_min_soft_counts'' Ty_i32 [(CmpOp_Ge, RuleExpr_Ref 0x20), (CmpOp_Le, RuleExpr_Ref 0x24), (CmpOp_Lt, RuleExpr_Ref 0x2C)] False,
     cmp_field ''pos_max_soft_counts'' Ty_i32 [(CmpOp_Ge, RuleExpr_Ref 0x20), (CmpOp_Le, RuleExpr_Ref 0x24), (CmpOp_Gt, RuleExpr_Ref 0x28)] False]"

definition ConfigLoopCurrent_decl :: "FieldDecl list" where
  "ConfigLoopCurrent_decl = [rw_field ''i_kp_q88'' Ty_u16, rw_field ''i_ki_q412'' Ty_u16, rw_field ''i_kaw_q412'' Ty_u16,
     cmp_field ''duty_max_q15'' Ty_u16 [(CmpOp_Le, RuleExpr_Imm 32767)] False]"

definition ConfigLoopVelocity_decl :: "FieldDecl list" where
  "ConfigLoopVelocity_decl = [rw_field ''v_kp_q88'' Ty_u16, rw_field ''v_ki_q412'' Ty_u16, rw_field ''v_kaw_q412'' Ty_u16, rw_field ''j_ff_q88'' Ty_u16]"

definition ConfigLoopPosition_decl :: "FieldDecl list" where
  "ConfigLoopPosition_decl = [rw_field ''p_kp_q88'' Ty_u16, rw_field ''pos_deadband_counts'' Ty_u16, rw_field ''velocity_limit_cps'' Ty_u16,
     rw_field ''accel_limit_q88'' Ty_u16]"

definition ConfigLimits_decl :: "FieldDecl list" where
  "ConfigLimits_decl = [rw_field ''current_limit_counts'' Ty_u16, rw_field ''stall_response'' StallResponse_ty, rw_field ''drive_polarity'' Ty_bool,
     rw_field ''stall_omega_max_cps'' Ty_u16, rw_field ''stall_time_ms'' Ty_u16, rw_field ''stall_yield_counts'' Ty_u16,
     rw_field ''stall_release_counts'' Ty_u16, rw_field ''stall_tau_trip_counts'' Ty_u16, rw_field ''oc_trip_counts'' Ty_u16,
     rw_field ''oc_trip_ticks'' Ty_u8, rw_field ''openloop_decay'' DecaySelect_ty]"

definition ConfigThermal_decl :: "FieldDecl list" where
  "ConfigThermal_decl = [rw_field ''derate_start_cc'' Ty_i16, cmp_field ''cutoff_cc'' Ty_i16 [(CmpOp_Gt, RuleExpr_Ref 0x5E)] False,
     cmp_field ''recover_cc'' Ty_i16 [(CmpOp_Lt, RuleExpr_Ref 0x5C)] False, rw_field ''v_undervolt_counts'' Ty_u16,
     rw_field ''rtherm_i_min_counts'' Ty_u16, rw_field ''rtherm_omega_max_cps'' Ty_u16]"

definition ConfigFusion_decl :: "FieldDecl list" where
  "ConfigFusion_decl = [rw_field ''l1_q016'' Ty_u16, rw_field ''l2_q88'' Ty_u16, rw_field ''l3_q88'' Ty_u16, rw_field ''l_bemf_q016'' Ty_u16]"

definition ConfigFaultCfg_decl :: "FieldDecl list" where
  "ConfigFaultCfg_decl = [rw_field ''pos_error_counts'' Ty_u16, rw_field ''pos_error_time_ms'' Ty_u16, rw_field ''sensor_delta_max'' Ty_u16,
     rw_field ''sensor_bad_count'' Ty_u8, skip_field ''_rsvd_align'' Ty_u8]"

definition ConfigRegs_decl :: SectionDecl where
  "ConfigRegs_decl = \<lparr>sd_base = CONFIG_BASE_ADDR, sd_size = CONFIG_REGION_SIZE, sd_items = map SectionItem_Block
     [ConfigCommon_decl, ConfigPosLimits_decl, ConfigLoopCurrent_decl, ConfigLoopVelocity_decl, ConfigLoopPosition_decl, ConfigLimits_decl,
      ConfigThermal_decl, ConfigFusion_decl, ConfigFaultCfg_decl] @ [SectionItem_Skip 10]\<rparr>"

definition PotLutBlock_decl :: "FieldDecl list" where
  "PotLutBlock_decl = [rw_field ''raw_min'' Ty_u16, rw_field ''raw_max'' Ty_u16, rw_field ''lut_corr'' (Ty_array Ty_i16 55)]"

definition CalibSense_decl :: "FieldDecl list" where
  "CalibSense_decl = [ro_field ''shunt_r_mohm'' Ty_u16, ro_field ''gain_milli'' Ty_u16, ro_field ''vmotor_div_top'' Ty_u16,
     ro_field ''vmotor_div_bot'' Ty_u16, rw_field ''vdd_mv'' Ty_u16, ro_field ''tick_hz'' Ty_u16, ro_field ''i_window_min_ticks'' Ty_u16,
     ro_field ''v_window_min_ticks'' Ty_u16]"

definition CalibWinding_decl :: "FieldDecl list" where
  "CalibWinding_decl = [rw_field ''r0_q12'' Ty_u16, rw_field ''t0_cc'' Ty_i16, rw_field ''k_r2t_q88'' Ty_u16, rw_field ''mu_q016'' Ty_u16]"

definition CalibMotor_decl :: "FieldDecl list" where
  "CalibMotor_decl = [rw_field ''ke_uvs_per_rad'' Ty_u16, rw_field ''r_q12'' Ty_u16, rw_field ''recip_ke_q'' Ty_u16, rw_field ''b_i_q313'' Ty_u16,
     rw_field ''fric_fc_counts'' Ty_u16, rw_field ''fric_fv_q016'' Ty_u16, rw_field ''fric_breakaway_counts'' Ty_u16, rw_field ''ke_vpc_q'' Ty_u16]"

definition CalibKinematics_decl :: "FieldDecl list" where
  "CalibKinematics_decl = [rw_field ''angle_min_cdeg'' Ty_i16, rw_field ''angle_max_cdeg'' Ty_i16, rw_field ''gear_ratio_centi'' Ty_u16]"

definition CalibRegs_decl :: SectionDecl where
  "CalibRegs_decl = \<lparr>sd_base = CALIB_BASE_ADDR, sd_size = CALIB_REGION_SIZE, sd_items = map SectionItem_Block
     [PotLutBlock_decl, CalibSense_decl, CalibWinding_decl, CalibMotor_decl, CalibKinematics_decl] @ [SectionItem_Skip 96]\<rparr>"

definition ControlLifecycle_decl :: "FieldDecl list" where
  "ControlLifecycle_decl = [rw_field ''torque_enable'' Ty_bool, rw_field ''tel_enable'' Ty_bool,
     cmp_field ''tel_mask'' Ty_u16 [(CmpOp_Le, RuleExpr_Imm 0x3F)] False, rw_field ''mode'' Mode_ty, skip_field ''_rsvd_align'' Ty_u8,
     cmp_field ''goal_duty'' Ty_i16 [(CmpOp_Le, RuleExpr_Ref 0x36)] True,
     cmp_field ''goal_position'' Ty_i32 [(CmpOp_Ge, RuleExpr_Ref 0x20), (CmpOp_Le, RuleExpr_Ref 0x24)] False,
     rw_field ''goal_velocity'' Ty_i32, cmp_field ''goal_current'' Ty_i16 [(CmpOp_Le, RuleExpr_Ref 0x48)] True,
     skip_field ''_rsvd_tail'' (Ty_array Ty_u8 2)]"

definition ControlSystem_decl :: "FieldDecl list" where
  "ControlSystem_decl = [rw_field ''boot_mode'' BootMode_ty]"

definition ControlRegs_decl :: SectionDecl where
  "ControlRegs_decl = \<lparr>sd_base = CONTROL_BASE_ADDR, sd_size = CONTROL_REGION_SIZE, sd_items =
     [SectionItem_Block ControlLifecycle_decl, SectionItem_Block ControlSystem_decl, SectionItem_Skip 107]\<rparr>"

definition TelemetryCommon_decl :: "FieldDecl list" where
  "TelemetryCommon_decl = [ro_field ''fault_flags'' Ty_u8, ro_field ''status_flags'' Ty_u8, ro_field ''trim_steps'' Ty_i8,
     skip_field ''_rsvd_align'' Ty_u8, rw_field ''crc_fail_count'' Ty_u32, rw_field ''framing_drop_count'' Ty_u32,
     skip_field ''_rsvd_tail'' (Ty_array Ty_u8 20)]"

definition TelemetryMode_decl :: "FieldDecl list" where
  "TelemetryMode_decl = [ro_field ''mode_active'' Ty_u8, ro_field ''fault_code'' Ty_u8, skip_field ''_rsvd_align'' Ty_u16]"

definition TelemetryEstimates_decl :: "FieldDecl list" where
  "TelemetryEstimates_decl = [ro_field ''theta_hat_q16'' Ty_i32, ro_field ''omega_hat_cps'' Ty_i32, ro_field ''tau_d_counts'' Ty_i16,
     ro_field ''i_lim_counts'' Ty_u16, ro_field ''t_winding_cc'' Ty_i16, ro_field ''vbus_counts'' Ty_u16, ro_field ''duty_applied_q15'' Ty_i16,
     ro_field ''omega_bemf_cps'' Ty_i16, ro_field ''r_hat_q12'' Ty_u16, ro_field ''i_hat_counts'' Ty_i16, ro_field ''sample_tick'' Ty_u32]"

definition TelemetrySensors_decl :: "FieldDecl list" where
  "TelemetrySensors_decl = map (\<lambda>n. ro_field n Ty_u16) [''pos'', ''current'', ''vcal'', ''vcal_lpf'', ''vmotor_a'', ''vmotor_b'', ''enc_a'', ''enc_b'',
     ''current_trough'', ''current_bias_counts'']"

definition TelemetryIdent_decl :: "FieldDecl list" where
  "TelemetryIdent_decl = map (\<lambda>n. ro_field n Ty_i16) [''i_mean_counts'', ''i_min_counts'', ''i_max_counts'', ''vdiff_mean'', ''duty_mean_q15'']
     @ [ro_field ''agg_seq'' Ty_u16]"

definition TelemetryRegs_decl :: SectionDecl where
  "TelemetryRegs_decl = \<lparr>sd_base = TELEMETRY_BASE_ADDR, sd_size = TELEMETRY_REGION_SIZE, sd_items = map SectionItem_Block
     [TelemetryCommon_decl, TelemetryMode_decl, TelemetryEstimates_decl, TelemetrySensors_decl, TelemetryIdent_decl] @ [SectionItem_Skip 32]\<rparr>"

definition ProfileSlots_decl :: "FieldDecl list" where
  "ProfileSlots_decl = [rw_field ''words'' (Ty_array Ty_u16 32)]"

definition ProfileRegs_decl :: SectionDecl where
  "ProfileRegs_decl = \<lparr>sd_base = PROFILE_BASE_ADDR, sd_size = PROFILE_REGION_SIZE, sd_items = [SectionItem_Block ProfileSlots_decl]\<rparr>"

definition ControlTable_decl :: "TableItem list" where
  "ControlTable_decl = map TableItem_Section [ConfigRegs_decl, CalibRegs_decl, ControlRegs_decl, TelemetryRegs_decl, ProfileRegs_decl] @ [TableItem_Skip 320]"

definition ControlTable_derived :: "(RegisterMap \<times> FieldDesc list) derived" where
  "ControlTable_derived = table_expand 1024 ControlTable_decl"

definition control_map :: RegisterMap where
  "control_map = fst (projr ControlTable_derived)"

section \<open>The derived map\<close>

lemmas control_decls = StallResponse_ty_def DecaySelect_ty_def Mode_ty_def BootMode_ty_def ConfigCommon_decl_def ConfigPosLimits_decl_def
  ConfigLoopCurrent_decl_def ConfigLoopVelocity_decl_def ConfigLoopPosition_decl_def ConfigLimits_decl_def ConfigThermal_decl_def
  ConfigFusion_decl_def ConfigFaultCfg_decl_def PotLutBlock_decl_def CalibSense_decl_def CalibWinding_decl_def CalibMotor_decl_def
  CalibKinematics_decl_def ControlLifecycle_decl_def ControlSystem_decl_def TelemetryCommon_decl_def TelemetryMode_decl_def
  TelemetryEstimates_decl_def TelemetrySensors_decl_def TelemetryIdent_decl_def ProfileSlots_decl_def

lemmas control_addrs = CONFIG_BASE_ADDR_def CONFIG_REGION_SIZE_def CALIB_BASE_ADDR_def CALIB_REGION_SIZE_def CONTROL_BASE_ADDR_def
  CONTROL_REGION_SIZE_def TELEMETRY_BASE_ADDR_def TELEMETRY_REGION_SIZE_def PROFILE_BASE_ADDR_def PROFILE_REGION_SIZE_def

lemmas control_sections = ConfigRegs_decl_def CalibRegs_decl_def ControlRegs_decl_def TelemetryRegs_decl_def ProfileRegs_decl_def

text \<open>The writable bitmap is set on exactly the bytes of the writable fields.\<close>

lemma byte_writable_set:
  assumes "b div 32 < length w"
  shows "byte_writable (w[b div 32 := w ! (b div 32) OR push_bit (b mod 32) 1]) i \<longleftrightarrow> byte_writable w i \<or> i = b"
proof (cases "i div 32 = b div 32")
  case True
  have "i mod 32 = b mod 32 \<longleftrightarrow> i = b" using True by (metis mult_div_mod_eq)
  moreover have "i mod 32 < 32" by simp
  ultimately show ?thesis using True assms by (auto simp: byte_writable_def nth_opt_def bit_simps)
qed (auto simp: byte_writable_def nth_opt_def)

lemma byte_writable_set_bits:
  "b + n \<le> 32 * length w \<Longrightarrow> byte_writable (set_bits w b n) i \<longleftrightarrow> byte_writable w i \<or> b \<le> i \<and> i < b + n"
proof (induction w b n rule: set_bits.induct)
  case (2 w b n)
  have "b div 32 < length w" using "2.prems" by simp
  then show ?case using "2.IH" "2.prems" byte_writable_set [of b w i] by auto
qed auto

lemma length_set_bits [simp]: "length (set_bits w b n) = length w"
  by (induction w b n rule: set_bits.induct) simp_all

lemma byte_writable_words:
  assumes "\<forall>(off, len) \<in> set spans. unat off + unat len \<le> sz"
  shows "byte_writable (writable_words sz spans) i \<longleftrightarrow> (\<exists>(off, len) \<in> set spans. unat off \<le> i \<and> i < unat off + unat len)"
proof -
  have f: "byte_writable (fold (\<lambda>(off, len) w. set_bits w (unat off) (unat len)) spans w) i
      \<longleftrightarrow> byte_writable w i \<or> (\<exists>(off, len) \<in> set spans. unat off \<le> i \<and> i < unat off + unat len)"
    if "\<forall>(off, len) \<in> set spans. unat off + unat len \<le> 32 * length w" for w
    using that
  proof (induction spans arbitrary: w)
    case (Cons x spans)
    obtain off len where x: "x = (off, len)" by (cases x)
    show ?case using Cons.IH [of "set_bits w (unat off) (unat len)"] Cons.prems by (simp add: x byte_writable_set_bits disj_assoc)
  qed simp
  have z: "\<not> byte_writable (replicate ((sz + 31) div 32) 0) i" by (simp add: byte_writable_def nth_opt_def)
  have "sz \<le> 32 * ((sz + 31) div 32)" by linarith
  then have "\<forall>(off, len) \<in> set spans. unat off + unat len \<le> 32 * length (replicate ((sz + 31) div 32) (0 :: u32))"
    using assms by fastforce
  from f [OF this] z show ?thesis by (simp add: writable_words_def)
qed
lemma ControlTable_derives: "\<exists>m descs. ControlTable_derived = Inr (m, descs) \<and> rm_SIZE m = 1024 \<and> length (rm_CMP_RULES m) = 19 \<and>
    rm_ALLOWED_RULES m = [\<lparr>ar_addr = 0x4A, ar_allowed = [0, 1]\<rparr>, \<lparr>ar_addr = 0x4B, ar_allowed = [0, 1]\<rparr>, \<lparr>ar_addr = 0x59, ar_allowed = [0, 1]\<rparr>,
      \<lparr>ar_addr = 0x180, ar_allowed = [0, 1]\<rparr>, \<lparr>ar_addr = 0x181, ar_allowed = [0, 1]\<rparr>, \<lparr>ar_addr = 0x184, ar_allowed = [0, 1, 2, 3]\<rparr>,
      \<lparr>ar_addr = 0x194, ar_allowed = [0, 1]\<rparr>] \<and>
    map sm_allowed_rules (rm_SECTIONS m) = [(0, 3), (3, 3), (3, 7), (7, 7), (7, 7)] \<and>
    map cr_addr (rm_CMP_RULES m) = [16, 16, 17, 32, 36, 40, 40, 40, 44, 44, 44, 54, 92, 94, 386, 390, 392, 392, 400] \<and>
    rm_WRITABLE m = writable_words 1024 [(16, 1), (17, 1), (18, 2), (32, 4), (36, 4), (40, 4), (44, 4), (48, 2), (50, 2), (52, 2), (54, 2), (56, 2), (58, 2),
      (60, 2), (62, 2), (64, 2), (66, 2), (68, 2), (70, 2), (72, 2), (74, 1), (75, 1), (76, 2), (78, 2), (80, 2), (82, 2), (84, 2), (86, 2),
      (88, 1), (89, 1), (90, 2), (92, 2), (94, 2), (96, 2), (98, 2), (100, 2), (102, 2), (104, 2), (106, 2), (108, 2), (110, 2), (112, 2),
      (114, 2), (116, 1), (128, 2), (130, 2), (132, 110), (250, 2), (258, 2), (260, 2), (262, 2), (264, 2), (266, 2), (268, 2), (270, 2),
      (272, 2), (274, 2), (276, 2), (278, 2), (280, 2), (282, 2), (284, 2), (286, 2), (384, 1), (385, 1), (386, 2), (388, 1), (390, 2), (392, 4),
      (396, 4), (400, 2), (404, 1), (516, 4), (520, 4), (640, 64)]"
  by (simp add: ControlTable_derived_def ControlTable_decl_def control_sections table_eval control_decls control_addrs)

end
