(* ===== verification/System.thy ===== *)
theory System
  imports Spine TableMap KernelSafe
begin

text \<open>
  The servo as one system: the dispatcher and the control kernel share the register table.  The dispatcher's handlers run at
  their interrupt priority between the kernel's ticks; their steps interleave in any order here.  Shown here: every
  interleaving keeps the enum and bool registers within their discriminants, staged writes included, so no tick ever
  reads an undefined value; the kernel changes no register of another writer; and a committed torque-off stops the
  bridge on the next tick.
\<close>

section \<open>Enum registers\<close>

definition enum_ok :: "RegisterMap \<Rightarrow> bytes \<Rightarrow> bool" where
  "enum_ok m t \<longleftrightarrow> (\<forall>r \<in> allowed_rules_of m. t ! unat (ar_addr r) \<in> set (ar_allowed r))"

definition log_allowed :: "RegisterMap \<Rightarrow> (u16 \<times> bytes) list \<Rightarrow> bool" where
  "log_allowed m ws \<longleftrightarrow> (\<forall>(a, d) \<in> set ws. \<forall>r \<in> allowed_rules_of m.
     unat a \<le> unat (ar_addr r) \<and> unat (ar_addr r) < unat a + length d \<longrightarrow> d ! (unat (ar_addr r) - unat a) \<in> set (ar_allowed r))"

definition rules_inside :: "RegisterMap \<Rightarrow> bool" where
  "rules_inside m \<longleftrightarrow> (\<forall>r \<in> allowed_rules_of m. unat (ar_addr r) < rm_SIZE m)"

lemma allowed_holds_nth:
  assumes "unat (ar_addr r) < length t"
  shows "allowed_holds t r \<longleftrightarrow> t ! unat (ar_addr r) \<in> set (ar_allowed r)"
proof -
  have "View_read_fixed (plain_view t) (ar_addr r) 1 = Some (Inr [t ! unat (ar_addr r), 0, 0, 0])"
    using assms by (simp add: View_read_fixed_def plain_view_def View_new_def View_new_split_def load_le4_def raw_read_def get_range_def
        Let_def take_Suc hd_drop_conv_nth)
  then show ?thesis by (simp add: allowed_holds_def check_allowed_def res_bind_def)
qed

lemma write_ok_allowed:
  assumes "write_ok m t a d" "length t = rm_SIZE m" "rules_inside m"
  shows "log_allowed m [(a, d)]"
proof -
  have l: "unat a + length d \<le> length t" using assms(1,2) by (simp add: write_ok_def Let_def)
  have "d ! (unat (ar_addr r) - unat a) \<in> set (ar_allowed r)"
    if r: "r \<in> allowed_rules_of m" "unat a \<le> unat (ar_addr r)" "unat (ar_addr r) < unat a + length d" for r
  proof -
    have "overlaps (unat (ar_addr r)) 1 (unat a) (unat a + length d)" using r by (simp add: overlaps_def)
    then have "allowed_holds (overlay t (unat a) d) r" using assms(1) r(1) by (simp add: write_ok_def Let_def)
    moreover have "unat (ar_addr r) < length (overlay t (unat a) d)" using r(1) assms(2,3) l by (simp add: rules_inside_def)
    ultimately have "overlay t (unat a) d ! unat (ar_addr r) \<in> set (ar_allowed r)" by (simp add: allowed_holds_nth)
    then show ?thesis using r l by (simp add: nth_overlay)
  qed
  then show ?thesis by (simp add: log_allowed_def)
qed

lemma apply_log_enum:
  assumes "enum_ok m t" "log_allowed m ws" "length t = rm_SIZE m" "rules_inside m"
  shows "enum_ok m (apply_log (rm_SIZE m) t ws)"
  using assms
proof (induction ws arbitrary: t)
  case (Cons w ws)
  obtain a d where w: "w = (a, d)" by (cases w)
  define t1 where "t1 = (if unat a + length d \<le> rm_SIZE m then overlay t (unat a) d else t)"
  have "length t1 = rm_SIZE m" using Cons.prems(3) by (simp add: t1_def)
  moreover have "enum_ok m t1"
    using Cons.prems by (auto simp: enum_ok_def t1_def log_allowed_def w rules_inside_def nth_overlay)
  moreover have "log_allowed m ws" using Cons.prems(2) by (simp add: log_allowed_def)
  ultimately have "enum_ok m (apply_log (rm_SIZE m) t1 ws)" using Cons.IH Cons.prems(4) by blast
  then show ?case by (simp add: apply_log_def w t1_def)
qed (simp add: apply_log_def)

lemma log_allowed_append [simp]: "log_allowed m (ws @ vs) \<longleftrightarrow> log_allowed m ws \<and> log_allowed m vs"
  by (auto simp: log_allowed_def)

lemma log_allowed_Nil [simp]: "log_allowed m []"
  by (simp add: log_allowed_def)

lemma log_allowed_empty [simp]: "log_allowed m [(a, [])]"
  by (auto simp: log_allowed_def)

lemma staged_log_unique: "staged_rel s ws \<Longrightarrow> staged_rel s vs \<Longrightarrow> ws = vs"
  using staged_iter_suffix [of s "[]" ws Snapshot_ZERO] staged_iter_suffix [of s "[]" vs Snapshot_ZERO]
  by (simp add: Snapshot_ZERO_def)

section \<open>The servo's map\<close>

lemma control_derived:
  obtains descs spans where "ControlTable_derived = Inr (control_map, descs)" "rm_SIZE control_map = 1024" "length (rm_CMP_RULES control_map) = 19"
    "map sm_allowed_rules (rm_SECTIONS control_map) = [(0, 3), (3, 3), (3, 7), (7, 7), (7, 7)]"
    "rm_ALLOWED_RULES control_map = [\<lparr>ar_addr = 0x4A, ar_allowed = [0, 1]\<rparr>, \<lparr>ar_addr = 0x4B, ar_allowed = [0, 1]\<rparr>, \<lparr>ar_addr = 0x59, ar_allowed = [0, 1]\<rparr>,
      \<lparr>ar_addr = 0x180, ar_allowed = [0, 1]\<rparr>, \<lparr>ar_addr = 0x181, ar_allowed = [0, 1]\<rparr>, \<lparr>ar_addr = 0x184, ar_allowed = [0, 1, 2, 3]\<rparr>,
      \<lparr>ar_addr = 0x194, ar_allowed = [0, 1]\<rparr>]"
    "map cr_addr (rm_CMP_RULES control_map) = [16, 16, 17, 32, 36, 40, 40, 40, 44, 44, 44, 54, 92, 94, 386, 390, 392, 392, 400]"
    "rm_WRITABLE control_map = writable_words 1024 spans" "\<forall>(off, len) \<in> set spans. unat off + unat len \<le> 1024" "(0x180, 1) \<in> set spans"
proof -
  obtain m descs where e: "ControlTable_derived = Inr (m, descs)" and f: "rm_SIZE m = 1024" "length (rm_CMP_RULES m) = 19"
    "map sm_allowed_rules (rm_SECTIONS m) = [(0, 3), (3, 3), (3, 7), (7, 7), (7, 7)]"
    "rm_ALLOWED_RULES m = [\<lparr>ar_addr = 0x4A, ar_allowed = [0, 1]\<rparr>, \<lparr>ar_addr = 0x4B, ar_allowed = [0, 1]\<rparr>, \<lparr>ar_addr = 0x59, ar_allowed = [0, 1]\<rparr>,
      \<lparr>ar_addr = 0x180, ar_allowed = [0, 1]\<rparr>, \<lparr>ar_addr = 0x181, ar_allowed = [0, 1]\<rparr>, \<lparr>ar_addr = 0x184, ar_allowed = [0, 1, 2, 3]\<rparr>,
      \<lparr>ar_addr = 0x194, ar_allowed = [0, 1]\<rparr>]"
    "map cr_addr (rm_CMP_RULES m) = [16, 16, 17, 32, 36, 40, 40, 40, 44, 44, 44, 54, 92, 94, 386, 390, 392, 392, 400]"
    and w: "rm_WRITABLE m = writable_words 1024 [(16, 1), (17, 1), (18, 2), (32, 4), (36, 4), (40, 4), (44, 4), (48, 2), (50, 2), (52, 2), (54, 2), (56, 2), (58, 2), (60, 2), (62, 2), (64, 2), (66, 2), (68, 2), (70, 2), (72, 2), (74, 1), (75, 1), (76, 2), (78, 2), (80, 2), (82, 2), (84, 2), (86, 2), (88, 1), (89, 1), (90, 2), (92, 2), (94, 2), (96, 2), (98, 2), (100, 2), (102, 2), (104, 2), (106, 2), (108, 2), (110, 2), (112, 2), (114, 2), (116, 1), (128, 2), (130, 2), (132, 110), (250, 2), (258, 2), (260, 2), (262, 2), (264, 2), (266, 2), (268, 2), (270, 2), (272, 2), (274, 2), (276, 2), (278, 2), (280, 2), (282, 2), (284, 2), (286, 2), (384, 1), (385, 1), (386, 2), (388, 1), (390, 2), (392, 4), (396, 4), (400, 2), (404, 1), (516, 4), (520, 4), (640, 64)]"
    using ControlTable_derives by (elim exE conjE)
  have c: "control_map = m" unfolding control_map_def e by simp
  show thesis by (rule that [unfolded c, OF e f w]) simp_all
qed

lemma control_allowed: "rm_ALLOWED_RULES control_map = [\<lparr>ar_addr = 0x4A, ar_allowed = [0, 1]\<rparr>, \<lparr>ar_addr = 0x4B, ar_allowed = [0, 1]\<rparr>,
    \<lparr>ar_addr = 0x59, ar_allowed = [0, 1]\<rparr>, \<lparr>ar_addr = 0x180, ar_allowed = [0, 1]\<rparr>, \<lparr>ar_addr = 0x181, ar_allowed = [0, 1]\<rparr>,
    \<lparr>ar_addr = 0x184, ar_allowed = [0, 1, 2, 3]\<rparr>, \<lparr>ar_addr = 0x194, ar_allowed = [0, 1]\<rparr>]"
  by (rule control_derived)

lemma control_map_facts:
  "rm_SIZE control_map = TABLE_SIZE" "map_ok control_map"
  "allowed_rules_of control_map = {\<lparr>ar_addr = 0x4A, ar_allowed = [0, 1]\<rparr>, \<lparr>ar_addr = 0x4B, ar_allowed = [0, 1]\<rparr>, \<lparr>ar_addr = 0x59, ar_allowed = [0, 1]\<rparr>,
      \<lparr>ar_addr = 0x180, ar_allowed = [0, 1]\<rparr>, \<lparr>ar_addr = 0x181, ar_allowed = [0, 1]\<rparr>, \<lparr>ar_addr = 0x184, ar_allowed = [0, 1, 2, 3]\<rparr>,
      \<lparr>ar_addr = 0x194, ar_allowed = [0, 1]\<rparr>}"
proof -
  obtain descs where e: "ControlTable_derived = Inr (control_map, descs)" and f: "rm_SIZE control_map = 1024" "length (rm_CMP_RULES control_map) = 19"
    "map sm_allowed_rules (rm_SECTIONS control_map) = [(0, 3), (3, 3), (3, 7), (7, 7), (7, 7)]"
    by (rule control_derived) (rule that)
  note a = control_allowed
  show "rm_SIZE control_map = TABLE_SIZE" by (simp add: f TABLE_SIZE_def)
  show "map_ok control_map"
    using derive_map_ok [OF e [unfolded ControlTable_derived_def]] f(2) by (simp add: a)
  have "allowed_rules_of control_map = (\<Union>ab \<in> set (map sm_allowed_rules (rm_SECTIONS control_map)).
      case stripe (rm_ALLOWED_RULES control_map) ab of None \<Rightarrow> {} | Some rs \<Rightarrow> set rs)" by (simp add: allowed_rules_of_def)
  then show "allowed_rules_of control_map = {\<lparr>ar_addr = 0x4A, ar_allowed = [0, 1]\<rparr>, \<lparr>ar_addr = 0x4B, ar_allowed = [0, 1]\<rparr>, \<lparr>ar_addr = 0x59, ar_allowed = [0, 1]\<rparr>,
      \<lparr>ar_addr = 0x180, ar_allowed = [0, 1]\<rparr>, \<lparr>ar_addr = 0x181, ar_allowed = [0, 1]\<rparr>, \<lparr>ar_addr = 0x184, ar_allowed = [0, 1, 2, 3]\<rparr>,
      \<lparr>ar_addr = 0x194, ar_allowed = [0, 1]\<rparr>}"
    unfolding f(3) a by (auto simp: stripe_def get_range_def)
qed

text \<open>The torque register is writable, and no comparison rule reads it.\<close>

lemma control_torque: "byte_writable (rm_WRITABLE control_map) 0x180" "r \<in> cmp_rules_of control_map \<Longrightarrow> \<not> overlaps (unat (cr_addr r)) (rule_width r) 0x180 0x181"
proof -
  obtain spans where s: "rm_WRITABLE control_map = writable_words 1024 spans" "\<forall>(off, len) \<in> set spans. unat off + unat len \<le> 1024" "(0x180, 1) \<in> set spans"
    by (rule control_derived) blast
  show "byte_writable (rm_WRITABLE control_map) 0x180"
    unfolding s(1) byte_writable_words [OF s(2)] by (rule bexI [OF _ s(3)]) simp
  have "map cr_addr (rm_CMP_RULES control_map) = [16, 16, 17, 32, 36, 40, 40, 40, 44, 44, 44, 54, 92, 94, 386, 390, 392, 392, 400]" by (rule control_derived)
  then have ad: "cr_addr ` set (rm_CMP_RULES control_map) = set [16, 16, 17, 32, 36, 40, 40, 40, 44, 44, 44, 54, 92, 94, 386, 390, 392, 392, 400]" unfolding set_map [symmetric] by (rule arg_cong)
  assume "r \<in> cmp_rules_of control_map"
  then have "r \<in> set (rm_CMP_RULES control_map)"
    by (auto simp: cmp_rules_of_def stripe_def get_range_def split: option.splits if_splits dest: in_set_takeD in_set_dropD)
  then have "cr_addr r \<in> set [16, 16, 17, 32, 36, 40, 40, 40, 44, 44, 44, 54, 92, 94, 386, 390, 392, 392, 400]" using ad by blast
  then have "unat (cr_addr r) \<le> 94 \<or> 386 \<le> unat (cr_addr r)" by auto
  moreover have "rule_width r \<le> 15"
    using word_and_le1 [of "cr_spec r" "0xF"] by (simp add: rule_width_def word_le_nat_alt)
  ultimately show "\<not> overlaps (unat (cr_addr r)) (rule_width r) 0x180 0x181" by (auto simp: overlaps_def)
qed

lemma torque_write_ok:
  assumes "length t = TABLE_SIZE" "b \<in> {0, 1}"
  shows "write_ok control_map t TORQUE_ENABLE [b]"
proof -
  have "byte_writable (rm_WRITABLE control_map) i" if "384 \<le> i" "i < 385" for i
  proof -
    have "i = 384" using that by linarith
    then show ?thesis using control_torque(1) by simp
  qed
  moreover have "allowed_holds (overlay t 384 [b]) r" if r: "r \<in> allowed_rules_of control_map" "overlaps (unat (ar_addr r)) 1 384 385" for r
  proof -
    have "r = \<lparr>ar_addr = 0x180, ar_allowed = [0, 1]\<rparr>" using r by (auto simp: control_map_facts(3) overlaps_def)
    then show ?thesis using assms by (simp add: allowed_holds_nth nth_overlay TABLE_SIZE_def)
  qed
  ultimately show ?thesis
    using control_torque by (auto simp: write_ok_def Let_def TORQUE_ENABLE_def control_map_facts(1) TABLE_SIZE_def)
qed

lemma control_rules_inside: "rules_inside control_map"
  by (simp add: rules_inside_def control_map_facts TABLE_SIZE_def)

lemma control_enum: "enum_ok control_map t \<longleftrightarrow> t ! 0x4A \<in> {0, 1} \<and> t ! 0x4B \<in> {0, 1} \<and> t ! 0x59 \<in> {0, 1} \<and> t ! 0x180 \<in> {0, 1}
    \<and> t ! 0x181 \<in> {0, 1} \<and> t ! 0x184 \<in> {0, 1, 2, 3} \<and> t ! 0x194 \<in> {0, 1}"
  by (simp add: enum_ok_def control_map_facts)

lemma rd_i16_ok [simp]: "i16_ok (rd_i16 t a)"
  using sint_range_size [of "rd_u16 t a"] by (simp add: rd_i16_def i16_ok_def word_size)

text \<open>Under the map's rules every block of the table reads.\<close>

lemma regs_read_total:
  assumes "enum_ok control_map t"
  obtains rg where "Regs_read t = Some rg" "regs_ok rg" "cl_torque_enable (rg_life rg) \<longleftrightarrow> t ! 0x180 = 1"
proof -
  have e: "t ! 0x4A \<in> {0, 1}" "t ! 0x4B \<in> {0, 1}" "t ! 0x59 \<in> {0, 1}" "t ! 0x180 \<in> {0, 1}" "t ! 0x181 \<in> {0, 1}" "t ! 0x184 \<in> {0, 1, 2, 3}"
    using assms by (simp_all add: control_enum)
  obtain life where l: "ControlLifecycle_read t = Some life" "cl_torque_enable life \<longleftrightarrow> t ! 0x180 = 1"
    using e(4-6) by (auto simp: ControlLifecycle_read_def rd_bool_def rd_u8_def Mode_of_u8_def)
  obtain lim where m: "ConfigLimits_read t = Some lim"
    using e(1-3) by (auto simp: ConfigLimits_read_def rd_bool_def rd_u8_def StallResponse_of_u8_def DecaySelect_of_u8_def)
  show thesis by (rule that) (auto simp: Regs_read_def l m regs_ok_def ConfigThermal_read_def CalibWinding_read_def)
qed

section \<open>The dispatcher keeps the enum registers\<close>

definition enum_inv :: "'f Env \<Rightarrow> 'f Servo \<Rightarrow> bool" where
  "enum_inv env sv \<longleftrightarrow> env_ok env \<and> env_map env = control_map \<and> servo_ok sv \<and> enum_ok control_map (sv_table sv)
     \<and> (\<forall>ws. staged_rel (sv_staged sv) ws \<longrightarrow> log_allowed control_map ws)"

definition enum_addrs :: "nat set" where
  "enum_addrs = {0x4A, 0x4B, 0x59, 0x180, 0x181, 0x184, 0x194}"

definition enum_keep :: "'f Servo \<Rightarrow> 'f Servo \<Rightarrow> bool" where
  "enum_keep sv sv' \<longleftrightarrow> (\<forall>i \<in> enum_addrs. sv_table sv' ! i = sv_table sv ! i) \<and> sv_staged sv' = sv_staged sv"

lemma enum_same: "(\<And>i. i \<in> enum_addrs \<Longrightarrow> t' ! i = t ! i) \<Longrightarrow> enum_ok control_map t' = enum_ok control_map t"
  by (simp add: control_enum enum_addrs_def)

lemma keep_inv: "enum_inv env sv \<Longrightarrow> enum_keep sv sv' \<Longrightarrow> servo_ok sv' \<Longrightarrow> enum_inv env sv'"
  using enum_same [of "sv_table sv'" "sv_table sv"] by (simp add: enum_inv_def enum_keep_def)

lemma keep_trans: "enum_keep a b \<Longrightarrow> enum_keep b c \<Longrightarrow> enum_keep a c"
  by (simp add: enum_keep_def)

lemma keep_simps [simp]:
  "enum_keep sv sv" "enum_keep sv (emit sv r)" "enum_keep sv (sv\<lparr>sv_flash := fl\<rparr>)"
  "enum_keep sv (ack a mr x sv) " "enum_keep sv (ack_code a mr c sv)"
  "enum_keep sv (mark_dirty_if_persistent addr len sv)" "enum_keep sv (sv\<lparr>sv_pending := p\<rparr>)"
  "enum_keep sv (sv\<lparr>sv_table := tbl_set_u8 (sv_table sv) STATUS_FLAGS v\<rparr>)"
  by (auto simp: enum_keep_def enum_addrs_def disp_defs STATUS_FLAGS_def)

lemma replies_enum: "replies mr sv sv' \<Longrightarrow> enum_keep sv sv'"
  by (auto simp: replies_def)

lemma commit_spans_keep: "enum_keep sv (commit_spans ss sv)"
  using commit_spans_sel [of ss sv] by (auto simp: enum_keep_def enum_addrs_def commit_spans_table STATUS_FLAGS_def)

lemma assign_keep [simp]: "enum_keep sv (Dispatcher_assign env a mr uid new_id sv)"
  by (auto simp: Dispatcher_assign_def enum_keep_def enum_addrs_def disp_defs STATUS_FLAGS_def ID_ADDR_def)

lemma save_keep: "Dispatcher_save env a mr sv = Some sv' \<Longrightarrow> enum_keep sv sv'"
  by (auto simp: Dispatcher_save_def enum_keep_def enum_addrs_def disp_defs STATUS_FLAGS_def split: if_splits bind_splits)

lemma mgmt_keep: "Dispatcher_mgmt env a mr m sv = Some sv' \<Longrightarrow> enum_keep sv sv'"
  using save_keep [of env a mr sv sv']
  by (cases m) (auto simp: Dispatcher_mgmt_def Dispatcher_factory_def enum_keep_def disp_defs split: if_splits option.splits prod.splits)

lemma commit_inv:
  assumes "enum_inv env sv" "sv_pending sv = None" "apply_commit env a mr sv = Some sv'"
  shows "enum_inv env sv'"
proof -
  have e: "env_ok env" and s: "servo_ok sv" using assms(1) by (simp_all add: enum_inv_def)
  have l: "length (sv_table sv) = TABLE_SIZE" using s by (simp add: servo_ok_def)
  obtain ws where ws: "staged_rel (sv_staged sv) ws" using servo_ok_staged [OF s assms(2)] by blast
  let ?sv1 = "sv\<lparr>sv_table := apply_log TABLE_SIZE (sv_table sv) ws, sv_staged := StagedWrites_new\<rparr>"
  have eq: "sv' = commit_spans (map (\<lambda>(x, d). (x, of_nat (length d))) ws) (ack a mr (Inr ()) ?sv1)"
    using apply_commit_eq [OF e l ws, of a mr] assms(3) by simp
  have "enum_ok control_map (apply_log (rm_SIZE control_map) (sv_table sv) ws)"
    using assms(1) ws l by (intro apply_log_enum) (simp_all add: enum_inv_def control_map_facts control_rules_inside)
  moreover have "servo_ok ?sv1" using assms(2) l staged_new by (auto simp: servo_ok_def)
  moreover have "log_allowed control_map vs" if "staged_rel StagedWrites_new vs" for vs
    using staged_log_unique [OF that staged_new] by simp
  ultimately have "enum_inv env ?sv1" using assms(1) by (simp add: enum_inv_def control_map_facts)
  moreover have "servo_ok sv'" using commit_step [OF e s assms(2), of a mr] assms(3) by (auto simp: step_ok_def)
  ultimately show ?thesis using keep_inv keep_trans [OF keep_simps(4) commit_spans_keep] eq by blast
qed

lemma write_inv:
  assumes "enum_inv env sv" "sv_pending sv = None" "Dispatcher_write env a mr addr data hold sv = Some (sv', d)"
  shows "enum_inv env sv'"
proof -
  have e: "env_ok env" and s: "servo_ok sv" and m: "env_map env = control_map" using assms(1) by (simp_all add: enum_inv_def)
  have l: "length (sv_table sv) = TABLE_SIZE" using s by (simp add: servo_ok_def)
  obtain ws where ws: "staged_rel (sv_staged sv) ws" using servo_ok_staged [OF s assms(2)] by blast
  have ok: "servo_ok sv'" using write_step [OF e s assms(2), of a mr addr data hold] assms(3) by (auto simp: step_ok_def)
  consider "replies mr sv sv'"
    | s' r p where "sv' = (emit sv r)\<lparr>sv_staged := s', sv_pending := p\<rparr>" "staged_rel s' (ws @ [(addr, FrameBytes_bytes data)])"
        "FrameBytes_bytes data = [] \<or> write_ok control_map (sv_table sv) addr (FrameBytes_bytes data)"
    using write_handler [OF e l ws, of a mr addr data hold] assms(3) m by auto
  then show ?thesis
  proof cases
    case 1
    then show ?thesis using keep_inv [OF assms(1) replies_enum ok] by blast
  next
    case (2 s' r p)
    have "log_allowed control_map [(addr, FrameBytes_bytes data)]"
      using 2(3) write_ok_allowed [of control_map "sv_table sv" addr "FrameBytes_bytes data"] l control_map_facts(1) control_rules_inside
      by fastforce
    then have "log_allowed control_map vs" if "staged_rel s' vs" for vs
      using staged_log_unique [OF that 2(2)] assms(1) ws by (simp add: enum_inv_def)
    then show ?thesis using assms(1) ok 2(1) by (simp add: enum_inv_def)
  qed
qed

lemma dispatch_match_inv:
  assumes "enum_inv env sv" "sv_pending sv = None" "req_ok req" "dispatch_match env a req mr sv = Some (sv', d)"
  shows "enum_inv env sv'"
proof -
  have e: "env_ok env" and s: "servo_ok sv" using assms(1) by (simp_all add: enum_inv_def)
  have l: "length (sv_table sv) = TABLE_SIZE" using s by (simp add: servo_ok_def)
  have ok: "servo_ok sv'" using dispatch_match_step [OF e s assms(2,3), of a mr] assms(4) by (auto simp: step_ok_def)
  have r: "enum_inv env sv'" if "enum_keep sv sv'" using keep_inv [OF assms(1) that ok] .
  have q: "enum_keep sv sv'" if "\<exists>x. f = Some x \<and> replies mr sv x" "finished f = Some (sv', d)" for f
    using that replies_enum by (auto simp: finished_def)
  note hit = assms(4) [unfolded dispatch_match_def]
  show ?thesis
  proof (cases req)
    case Request_Ping
    then show ?thesis using hit q [OF ping_replies [OF e l]] r by auto
  next
    case (Request_Read addr n)
    then show ?thesis using hit q [OF read_replies [OF e l]] r by auto
  next
    case (Request_ReadProfile slot)
    then show ?thesis using hit q [OF read_profile_replies [OF e l]] r by auto
  next
    case (Request_Write addr data hold)
    then show ?thesis using hit write_inv [OF assms(1,2)] by auto
  next
    case Request_Commit
    then show ?thesis using hit commit_inv [OF assms(1,2)] by (auto simp: finished_def)
  next
    case (Request_Enumerate n p)
    then show ?thesis using hit q [OF enumerate_replies [OF e]] r assms(3) by (auto simp: req_ok_def)
  next
    case (Request_Assign uid i)
    then show ?thesis using hit r by (auto simp: finished_def)
  next
    case (Request_Calibrate g n)
    then show ?thesis using hit r by (auto simp: finished_def)
  next
    case (Request_Mgmt m b)
    then show ?thesis using hit mgmt_keep [of env a mr m sv sv'] r by (auto simp: finished_def)
  next
    case Request_Unsupported
    then show ?thesis using hit replies_enum [OF replies_instruction_error] r by (auto simp: finished_def)
  qed
qed

lemma revert_inv: "enum_inv env sv \<Longrightarrow> enum_inv env (revert_dangling env sv)"
proof (cases "sv_pending sv")
  case (Some p)
  assume i: "enum_inv env sv"
  then have e: "env_ok env" and s: "servo_ok sv" by (simp_all add: enum_inv_def)
  from Some s obtain s0 ws d where w: "staged_rel s0 ws" "staged_rel (sv_staged sv) (ws @ [(pw_addr p, d)])"
      "pw_snap p = StagedWrites_snapshot s0" by (auto simp: servo_ok_def)
  have r: "revert_dangling env sv = sv\<lparr>sv_pending := None, sv_staged := s0\<rparr>"
    using staged_revert_eq [OF e w(1,2)] Some w(3) by (simp add: revert_dangling_def)
  have "log_allowed control_map vs" if "staged_rel s0 vs" for vs
    using staged_log_unique [OF that w(1)] i w(2) by (force simp: enum_inv_def)
  then show ?thesis using i revert_dangling_ok [OF e s] r by (simp add: enum_inv_def)
qed (simp add: revert_dangling_def)

lemma dispatch_inv:
  assumes "enum_inv env sv" "req_ok req" "dispatch env req mr sv = Some (sv', d)"
  shows "enum_inv env sv'"
proof -
  have "sv_pending (revert_dangling env sv) = None" using revert_dangling_ok [of env sv] assms(1) by (simp add: enum_inv_def)
  then show ?thesis using dispatch_match_inv [OF revert_inv [OF assms(1)] _ assms(2)] assms(3) by (simp add: dispatch_def Let_def)
qed

lemma Dispatcher_commit_inv:
  assumes "enum_inv env sv"
  obtains sv' where "Dispatcher_commit env sv = Some sv'" "enum_inv env sv'"
proof (cases "sv_pending sv")
  case None
  then show thesis using assms that by (simp add: Dispatcher_commit_def)
next
  case (Some p)
  have e: "env_ok env" and s: "servo_ok sv" and m: "env_map env = control_map" using assms by (simp_all add: enum_inv_def)
  from Some s obtain s0 ws d where w: "staged_rel s0 ws" "staged_rel (sv_staged sv) (ws @ [(pw_addr p, d)])"
      "pw_snap p = StagedWrites_snapshot s0" and l: "length (sv_table sv) = TABLE_SIZE" by (auto simp: servo_ok_def)
  have la: "log_allowed control_map (ws @ [(pw_addr p, d)])" using assms w(2) unfolding enum_inv_def by blast
  show thesis
  proof (cases "pw_hold p")
    case True
    have "enum_inv env (sv\<lparr>sv_pending := None\<rparr>)"
      using assms w(2) l by (intro keep_inv [OF assms]) (auto simp: servo_ok_def)
    then show thesis using True Some that by (simp add: Dispatcher_commit_def)
  next
    case False
    have hv: "heapless_ok (env_hv env)" using e by (simp add: env_ok_def)
    have sz: "length (sv_table sv) = rm_SIZE (env_map env)" using l m by (simp add: control_map_facts)
    define sv1 where "sv1 = sv\<lparr>sv_pending := None, sv_table := apply_log TABLE_SIZE (sv_table sv) [(pw_addr p, d)], sv_staged := s0\<rparr>"
    have "RegisterFile_commit_from (env_hv env) (env_map env) (sv_table sv) (sv_staged sv) (pw_snap p)
        = Some (apply_log TABLE_SIZE (sv_table sv) [(pw_addr p, d)], s0)"
      using commit_effect [OF hv w(1,2) sz] w(3) m by (simp add: control_map_facts)
    with Some False have c: "Dispatcher_commit env sv = Some (emit (mark_dirty_if_persistent (pw_addr p) (pw_len p) sv1)
        (dispatch_events (sv_table (mark_dirty_if_persistent (pw_addr p) (pw_len p) sv1)) (pw_addr p) (pw_len p)))"
      by (simp add: Dispatcher_commit_def Let_def sv1_def)
    have "enum_ok control_map (apply_log (rm_SIZE control_map) (sv_table sv) [(pw_addr p, d)])"
      using assms la l by (intro apply_log_enum) (simp_all add: enum_inv_def control_map_facts control_rules_inside)
    moreover have "servo_ok sv1" using w(1) l by (auto simp: servo_ok_def sv1_def)
    moreover have "log_allowed control_map vs" if "staged_rel s0 vs" for vs using staged_log_unique [OF that w(1)] la by simp
    ultimately have i: "enum_inv env sv1" using assms by (simp add: enum_inv_def control_map_facts sv1_def)
    have "servo_ok (emit (mark_dirty_if_persistent (pw_addr p) (pw_len p) sv1) r)" for r
      using \<open>servo_ok sv1\<close> by (simp add: servo_ok_def sv1_def)
    then show thesis
      using that [OF c] keep_inv [OF i keep_trans [OF keep_simps(6) keep_simps(2)]] by blast
  qed
qed

section \<open>The kernel keeps the other writers' registers\<close>

lemma store_writes_owned:
  assumes "owned_writes ws" "length t = TABLE_SIZE"
  obtains t' where "store_writes t ws = Some t'" "length t' = TABLE_SIZE" "\<forall>i < TABLE_SIZE. i \<notin> kernel_owned \<longrightarrow> t' ! i = t ! i"
proof -
  have "\<exists>t'. store_writes t ws = Some t' \<and> length t' = TABLE_SIZE \<and> (\<forall>i < TABLE_SIZE. i \<notin> kernel_owned \<longrightarrow> t' ! i = t ! i)"
    using assms
  proof (induction ws arbitrary: t)
    case (Cons w ws)
    obtain a bs where w: "w = (a, bs)" by (cases w)
    have o: "{a..<a + length bs} \<subseteq> kernel_owned" "owned_writes ws" "0 < length bs" using Cons.prems(1) by (simp_all add: w)
    have "a + length bs - 1 \<in> {a..<a + length bs}" using o(3) by (cases bs) simp_all
    then have "a + length bs - 1 \<in> kernel_owned" using o(1) by blast
    then have le: "a + length bs \<le> TABLE_SIZE" by (auto simp: kernel_owned_def TABLE_SIZE_def)
    have "\<exists>t'. store_writes (overlay t a bs) ws = Some t' \<and> length t' = TABLE_SIZE
        \<and> (\<forall>i < TABLE_SIZE. i \<notin> kernel_owned \<longrightarrow> t' ! i = overlay t a bs ! i)"
      using Cons.prems(2) le by (intro Cons.IH [OF o(2)]) simp
    moreover have "overlay t a bs ! i = t ! i" if "i < TABLE_SIZE" "i \<notin> kernel_owned" for i
      using that o(1) le Cons.prems(2) nth_overlay [of a bs t i] by (auto simp: subset_iff)
    ultimately show ?case using le Cons.prems(2) by (auto simp: w raw_write_overlay)
  qed simp
  then show thesis using that by blast
qed

text \<open>One tick against the table: always defined, disabled when the torque byte is 0, and silent outside the kernel's registers.\<close>

lemma isr_ok:
  assumes "kernel_inv k" "frame_ok frame" "enum_ok control_map t" "length t = TABLE_SIZE"
  obtains k' t' tel cmd where "Kernel_isr k frame t = Some (k', t', tel, cmd)" "kernel_inv k'" "length t' = TABLE_SIZE"
    "\<forall>i < TABLE_SIZE. i \<notin> kernel_owned \<longrightarrow> t' ! i = t ! i" "enum_ok control_map t'"
    "t ! 0x180 = 0 \<longrightarrow> cmd = MotorCmd_Disabled"
proof -
  obtain rg where rg: "Regs_read t = Some rg" "regs_ok rg" "cl_torque_enable (rg_life rg) \<longleftrightarrow> t ! 0x180 = 1" using regs_read_total [OF assms(3)] .
  obtain k' out where o: "Kernel_on_tick k frame rg = Some (k', out)" "kernel_inv k'" "owned_writes (to_writes out)"
      "to_cmd out = MotorCmd_Disabled \<longleftrightarrow> \<not> torque_on rg \<or> faulted k'"
    by (rule tick_ok [OF assms(1,2) rg(2)]) blast
  obtain t' where t': "store_writes t (to_writes out) = Some t'" "length t' = TABLE_SIZE"
      "\<forall>i < TABLE_SIZE. i \<notin> kernel_owned \<longrightarrow> t' ! i = t ! i" using store_writes_owned [OF o(3) assms(4)] .
  have "t' ! i = t ! i" if "i \<in> enum_addrs" for i
    using that t'(3) by (auto simp: enum_addrs_def kernel_owned_def TABLE_SIZE_def)
  then have "enum_ok control_map t'" using enum_same assms(3) by blast
  then show thesis
    using that [of k' t' "to_tel out" "to_cmd out"] rg o t' by (simp add: Kernel_isr_def torque_on_def)
qed

section \<open>Boot\<close>

definition bringup :: "AllowedRule list \<Rightarrow> ConfigDefaults \<Rightarrow> u16 \<Rightarrow> u8 \<Rightarrow> CalibSense \<Rightarrow> u16 \<Rightarrow> ConfigStore \<Rightarrow> (ConfigStore \<times> bytes) option" where
  "bringup rules defaults model hw_rev sense bias cs =
     do { t \<leftarrow> seed_config_defaults (replicate TABLE_SIZE 0) defaults;
          t \<leftarrow> seed_identity t model hw_rev;
          (cs, t) \<leftarrow> ConfigStore_boot_load rules cs t;
          t \<leftarrow> seed_calib_sense t sense;
          t \<leftarrow> seed_current_bias t bias;
          Some (cs, t) }"

text \<open>What every byte of a booted table satisfies: enum registers within their rules, torque off.\<close>

definition boot_byte :: "nat \<Rightarrow> u8 \<Rightarrow> bool" where
  "boot_byte i b \<longleftrightarrow> (i \<in> {0x4A, 0x4B, 0x59, 0x181, 0x194} \<longrightarrow> b \<in> {0, 1}) \<and> (i = 0x184 \<longrightarrow> b \<in> {0, 1, 2, 3}) \<and> (i = 0x180 \<longrightarrow> b = 0)"

definition boot_ok :: "bytes \<Rightarrow> bool" where
  "boot_ok t \<longleftrightarrow> length t = TABLE_SIZE \<and> (\<forall>i < TABLE_SIZE. boot_byte i (t ! i))"

definition write_boot_ok :: "nat \<times> bytes \<Rightarrow> bool" where
  "write_boot_ok w \<longleftrightarrow> fst w + length (snd w) \<le> TABLE_SIZE \<and> (\<forall>j < length (snd w). boot_byte (fst w + j) (snd w ! j))"

lemma write_boot: "boot_ok t \<Longrightarrow> write_boot_ok (a, bs) \<Longrightarrow> \<exists>t'. raw_write t a bs = Some t' \<and> boot_ok t'"
  by (auto simp: boot_ok_def write_boot_ok_def raw_write_overlay nth_overlay) (metis add_diff_inverse_nat linorder_not_le nat_add_left_cancel_less)

lemma store_boot: "boot_ok t \<Longrightarrow> \<forall>w \<in> set ws. write_boot_ok w \<Longrightarrow> \<exists>t'. store_writes t ws = Some t' \<and> boot_ok t'"
proof (induction ws arbitrary: t)
  case (Cons w ws)
  obtain a bs where w: "w = (a, bs)" by (cases w)
  obtain t1 where "raw_write t a bs = Some t1" "boot_ok t1" using write_boot [OF Cons.prems(1), of a bs] Cons.prems(2) w by auto
  then show ?case using Cons.IH [of t1] Cons.prems(2) by (simp add: w)
qed simp

lemma short_boot:
  "write_boot_ok (a, [x]) \<longleftrightarrow> a + 1 \<le> TABLE_SIZE \<and> boot_byte a x"
  "write_boot_ok (a, [x, y]) \<longleftrightarrow> a + 2 \<le> TABLE_SIZE \<and> boot_byte a x \<and> boot_byte (a + 1) y"
  "write_boot_ok (a, [x, y, z, u]) \<longleftrightarrow> a + 4 \<le> TABLE_SIZE \<and> boot_byte a x \<and> boot_byte (a + 1) y \<and> boot_byte (a + 2) z \<and> boot_byte (a + 3) u"
  by (auto simp: write_boot_ok_def less_Suc_eq numeral_eq_Suc)

lemma seeds_boot:
  assumes "boot_ok t"
  shows "\<exists>t'. seed_config_defaults t d = Some t' \<and> boot_ok t'" "\<exists>t'. seed_identity t model hw = Some t' \<and> boot_ok t'"
    "\<exists>t'. seed_calib_sense t s = Some t' \<and> boot_ok t'" "\<exists>t'. seed_current_bias t n = Some t' \<and> boot_ok t'"
  unfolding seed_config_defaults_def seed_identity_def seed_calib_sense_def seed_current_bias_def
  by (intro store_boot [OF assms]; simp add: short_boot to_le16_def to_le32_def le_i16_def le_i32_def boot_byte_def TABLE_SIZE_def)+

lemma parse_lengths:
  "Image_parse rules s = Some i \<Longrightarrow> length (img_config i) = CONFIG_LEN \<and> length (img_profile i) = PROFILE_LEN \<and> Image_fields_allowed rules i"
  "CalibImage_parse rules s = Some j \<Longrightarrow> length (cimg_calib j) = CALIB_LEN"
  by (auto simp: Image_parse_def CalibImage_parse_def get_range_def persist_lens Let_def split: if_splits bind_splits)

lemma picked: "pick_newest a b seq = (Some i, n) \<Longrightarrow> a = Some i \<or> b = Some i"
  by (auto simp: pick_newest_def split: option.splits if_splits)

lemma overlay_boot:
  assumes "boot_ok t" "Image_parse (rm_ALLOWED_RULES control_map) s = Some i"
  shows "\<exists>t'. overlay_persistent t (img_config i) (img_profile i) = Some t' \<and> boot_ok t'"
proof -
  have l: "length (img_config i) = CONFIG_LEN" "length (img_profile i) = PROFILE_LEN" "Image_fields_allowed (rm_ALLOWED_RULES control_map) i"
    using parse_lengths(1) [OF assms(2)] by simp_all
  have e: "img_config i ! 0x4A \<in> {0, 1}" "img_config i ! 0x4B \<in> {0, 1}" "img_config i ! 0x59 \<in> {0, 1}"
    using l(3) by (simp_all add: Image_fields_allowed_def control_allowed Image_persisted_byte_def in_region_def
        CONFIG_BASE_ADDR_def CONFIG_REGION_SIZE_def)
  have c: "write_boot_ok (16, drop 16 (img_config i))"
    using l(1) e by (auto simp: write_boot_ok_def boot_byte_def persist_lens TABLE_SIZE_def)
  obtain t1 where t1: "raw_write t 16 (drop 16 (img_config i)) = Some t1" "boot_ok t1" using write_boot [OF assms(1) c] by blast
  have p: "write_boot_ok (640, img_profile i)" using l(2) by (auto simp: write_boot_ok_def boot_byte_def persist_lens TABLE_SIZE_def)
  show ?thesis using write_boot [OF t1(2) p] t1(1) l(1)
    by (simp add: overlay_persistent_def get_range_def persist_lens ID_ADDR_def CONFIG_BASE_ADDR_def PROFILE_BASE_ADDR_def)
qed

lemma boot_load_boot:
  assumes "boot_ok t"
  shows "\<exists>cs' t'. ConfigStore_boot_load (rm_ALLOWED_RULES control_map) cs t = Some (cs', t') \<and> boot_ok t'"
proof -
  obtain img n where p: "pick_newest (Image_parse (rm_ALLOWED_RULES control_map) (slot_bytes (cs_mem cs) Slot_A))
      (Image_parse (rm_ALLOWED_RULES control_map) (slot_bytes (cs_mem cs) Slot_B)) img_seq = (img, n)" by (cases "pick_newest (Image_parse (rm_ALLOWED_RULES control_map) (slot_bytes (cs_mem cs) Slot_A))
      (Image_parse (rm_ALLOWED_RULES control_map) (slot_bytes (cs_mem cs) Slot_B)) img_seq")
  have "\<exists>t1 q. boot_overlay (rm_ALLOWED_RULES control_map) t (slot_bytes (cs_mem cs) Slot_A) (slot_bytes (cs_mem cs) Slot_B) = Some (t1, q) \<and> boot_ok t1"
  proof (cases img)
    case (Some i)
    then show ?thesis using picked [of _ _ img_seq i n] p overlay_boot [OF assms] by (fastforce simp: boot_overlay_def)
  qed (use assms p in \<open>simp add: boot_overlay_def\<close>)
  then obtain t1 q where o: "boot_overlay (rm_ALLOWED_RULES control_map) t (slot_bytes (cs_mem cs) Slot_A) (slot_bytes (cs_mem cs) Slot_B) = Some (t1, q)"
      "boot_ok t1" by blast
  obtain img' n' where p': "pick_newest (CalibImage_parse (rm_ALLOWED_RULES control_map) (calib_slot_bytes (cs_mem cs) Slot_A))
      (CalibImage_parse (rm_ALLOWED_RULES control_map) (calib_slot_bytes (cs_mem cs) Slot_B)) cimg_seq = (img', n')" by fastforce
  have "\<exists>t2 q'. boot_overlay_calib (rm_ALLOWED_RULES control_map) t1 (calib_slot_bytes (cs_mem cs) Slot_A) (calib_slot_bytes (cs_mem cs) Slot_B) = Some (t2, q') \<and> boot_ok t2"
  proof (cases img')
    case (Some j)
    then have "length (cimg_calib j) = CALIB_LEN" using picked [of _ _ cimg_seq j n'] p' parse_lengths(2) by metis
    then have "write_boot_ok (128, cimg_calib j)" by (auto simp: write_boot_ok_def boot_byte_def persist_lens TABLE_SIZE_def)
    from write_boot [OF o(2) this] show ?thesis
      using p' Some by (auto simp: boot_overlay_calib_def overlay_persistent_calib_def CALIB_BASE_ADDR_def)
  qed (use o p' in \<open>simp add: boot_overlay_calib_def\<close>)
  then show ?thesis using o(1) by (auto simp: ConfigStore_boot_load_def)
qed

lemma bringup_ok:
  obtains cs' t where "bringup (rm_ALLOWED_RULES control_map) defaults model hw_rev sense bias cs = Some (cs', t)" "boot_ok t"
proof -
  have "boot_ok (replicate TABLE_SIZE 0)" by (simp add: boot_ok_def boot_byte_def)
  then obtain t1 where 1: "seed_config_defaults (replicate TABLE_SIZE 0) defaults = Some t1" "boot_ok t1" using seeds_boot(1) by blast
  obtain t2 where 2: "seed_identity t1 model hw_rev = Some t2" "boot_ok t2" using seeds_boot(2) [OF 1(2)] by blast
  obtain cs' t3 where 3: "ConfigStore_boot_load (rm_ALLOWED_RULES control_map) cs t2 = Some (cs', t3)" "boot_ok t3"
    using boot_load_boot [OF 2(2)] by blast
  obtain t4 where 4: "seed_calib_sense t3 sense = Some t4" "boot_ok t4" using seeds_boot(3) [OF 3(2)] by blast
  obtain t5 where 5: "seed_current_bias t4 bias = Some t5" "boot_ok t5" using seeds_boot(4) [OF 4(2)] by blast
  show thesis by (rule that [of cs' t5]) (simp_all add: bringup_def 1 2 3 4 5)
qed

lemma boot_enum:
  assumes "boot_ok t"
  shows "enum_ok control_map t \<and> t ! 0x180 = 0"
proof -
  have b: "boot_byte i (t ! i)" if "i < 1024" for i using assms that by (simp add: boot_ok_def TABLE_SIZE_def)
  from b [of "0x4A"] b [of "0x4B"] b [of "0x59"] b [of "0x180"] b [of "0x181"] b [of "0x184"] b [of "0x194"]
  show ?thesis by (simp add: control_enum boot_byte_def)
qed

section \<open>The system\<close>

record System =
  sy_servo :: "ConfigStore Servo"
  sy_kernel :: Kernel

text \<open>What the firmware is configured with: the dispatcher's environment on the derived map, and a kernel timing that holds.\<close>

definition sys_env_ok :: "ConfigStore Env \<Rightarrow> KernelTiming \<Rightarrow> bool" where
  "sys_env_ok env tm \<longleftrightarrow> heapless_ok (env_hv env) \<and> env_map env = control_map \<and> length (env_uid env) = UID_LEN \<and> timing_ok tm"

text \<open>Power-on from any flash contents, then dispatched requests, verdicts and kernel ticks in any order.\<close>

inductive sys_reach :: "ConfigStore Env \<Rightarrow> KernelTiming \<Rightarrow> System \<Rightarrow> bool" for env tm where
  power_on: "bringup (rm_ALLOWED_RULES (env_map env)) defaults model hw_rev sense bias cs = Some (cs', t) \<Longrightarrow>
    sys_reach env tm \<lparr>sy_servo = Session_new t cs', sy_kernel = Kernel_with_tel tm\<rparr>"
| request: "sys_reach env tm s \<Longrightarrow> req_ok req \<Longrightarrow> dispatch env req mr (sy_servo s) = Some (sv, d) \<Longrightarrow> sys_reach env tm (s\<lparr>sy_servo := sv\<rparr>)"
| pass: "sys_reach env tm s \<Longrightarrow> Dispatcher_commit env (sy_servo s) = Some sv \<Longrightarrow> sys_reach env tm (s\<lparr>sy_servo := sv\<rparr>)"
| fail: "sys_reach env tm s \<Longrightarrow> sys_reach env tm (s\<lparr>sy_servo := Dispatcher_revert env (sy_servo s)\<rparr>)"
| isr: "sys_reach env tm s \<Longrightarrow> frame_ok frame \<Longrightarrow> Kernel_isr (sy_kernel s) frame (sv_table (sy_servo s)) = Some (k, t, tel, cmd) \<Longrightarrow>
    sys_reach env tm (s\<lparr>sy_servo := (sy_servo s)\<lparr>sv_table := t\<rparr>, sy_kernel := k\<rparr>)"

lemma new_servo_inv: "sys_env_ok env tm \<Longrightarrow> boot_ok t \<Longrightarrow> enum_inv env (Session_new t cs)"
  using exI [of "staged_rel StagedWrites_new", OF staged_new] boot_enum [of t]
  by (auto dest!: staged_log_unique [OF _ staged_new] simp: enum_inv_def sys_env_ok_def env_ok_def control_map_facts servo_ok_def Session_new_def boot_ok_def)

lemma sys_inv:
  assumes "sys_reach env tm s" "sys_env_ok env tm"
  shows "enum_inv env (sy_servo s) \<and> kernel_inv (sy_kernel s)"
  using assms(1)
proof induction
  case (power_on defaults model hw_rev sense bias cs cs' t)
  have "boot_ok t"
    by (rule bringup_ok [of defaults model hw_rev sense bias cs]) (use power_on assms(2) in \<open>simp add: sys_env_ok_def\<close>)
  then show ?case using new_servo_inv [OF assms(2)] new_inv [of tm] assms(2) by (simp add: sys_env_ok_def)
next
  case (request s req mr sv d)
  then show ?case using dispatch_inv by auto
next
  case (pass s sv)
  then show ?case using Dispatcher_commit_inv [of env "sy_servo s"] by auto
next
  case (fail s)
  then show ?case using revert_inv by (auto simp: revert_eq_dangling)
next
  case (isr s frame k t tel cmd)
  have i: "enum_ok control_map (sv_table (sy_servo s))" "length (sv_table (sy_servo s)) = TABLE_SIZE"
    using isr.IH by (simp_all add: enum_inv_def servo_ok_def)
  have k: "kernel_inv k" "length t = TABLE_SIZE" "enum_ok control_map t"
    by (rule isr_ok [OF conjunct2 [OF isr.IH] isr.hyps(2) i]; use isr.hyps(3) in auto)+
  then show ?case using isr.IH by (auto simp: enum_inv_def servo_ok_def split: option.splits)
qed

text \<open>Property C2: the servo never gets stuck.  From power-on over any flash contents, with requests, verdicts and kernel ticks
  interleaved in any order, every parsed request is answered, every verdict applies, and every tick on 12-bit samples runs:
  no register byte a host can write is an undefined enum or bool when a tick reads it.  A tick with the torque register
  at 0 commands \<open>Disabled\<close>, and no tick changes a register outside the ones the kernel owns.
\<close>

theorem system_never_stuck:
  assumes "sys_env_ok env tm" "sys_reach env tm s"
  shows "(\<forall>req mr. req_ok req \<longrightarrow> dispatch env req mr (sy_servo s) \<noteq> None) \<and> Dispatcher_commit env (sy_servo s) \<noteq> None
    \<and> (\<forall>frame. frame_ok frame \<longrightarrow> (\<exists>k t tel cmd. Kernel_isr (sy_kernel s) frame (sv_table (sy_servo s)) = Some (k, t, tel, cmd)
        \<and> (sv_table (sy_servo s) ! unat TORQUE_ENABLE = 0 \<longrightarrow> cmd = MotorCmd_Disabled)
        \<and> (\<forall>i < TABLE_SIZE. i \<notin> kernel_owned \<longrightarrow> t ! i = sv_table (sy_servo s) ! i)))"
proof -
  have inv: "enum_inv env (sy_servo s)" "kernel_inv (sy_kernel s)" using sys_inv [OF assms(2,1)] by simp_all
  then have ok: "env_ok env" "servo_ok (sy_servo s)" "enum_ok control_map (sv_table (sy_servo s))" "length (sv_table (sy_servo s)) = TABLE_SIZE"
    by (simp_all add: enum_inv_def servo_ok_def)
  have "dispatch env req mr (sy_servo s) \<noteq> None" if "req_ok req" for req mr
    using dispatch_step [OF ok(1,2) that, of mr] by auto
  moreover have "Dispatcher_commit env (sy_servo s) \<noteq> None" using Dispatcher_commit_inv [OF inv(1)] by blast
  moreover have "\<exists>k t tel cmd. Kernel_isr (sy_kernel s) frame (sv_table (sy_servo s)) = Some (k, t, tel, cmd)
        \<and> (sv_table (sy_servo s) ! unat TORQUE_ENABLE = 0 \<longrightarrow> cmd = MotorCmd_Disabled)
        \<and> (\<forall>i < TABLE_SIZE. i \<notin> kernel_owned \<longrightarrow> t ! i = sv_table (sy_servo s) ! i)" if f: "frame_ok frame" for frame
    by (rule isr_ok [OF inv(2) f ok(3,4)]) (auto simp: TORQUE_ENABLE_def)
  ultimately show ?thesis by blast
qed

section \<open>Stopping\<close>

fun isr_run :: "Kernel \<Rightarrow> bytes \<Rightarrow> SensorFrame list \<Rightarrow> (Kernel \<times> bytes \<times> MotorCmd list) option" where
  "isr_run k t [] = Some (k, t, [])"
| "isr_run k t (f # fs) = do { (k, t, tel, cmd) \<leftarrow> Kernel_isr k f t; (k, t, cs) \<leftarrow> isr_run k t fs; Some (k, t, cmd # cs) }"

lemma off_run:
  assumes "kernel_inv k" "enum_ok control_map t" "length t = TABLE_SIZE" "t ! unat TORQUE_ENABLE = 0" "\<forall>f \<in> set fs. frame_ok f"
  shows "\<exists>k' t'. isr_run k t fs = Some (k', t', replicate (length fs) MotorCmd_Disabled)"
  using assms
proof (induction fs arbitrary: k t)
  case (Cons f fs)
  have fr: "frame_ok f" using Cons.prems(5) by simp
  have z: "t ! 0x180 = 0" using Cons.prems(4) by (simp add: TORQUE_ENABLE_def)
  show ?case
  proof (rule isr_ok [OF Cons.prems(1) fr Cons.prems(2,3)])
    fix k1 t1 tel cmd
    assume a: "Kernel_isr k f t = Some (k1, t1, tel, cmd)" "kernel_inv k1" "length t1 = TABLE_SIZE"
      "\<forall>i < TABLE_SIZE. i \<notin> kernel_owned \<longrightarrow> t1 ! i = t ! i" "enum_ok control_map t1" "t ! 0x180 = 0 \<longrightarrow> cmd = MotorCmd_Disabled"
    have "t1 ! unat TORQUE_ENABLE = 0" using a(4) Cons.prems(4) by (simp add: TORQUE_ENABLE_def kernel_owned_def TABLE_SIZE_def)
    then have "\<exists>k' t'. isr_run k1 t1 fs = Some (k', t', replicate (length fs) MotorCmd_Disabled)"
      using Cons.IH [OF a(2,5,3)] Cons.prems(5) by simp
    then show ?case using a(1,6) z by auto
  qed
qed simp



lemma torque_write_staged:
  assumes "enum_inv env sv" "sv_pending sv = None" "FrameBytes_bytes data = [b]" "b \<in> {0, 1}" "staged_rel (sv_staged sv) ws" "log_push ws TORQUE_ENABLE [b] \<noteq> None"
  shows "\<exists>sv'. dispatch env (Request_Write TORQUE_ENABLE data hold) mr sv = Some (sv', Dispatched_Pending)"
proof -
  obtain h tq where d: "FrameBytes_segments data = (h, tq)" "h @ tq = [b]"
    using assms(3) by (simp add: FrameBytes_segments_def FrameBytes_bytes_def)
  have e: "heapless_ok (env_hv env)" "env_map env = control_map" "length (sv_table sv) = TABLE_SIZE"
    using assms(1) by (simp_all add: enum_inv_def env_ok_def servo_ok_def)
  have "validate control_map (sv_table sv) TORQUE_ENABLE h tq = Some (Inr ())"
    using validate_spec [of "sv_table sv" control_map h tq TORQUE_ENABLE] torque_write_ok [OF e(3) assms(4)] e(3) control_map_facts d(2) by simp
  moreover obtain s' where "StagedWrites_push_split (env_hv env) (sv_staged sv) TORQUE_ENABLE h tq = (s', Inr ())"
    using staged_push [OF e(1) assms(5), of TORQUE_ENABLE h tq] assms(6) d(2) by (auto split: option.splits)
  ultimately show ?thesis
    using assms(2) e d by (simp add: dispatch_def dispatch_match_def revert_dangling_def Dispatcher_write_def RegisterFile_stage_split_def Let_def)
qed


text \<open>A servo with no store, for the witnesses.\<close>

definition demo_sys_env :: "ConfigStore Env" where
  "demo_sys_env = \<lparr>env_hv = Heapless_list, env_map = control_map, env_uid = replicate UID_LEN 0, env_store = None\<rparr>"

lemma demo_sys: "sys_env_ok demo_sys_env demo_timing"
  using heapless_list_ok kernel_demo_ok(1) by (simp add: sys_env_ok_def demo_sys_env_def)

lemma demo_boot: "\<exists>t cs'. sys_reach demo_sys_env demo_timing \<lparr>sy_servo = Session_new t cs', sy_kernel = Kernel_with_tel demo_timing\<rparr>"
proof -
  obtain cs' t where "bringup (rm_ALLOWED_RULES control_map) \<lparr>cd_pos_min_phys_counts = 100, cd_pos_max_phys_counts = 4000, cd_id = 1,
      cd_baud_idx = 0, cd_response_deadline_us = 500\<rparr> 1 2 (rg_sense demo_regs) 100 blank_store = Some (cs', t)" by (rule bringup_ok)
  then have "bringup (rm_ALLOWED_RULES (env_map demo_sys_env)) \<lparr>cd_pos_min_phys_counts = 100, cd_pos_max_phys_counts = 4000, cd_id = 1,
      cd_baud_idx = 0, cd_response_deadline_us = 500\<rparr> 1 2 (rg_sense demo_regs) 100 blank_store = Some (cs', t)"
    by (simp add: demo_sys_env_def)
  from sys_reach.power_on [OF this] show ?thesis by blast
qed

theorem system_never_stuck_witness:
  "\<exists>s :: System. dispatch demo_sys_env Request_Ping True (sy_servo s) \<noteq> None
    \<and> (\<exists>k t tel cmd. Kernel_isr (sy_kernel s) demo_frame (sv_table (sy_servo s)) = Some (k, t, tel, cmd))"
proof -
  obtain s where s: "sys_reach demo_sys_env demo_timing s" using demo_boot by blast
  have "frame_ok demo_frame" "req_ok Request_Ping" using kernel_demo_ok(2) by (simp_all add: any_input_def req_ok_def)
  then have "dispatch demo_sys_env Request_Ping True (sy_servo s) \<noteq> None
      \<and> (\<exists>k t tel cmd. Kernel_isr (sy_kernel s) demo_frame (sv_table (sy_servo s)) = Some (k, t, tel, cmd))"
    using system_never_stuck [OF demo_sys s] by blast
  then show ?thesis by (rule exI)
qed


end
