(* ===== verification/Spec2Isabelle.thy ===== *)
theory Spec2Isabelle
  imports Wire Crc Bytes Frames Group Build Reply Stage Table Dispatch Spine Persist Decode Chain Framer Signed Trim Clock Tx Bus BusSafe Verdict
    Fixed Estim Loops Traj Regions Kernel KernelStep KernelSafe Derive TableMap System
begin

text \<open>
  OpenServoCore firmware: a verification library for the host-to-servo protocol stack, the control table and its
  persistence.  (Header completed below as components are added.)
\<close>

section \<open>SAVE, end to end\<close>

lemma nth_overlay3:
  assumes "length t = TABLE_SIZE" "length u = TABLE_SIZE" "i < TABLE_SIZE"
  shows "overlay (overlay (overlay u 16 (drop 16 (take 128 t))) 640 (take 64 (drop 640 t))) 128 (take 256 (drop 128 t)) ! i
    = (if 16 \<le> i \<and> i < 384 \<or> 640 \<le> i \<and> i < 704 then t ! i else u ! i)"
  using assms by (auto simp: overlay_def TABLE_SIZE_def nth_append)

lemma table_config_ok:
  assumes "length t = TABLE_SIZE"
    "\<And>r. r \<in> set rules \<Longrightarrow> unat (ar_addr r) < TABLE_SIZE \<Longrightarrow> t ! unat (ar_addr r) \<in> set (ar_allowed r)"
  shows "config_ok rules (take 128 t, take 64 (drop 640 t))" "calib_ok rules (take 256 (drop 128 t))"
proof -
  have u: "unat (a - 640) = unat a - 640" if "640 \<le> unat a" for a :: u16
    using that unat_sub [of 640 a] by (simp add: word_le_nat_alt)
  have v: "unat (a - 128) = unat a - 128" if "128 \<le> unat a" for a :: u16
    using that unat_sub [of 128 a] by (simp add: word_le_nat_alt)
  have t: "t ! unat (ar_addr r) \<in> set (ar_allowed r)" if "r \<in> set rules" "unat (ar_addr r) < 1024" for r
    using assms(2) that by (simp add: TABLE_SIZE_def)
  show "config_ok rules (take 128 t, take 64 (drop 640 t))"
    using assms(1) by (auto simp: config_ok_def persist_lens TABLE_SIZE_def Image_fields_allowed_def Image_persisted_byte_def in_region_def
        CONFIG_BASE_ADDR_def CONFIG_REGION_SIZE_def PROFILE_BASE_ADDR_def PROFILE_REGION_SIZE_def list_all_iff u t
        word_le_nat_alt word_less_nat_alt)
  show "calib_ok rules (take 256 (drop 128 t))"
    using assms(1) by (auto simp: calib_ok_def persist_lens TABLE_SIZE_def CalibImage_fields_allowed_def CalibImage_persisted_byte_def in_region_def
        CALIB_BASE_ADDR_def CALIB_REGION_SIZE_def list_all_iff v t word_le_nat_alt word_less_nat_alt)
qed

text \<open>Property C4: an \<open>Ok\<close> answer to SAVE means durable, from the instruction to the next boot.  When the dispatcher of a
  servo whose store is the flash store answers \<open>Ok\<close>, booting from the flash it left overlays the
  config (behind the identity front), calib and profile bytes of the live table onto the board
  defaults and changes nothing else.\<close>

theorem save_ack_durable:
  assumes "env_ok env" "servo_ok sv" "sv_pending sv = None"
    and "env_store env = Some \<lparr>store_save = ConfigStore_save hal, store_wipe = ConfigStore_wipe hal\<rparr>"
    and "flash_local hal" "store_inv (rm_ALLOWED_RULES (env_map env)) (sv_flash sv)"
    and "\<And>r. r \<in> set (rm_ALLOWED_RULES (env_map env)) \<Longrightarrow> unat (ar_addr r) < TABLE_SIZE \<Longrightarrow>
           sv_table sv ! unat (ar_addr r) \<in> set (ar_allowed r)"
    and "dispatch env (Request_Mgmt MgmtOp_Save args) True sv = Some (sv', d)"
    and "last (sv_reply sv') = send_status ResultCode_Ok alert []"
    and "length defaults = TABLE_SIZE"
  shows "\<exists>t. ConfigStore_boot_load (rm_ALLOWED_RULES (env_map env)) (sv_flash sv') defaults = Some (sv_flash sv', t)
    \<and> (\<forall>i<TABLE_SIZE. t ! i = (if 16 \<le> i \<and> i < 384 \<or> 640 \<le> i \<and> i < 704 then sv_table sv ! i else defaults ! i))"
proof -
  define t where "t = sv_table sv"
  have l: "length t = TABLE_SIZE" using assms(2) by (simp add: servo_ok_def t_def)
  obtain fl ok where s: "ConfigStore_save hal (sv_flash sv) (take 128 t) (take 64 (drop 640 t)) (take 256 (drop 128 t)) = (fl, ok)"
    by fastforce
  have "\<not> tbl_torque_enable t \<and> ok \<and> sv_flash sv' = fl"
    using assms(8,9) save_eq [OF assms(1-3), of args] assms(4) s
    by (auto simp: t_def emit_def split: if_splits)
  then have b: "ConfigStore_save hal (sv_flash sv) (take 128 t) (take 64 (drop 640 t)) (take 256 (drop 128 t)) = (sv_flash sv', True)"
    using s by simp
  have "config_ok (rm_ALLOWED_RULES (env_map env)) (take 128 t, take 64 (drop 640 t))"
      "calib_ok (rm_ALLOWED_RULES (env_map env)) (take 256 (drop 128 t))"
    using table_config_ok [OF l] assms(7) by (auto simp: t_def)
  from save_boot [OF assms(5,6) this assms(10) b] nth_overlay3 [OF l assms(10)]
  show ?thesis by (auto simp: t_def)
qed

definition flash_env :: "ConfigStore Env" where
  "flash_env = \<lparr>env_hv = Heapless_list,
     env_map = \<lparr>rm_SIZE = 1024, rm_WRITABLE = replicate 32 0xFFFFFFFF, rm_SECTIONS = [], rm_CMP_RULES = [], rm_ALLOWED_RULES = []\<rparr>,
     env_uid = replicate 16 7,
     env_store = Some \<lparr>store_save = ConfigStore_save nor_flash, store_wipe = ConfigStore_wipe nor_flash\<rparr>\<rparr>"

definition flash_servo :: "ConfigStore Servo" where
  "flash_servo = Session_new (replicate 1024 0) blank_store"

lemma flash_ok: "env_ok flash_env" "servo_ok flash_servo" "sv_pending flash_servo = None"
  by (auto simp: env_ok_def flash_env_def heapless_list_ok map_ok_def TABLE_SIZE_def UID_LEN_def
      servo_ok_def flash_servo_def Session_new_def intro: staged_new)

theorem save_ack_durable_witness:
  "\<exists>sv' t. dispatch flash_env (Request_Mgmt MgmtOp_Save (FrameBytes_new [] [])) True flash_servo = Some (sv', Dispatched_Done)
     \<and> ConfigStore_boot_load [] (sv_flash sv') (replicate 1024 5) = Some (sv_flash sv', t) \<and> t ! 0 = 5 \<and> t ! 16 = 0"
proof -
  obtain fl where fl: "ConfigStore_save nor_flash blank_store (replicate 128 0) (replicate 64 0) (replicate 256 0) = (fl, True)"
    using nor_saves [of "replicate 128 0" "replicate 64 0" "replicate 256 0" blank_store]
    by (cases "ConfigStore_save nor_flash blank_store (replicate 128 0) (replicate 64 0) (replicate 256 0)") (simp add: persist_lens)
  define sv' where "sv' = emit (flash_servo\<lparr>sv_flash := fl, sv_table := tbl_set_u8 (replicate 1024 0) STATUS_FLAGS 0\<rparr>)
    [send_status ResultCode_Ok (Dispatcher_alert flash_servo) []]"
  have d: "dispatch flash_env (Request_Mgmt MgmtOp_Save (FrameBytes_new [] [])) True flash_servo = Some (sv', Dispatched_Done)"
    using save_eq [OF flash_ok, of "FrameBytes_new [] []"] fl
    by (simp add: sv'_def flash_env_def flash_servo_def Session_new_def tbl_torque_enable_def tbl_u8_def TORQUE_ENABLE_def STATUS_FLAGS_def)
  have "\<exists>t. ConfigStore_boot_load (rm_ALLOWED_RULES (env_map flash_env)) (sv_flash sv') (replicate 1024 5) = Some (sv_flash sv', t)
    \<and> (\<forall>i<TABLE_SIZE. t ! i = (if 16 \<le> i \<and> i < 384 \<or> 640 \<le> i \<and> i < 704 then sv_table flash_servo ! i else replicate 1024 5 ! i))"
    by (rule save_ack_durable [OF flash_ok, of nor_flash _ sv' Dispatched_Done "Dispatcher_alert flash_servo", OF _ nor_flash_local _ _ d])
      (simp_all add: flash_env_def flash_servo_def Session_new_def blank_store_inv sv'_def emit_def TABLE_SIZE_def)
  then obtain t where t: "ConfigStore_boot_load [] (sv_flash sv') (replicate 1024 5) = Some (sv_flash sv', t)"
      "\<forall>i<1024. t ! i = (if 16 \<le> i \<and> i < 384 \<or> 640 \<le> i \<and> i < 704 then sv_table flash_servo ! i else replicate 1024 5 ! i)"
    by (auto simp: flash_env_def TABLE_SIZE_def)
  have "t ! 0 = 5" "t ! 16 = 0" using t(2) by (simp_all add: flash_servo_def Session_new_def)
  with d t(1) show ?thesis by blast
qed

end
